(* ===== verification/Win32_Prelude.thy ===== *)
theory Win32_Prelude
  imports Main "HOL-Library.Word"
begin

text \<open>
  Prelude of the development: the types the components share and the effect type in which
  every program that calls the operating system is written.

  The operating system is not code of the repository, so it is a parameter of every definition
  that calls it: a function \<open>os\<close> that answers a call from the call itself and from the
  history of all earlier calls and answers.  A theorem that quantifies over \<open>os\<close> therefore
  speaks about every behaviour of the system, failures at any call included.  A computation
  takes \<open>os\<close>, the program's own state and the history, and returns its outcome, the new state
  and the longer history.
\<close>

section \<open>Machine types\<close>

type_synonym BYTE = "8 word"
type_synonym WORD = "16 word"
type_synonym DWORD = "32 word"
type_synonym ULONG = "32 word"
type_synonym LONG = "32 word"
type_synonym HRESULT = "32 word"
type_synonym HANDLE = "64 word"

text \<open>The constants of the Windows headers that every component uses.\<close>

definition InvalidHandleValue :: HANDLE where
  "InvalidHandleValue = - 1"

text \<open>An HRESULT is a signed 32-bit value and SUCCEEDED is \<open>hr >= 0\<close>: bit 31 clear.\<close>

definition SUCCEEDED :: "HRESULT \<Rightarrow> bool" where
  "SUCCEEDED hr \<longleftrightarrow> 0 \<le> sint hr"

abbreviation FAILED :: "HRESULT \<Rightarrow> bool" where
  "FAILED hr \<equiv> \<not> SUCCEEDED hr"

abbreviation (input) S_OK :: HRESULT where "S_OK \<equiv> 0"

lemma SUCCEEDED_S_OK [simp]: "SUCCEEDED S_OK"
  by (simp add: SUCCEEDED_def)

section \<open>Strings\<close>

text \<open>
  Wide strings are lists of UTF-16 code units; \<open>wstr\<close> is an \<open>L"..."\<close> literal without its terminator,
  \<open>cstr\<close> what a C function reads of a buffer, and \<open>wide_of\<close> the wide characters of a byte buffer.
\<close>

type_synonym WCHAR = "16 word"
type_synonym wstring = "WCHAR list"

definition wstr :: "string \<Rightarrow> wstring" where
  "wstr s = map of_char s"

definition cstr :: "wstring \<Rightarrow> wstring" where
  "cstr s = takeWhile (\<lambda>c. c \<noteq> 0) s"

text \<open>A C string out of a byte buffer.\<close>

definition str_of :: "BYTE list \<Rightarrow> string" where
  "str_of bytes = map (\<lambda>b. char_of (unat b)) (takeWhile (\<lambda>b. b \<noteq> 0) bytes)"

fun wide_of :: "BYTE list \<Rightarrow> wstring" where
  "wide_of (a # b # bs) = (ucast a + 256 * ucast b) # wide_of bs"
| "wide_of _ = []"

text \<open>A 32-bit integer in memory: four bytes, the lowest first.\<close>

definition bytes_of :: "DWORD \<Rightarrow> BYTE list" where
  "bytes_of w = [ucast w, ucast (drop_bit 8 w), ucast (drop_bit 16 w), ucast (drop_bit 24 w)]"

definition dword_of :: "BYTE list \<Rightarrow> DWORD" where
  "dword_of bs = foldr (\<lambda>b w. ucast b + 256 * w) bs 0"

lemma length_bytes_of [simp]: "length (bytes_of w) = 4"
  by (simp add: bytes_of_def)

lemma low_byte: "ucast (ucast w :: BYTE) + 256 * drop_bit 8 w = (w :: DWORD)"
proof -
  have "ucast (ucast w :: BYTE) = take_bit 8 w"
    by (rule bit_word_eqI) (auto simp: bit_simps)
  moreover have "take_bit 8 w + push_bit 8 (drop_bit 8 w) = w" using bits_ident[of 8 w] by (simp only: add.commute)
  ultimately show ?thesis by (simp add: push_bit_eq_mult mult.commute)
qed

lemma dword_of_bytes_of [simp]: "dword_of (bytes_of w) = w"
proof -
  have "drop_bit 32 w = 0" by (rule bit_word_eqI) (auto simp: bit_simps dest: bit_imp_le_length)
  then have "ucast (ucast (drop_bit 24 w) :: BYTE) = drop_bit 24 w" using low_byte[of "drop_bit 24 w"] by simp
  then show ?thesis
    using low_byte[of w] low_byte[of "drop_bit 8 w"] low_byte[of "drop_bit 16 w"] by (simp add: dword_of_def bytes_of_def)
qed

section \<open>Outcomes\<close>

text \<open>
  \<open>Val\<close> is a normal return, \<open>Exn\<close> a C++ exception in flight, \<open>Halted\<close> the end of the process
  with an exit code (\<open>ExitProcess\<close>, \<open>std::abort\<close>, a failed \<open>assert\<close>), and \<open>Fault\<close> undefined
  behaviour: an access out of bounds, a null or dangling dereference, an indeterminate value.
  \<open>Running\<close> is what a loop with a bound on its iterations gives when the bound is used up: the
  program has not ended yet.
\<close>

datatype ('e, 'a) outcome = Val 'a | Exn 'e | Halted DWORD | Fault | Running

primrec is_Val :: "('e, 'a) outcome \<Rightarrow> bool" where
  "is_Val (Val a) = True"
| "is_Val (Exn e) = False"
| "is_Val (Halted n) = False"
| "is_Val Fault = False"
| "is_Val Running = False"

lemma is_Val_iff: "is_Val oc \<longleftrightarrow> (\<exists>a. oc = Val a)"
  by (cases oc) auto

section \<open>Answers of the operating system\<close>

text \<open>
  The answer to a call: its return value, its scalar out-parameter, the bytes it wrote to the
  buffer it was given, and, for the few calls that have them, further scalars and buffers.  Calls
  that have fewer results leave the rest unread.
\<close>

record resp =
  rv :: "64 word"
  out :: "64 word"
  buf :: "BYTE list"
  outs :: "64 word list"
  rows :: "BYTE list list"

abbreviation (input) ok_resp :: resp where
  "ok_resp \<equiv> \<lparr>rv = 1, out = 0, buf = [], outs = [], rows = []\<rparr>"

abbreviation (input) fail_resp :: resp where
  "fail_resp \<equiv> \<lparr>rv = 0, out = 0, buf = [], outs = [], rows = []\<rparr>"

type_synonym 'c history = "('c \<times> resp) list"
type_synonym 'c os = "'c history \<Rightarrow> 'c \<Rightarrow> resp"
type_synonym ('s, 'c, 'e, 'a) io =
  "'c os \<Rightarrow> 's \<Rightarrow> 'c history \<Rightarrow> ('e, 'a) outcome \<times> 's \<times> 'c history"

section \<open>Computations\<close>

definition ret :: "'a \<Rightarrow> ('s, 'c, 'e, 'a) io" where
  "ret a = (\<lambda>os s h. (Val a, s, h))"

definition throw :: "'e \<Rightarrow> ('s, 'c, 'e, 'a) io" where
  "throw e = (\<lambda>os s h. (Exn e, s, h))"

definition halt :: "DWORD \<Rightarrow> ('s, 'c, 'e, 'a) io" where
  "halt n = (\<lambda>os s h. (Halted n, s, h))"

definition fault :: "('s, 'c, 'e, 'a) io" where
  "fault = (\<lambda>os s h. (Fault, s, h))"

definition running :: "('s, 'c, 'e, 'a) io" where
  "running = (\<lambda>os s h. (Running, s, h))"

definition call :: "'c \<Rightarrow> ('s, 'c, 'e, resp) io" where
  "call c = (\<lambda>os s h. (Val (os h c), s, h @ [(c, os h c)]))"

definition gets :: "('s \<Rightarrow> 'a) \<Rightarrow> ('s, 'c, 'e, 'a) io" where
  "gets f = (\<lambda>os s h. (Val (f s), s, h))"

definition modify :: "('s \<Rightarrow> 's) \<Rightarrow> ('s, 'c, 'e, unit) io" where
  "modify f = (\<lambda>os s h. (Val (), f s, h))"

definition bnd :: "('s, 'c, 'e, 'a) io \<Rightarrow> ('a \<Rightarrow> ('s, 'c, 'e, 'b) io) \<Rightarrow> ('s, 'c, 'e, 'b) io" where
  "bnd m f = (\<lambda>os s h. case m os s h of (oc, s', h') \<Rightarrow>
     (case oc of Val a \<Rightarrow> f a os s' h'
      | Exn e \<Rightarrow> (Exn e, s', h')
      | Halted n \<Rightarrow> (Halted n, s', h')
      | Fault \<Rightarrow> (Fault, s', h') | Running \<Rightarrow> (Running, s', h')))"

text \<open>\<open>andthen\<close> is the sequence of two statements.\<close>

definition andthen :: "('s, 'c, 'e, 'a) io \<Rightarrow> ('s, 'c, 'e, 'b) io \<Rightarrow> ('s, 'c, 'e, 'b) io" where
  "andthen m k = bnd m (\<lambda>_. k)"

definition do_call :: "'c \<Rightarrow> ('s, 'c, 'e, unit) io" where
  "do_call c = bnd (call c) (\<lambda>_. ret ())"

definition whenM :: "bool \<Rightarrow> ('s, 'c, 'e, unit) io \<Rightarrow> ('s, 'c, 'e, unit) io" where
  "whenM b m = (if b then m else ret ())"

text \<open>\<open>try\<close>/\<open>catch\<close>: only an exception in flight is caught, never a fault or the end of the process.\<close>

definition try_catch :: "('s, 'c, 'e, 'a) io \<Rightarrow> ('e \<Rightarrow> ('s, 'c, 'f, 'a) io) \<Rightarrow> ('s, 'c, 'f, 'a) io" where
  "try_catch m k = (\<lambda>os s h. case m os s h of (oc, s', h') \<Rightarrow>
     (case oc of Val a \<Rightarrow> (Val a, s', h')
      | Exn e \<Rightarrow> k e os s' h'
      | Halted n \<Rightarrow> (Halted n, s', h')
      | Fault \<Rightarrow> (Fault, s', h') | Running \<Rightarrow> (Running, s', h')))"

text \<open>
  A scope with a destructor: the clean-up runs when the scope is left by a return and when it
  is left by an exception, which it does not stop; it does not run when the process ends.  A
  destructor is \<open>noexcept\<close>: an exception that leaves it calls \<open>std::terminate\<close>, which aborts
  the process (exit code 3 in the Microsoft runtime).
\<close>

definition finally_do :: "('s, 'c, 'e, 'a) io \<Rightarrow> ('s, 'c, 'e, unit) io \<Rightarrow> ('s, 'c, 'e, 'a) io" where
  "finally_do m k = (\<lambda>os s h. case m os s h of (oc, s', h') \<Rightarrow>
     (case oc of Val a \<Rightarrow> (case k os s' h' of (oc', s'', h'') \<Rightarrow>
         (case oc' of Val u \<Rightarrow> (Val a, s'', h'')
          | Exn e \<Rightarrow> (Halted 3, s'', h'') | Halted n \<Rightarrow> (Halted n, s'', h'') | Fault \<Rightarrow> (Fault, s'', h'')
          | Running \<Rightarrow> (Running, s'', h'')))
      | Exn e \<Rightarrow> (case k os s' h' of (oc', s'', h'') \<Rightarrow>
         (case oc' of Val u \<Rightarrow> (Exn e, s'', h'')
          | Exn e' \<Rightarrow> (Halted 3, s'', h'') | Halted n \<Rightarrow> (Halted n, s'', h'') | Fault \<Rightarrow> (Fault, s'', h'')
          | Running \<Rightarrow> (Running, s'', h'')))
      | Halted n \<Rightarrow> (Halted n, s', h')
      | Fault \<Rightarrow> (Fault, s', h') | Running \<Rightarrow> (Running, s', h')))"

section \<open>Laws of computations\<close>

named_theorems io_simps \<open>evaluation of computations on the operating system, a state and a history\<close>

lemma ret_apply [io_simps]: "ret a os s h = (Val a, s, h)"
  by (simp add: ret_def)

lemma throw_apply [io_simps]: "throw e os s h = (Exn e, s, h)"
  by (simp add: throw_def)

lemma halt_apply [io_simps]: "halt n os s h = (Halted n, s, h)"
  by (simp add: halt_def)

lemma fault_apply [io_simps]: "fault os s h = (Fault, s, h)"
  by (simp add: fault_def)

lemma running_apply [io_simps]: "running os s h = (Running, s, h)"
  by (simp add: running_def)

lemma call_apply [io_simps]: "call c os s h = (Val (os h c), s, h @ [(c, os h c)])"
  by (simp add: call_def)

lemma gets_apply [io_simps]: "gets f os s h = (Val (f s), s, h)"
  by (simp add: gets_def)

lemma modify_apply [io_simps]: "modify f os s h = (Val (), f s, h)"
  by (simp add: modify_def)

lemma bnd_Val: "m os s h = (Val a, s', h') \<Longrightarrow> bnd m f os s h = f a os s' h'"
  by (simp add: bnd_def)

lemma bnd_Exn: "m os s h = (Exn e, s', h') \<Longrightarrow> bnd m f os s h = (Exn e, s', h')"
  by (simp add: bnd_def)

lemma bnd_Halted: "m os s h = (Halted n, s', h') \<Longrightarrow> bnd m f os s h = (Halted n, s', h')"
  by (simp add: bnd_def)

lemma bnd_Fault: "m os s h = (Fault, s', h') \<Longrightarrow> bnd m f os s h = (Fault, s', h')"
  by (simp add: bnd_def)

text \<open>The laws that let \<open>simp\<close> run a straight-line program to its end.\<close>

lemma bnd_ret [io_simps]: "bnd (ret a) f = f a"
  by (simp add: bnd_def ret_def)

lemma bnd_ret_eta [io_simps]: "bnd (\<lambda>os s h. (Val a, s, h)) f = f a"
  by (simp add: bnd_def)

lemma bnd_throw [io_simps]: "bnd (throw e) f = throw e"
  by (simp add: bnd_def throw_def)

lemma bnd_halt [io_simps]: "bnd (halt n) f = halt n"
  by (simp add: bnd_def halt_def)

lemma bnd_fault [io_simps]: "bnd fault f = fault"
  by (simp add: bnd_def fault_def)

lemma bnd_running [io_simps]: "bnd running f = running"
  by (simp add: bnd_def running_def)

lemma bnd_bnd [io_simps]: "bnd (bnd m f) g = bnd m (\<lambda>a. bnd (f a) g)"
  by (auto simp: bnd_def fun_eq_iff split: prod.split outcome.split)

lemma bnd_if [io_simps]: "bnd (if b then m else m') f = (if b then bnd m f else bnd m' f)"
  by simp

lemma bnd_call_apply [io_simps]: "bnd (call c) f os s h = f (os h c) os s (h @ [(c, os h c)])"
  by (simp add: bnd_def call_def)

lemma bnd_gets_apply [io_simps]: "bnd (gets g) f os s h = f (g s) os s h"
  by (simp add: bnd_def gets_def)

lemma bnd_modify_apply [io_simps]: "bnd (modify g) f os s h = f () os (g s) h"
  by (simp add: bnd_def modify_def)

lemma if_apply [io_simps]: "(if b then m else m') os s h = (if b then m os s h else m' os s h)"
  by simp

lemma try_catch_cases [io_simps]:
  "try_catch (ret a) k = ret a" "try_catch (throw e) k = k e"
  "try_catch (halt n) k = halt n" "try_catch fault k = fault"
  "try_catch running k = running"
  by (simp_all add: try_catch_def ret_def throw_def halt_def fault_def running_def)

declare andthen_def [io_simps] do_call_def [io_simps] whenM_def [io_simps]

lemma finally_do_Val:
  "m os s h = (Val a, s', h') \<Longrightarrow> k os s' h' = (Val u, s'', h'') \<Longrightarrow>
   finally_do m k os s h = (Val a, s'', h'')"
  by (simp add: finally_do_def)

lemma finally_do_Exn:
  "m os s h = (Exn e, s', h') \<Longrightarrow> k os s' h' = (Val u, s'', h'') \<Longrightarrow>
   finally_do m k os s h = (Exn e, s'', h'')"
  by (simp add: finally_do_def)

text \<open>The three projections of a run from the empty history.\<close>

definition outcome_of :: "('e, 'a) outcome \<times> 's \<times> 'c history \<Rightarrow> ('e, 'a) outcome" where
  "outcome_of r = fst r"

definition state_of :: "('e, 'a) outcome \<times> 's \<times> 'c history \<Rightarrow> 's" where
  "state_of r = fst (snd r)"

definition history_of :: "('e, 'a) outcome \<times> 's \<times> 'c history \<Rightarrow> 'c history" where
  "history_of r = snd (snd r)"

lemma projections [simp]:
  "outcome_of (oc, s, h) = oc" "state_of (oc, s, h) = s" "history_of (oc, s, h) = h"
  by (simp_all add: outcome_of_def state_of_def history_of_def)

lemma outcome_bnd_Fault: "outcome_of (m os s h) = Fault \<Longrightarrow> outcome_of (bnd m f os s h) = Fault"
  by (cases "m os s h") (simp add: bnd_def)

text \<open>The calls of a history, without the answers.\<close>

abbreviation calls :: "'c history \<Rightarrow> 'c list" where
  "calls h \<equiv> map fst h"

text \<open>A computation with no undefined behaviour, whatever the system answers.\<close>

definition no_fault :: "('s, 'c, 'e, 'a) io \<Rightarrow> bool" where
  "no_fault m \<longleftrightarrow> (\<forall>os s h. outcome_of (m os s h) \<noteq> Fault)"

named_theorems safe_intro \<open>introduction rules for no_fault\<close>

lemma no_faultD: "no_fault m \<Longrightarrow> m os s h = (oc, s', h') \<Longrightarrow> oc \<noteq> Fault"
  by (metis no_fault_def projections(1))

lemma no_fault_simps [simp, safe_intro]:
  "no_fault (ret a)" "no_fault (throw e)" "no_fault (halt n)" "no_fault (call c)" "no_fault (gets f)"
  "no_fault (modify g)" "no_fault running" "no_fault (do_call c)"
  by (simp_all add: no_fault_def io_simps)

lemma no_fault_bnd [safe_intro]: "no_fault m \<Longrightarrow> (\<And>a. no_fault (f a)) \<Longrightarrow> no_fault (bnd m f)"
  unfolding no_fault_def by (auto simp: bnd_def outcome_of_def split: prod.splits outcome.splits) (metis fst_conv)+

lemma no_fault_andthen [safe_intro]: "no_fault m \<Longrightarrow> no_fault k \<Longrightarrow> no_fault (andthen m k)"
  unfolding andthen_def by (rule no_fault_bnd)

lemma no_fault_whenM [safe_intro]: "(b \<Longrightarrow> no_fault m) \<Longrightarrow> no_fault (whenM b m)"
  by (simp add: whenM_def)

lemma no_fault_if [safe_intro]: "(b \<Longrightarrow> no_fault m) \<Longrightarrow> (\<not> b \<Longrightarrow> no_fault m') \<Longrightarrow> no_fault (if b then m else m')"
  by simp

lemma no_fault_prod [safe_intro]:
  "(\<And>a b. p = (a, b) \<Longrightarrow> no_fault (f a b)) \<Longrightarrow> no_fault (case p of (a, b) \<Rightarrow> f a b)"
  by (cases p) simp

lemma no_fault_option [safe_intro]:
  "(x = None \<Longrightarrow> no_fault m) \<Longrightarrow> (\<And>a. x = Some a \<Longrightarrow> no_fault (f a)) \<Longrightarrow>
   no_fault (case x of None \<Rightarrow> m | Some a \<Rightarrow> f a)"
  by (cases x) simp_all

lemma no_fault_Let [safe_intro]: "no_fault (f x) \<Longrightarrow> no_fault (Let x f)"
  by simp

lemma no_fault_try_catch [safe_intro]: "no_fault m \<Longrightarrow> (\<And>e. no_fault (k e)) \<Longrightarrow> no_fault (try_catch m k)"
  unfolding no_fault_def by (auto simp: try_catch_def outcome_of_def split: prod.splits outcome.splits) (metis fst_conv)+

lemma no_fault_finally [safe_intro]: "no_fault m \<Longrightarrow> no_fault k \<Longrightarrow> no_fault (finally_do m k)"
  unfolding no_fault_def by (auto simp: finally_do_def outcome_of_def split: prod.splits outcome.splits) (metis fst_conv)+

text \<open>A computation that throws no exception.\<close>

definition no_throw :: "('s, 'c, 'e, 'a) io \<Rightarrow> bool" where
  "no_throw m \<longleftrightarrow> (\<forall>os s h e. outcome_of (m os s h) \<noteq> Exn e)"

named_theorems no_throw_intro \<open>introduction rules for no_throw\<close>

lemma no_throwD: "no_throw m \<Longrightarrow> m os s h = (oc, s', h') \<Longrightarrow> oc \<noteq> Exn e"
  by (metis no_throw_def projections(1))

lemma no_throw_simps [simp, no_throw_intro]:
  "no_throw (ret a)" "no_throw fault" "no_throw (halt n)" "no_throw (call c)" "no_throw (gets f)"
  "no_throw (modify g)" "no_throw running" "no_throw (do_call c)"
  by (simp_all add: no_throw_def io_simps)

lemma no_throw_bnd [no_throw_intro]: "no_throw m \<Longrightarrow> (\<And>a. no_throw (f a)) \<Longrightarrow> no_throw (bnd m f)"
  unfolding no_throw_def by (auto simp: bnd_def outcome_of_def split: prod.splits outcome.splits; metis fst_conv)

lemma no_throw_andthen [no_throw_intro]: "no_throw m \<Longrightarrow> no_throw k \<Longrightarrow> no_throw (andthen m k)"
  unfolding andthen_def by (rule no_throw_bnd)

lemma no_throw_whenM [no_throw_intro]: "(b \<Longrightarrow> no_throw m) \<Longrightarrow> no_throw (whenM b m)"
  by (simp add: whenM_def)

lemma no_throw_if [no_throw_intro]: "(b \<Longrightarrow> no_throw m) \<Longrightarrow> (\<not> b \<Longrightarrow> no_throw m') \<Longrightarrow> no_throw (if b then m else m')"
  by simp

lemma no_throw_prod [no_throw_intro]:
  "(\<And>a b. p = (a, b) \<Longrightarrow> no_throw (f a b)) \<Longrightarrow> no_throw (case p of (a, b) \<Rightarrow> f a b)"
  by (cases p) simp

lemma no_throw_option [no_throw_intro]:
  "(x = None \<Longrightarrow> no_throw m) \<Longrightarrow> (\<And>a. x = Some a \<Longrightarrow> no_throw (f a)) \<Longrightarrow>
   no_throw (case x of None \<Rightarrow> m | Some a \<Rightarrow> f a)"
  by (cases x) simp_all

lemma no_throw_Let [no_throw_intro]: "no_throw (f x) \<Longrightarrow> no_throw (Let x f)"
  by simp

lemma no_throw_try_catch [no_throw_intro]: "(\<And>e. no_throw (k e)) \<Longrightarrow> no_throw (try_catch m k)"
  unfolding no_throw_def by (auto simp: try_catch_def outcome_of_def split: prod.splits outcome.splits; metis fst_conv)

lemma no_throw_finally [no_throw_intro]: "no_throw m \<Longrightarrow> no_throw (finally_do m k)"
  unfolding no_throw_def
  by (auto simp: finally_do_def outcome_of_def split: prod.splits outcome.splits; metis fst_conv)

text \<open>A computation that always ends by returning or throwing.\<close>

primrec regular_outcome :: "('e, 'a) outcome \<Rightarrow> bool" where
  "regular_outcome (Val a) = True"
| "regular_outcome (Exn e) = True"
| "regular_outcome (Halted n) = False"
| "regular_outcome Fault = False"
| "regular_outcome Running = False"

definition regular :: "('s, 'c, 'e, 'a) io \<Rightarrow> bool" where
  "regular m \<longleftrightarrow> (\<forall>os s h. regular_outcome (outcome_of (m os s h)))"

named_theorems regular_intro \<open>introduction rules for regular\<close>

lemma regularD: "regular m \<Longrightarrow> m os s h = (oc, s', h') \<Longrightarrow> regular_outcome oc"
  by (metis regular_def projections(1))

lemma regular_simps [simp, regular_intro]:
  "regular (ret a)" "regular (throw e)" "regular (call c)" "regular (gets f)" "regular (modify g)" "regular (do_call c)"
  by (simp_all add: regular_def io_simps)

lemma regular_bnd [regular_intro]:
  assumes m: "regular m" and f: "\<And>a. regular (f a)"
  shows "regular (bnd m f)"
  unfolding regular_def
proof (intro allI)
  fix os s h
  obtain oc s1 h1 where r: "m os s h = (oc, s1, h1)" by (cases "m os s h")
  show "regular_outcome (outcome_of (bnd m f os s h))"
    using regularD[OF m r] f by (cases oc) (simp_all add: bnd_def r regular_def)
qed

lemma regular_andthen [regular_intro]: "regular m \<Longrightarrow> regular k \<Longrightarrow> regular (andthen m k)"
  unfolding andthen_def by (rule regular_bnd)

lemma regular_whenM [regular_intro]: "(b \<Longrightarrow> regular m) \<Longrightarrow> regular (whenM b m)"
  by (simp add: whenM_def)

lemma regular_if [regular_intro]: "(b \<Longrightarrow> regular m) \<Longrightarrow> (\<not> b \<Longrightarrow> regular m') \<Longrightarrow> regular (if b then m else m')"
  by simp

lemma regular_prod [regular_intro]: "(\<And>a b. p = (a, b) \<Longrightarrow> regular (f a b)) \<Longrightarrow> regular (case p of (a, b) \<Rightarrow> f a b)"
  by (cases p) simp

lemma regular_option [regular_intro]:
  "(x = None \<Longrightarrow> regular m) \<Longrightarrow> (\<And>a. x = Some a \<Longrightarrow> regular (f a)) \<Longrightarrow>
   regular (case x of None \<Rightarrow> m | Some a \<Rightarrow> f a)"
  by (cases x) simp_all

lemma regular_Let [regular_intro]: "regular (f x) \<Longrightarrow> regular (Let x f)"
  by simp

lemma regular_try_catch [regular_intro]:
  assumes m: "regular m" and k: "\<And>e. regular (k e)"
  shows "regular (try_catch m k)"
  unfolding regular_def
proof (intro allI)
  fix os s h
  obtain oc s1 h1 where r: "m os s h = (oc, s1, h1)" by (cases "m os s h")
  show "regular_outcome (outcome_of (try_catch m k os s h))"
    using regularD[OF m r] k by (cases oc) (simp_all add: try_catch_def r regular_def)
qed

text \<open>A destructor that throws would end the process.\<close>

lemma regular_finally [regular_intro]:
  assumes m: "regular m" and k: "regular k" "no_throw k"
  shows "regular (finally_do m k)"
  unfolding regular_def
proof (intro allI)
  fix os s h
  obtain oc s1 h1 where r: "m os s h = (oc, s1, h1)" by (cases "m os s h")
  obtain oc2 s2 h2 where r2: "k os s1 h1 = (oc2, s2, h2)" by (cases "k os s1 h1")
  show "regular_outcome (outcome_of (finally_do m k os s h))"
    using regularD[OF m r] regularD[OF k(1) r2] no_throwD[OF k(2) r2]
    by (cases oc; cases oc2) (auto simp: finally_do_def r r2)
qed

text \<open>\<open>emits P m\<close>: all calls of \<open>m\<close> satisfy \<open>P\<close>.  \<open>silent m\<close>: \<open>m\<close> does not change the program's state.\<close>

definition emits :: "('c \<Rightarrow> bool) \<Rightarrow> ('s, 'c, 'e, 'a) io \<Rightarrow> bool" where
  "emits P m \<longleftrightarrow> (\<forall>os s h. \<exists>g. history_of (m os s h) = h @ g \<and> list_all (\<lambda>x. P (fst x)) g)"

definition silent :: "('s, 'c, 'e, 'a) io \<Rightarrow> bool" where
  "silent m \<longleftrightarrow> (\<forall>os s h. state_of (m os s h) = s)"

named_theorems emits_intro \<open>introduction rules for emits\<close>
named_theorems silent_intro \<open>introduction rules for silent\<close>

lemma emitsD:
  assumes "emits P m" "m os s h = (oc, s', h')"
  obtains g where "h' = h @ g" "list_all (\<lambda>x. P (fst x)) g"
  using assms unfolding emits_def by (metis projections(3))

lemma silentD: "silent m \<Longrightarrow> m os s h = (oc, s', h') \<Longrightarrow> s' = s"
  unfolding silent_def by (metis projections(2))

lemma emits_simps [simp, emits_intro]:
  "emits P (ret a)" "emits P (throw e)" "emits P (halt n)" "emits P fault" "emits P running" "emits P (gets f)"
  "emits P (modify g)"
  by (simp_all add: emits_def io_simps)

lemma emits_call [emits_intro]: "P c \<Longrightarrow> emits P (call c)"
  by (simp add: emits_def io_simps)

lemma emits_do_call [emits_intro]: "P c \<Longrightarrow> emits P (do_call c)"
  by (simp add: emits_def io_simps)

lemma emits_bnd [emits_intro]:
  assumes m: "emits P m" and f: "\<And>a. emits P (f a)"
  shows "emits P (bnd m f)"
  unfolding emits_def
proof (intro allI)
  fix os s h
  obtain oc s1 h1 where r: "m os s h = (oc, s1, h1)" by (cases "m os s h")
  obtain g where g: "h1 = h @ g" "list_all (\<lambda>x. P (fst x)) g" by (rule emitsD[OF m r])
  show "\<exists>g. history_of (bnd m f os s h) = h @ g \<and> list_all (\<lambda>x. P (fst x)) g"
  proof (cases oc)
    case (Val a)
    obtain oc2 s2 h2 where r2: "f a os s1 h1 = (oc2, s2, h2)" by (cases "f a os s1 h1")
    obtain g2 where "h2 = h1 @ g2" "list_all (\<lambda>x. P (fst x)) g2" by (rule emitsD[OF f r2])
    with g r r2 Val show ?thesis by (simp add: bnd_def)
  qed (use g r in \<open>simp_all add: bnd_def\<close>)
qed

lemma emits_andthen [emits_intro]: "emits P m \<Longrightarrow> emits P k \<Longrightarrow> emits P (andthen m k)"
  unfolding andthen_def by (rule emits_bnd)

lemma emits_whenM [emits_intro]: "(b \<Longrightarrow> emits P m) \<Longrightarrow> emits P (whenM b m)"
  by (simp add: whenM_def)

lemma emits_if [emits_intro]: "(b \<Longrightarrow> emits P m) \<Longrightarrow> (\<not> b \<Longrightarrow> emits P m') \<Longrightarrow> emits P (if b then m else m')"
  by simp

lemma emits_prod [emits_intro]: "(\<And>a b. p = (a, b) \<Longrightarrow> emits P (f a b)) \<Longrightarrow> emits P (case p of (a, b) \<Rightarrow> f a b)"
  by (cases p) simp

lemma emits_option [emits_intro]:
  "(x = None \<Longrightarrow> emits P m) \<Longrightarrow> (\<And>a. x = Some a \<Longrightarrow> emits P (f a)) \<Longrightarrow>
   emits P (case x of None \<Rightarrow> m | Some a \<Rightarrow> f a)"
  by (cases x) simp_all

lemma emits_Let [emits_intro]: "emits P (f x) \<Longrightarrow> emits P (Let x f)"
  by simp

lemma emits_try_catch [emits_intro]:
  assumes m: "emits P m" and k: "\<And>e. emits P (k e)"
  shows "emits P (try_catch m k)"
  unfolding emits_def
proof (intro allI)
  fix os s h
  obtain oc s1 h1 where r: "m os s h = (oc, s1, h1)" by (cases "m os s h")
  obtain g where g: "h1 = h @ g" "list_all (\<lambda>x. P (fst x)) g" by (rule emitsD[OF m r])
  show "\<exists>g. history_of (try_catch m k os s h) = h @ g \<and> list_all (\<lambda>x. P (fst x)) g"
  proof (cases oc)
    case (Exn e)
    obtain oc2 s2 h2 where r2: "k e os s1 h1 = (oc2, s2, h2)" by (cases "k e os s1 h1")
    obtain g2 where "h2 = h1 @ g2" "list_all (\<lambda>x. P (fst x)) g2" by (rule emitsD[OF k r2])
    with g r r2 Exn show ?thesis by (simp add: try_catch_def)
  qed (use g r in \<open>simp_all add: try_catch_def\<close>)
qed

lemma emits_finally [emits_intro]:
  assumes m: "emits P m" and k: "emits P k"
  shows "emits P (finally_do m k)"
  unfolding emits_def
proof (intro allI)
  fix os s h
  obtain oc s1 h1 where r: "m os s h = (oc, s1, h1)" by (cases "m os s h")
  obtain g where g: "h1 = h @ g" "list_all (\<lambda>x. P (fst x)) g" by (rule emitsD[OF m r])
  obtain oc2 s2 h2 where r2: "k os s1 h1 = (oc2, s2, h2)" by (cases "k os s1 h1")
  obtain g2 where "h2 = h1 @ g2" "list_all (\<lambda>x. P (fst x)) g2" by (rule emitsD[OF k r2])
  with g r r2 show "\<exists>g. history_of (finally_do m k os s h) = h @ g \<and> list_all (\<lambda>x. P (fst x)) g"
    by (cases oc; cases oc2) (simp_all add: finally_do_def)
qed

lemma silent_simps [simp, silent_intro]:
  "silent (ret a)" "silent (throw e)" "silent (halt n)" "silent fault" "silent running" "silent (gets f)"
  "silent (call c)" "silent (do_call c)"
  by (simp_all add: silent_def io_simps)

lemma silent_bnd [silent_intro]:
  assumes m: "silent m" and f: "\<And>a. silent (f a)"
  shows "silent (bnd m f)"
  unfolding silent_def
proof (intro allI)
  fix os s h
  obtain oc s1 h1 where r: "m os s h = (oc, s1, h1)" by (cases "m os s h")
  show "state_of (bnd m f os s h) = s"
    using silentD[OF m r] f by (cases oc) (simp_all add: bnd_def r silent_def)
qed

lemma silent_andthen [silent_intro]: "silent m \<Longrightarrow> silent k \<Longrightarrow> silent (andthen m k)"
  unfolding andthen_def by (rule silent_bnd)

lemma silent_whenM [silent_intro]: "(b \<Longrightarrow> silent m) \<Longrightarrow> silent (whenM b m)"
  by (simp add: whenM_def)

lemma silent_if [silent_intro]: "(b \<Longrightarrow> silent m) \<Longrightarrow> (\<not> b \<Longrightarrow> silent m') \<Longrightarrow> silent (if b then m else m')"
  by simp

lemma silent_prod [silent_intro]: "(\<And>a b. p = (a, b) \<Longrightarrow> silent (f a b)) \<Longrightarrow> silent (case p of (a, b) \<Rightarrow> f a b)"
  by (cases p) simp

lemma silent_option [silent_intro]:
  "(x = None \<Longrightarrow> silent m) \<Longrightarrow> (\<And>a. x = Some a \<Longrightarrow> silent (f a)) \<Longrightarrow>
   silent (case x of None \<Rightarrow> m | Some a \<Rightarrow> f a)"
  by (cases x) simp_all

lemma silent_Let [silent_intro]: "silent (f x) \<Longrightarrow> silent (Let x f)"
  by simp

lemma silent_try_catch [silent_intro]:
  assumes m: "silent m" and k: "\<And>e. silent (k e)"
  shows "silent (try_catch m k)"
  unfolding silent_def
proof (intro allI)
  fix os s h
  obtain oc s1 h1 where r: "m os s h = (oc, s1, h1)" by (cases "m os s h")
  show "state_of (try_catch m k os s h) = s"
    using silentD[OF m r] k by (cases oc) (simp_all add: try_catch_def r silent_def)
qed

lemma silent_finally [silent_intro]:
  assumes m: "silent m" and k: "silent k"
  shows "silent (finally_do m k)"
  unfolding silent_def
proof (intro allI)
  fix os s h
  obtain oc s1 h1 where r: "m os s h = (oc, s1, h1)" by (cases "m os s h")
  obtain oc2 s2 h2 where r2: "k os s1 h1 = (oc2, s2, h2)" by (cases "k os s1 h1")
  show "state_of (finally_do m k os s h) = s"
    using silentD[OF m r] silentD[OF k r2] r r2 by (cases oc; cases oc2) (simp_all add: finally_do_def)
qed

text \<open>The result of a call as a 32-bit signed number, and as a status.\<close>

definition int_of :: "resp \<Rightarrow> int" where
  "int_of r = sint (ucast (rv r) :: DWORD)"

definition status_of :: "resp \<Rightarrow> DWORD" where
  "status_of r = ucast (rv r)"

section \<open>Generic lemmas\<close>

lemma unat_bound: "unat (w :: 'a::len word) < 2 ^ LENGTH('a)"
  by (rule unsigned_less)

lemma unat_less_imp_eq_of_nat: "n < 2 ^ LENGTH('a) \<Longrightarrow> unat (of_nat n :: 'a::len word) = n"
  by (simp add: unat_of_nat take_bit_nat_eq_self)

lemma ucast_as_of_nat: "(ucast (w :: 'a::len word) :: 'b::len word) = of_nat (unat w)"
  by (simp add: unsigned_def)

text \<open>Arithmetic on words without wrap-around, as arithmetic on \<open>nat\<close>.\<close>

lemma unat_add_no_wrap: "unat a + unat b < 2 ^ LENGTH('a) \<Longrightarrow> unat (a + b :: 'a::len word) = unat a + unat b"
  by (simp add: unat_add_lem)

lemma unat_sub_no_wrap: "unat b \<le> unat a \<Longrightarrow> unat (a - b :: 'a::len word) = unat a - unat b"
  by (rule unat_sub) (simp add: word_le_nat_alt)

lemma unat_add_1_no_wrap: "Suc (unat a) < 2 ^ LENGTH('a) \<Longrightarrow> unat (a + 1 :: 'a::len word) = Suc (unat a)"
  using unat_add_no_wrap[of a 1] by (cases "LENGTH('a) = 0") auto

lemma unat_sub_1_no_wrap: "a \<noteq> 0 \<Longrightarrow> unat (a - 1 :: 'a::len word) = unat a - 1"
  by (rule unat_minus_one)

lemma append_split_longer:
  "xs @ ys = ws @ zs \<Longrightarrow> length ws \<le> length xs \<Longrightarrow> xs = ws @ drop (length ws) xs \<and> drop (length ws) xs @ ys = zs"
  by (auto simp: append_eq_append_conv2)

lemma append_split_shorter:
  "xs @ ys = ws @ zs \<Longrightarrow> length xs < length ws \<Longrightarrow> ws = xs @ drop (length xs) ws \<and> drop (length xs) ws \<noteq> [] \<and> ys \<noteq> []"
  by (auto simp: append_eq_append_conv2)

lemma sint_small: "unat w < 2 ^ 31 \<Longrightarrow> sint (w :: DWORD) = int (unat w)"
proof -
  assume w: "unat w < 2 ^ 31"
  have "sint w = signed_take_bit 31 (int (unat w))" by (simp add: sint_uint)
  also have "\<dots> = int (unat w)" 
  proof -
    have "n < 2 ^ 31 \<Longrightarrow> signed_take_bit 31 (int n) = int n" for n by (intro signed_take_bit_int_eq_self) auto
    from this[OF w] show ?thesis .
  qed
  finally show ?thesis .
qed

text \<open>A copy into a buffer: \<open>xs\<close> over \<open>dst\<close> from position \<open>off\<close>.\<close>

definition overwrite :: "nat \<Rightarrow> 'a list \<Rightarrow> 'a list \<Rightarrow> 'a list" where
  "overwrite off xs dst = take off dst @ xs @ drop (off + length xs) dst"

lemma overwrite_append:
  "off + length xs + length ys \<le> length dst \<Longrightarrow>
   overwrite (off + length xs) ys (overwrite off xs dst) = overwrite off (xs @ ys) dst"
  by (simp add: overwrite_def ac_simps)

lemma overwrite_Nil [simp]: "overwrite off [] dst = dst"
  by (simp add: overwrite_def)

lemma length_overwrite [simp]: "off + length xs \<le> length dst \<Longrightarrow> length (overwrite off xs dst) = length dst"
  by (simp add: overwrite_def)

end
