(* ===== verification/Fifo.thy ===== *)
theory Fifo
  imports Main
begin

text \<open>
  The queue interface two components provide: the ring of ConditionVariables and the linked list
  of XSocket.  \<open>absq\<close> is the queue a state stands for, oldest element first.  A provider promises
  what one insertion and one removal do; the client lemma below, proved once, is about any
  sequence of them: what comes out is what went in, in order, nothing lost or repeated.
\<close>

datatype 'a qop = Enq 'a | Deq

fun run_ops :: "('a \<Rightarrow> 's \<Rightarrow> 's) \<Rightarrow> ('s \<Rightarrow> 'a \<times> 's) \<Rightarrow> 's \<Rightarrow> 'a qop list \<Rightarrow> 's \<times> 'a list" where
  "run_ops enq deq s [] = (s, [])"
| "run_ops enq deq s (Enq x # ops) = run_ops enq deq (enq x s) ops"
| "run_ops enq deq s (Deq # ops) =
     (case deq s of (y, s') \<Rightarrow> (case run_ops enq deq s' ops of (s'', ys) \<Rightarrow> (s'', y # ys)))"

text \<open>The elements inserted by a sequence, and whether the sequence suits a queue of a given length and capacity.\<close>

fun inserted :: "'a qop list \<Rightarrow> 'a list" where
  "inserted [] = []"
| "inserted (Enq x # ops) = x # inserted ops"
| "inserted (Deq # ops) = inserted ops"

fun suits :: "nat option \<Rightarrow> nat \<Rightarrow> 'a qop list \<Rightarrow> bool" where
  "suits cap n [] = True"
| "suits cap n (Enq x # ops) = ((case cap of None \<Rightarrow> True | Some c \<Rightarrow> n < c) \<and> suits cap (Suc n) ops)"
| "suits cap n (Deq # ops) = (0 < n \<and> suits cap (n - 1) ops)"

locale fifo =
  fixes inv :: "'s \<Rightarrow> bool"
    and absq :: "'s \<Rightarrow> 'a list"
    and cap :: "nat option"
    and enq :: "'a \<Rightarrow> 's \<Rightarrow> 's"
    and deq :: "'s \<Rightarrow> 'a \<times> 's"
  assumes enq_inv: "inv s \<Longrightarrow> (case cap of None \<Rightarrow> True | Some c \<Rightarrow> length (absq s) < c) \<Longrightarrow> inv (enq x s)"
    and absq_enq: "inv s \<Longrightarrow> (case cap of None \<Rightarrow> True | Some c \<Rightarrow> length (absq s) < c) \<Longrightarrow>
      absq (enq x s) = absq s @ [x]"
    and deq_inv: "inv s \<Longrightarrow> absq s \<noteq> [] \<Longrightarrow> inv (snd (deq s))"
    and absq_deq: "inv s \<Longrightarrow> absq s \<noteq> [] \<Longrightarrow> absq s = fst (deq s) # absq (snd (deq s))"
begin

lemma run_ops_fifo:
  "inv s \<Longrightarrow> suits cap (length (absq s)) ops \<Longrightarrow> run_ops enq deq s ops = (s', ys) \<Longrightarrow>
   inv s' \<and> absq s @ inserted ops = ys @ absq s'"
proof (induction ops arbitrary: s ys)
  case Nil
  then show ?case by simp
next
  case (Cons p ops)
  show ?case
  proof (cases p)
    case (Enq x)
    with Cons.prems have "inv (enq x s)" "absq (enq x s) = absq s @ [x]"
      by (auto intro: enq_inv absq_enq)
    with Cons.IH[of "enq x s" ys] Cons.prems Enq show ?thesis by simp
  next
    case Deq
    with Cons.prems have ne: "absq s \<noteq> []" by auto
    obtain y t where d: "deq s = (y, t)" by (cases "deq s")
    from absq_deq[OF Cons.prems(1) ne] deq_inv[OF Cons.prems(1) ne] d
    have t: "absq s = y # absq t" "inv t" by simp_all
    obtain zs where zs: "run_ops enq deq t ops = (s', zs)" "ys = y # zs"
      using Cons.prems(3) Deq d by (auto split: prod.splits)
    from Cons.IH[OF t(2) _ zs(1)] Cons.prems(2) Deq t(1) have "inv s' \<and> absq t @ inserted ops = zs @ absq s'"
      by simp
    with t zs Deq show ?thesis by simp
  qed
qed

lemma run_ops_from_empty:
  "inv s \<Longrightarrow> absq s = [] \<Longrightarrow> suits cap 0 ops \<Longrightarrow> run_ops enq deq s ops = (s', ys) \<Longrightarrow>
   inserted ops = ys @ absq s'"
  using run_ops_fifo[of s ops s' ys] by simp

end

end
