(* ===== verification/CondVar.thy ===== *)
theory CondVar
  imports Win32_Prelude Fifo
begin

text \<open>
  ConditionVariables/ConditionVariables.cpp: one producer and two consumers around a ring of ten
  items, a critical section \<open>BufferLock\<close> and two condition variables, and a \<open>main\<close> that asks for
  a stop, wakes everybody, joins the threads and prints the totals.

  Each thread is a program counter; a step of the system is one thread executing up to its next
  synchronisation call, in any interleaving.  The two synchronisation objects are not code of the
  repository: when \<open>EnterCriticalSection\<close> may return (\<open>enter\<close>) and whom
  \<open>WakeAllConditionVariable\<close> wakes (\<open>wake_all\<close>) are parameters, with the documented contract as
  named hypotheses.  A sleeper may also wake at any time, as the documentation of condition
  variables allows, so \<open>WakeConditionVariable\<close> needs no contract.
\<close>

section \<open>State\<close>

definition BUFFER_SIZE :: ULONG where
  "BUFFER_SIZE = 10"

datatype tid = MainT | Producer1 | Consumer1 | Consumer2

text \<open>The program counters; a producer past its \<open>InterlockedIncrement\<close> carries its item.\<close>

datatype pc =
    PTop | PEnter LONG | PLocked LONG | PWaiting LONG | PReacquire LONG | PInserted LONG | PWake
  | CTop | CLocked | CWaiting | CReacquire | CConsumed LONG | CWake
  | MReading | MLocked | MLeave | MWakeFull | MWakeEmpty | MJoin | MDone
  | Exited

record cv =
  Buffer :: "LONG list"
  LastItemProduced :: LONG
  QueueSize :: ULONG
  QueueStartOffset :: ULONG
  TotalItemsProduced :: ULONG
  TotalItemsConsumed :: ULONG
  StopRequested :: bool
  BufferLock :: "tid option"
  pcs :: "tid \<Rightarrow> pc"

text \<open>The globals are zero-initialised; \<open>main\<close> has started the three threads and waits for a key.\<close>

definition cv_init :: cv where
  "cv_init = \<lparr>Buffer = replicate 10 0, LastItemProduced = 0, QueueSize = 0, QueueStartOffset = 0,
     TotalItemsProduced = 0, TotalItemsConsumed = 0, StopRequested = False, BufferLock = None,
     pcs = (\<lambda>t. case t of MainT \<Rightarrow> MReading | Producer1 \<Rightarrow> PTop | Consumer1 \<Rightarrow> CTop | Consumer2 \<Rightarrow> CTop)\<rparr>"

section \<open>Steps\<close>

definition goto :: "tid \<Rightarrow> pc \<Rightarrow> cv \<Rightarrow> cv" where
  "goto t p s = s\<lparr>pcs := (pcs s)(t := p)\<rparr>"

definition acquire :: "(tid option \<Rightarrow> tid \<Rightarrow> bool) \<Rightarrow> tid \<Rightarrow> pc \<Rightarrow> cv \<Rightarrow> cv option" where
  "acquire enter t p s =
     (if enter (BufferLock s) t then Some ((goto t p s)\<lparr>BufferLock := Some t\<rparr>) else None)"

definition release :: "tid \<Rightarrow> pc \<Rightarrow> cv \<Rightarrow> cv" where
  "release t p s = (goto t p s)\<lparr>BufferLock := None\<rparr>"

text \<open>The insertion and the removal, the two bodies of the critical section.\<close>

definition insert_item :: "LONG \<Rightarrow> cv \<Rightarrow> cv" where
  "insert_item item s = s\<lparr>
     Buffer := (Buffer s)[unat ((QueueStartOffset s + QueueSize s) mod BUFFER_SIZE) := item],
     QueueSize := QueueSize s + 1,
     TotalItemsProduced := TotalItemsProduced s + 1\<rparr>"

definition remove_item :: "cv \<Rightarrow> LONG \<times> cv" where
  "remove_item s =
     (let item = Buffer s ! unat (QueueStartOffset s);
          off = QueueStartOffset s + 1
      in (item, s\<lparr>QueueSize := QueueSize s - 1,
                  QueueStartOffset := (if off = BUFFER_SIZE then 0 else off),
                  TotalItemsConsumed := TotalItemsConsumed s + 1\<rparr>))"

fun ProducerThreadProc :: "(tid option \<Rightarrow> tid \<Rightarrow> bool) \<Rightarrow> tid \<Rightarrow> pc \<Rightarrow> cv \<Rightarrow> cv option" where
  "ProducerThreadProc enter t PTop s =
     (let item = LastItemProduced s + 1
      in Some (goto t (PEnter item) (s\<lparr>LastItemProduced := item\<rparr>)))"
| "ProducerThreadProc enter t (PEnter item) s = acquire enter t (PLocked item) s"
| "ProducerThreadProc enter t (PReacquire item) s = acquire enter t (PLocked item) s"
| "ProducerThreadProc enter t (PLocked item) s =
     (if QueueSize s = BUFFER_SIZE \<and> \<not> StopRequested s then Some (release t (PWaiting item) s)
      else if StopRequested s then Some (release t Exited s)
      else Some (goto t (PInserted item) (insert_item item s)))"
| "ProducerThreadProc enter t (PInserted item) s = Some (release t PWake s)"
| "ProducerThreadProc enter t PWake s = Some (goto t PTop s)"
| "ProducerThreadProc enter t _ s = None"

fun ConsumerThreadProc :: "(tid option \<Rightarrow> tid \<Rightarrow> bool) \<Rightarrow> tid \<Rightarrow> pc \<Rightarrow> cv \<Rightarrow> cv option" where
  "ConsumerThreadProc enter t CTop s = acquire enter t CLocked s"
| "ConsumerThreadProc enter t CReacquire s = acquire enter t CLocked s"
| "ConsumerThreadProc enter t CLocked s =
     (if QueueSize s = 0 \<and> \<not> StopRequested s then Some (release t CWaiting s)
      else if StopRequested s \<and> QueueSize s = 0 then Some (release t Exited s)
      else (case remove_item s of (item, s') \<Rightarrow> Some (goto t (CConsumed item) s')))"
| "ConsumerThreadProc enter t (CConsumed item) s = Some (release t CWake s)"
| "ConsumerThreadProc enter t CWake s = Some (goto t CTop s)"
| "ConsumerThreadProc enter t _ s = None"

text \<open>A wake-up moves a sleeper to the re-acquisition of the lock inside \<open>SleepConditionVariableCS\<close>.\<close>

fun awake :: "pc \<Rightarrow> pc" where
  "awake (PWaiting item) = PReacquire item"
| "awake CWaiting = CReacquire"
| "awake p = p"

fun waits_not_full :: "pc \<Rightarrow> bool" where
  "waits_not_full (PWaiting item) = True"
| "waits_not_full _ = False"

fun waits_not_empty :: "pc \<Rightarrow> bool" where
  "waits_not_empty CWaiting = True"
| "waits_not_empty _ = False"

definition WakeAll :: "(tid \<Rightarrow> bool) \<Rightarrow> (pc \<Rightarrow> bool) \<Rightarrow> cv \<Rightarrow> cv" where
  "WakeAll wake_all waits s =
     s\<lparr>pcs := (\<lambda>t. if waits (pcs s t) \<and> wake_all t then awake (pcs s t) else pcs s t)\<rparr>"

text \<open>\<open>main\<close> after the threads were created; the three \<open>WaitForSingleObject\<close> return once all have exited.\<close>

fun main_proc ::
  "(tid option \<Rightarrow> tid \<Rightarrow> bool) \<Rightarrow> (tid \<Rightarrow> bool) \<Rightarrow> pc \<Rightarrow> cv \<Rightarrow> cv option" where
  "main_proc enter wake_all MReading s = acquire enter MainT MLocked s"
| "main_proc enter wake_all MLocked s = Some (goto MainT MLeave (s\<lparr>StopRequested := True\<rparr>))"
| "main_proc enter wake_all MLeave s = Some (release MainT MWakeFull s)"
| "main_proc enter wake_all MWakeFull s = Some (goto MainT MWakeEmpty (WakeAll wake_all waits_not_full s))"
| "main_proc enter wake_all MWakeEmpty s = Some (goto MainT MJoin (WakeAll wake_all waits_not_empty s))"
| "main_proc enter wake_all MJoin s =
     (if pcs s Producer1 = Exited \<and> pcs s Consumer1 = Exited \<and> pcs s Consumer2 = Exited
      then Some (goto MainT MDone s) else None)"
| "main_proc enter wake_all _ s = None"

text \<open>An action of the scheduler: a thread takes its next step, or a sleeper wakes up.\<close>

datatype action = Step tid | Wakeup tid

fun exec :: "(tid option \<Rightarrow> tid \<Rightarrow> bool) \<Rightarrow> (tid \<Rightarrow> bool) \<Rightarrow> cv \<Rightarrow> action \<Rightarrow> cv option" where
  "exec enter wake_all s (Step MainT) = main_proc enter wake_all (pcs s MainT) s"
| "exec enter wake_all s (Step Producer1) = ProducerThreadProc enter Producer1 (pcs s Producer1) s"
| "exec enter wake_all s (Step Consumer1) = ConsumerThreadProc enter Consumer1 (pcs s Consumer1) s"
| "exec enter wake_all s (Step Consumer2) = ConsumerThreadProc enter Consumer2 (pcs s Consumer2) s"
| "exec enter wake_all s (Wakeup t) =
     (if waits_not_full (pcs s t) \<or> waits_not_empty (pcs s t)
      then Some (goto t (awake (pcs s t)) s) else None)"

text \<open>A schedule: the actions are taken one after the other, those not enabled are refused.\<close>

fun run_schedule ::
  "(tid option \<Rightarrow> tid \<Rightarrow> bool) \<Rightarrow> (tid \<Rightarrow> bool) \<Rightarrow> cv \<Rightarrow> action list \<Rightarrow> cv option" where
  "run_schedule enter wake_all s [] = Some s"
| "run_schedule enter wake_all s (a # as) =
     (case exec enter wake_all s a of None \<Rightarrow> None | Some s' \<Rightarrow> run_schedule enter wake_all s' as)"

inductive reachable :: "(tid option \<Rightarrow> tid \<Rightarrow> bool) \<Rightarrow> (tid \<Rightarrow> bool) \<Rightarrow> cv \<Rightarrow> bool"
  for enter :: "tid option \<Rightarrow> tid \<Rightarrow> bool" and wake_all :: "tid \<Rightarrow> bool" where
  reach_init: "reachable enter wake_all cv_init"
| reach_step: "reachable enter wake_all s \<Longrightarrow> exec enter wake_all s a = Some s' \<Longrightarrow> reachable enter wake_all s'"

text \<open>The documented contracts of the two synchronisation calls.\<close>

definition cs_exclusive :: "(tid option \<Rightarrow> tid \<Rightarrow> bool) \<Rightarrow> bool" where
  "cs_exclusive enter \<longleftrightarrow> (\<forall>u t. \<not> enter (Some u) t)"

definition cs_grants :: "(tid option \<Rightarrow> tid \<Rightarrow> bool) \<Rightarrow> bool" where
  "cs_grants enter \<longleftrightarrow> (\<forall>t. enter None t)"

definition wakes_everyone :: "(tid \<Rightarrow> bool) \<Rightarrow> bool" where
  "wakes_everyone wake_all \<longleftrightarrow> (\<forall>t. wake_all t)"

lemma run_schedule_reachable:
  "run_schedule enter wake_all s as = Some s' \<Longrightarrow> reachable enter wake_all s \<Longrightarrow> reachable enter wake_all s'"
  by (induction as arbitrary: s) (auto split: option.splits intro: reach_step)

section \<open>The invariant\<close>

fun holds :: "pc \<Rightarrow> bool" where
  "holds (PLocked item) = True"
| "holds (PInserted item) = True"
| "holds CLocked = True"
| "holds (CConsumed item) = True"
| "holds MLocked = True"
| "holds MLeave = True"
| "holds _ = False"

text \<open>Which counters a thread's own procedure can be at.\<close>

fun ok_pc :: "tid \<Rightarrow> pc \<Rightarrow> bool" where
  "ok_pc MainT p = (p \<in> {MReading, MLocked, MLeave, MWakeFull, MWakeEmpty, MJoin, MDone})"
| "ok_pc Producer1 p = (case p of PTop \<Rightarrow> True | PEnter i \<Rightarrow> True | PLocked i \<Rightarrow> True | PWaiting i \<Rightarrow> True
     | PReacquire i \<Rightarrow> True | PInserted i \<Rightarrow> True | PWake \<Rightarrow> True | Exited \<Rightarrow> True | _ \<Rightarrow> False)"
| "ok_pc _ p = (case p of CTop \<Rightarrow> True | CLocked \<Rightarrow> True | CWaiting \<Rightarrow> True | CReacquire \<Rightarrow> True
     | CConsumed i \<Rightarrow> True | CWake \<Rightarrow> True | Exited \<Rightarrow> True | _ \<Rightarrow> False)"

definition ring_inv :: "cv \<Rightarrow> bool" where
  "ring_inv s \<longleftrightarrow> length (Buffer s) = 10 \<and> QueueSize s \<le> 10 \<and> QueueStartOffset s < 10
     \<and> TotalItemsProduced s = TotalItemsConsumed s + QueueSize s"

definition lock_inv :: "cv \<Rightarrow> bool" where
  "lock_inv s \<longleftrightarrow> (\<forall>t. holds (pcs s t) \<longleftrightarrow> BufferLock s = Some t)"

definition pc_inv :: "cv \<Rightarrow> bool" where
  "pc_inv s \<longleftrightarrow> (\<forall>t. ok_pc t (pcs s t))"

text \<open>How far \<open>main\<close> is with the shut-down.\<close>

fun stopping :: "pc \<Rightarrow> bool" where
  "stopping MLeave = True"
| "stopping MWakeFull = True"
| "stopping MWakeEmpty = True"
| "stopping MJoin = True"
| "stopping MDone = True"
| "stopping _ = False"

fun woke_full :: "pc \<Rightarrow> bool" where
  "woke_full MWakeEmpty = True"
| "woke_full MJoin = True"
| "woke_full MDone = True"
| "woke_full _ = False"

fun woke_empty :: "pc \<Rightarrow> bool" where
  "woke_empty MJoin = True"
| "woke_empty MDone = True"
| "woke_empty _ = False"

text \<open>How the shut-down proceeds: the flag, the sleepers and the threads that have left.\<close>

definition stop_inv :: "cv \<Rightarrow> bool" where
  "stop_inv s \<longleftrightarrow>
     (StopRequested s \<longleftrightarrow> stopping (pcs s MainT))
   \<and> (pcs s Producer1 = Exited \<or> pcs s Consumer1 = Exited \<or> pcs s Consumer2 = Exited \<longrightarrow> StopRequested s)
   \<and> (pcs s Consumer1 = Exited \<or> pcs s Consumer2 = Exited \<longrightarrow> QueueSize s = 0)
   \<and> (woke_full (pcs s MainT) \<longrightarrow> \<not> waits_not_full (pcs s Producer1))
   \<and> (woke_empty (pcs s MainT) \<longrightarrow>
        \<not> waits_not_empty (pcs s Consumer1) \<and> \<not> waits_not_empty (pcs s Consumer2))
   \<and> (pcs s MainT = MDone \<longrightarrow>
        pcs s Producer1 = Exited \<and> pcs s Consumer1 = Exited \<and> pcs s Consumer2 = Exited)"

lemma woke_stopping: "woke_full p \<Longrightarrow> stopping p" "woke_empty p \<Longrightarrow> woke_full p"
  by (cases p; simp)+

lemma awake_stage [simp]:
  "stopping (awake p) = stopping p" "woke_full (awake p) = woke_full p" "woke_empty (awake p) = woke_empty p"
  "awake p = Exited \<longleftrightarrow> p = Exited" "awake p = MDone \<longleftrightarrow> p = MDone"
  "\<not> waits_not_full (awake p)" "\<not> waits_not_empty (awake p)"
  by (cases p; simp)+

definition cv_inv :: "cv \<Rightarrow> bool" where
  "cv_inv s \<longleftrightarrow> ring_inv s \<and> lock_inv s \<and> pc_inv s \<and> stop_inv s"

lemmas cv_updates = goto_def release_def acquire_def insert_item_def remove_item_def WakeAll_def
  BUFFER_SIZE_def

text \<open>Every step of the system, with its guard and its effect.\<close>

lemma exec_elim:
  assumes "exec enter wake_all s a = Some s'"
  obtains
    (produce) "pcs s Producer1 = PTop"
      "s' = goto Producer1 (PEnter (LastItemProduced s + 1)) (s\<lparr>LastItemProduced := LastItemProduced s + 1\<rparr>)"
  | (p_enter) item where "pcs s Producer1 = PEnter item \<or> pcs s Producer1 = PReacquire item"
      "enter (BufferLock s) Producer1" "s' = (goto Producer1 (PLocked item) s)\<lparr>BufferLock := Some Producer1\<rparr>"
  | (p_sleep) item where "pcs s Producer1 = PLocked item" "QueueSize s = BUFFER_SIZE" "\<not> StopRequested s"
      "s' = release Producer1 (PWaiting item) s"
  | (p_exit) item where "pcs s Producer1 = PLocked item" "StopRequested s" "s' = release Producer1 Exited s"
  | (p_insert) item where "pcs s Producer1 = PLocked item" "QueueSize s \<noteq> BUFFER_SIZE" "\<not> StopRequested s"
      "s' = goto Producer1 (PInserted item) (insert_item item s)"
  | (p_leave) item where "pcs s Producer1 = PInserted item" "s' = release Producer1 PWake s"
  | (p_wake) "pcs s Producer1 = PWake" "s' = goto Producer1 PTop s"
  | (c_enter) t where "t = Consumer1 \<or> t = Consumer2" "pcs s t = CTop \<or> pcs s t = CReacquire"
      "enter (BufferLock s) t" "s' = (goto t CLocked s)\<lparr>BufferLock := Some t\<rparr>"
  | (c_sleep) t where "t = Consumer1 \<or> t = Consumer2" "pcs s t = CLocked" "QueueSize s = 0" "\<not> StopRequested s"
      "s' = release t CWaiting s"
  | (c_exit) t where "t = Consumer1 \<or> t = Consumer2" "pcs s t = CLocked" "QueueSize s = 0" "StopRequested s"
      "s' = release t Exited s"
  | (c_remove) t where "t = Consumer1 \<or> t = Consumer2" "pcs s t = CLocked" "QueueSize s \<noteq> 0"
      "s' = goto t (CConsumed (fst (remove_item s))) (snd (remove_item s))"
  | (c_leave) t item where "t = Consumer1 \<or> t = Consumer2" "pcs s t = CConsumed item" "s' = release t CWake s"
  | (c_wake) t where "t = Consumer1 \<or> t = Consumer2" "pcs s t = CWake" "s' = goto t CTop s"
  | (m_enter) "pcs s MainT = MReading" "enter (BufferLock s) MainT"
      "s' = (goto MainT MLocked s)\<lparr>BufferLock := Some MainT\<rparr>"
  | (m_stop) "pcs s MainT = MLocked" "s' = goto MainT MLeave (s\<lparr>StopRequested := True\<rparr>)"
  | (m_leave) "pcs s MainT = MLeave" "s' = release MainT MWakeFull s"
  | (m_wake_full) "pcs s MainT = MWakeFull" "s' = goto MainT MWakeEmpty (WakeAll wake_all waits_not_full s)"
  | (m_wake_empty) "pcs s MainT = MWakeEmpty" "s' = goto MainT MJoin (WakeAll wake_all waits_not_empty s)"
  | (m_join) "pcs s MainT = MJoin" "pcs s Producer1 = Exited" "pcs s Consumer1 = Exited"
      "pcs s Consumer2 = Exited" "s' = goto MainT MDone s"
  | (wake_p) t item where "pcs s t = PWaiting item" "s' = goto t (PReacquire item) s"
  | (wake_c) t where "pcs s t = CWaiting" "s' = goto t CReacquire s"
proof (cases a)
  case (Step t)
  show ?thesis
  proof (cases t)
    case MainT
    with Step assms have e: "main_proc enter wake_all (pcs s MainT) s = Some s'" by simp
    show ?thesis
    proof (cases "pcs s MainT")
      case MReading
      with e show ?thesis by (intro m_enter) (auto simp: acquire_def split: if_splits)
    next
      case MLocked
      with e show ?thesis by (intro m_stop) (auto simp: acquire_def split: if_splits)
    next
      case MLeave
      with e show ?thesis by (intro m_leave) (auto simp: acquire_def split: if_splits)
    next
      case MWakeFull
      with e show ?thesis by (intro m_wake_full) (auto simp: acquire_def split: if_splits)
    next
      case MWakeEmpty
      with e show ?thesis by (intro m_wake_empty) (auto simp: acquire_def split: if_splits)
    next
      case MJoin
      with e show ?thesis by (intro m_join) (auto simp: acquire_def split: if_splits)
    qed (use e in simp_all)
  next
    case Producer1
    with Step assms have e: "ProducerThreadProc enter Producer1 (pcs s Producer1) s = Some s'" by simp
    show ?thesis
    proof (cases "pcs s Producer1")
      case PTop
      with e show ?thesis by (intro produce) (auto simp: Let_def)
    next
      case (PEnter item)
      with e show ?thesis by (intro p_enter[of item]) (auto simp: acquire_def split: if_splits)
    next
      case (PReacquire item)
      with e show ?thesis by (intro p_enter[of item]) (auto simp: acquire_def split: if_splits)
    next
      case (PLocked item)
      consider "QueueSize s = BUFFER_SIZE" "\<not> StopRequested s" | "StopRequested s"
        | "QueueSize s \<noteq> BUFFER_SIZE" "\<not> StopRequested s" by blast
      then show ?thesis
      proof cases
        case 1
        with PLocked e show ?thesis by (intro p_sleep[of item]) auto
      next
        case 2
        with PLocked e show ?thesis by (intro p_exit[of item]) auto
      next
        case 3
        with PLocked e show ?thesis by (intro p_insert[of item]) auto
      qed
    next
      case (PInserted item)
      with e show ?thesis by (intro p_leave[of item]) auto
    next
      case PWake
      with e show ?thesis by (intro p_wake) auto
    qed (use e in simp_all)
  next
    case Consumer1
    with Step assms have e: "ConsumerThreadProc enter Consumer1 (pcs s Consumer1) s = Some s'" by simp
    show ?thesis
    proof (cases "pcs s Consumer1")
      case CTop
      with e show ?thesis by (intro c_enter[of Consumer1]) (auto simp: acquire_def split: if_splits)
    next
      case CReacquire
      with e show ?thesis by (intro c_enter[of Consumer1]) (auto simp: acquire_def split: if_splits)
    next
      case CLocked
      consider "QueueSize s = 0" "\<not> StopRequested s" | "QueueSize s = 0" "StopRequested s"
        | "QueueSize s \<noteq> 0" by blast
      then show ?thesis
      proof cases
        case 1
        with CLocked e show ?thesis by (intro c_sleep[of Consumer1]) auto
      next
        case 2
        with CLocked e show ?thesis by (intro c_exit[of Consumer1]) auto
      next
        case 3
        with CLocked e show ?thesis by (intro c_remove[of Consumer1]) (auto simp: split_beta)
      qed
    next
      case (CConsumed item)
      with e show ?thesis by (intro c_leave[of Consumer1 item]) auto
    next
      case CWake
      with e show ?thesis by (intro c_wake[of Consumer1]) auto
    qed (use e in simp_all)
  next
    case Consumer2
    with Step assms have e: "ConsumerThreadProc enter Consumer2 (pcs s Consumer2) s = Some s'" by simp
    show ?thesis
    proof (cases "pcs s Consumer2")
      case CTop
      with e show ?thesis by (intro c_enter[of Consumer2]) (auto simp: acquire_def split: if_splits)
    next
      case CReacquire
      with e show ?thesis by (intro c_enter[of Consumer2]) (auto simp: acquire_def split: if_splits)
    next
      case CLocked
      consider "QueueSize s = 0" "\<not> StopRequested s" | "QueueSize s = 0" "StopRequested s"
        | "QueueSize s \<noteq> 0" by blast
      then show ?thesis
      proof cases
        case 1
        with CLocked e show ?thesis by (intro c_sleep[of Consumer2]) auto
      next
        case 2
        with CLocked e show ?thesis by (intro c_exit[of Consumer2]) auto
      next
        case 3
        with CLocked e show ?thesis by (intro c_remove[of Consumer2]) (auto simp: split_beta)
      qed
    next
      case (CConsumed item)
      with e show ?thesis by (intro c_leave[of Consumer2 item]) auto
    next
      case CWake
      with e show ?thesis by (intro c_wake[of Consumer2]) auto
    qed (use e in simp_all)
  qed
next
  case (Wakeup t)
  show ?thesis
  proof (cases "pcs s t")
    case (PWaiting item)
    with Wakeup assms show ?thesis by (intro wake_p[of t item]) auto
  next
    case CWaiting
    with Wakeup assms show ?thesis by (intro wake_c[of t]) auto
  qed (use Wakeup assms in simp_all)
qed

lemma tid_all: "(\<forall>t. P t) \<longleftrightarrow> P MainT \<and> P Producer1 \<and> P Consumer1 \<and> P Consumer2"
  by (metis tid.exhaust)

lemma exec_ring_inv:
  assumes "exec enter wake_all s a = Some s'" and "ring_inv s"
  shows "ring_inv s'"
proof -
  have size: "QueueSize s \<noteq> 10 \<Longrightarrow> QueueSize s \<le> 10 \<Longrightarrow> QueueSize s + 1 \<le> 10" by unat_arith
  have dec: "QueueSize s \<noteq> 0 \<Longrightarrow> QueueSize s \<le> 10 \<Longrightarrow> QueueSize s - 1 \<le> 10" by unat_arith
  have off: "QueueStartOffset s + 1 \<noteq> 10 \<Longrightarrow> QueueStartOffset s < 10 \<Longrightarrow> QueueStartOffset s + 1 < 10"
    by unat_arith
  show ?thesis
    using assms(1)
    by (cases rule: exec_elim)
      (use assms(2) in \<open>auto simp: ring_inv_def cv_updates Let_def size dec off\<close>)
qed

lemma exec_pc_inv:
  assumes "exec enter wake_all s a = Some s'" and "pc_inv s"
  shows "pc_inv s'"
  using assms(1)
proof (cases rule: exec_elim)
  case (wake_p t item)
  with assms(2) show ?thesis by (cases t) (auto simp: pc_inv_def tid_all cv_updates)
next
  case (wake_c t)
  with assms(2) show ?thesis by (cases t) (auto simp: pc_inv_def tid_all cv_updates)
next
  case m_wake_full
  have aw: "ok_pc t p \<Longrightarrow> ok_pc t (awake p)" for t p by (cases t; cases p) auto
  from m_wake_full assms(2) show ?thesis by (auto simp: pc_inv_def cv_updates intro: aw)
next
  case m_wake_empty
  have aw: "ok_pc t p \<Longrightarrow> ok_pc t (awake p)" for t p by (cases t; cases p) auto
  from m_wake_empty assms(2) show ?thesis by (auto simp: pc_inv_def cv_updates intro: aw)
qed (use assms(2) in \<open>auto simp: pc_inv_def tid_all cv_updates Let_def\<close>)

lemma exec_lock_inv:
  assumes "exec enter wake_all s a = Some s'" and "lock_inv s" and "cs_exclusive enter"
  shows "lock_inv s'"
proof -
  have free: "enter (BufferLock s) t \<Longrightarrow> BufferLock s = None" for t
    using assms(3) by (cases "BufferLock s") (auto simp: cs_exclusive_def)
  have aw: "holds (awake p) \<longleftrightarrow> holds p" for p by (cases p) auto
  have h: "holds (pcs s t) \<longleftrightarrow> BufferLock s = Some t" for t
    using assms(2) by (simp add: lock_inv_def)
  show ?thesis
    unfolding lock_inv_def
  proof
    fix u
    show "holds (pcs s' u) \<longleftrightarrow> BufferLock s' = Some u"
      using assms(1)
      by (cases rule: exec_elim)
        (use h[of u] h[of Producer1] h[of Consumer1] h[of Consumer2] h[of MainT] in
          \<open>auto simp: cv_updates Let_def aw dest!: free\<close>)
  qed
qed

text \<open>Once the flag is set no thread goes to sleep any more, so the two broadcasts of \<open>main\<close> leave no sleeper.\<close>

lemma exec_stop_inv:
  assumes "exec enter wake_all s a = Some s'" and "stop_inv s" and "pc_inv s"
    and "wakes_everyone wake_all"
  shows "stop_inv s'"
proof -
  have P: "ok_pc t (pcs s t)" for t using assms(3) by (simp add: pc_inv_def)
  have D: "pcs s MainT = MDone \<longrightarrow> stopping (pcs s MainT) \<and> woke_full (pcs s MainT) \<and> woke_empty (pcs s MainT)"
    by simp
  note inv = assms(2) woke_stopping[of "pcs s MainT"] D
  show ?thesis
    using assms(1)
  proof (cases rule: exec_elim)
    case (wake_p t item)
    with P[of t] have "t = Producer1" by (cases t) auto
    with wake_p inv show ?thesis by (auto simp: stop_inv_def cv_updates)
  next
    case (wake_c t)
    with P[of t] have "t = Consumer1 \<or> t = Consumer2" by (cases t) auto
    with wake_c inv show ?thesis by (auto simp: stop_inv_def cv_updates)
  next
    case m_wake_full
    with inv assms(4) show ?thesis by (auto simp: stop_inv_def cv_updates wakes_everyone_def)
  next
    case m_wake_empty
    with inv assms(4) show ?thesis by (auto simp: stop_inv_def cv_updates wakes_everyone_def)
  qed (use inv in \<open>auto simp: stop_inv_def cv_updates Let_def\<close>)
qed

lemma reachable_inv:
  assumes "reachable enter wake_all s" and "cs_exclusive enter" and "wakes_everyone wake_all"
  shows "cv_inv s"
  using assms(1)
proof (induction rule: reachable.induct)
  case reach_init
  have "holds (pcs cv_init t) \<longleftrightarrow> BufferLock cv_init = Some t" "ok_pc t (pcs cv_init t)"
    "pcs cv_init t \<noteq> Exited" for t
    by (cases t; simp add: cv_init_def)+
  then show ?case
    by (auto simp: cv_inv_def ring_inv_def lock_inv_def pc_inv_def stop_inv_def cv_init_def)
next
  case (reach_step s a s')
  then show ?case
    using exec_ring_inv exec_lock_inv exec_pc_inv exec_stop_inv assms(2,3)
    unfolding cv_inv_def by blast
qed

section \<open>The ring is a FIFO queue\<close>

text \<open>The queue a ring stands for: \<open>QueueSize\<close> items from \<open>QueueStartOffset\<close> on, round the end.\<close>

definition ring_queue :: "cv \<Rightarrow> LONG list" where
  "ring_queue s = map (\<lambda>i. Buffer s ! ((unat (QueueStartOffset s) + i) mod 10)) [0..<unat (QueueSize s)]"

lemma length_ring_queue [simp]: "length (ring_queue s) = unat (QueueSize s)"
  by (simp add: ring_queue_def)

text \<open>The bounds of the invariant on \<open>nat\<close>.\<close>

lemma ring_inv_nat:
  assumes "ring_inv s"
  shows "unat (QueueSize s) \<le> 10" "unat (QueueStartOffset s) < 10" "length (Buffer s) = 10"
    "QueueSize s \<noteq> BUFFER_SIZE \<Longrightarrow> unat (QueueSize s) < 10"
    "QueueSize s \<noteq> 0 \<Longrightarrow> 0 < unat (QueueSize s)"
proof -
  show *: "unat (QueueSize s) \<le> 10" "unat (QueueStartOffset s) < 10" "length (Buffer s) = 10"
    using assms by (simp_all add: ring_inv_def word_le_nat_alt word_less_nat_alt)
  have "unat (QueueSize s) = 10 \<Longrightarrow> QueueSize s = BUFFER_SIZE"
    by (simp add: word_unat_eq_iff BUFFER_SIZE_def)
  with * show "QueueSize s \<noteq> BUFFER_SIZE \<Longrightarrow> unat (QueueSize s) < 10" by fastforce
  show "QueueSize s \<noteq> 0 \<Longrightarrow> 0 < unat (QueueSize s)" by (simp add: unat_gt_0)
qed

lemma ring_index:
  assumes "ring_inv s"
  shows "unat ((QueueStartOffset s + QueueSize s) mod BUFFER_SIZE)
    = (unat (QueueStartOffset s) + unat (QueueSize s)) mod 10"
  using ring_inv_nat(1,2)[OF assms] by (simp add: BUFFER_SIZE_def unat_mod unat_add_no_wrap)

lemma ring_slots_distinct:
  assumes "i < n" and "n < 10"
  shows "(off + n) mod 10 \<noteq> (off + i) mod (10::nat)"
proof
  assume "(off + n) mod 10 = (off + i) mod 10"
  then have "10 dvd (off + n) - (off + i)"
    using assms(1) mod_eq_dvd_iff_nat[of "off + i" "off + n" 10] by simp
  with assms show False by (auto dest: dvd_imp_le)
qed

lemma ring_queue_insert:
  assumes "ring_inv s" and "QueueSize s \<noteq> BUFFER_SIZE"
  shows "ring_queue (insert_item item s) = ring_queue s @ [item]"
proof -
  note b = ring_inv_nat[OF assms(1)]
  have n1: "unat (QueueSize s + 1) = Suc (unat (QueueSize s))"
    using b(1) by (intro unat_add_1_no_wrap) simp
  show ?thesis
    using b(3) b(4)[OF assms(2)]
    by (simp add: ring_queue_def insert_item_def n1 ring_index[OF assms(1)] nth_list_update ring_slots_distinct ring_slots_distinct[symmetric])
qed

lemma ring_queue_remove:
  assumes "ring_inv s" and "QueueSize s \<noteq> 0"
  shows "ring_queue s = fst (remove_item s) # ring_queue (snd (remove_item s))"
proof -
  note b = ring_inv_nat[OF assms(1)]
  let ?o = "unat (QueueStartOffset s)" and ?n = "unat (QueueSize s)"
  let ?off = "if QueueStartOffset s + 1 = BUFFER_SIZE then 0 else QueueStartOffset s + 1"
  have u: "unat (QueueStartOffset s + 1) = Suc ?o" using b(2) by (intro unat_add_1_no_wrap) simp
  have "QueueStartOffset s + 1 = BUFFER_SIZE \<longleftrightarrow> Suc ?o = 10"
    using u by (simp add: word_unat_eq_iff BUFFER_SIZE_def)
  with b(2) u have o1: "unat ?off = Suc ?o mod 10" by auto
  have step: "(unat ?off + i) mod 10 = (?o + Suc i) mod 10" for i
    unfolding o1 by (simp add: mod_add_left_eq)
  have "[0..<?n] = 0 # map Suc [0..<?n - 1]"
    using b(5)[OF assms(2)] by (metis One_nat_def Suc_pred map_Suc_upt upt_conv_Cons)
  then have "ring_queue s = Buffer s ! ?o # map (\<lambda>i. Buffer s ! ((?o + Suc i) mod 10)) [0..<?n - 1]"
    using b(2) by (simp add: ring_queue_def comp_def)
  then show ?thesis
    by (simp add: remove_item_def Let_def ring_queue_def unat_sub_1_no_wrap[OF assms(2)] step del: upt_Suc)
qed

lemma ring_inv_insert:
  assumes "ring_inv s" and "QueueSize s \<noteq> BUFFER_SIZE"
  shows "ring_inv (insert_item item s)"
proof -
  have "unat (QueueSize s) < 10" by (rule ring_inv_nat(4)[OF assms])
  then have "unat (QueueSize s + 1) \<le> 10" by (simp add: unat_add_1_no_wrap)
  then have "QueueSize s + 1 \<le> 10" by (simp add: word_le_nat_alt)
  with assms(1) show ?thesis by (simp add: ring_inv_def insert_item_def)
qed

lemma ring_inv_remove:
  assumes "ring_inv s" and "QueueSize s \<noteq> 0"
  shows "ring_inv (snd (remove_item s))"
proof -
  note b = ring_inv_nat[OF assms(1)]
  have "unat (QueueSize s - 1) \<le> 10" using b(1) assms(2) by (simp add: unat_sub_1_no_wrap)
  then have q: "QueueSize s - 1 \<le> 10" by (simp add: word_le_nat_alt)
  have u: "unat (QueueStartOffset s + 1) = Suc (unat (QueueStartOffset s))"
    using b(2) by (simp add: unat_add_1_no_wrap)
  then have "QueueStartOffset s + 1 \<noteq> 10 \<Longrightarrow> QueueStartOffset s + 1 < 10"
    using b(2) by (simp add: word_unat_eq_iff word_less_nat_alt)
  with q assms(1) show ?thesis by (simp add: ring_inv_def remove_item_def Let_def BUFFER_SIZE_def)
qed

lemma QueueSize_eq_length:
  "ring_inv s \<Longrightarrow> QueueSize s = BUFFER_SIZE \<longleftrightarrow> length (ring_queue s) = 10"
  "QueueSize s = 0 \<longleftrightarrow> ring_queue s = []"
  by (simp_all add: word_unat_eq_iff BUFFER_SIZE_def flip: length_0_conv)

interpretation ring: fifo ring_inv ring_queue "Some 10" insert_item remove_item
proof unfold_locales
  fix s and x :: LONG
  assume "ring_inv s" and r: "case Some 10 of None \<Rightarrow> True | Some c \<Rightarrow> length (ring_queue s) < c"
  moreover have "QueueSize s \<noteq> BUFFER_SIZE"
    using r by (auto simp: BUFFER_SIZE_def)
  ultimately show "ring_inv (insert_item x s)" "ring_queue (insert_item x s) = ring_queue s @ [x]"
    by (simp_all add: ring_inv_insert ring_queue_insert)
next
  fix s
  assume "ring_inv s" and "ring_queue s \<noteq> []"
  moreover from this have "QueueSize s \<noteq> 0" by (simp add: QueueSize_eq_length)
  ultimately show "ring_inv (snd (remove_item s))"
    "ring_queue s = fst (remove_item s) # ring_queue (snd (remove_item s))"
    by (simp_all add: ring_inv_remove ring_queue_remove)
qed

lemma ring_queue_unchanged [simp]:
  "ring_queue (goto t p s) = ring_queue s" "ring_queue (release t p s) = ring_queue s"
  "ring_queue (WakeAll w f s) = ring_queue s"
  "ring_queue (s\<lparr>BufferLock := l\<rparr>) = ring_queue s"
  "ring_queue (s\<lparr>LastItemProduced := i\<rparr>) = ring_queue s"
  "ring_queue (s\<lparr>StopRequested := b\<rparr>) = ring_queue s"
  by (simp_all add: ring_queue_def cv_updates)

section \<open>Shut-down\<close>

text \<open>
  Work left for a thread once the flag is set; a consumer that removes an item goes round again,
  which the eight units per queued item pay for.
\<close>

fun pc_rank :: "pc \<Rightarrow> nat" where
  "pc_rank (PInserted i) = 6"
| "pc_rank PWake = 5"
| "pc_rank PTop = 4"
| "pc_rank (PEnter i) = 3"
| "pc_rank (PReacquire i) = 3"
| "pc_rank (PWaiting i) = 4"
| "pc_rank (PLocked i) = 2"
| "pc_rank (CConsumed i) = 6"
| "pc_rank CWake = 5"
| "pc_rank CTop = 4"
| "pc_rank CWaiting = 4"
| "pc_rank CReacquire = 3"
| "pc_rank CLocked = 2"
| "pc_rank MJoin = 1"
| "pc_rank _ = 0"

definition work_left :: "cv \<Rightarrow> nat" where
  "work_left s = 8 * unat (QueueSize s)
     + pc_rank (pcs s MainT) + pc_rank (pcs s Producer1) + pc_rank (pcs s Consumer1) + pc_rank (pcs s Consumer2)"

lemma work_left_decreases:
  assumes "cv_inv s" and "pcs s MainT = MJoin" and "exec enter wake_all s a = Some s'"
  shows "work_left s' < work_left s"
proof -
  have stop: "StopRequested s" and P: "\<And>t. ok_pc t (pcs s t)"
    using assms(1,2) by (simp_all add: cv_inv_def stop_inv_def pc_inv_def)
  have size: "QueueSize s \<noteq> 0 \<Longrightarrow> 8 * unat (QueueSize s - 1) + 8 = 8 * unat (QueueSize s)"
    using unat_gt_0[of "QueueSize s"] by (simp add: unat_sub_1_no_wrap)
  show ?thesis
    using assms(3)
  proof (cases rule: exec_elim)
    case (wake_p t item)
    with P[of t] have "t = Producer1" by (cases t) auto
    with wake_p show ?thesis by (simp add: work_left_def cv_updates)
  next
    case (wake_c t)
    with P[of t] have "t = Consumer1 \<or> t = Consumer2" by (cases t) auto
    with wake_c show ?thesis by (auto simp: work_left_def cv_updates)
  next
    case (c_remove t)
    with size show ?thesis by (auto simp: work_left_def cv_updates Let_def)
  qed (use assms(2) stop in \<open>auto simp: work_left_def cv_updates\<close>)
qed

text \<open>The threads that still have to leave can always move: the owner of the lock, or everybody if it is free.\<close>

lemma join_progress:
  assumes "cv_inv s" and "pcs s MainT = MJoin" and "cs_grants enter"
  shows "\<exists>t. exec enter wake_all s (Step t) \<noteq> None"
proof -
  have P: "\<And>t. ok_pc t (pcs s t)" and W: "\<not> waits_not_full (pcs s Producer1)"
      "\<not> waits_not_empty (pcs s Consumer1)" "\<not> waits_not_empty (pcs s Consumer2)"
    and L: "\<And>t. holds (pcs s t) \<longleftrightarrow> BufferLock s = Some t" and S: "StopRequested s"
    using assms(1,2) by (simp_all add: cv_inv_def stop_inv_def pc_inv_def lock_inv_def)
  have owner: "exec enter wake_all s (Step t) \<noteq> None" if "holds (pcs s t)" for t
    using that P[of t] by (cases t; cases "pcs s t") (auto simp: split_beta)
  show ?thesis
  proof (cases "BufferLock s")
    case (Some t)
    with L owner show ?thesis by blast
  next
    case None
    with assms(3) have g: "enter (BufferLock s) t" for t by (simp add: cs_grants_def)
    have mv: "t \<noteq> MainT \<Longrightarrow> pcs s t \<noteq> Exited \<Longrightarrow> exec enter wake_all s (Step t) \<noteq> None" for t
      using P[of t] W g[of t] by (cases t; cases "pcs s t") (auto simp: acquire_def Let_def split_beta)
    show ?thesis
    proof (cases "pcs s Producer1 = Exited \<and> pcs s Consumer1 = Exited \<and> pcs s Consumer2 = Exited")
      case True
      with assms(2) have "exec enter wake_all s (Step MainT) \<noteq> None" by simp
      then show ?thesis by blast
    next
      case False
      with mv[of Producer1] mv[of Consumer1] mv[of Consumer2] show ?thesis by blast
    qed
  qed
qed

section \<open>Properties\<close>

text \<open>
  C4: in every reachable state the queue is within its ring of ten slots, the two 32-bit totals
  differ by exactly the queued items, and at most one thread is inside the critical section.
\<close>

theorem cv_bounds_and_mutual_exclusion:
  assumes "reachable enter wake_all s" and "cs_exclusive enter" and "wakes_everyone wake_all"
  shows "QueueSize s \<le> BUFFER_SIZE \<and> QueueStartOffset s < BUFFER_SIZE
    \<and> length (Buffer s) = unat BUFFER_SIZE
    \<and> TotalItemsProduced s = TotalItemsConsumed s + QueueSize s
    \<and> (\<forall>t u. holds (pcs s t) \<longrightarrow> holds (pcs s u) \<longrightarrow> t = u)"
  using reachable_inv[OF assms]
  by (auto simp: cv_inv_def ring_inv_def lock_inv_def BUFFER_SIZE_def)

text \<open>
  C1: every step of every interleaving treats the ring as a queue: it appends the producer's item
  while fewer than ten are queued, or hands the oldest item to a consumer, or leaves the queue alone.
\<close>

theorem cv_step_is_fifo:
  assumes "reachable enter wake_all s" and "cs_exclusive enter" and "wakes_everyone wake_all"
    and step: "exec enter wake_all s a = Some s'"
  shows "ring_queue s' = ring_queue s
    \<or> (\<exists>item. pcs s Producer1 = PLocked item \<and> length (ring_queue s) < 10
         \<and> ring_queue s' = ring_queue s @ [item])
    \<or> (\<exists>t item. (t = Consumer1 \<or> t = Consumer2) \<and> pcs s' t = CConsumed item
         \<and> ring_queue s = item # ring_queue s')"
proof -
  have r: "ring_inv s" using reachable_inv[OF assms(1-3)] by (simp add: cv_inv_def)
  from step show ?thesis
  proof (cases rule: exec_elim)
    case (p_insert item)
    with r have "length (ring_queue s) < 10" using ring_inv_nat(4) by simp
    with r p_insert show ?thesis by (simp add: ring_queue_insert)
  next
    case (c_remove t)
    then have "pcs s' t = CConsumed (fst (remove_item s))" by (simp add: goto_def)
    moreover have "ring_queue s = fst (remove_item s) # ring_queue s'"
      using r c_remove by (simp add: ring_queue_remove)
    ultimately show ?thesis using c_remove(1) by blast
  qed simp_all
qed

text \<open>
  C3: when \<open>main\<close> has joined the three threads and prints its totals, nothing is left in the ring and
  the two numbers it prints are equal.
\<close>

theorem cv_final_totals_agree:
  assumes "reachable enter wake_all s" and "cs_exclusive enter" and "wakes_everyone wake_all"
    and "pcs s MainT = MDone"
  shows "ring_queue s = [] \<and> TotalItemsProduced s = TotalItemsConsumed s"
proof -
  have "cv_inv s" by (rule reachable_inv[OF assms(1-3)])
  with assms(4) have "QueueSize s = 0" "TotalItemsProduced s = TotalItemsConsumed s + QueueSize s"
    by (simp_all add: cv_inv_def stop_inv_def ring_inv_def)
  then show ?thesis by (simp add: ring_queue_def)
qed

text \<open>
  C2: once \<open>main\<close> waits for its threads the program ends, however it is scheduled: some thread can
  always move, and every possible step uses up a bounded amount of work.
\<close>

theorem cv_shutdown_terminates:
  assumes "reachable enter wake_all s" and "cs_exclusive enter" and "cs_grants enter"
    and "wakes_everyone wake_all" and "pcs s MainT = MJoin"
  shows "(\<exists>t. exec enter wake_all s (Step t) \<noteq> None)
    \<and> (\<forall>a s'. exec enter wake_all s a = Some s' \<longrightarrow> work_left s' < work_left s)"
proof -
  have inv: "cv_inv s" by (rule reachable_inv[OF assms(1,2,4)])
  from join_progress[OF inv assms(5,3)] work_left_decreases[OF inv assms(5)] show ?thesis by blast
qed

text \<open>A lock and a broadcast that meet the contracts, and a schedule that runs the program to its end.\<close>

definition simple_enter :: "tid option \<Rightarrow> tid \<Rightarrow> bool" where
  "simple_enter owner t \<longleftrightarrow> owner = None"

definition simple_wake :: "tid \<Rightarrow> bool" where
  "simple_wake t \<longleftrightarrow> True"

lemma simple_contracts:
  "cs_exclusive simple_enter" "cs_grants simple_enter" "wakes_everyone simple_wake"
  by (simp_all add: cs_exclusive_def cs_grants_def wakes_everyone_def simple_enter_def simple_wake_def)

definition schedule_to_join :: "action list" where
  "schedule_to_join = replicate 4 (Step Producer1) @ replicate 5 (Step MainT)"

definition schedule_to_end :: "action list" where
  "schedule_to_end = schedule_to_join @ replicate 6 (Step Consumer1) @ replicate 2 (Step Consumer2)
     @ replicate 4 (Step Producer1) @ [Step MainT]"

lemma scheduled_reachable:
  "run_schedule simple_enter simple_wake cv_init as = Some s \<Longrightarrow> reachable simple_enter simple_wake s"
  using run_schedule_reachable reach_init by blast

text \<open>What a run shows of its last state, as a value that the kernel can compute.\<close>

definition summary :: "cv option \<Rightarrow> (pc \<times> pc \<times> ULONG \<times> ULONG \<times> ULONG) option" where
  "summary r = map_option (\<lambda>s. (pcs s MainT, pcs s Producer1, QueueSize s, TotalItemsProduced s,
     TotalItemsConsumed s)) r"

lemma join_run: "summary (run_schedule simple_enter simple_wake cv_init schedule_to_join)
    = Some (MJoin, PWake, 1, 1, 0)"
  by code_simp

lemma end_run: "summary (run_schedule simple_enter simple_wake cv_init schedule_to_end)
    = Some (MDone, Exited, 0, 1, 1)"
  by code_simp

lemma summary_Some: "summary r = Some (m, p, q, a, b) \<Longrightarrow> \<exists>s. r = Some s \<and> pcs s MainT = m \<and> pcs s Producer1 = p
    \<and> QueueSize s = q \<and> TotalItemsProduced s = a \<and> TotalItemsConsumed s = b"
  by (auto simp: summary_def)

theorem cv_bounds_witness:
  "\<exists>s. reachable simple_enter simple_wake s \<and> QueueSize s = 1 \<and> QueueSize s \<le> BUFFER_SIZE
    \<and> TotalItemsProduced s = TotalItemsConsumed s + QueueSize s"
  using summary_Some[OF join_run]
    cv_bounds_and_mutual_exclusion[OF scheduled_reachable simple_contracts(1,3), of schedule_to_join]
  by (auto dest: scheduled_reachable)

theorem cv_step_is_fifo_witness:
  "\<exists>s s'. reachable simple_enter simple_wake s \<and> exec simple_enter simple_wake s (Step MainT) = Some s'
     \<and> (ring_queue s' = ring_queue s
        \<or> (\<exists>item. pcs s Producer1 = PLocked item \<and> length (ring_queue s) < 10
             \<and> ring_queue s' = ring_queue s @ [item])
        \<or> (\<exists>t item. (t = Consumer1 \<or> t = Consumer2) \<and> pcs s' t = CConsumed item
             \<and> ring_queue s = item # ring_queue s'))"
proof -
  obtain s' where e: "exec simple_enter simple_wake cv_init (Step MainT) = Some s'"
    by (simp add: cv_init_def acquire_def simple_enter_def)
  show ?thesis
    using cv_step_is_fifo[OF reach_init simple_contracts(1,3) e] e reach_init by blast
qed

theorem cv_final_totals_witness:
  "\<exists>s. reachable simple_enter simple_wake s \<and> pcs s MainT = MDone \<and> TotalItemsProduced s = 1
    \<and> ring_queue s = [] \<and> TotalItemsProduced s = TotalItemsConsumed s"
proof -
  obtain s where s: "run_schedule simple_enter simple_wake cv_init schedule_to_end = Some s"
      "pcs s MainT = MDone" "TotalItemsProduced s = 1"
    using summary_Some[OF end_run] by blast
  from cv_final_totals_agree[OF scheduled_reachable[OF s(1)] simple_contracts(1,3) s(2)] s show ?thesis
    using scheduled_reachable by blast
qed

theorem cv_shutdown_terminates_witness:
  "\<exists>s. reachable simple_enter simple_wake s \<and> pcs s MainT = MJoin
    \<and> (\<exists>t. exec simple_enter simple_wake s (Step t) \<noteq> None)"
proof -
  obtain s where s: "run_schedule simple_enter simple_wake cv_init schedule_to_join = Some s"
      "pcs s MainT = MJoin"
    using summary_Some[OF join_run] by blast
  from cv_shutdown_terminates[OF scheduled_reachable[OF s(1)] simple_contracts s(2)] s show ?thesis
    using scheduled_reachable by blast
qed

end
