(* ===== verification/XList.thy ===== *)
theory XList
  imports Win32_Prelude Fifo "HOL-Library.Monad_Syntax"
begin

text \<open>
  The doubly linked list of XSocket (List.cpp, and its port in misc.ixx), on an explicit heap: a
  map from addresses to entries, address 0 the null pointer.  The links are those of the source;
  the rest of an entry (buffer pointer, sizes) is the payload.  A dereference of an address that
  holds no entry is \<open>None\<close>.  The list owns a sentinel entry, its head; an empty list is a head
  linked to itself.
\<close>

section \<open>Entries and the heap\<close>

record 'p lentry =
  forward :: nat
  backward :: nat
  payload :: 'p

type_synonym 'p ents = "nat \<Rightarrow> 'p lentry option"

text \<open>The two assignments the list makes through a pointer.\<close>

definition set_forward :: "nat \<Rightarrow> nat \<Rightarrow> 'p ents \<Rightarrow> 'p ents option" where
  "set_forward p q h = (case h p of None \<Rightarrow> None | Some e \<Rightarrow> Some (h(p \<mapsto> e\<lparr>forward := q\<rparr>)))"

definition set_backward :: "nat \<Rightarrow> nat \<Rightarrow> 'p ents \<Rightarrow> 'p ents option" where
  "set_backward p q h = (case h p of None \<Rightarrow> None | Some e \<Rightarrow> Some (h(p \<mapsto> e\<lparr>backward := q\<rparr>)))"

section \<open>Operations\<close>

text \<open>\<open>List::List\<close>: the head is linked to itself.\<close>

definition List_ctor :: "nat \<Rightarrow> 'p ents \<Rightarrow> 'p ents option" where
  "List_ctor hn h = do { h1 \<leftarrow> set_forward hn hn h; set_backward hn hn h1 }"

definition IsEmpty :: "nat \<Rightarrow> 'p ents \<Rightarrow> bool option" where
  "IsEmpty hn h = do { e \<leftarrow> h hn; Some (forward e = hn \<and> backward e = hn) }"

definition Peek :: "nat \<Rightarrow> 'p ents \<Rightarrow> nat option" where
  "Peek hn h = do { e \<leftarrow> h hn; Some (forward e) }"

definition AppendTail :: "nat \<Rightarrow> nat \<Rightarrow> 'p ents \<Rightarrow> 'p ents option" where
  "AppendTail hn entry h = do {
     e \<leftarrow> h hn;
     let tl = backward e;
     l \<leftarrow> h tl;
     let next = forward l;
     h1 \<leftarrow> set_forward tl entry h;
     h2 \<leftarrow> set_backward next entry h1;
     h3 \<leftarrow> set_forward entry next h2;
     set_backward entry tl h3 }"

text \<open>\<open>List::RemoveHead\<close> up to its \<open>delete\<close>: the entry that was unlinked, for the caller to delete.\<close>

definition RemoveHead_links :: "nat \<Rightarrow> 'p ents \<Rightarrow> (nat \<times> 'p ents) option" where
  "RemoveHead_links hn h = do {
     e \<leftarrow> h hn;
     let first = forward e;
     f \<leftarrow> h first;
     let previous = backward f;
     h1 \<leftarrow> set_forward previous (forward f) h;
     f1 \<leftarrow> h1 first;
     h2 \<leftarrow> set_backward (forward f1) (backward f1) h1;
     Some (first, h2) }"

section \<open>Representation\<close>

text \<open>
  \<open>links h x ps y\<close>: following \<open>forward\<close> from \<open>x\<close> meets \<open>ps\<close> and then \<open>y\<close>, and \<open>backward\<close> undoes each
  step.  \<open>dll h hn ps\<close>: the list with head \<open>hn\<close> has the entries \<open>ps\<close>, oldest first.
\<close>

definition linked :: "'p ents \<Rightarrow> nat \<Rightarrow> nat \<Rightarrow> bool" where
  "linked h x y \<longleftrightarrow> map_option forward (h x) = Some y \<and> map_option backward (h y) = Some x"

fun links :: "'p ents \<Rightarrow> nat \<Rightarrow> nat list \<Rightarrow> nat \<Rightarrow> bool" where
  "links h x [] y = linked h x y"
| "links h x (p # ps) y = (linked h x p \<and> links h p ps y)"

definition dll :: "'p ents \<Rightarrow> nat \<Rightarrow> nat list \<Rightarrow> bool" where
  "dll h hn ps \<longleftrightarrow> distinct (hn # ps) \<and> links h hn ps hn"

lemma links_append: "links h x (ps @ p # qs) y \<longleftrightarrow> links h x ps p \<and> links h p qs y"
  by (induction ps arbitrary: x) auto

lemma linked_alloc: "linked h x y \<Longrightarrow> h x \<noteq> None \<and> h y \<noteq> None"
  by (auto simp: linked_def)

lemma links_alloc: "links h x ps y \<Longrightarrow> p \<in> set (x # ps @ [y]) \<Longrightarrow> h p \<noteq> None"
  by (induction ps arbitrary: x) (auto dest: linked_alloc)

lemma links_last: "links h x ps y \<Longrightarrow> linked h (last (x # ps)) y"
  by (induction ps arbitrary: x) auto

text \<open>Two heaps that agree on the links of the entries concerned.\<close>

lemma links_cong:
  assumes "\<And>p. p \<in> set (x # ps) \<Longrightarrow> map_option forward (h' p) = map_option forward (h p)"
    and "\<And>p. p \<in> set (ps @ [y]) \<Longrightarrow> map_option backward (h' p) = map_option backward (h p)"
  shows "links h' x ps y = links h x ps y"
  using assms by (induction ps arbitrary: x) (auto simp: linked_def)

text \<open>What each operation does to an entry's links and payload, for every address.\<close>

definition fwd :: "'p ents \<Rightarrow> nat \<Rightarrow> nat option" where "fwd h p = map_option forward (h p)"
definition bwd :: "'p ents \<Rightarrow> nat \<Rightarrow> nat option" where "bwd h p = map_option backward (h p)"
definition pay :: "'p ents \<Rightarrow> nat \<Rightarrow> 'p option" where "pay h p = map_option payload (h p)"

named_theorems heap_simps \<open>links and payload after an assignment through a pointer\<close>

lemma set_forward_Some:
  assumes "h p \<noteq> None"
  obtains h' where "set_forward p q h = Some h'" "dom h' = dom h" "fwd h' = (fwd h)(p \<mapsto> q)" "bwd h' = bwd h" "pay h' = pay h"
  using assms
  by (intro that[of "h(p \<mapsto> the (h p)\<lparr>forward := q\<rparr>)"])
    (auto simp: set_forward_def fwd_def bwd_def pay_def fun_eq_iff)

lemma set_backward_Some:
  assumes "h p \<noteq> None"
  obtains h' where "set_backward p q h = Some h'" "dom h' = dom h" "fwd h' = fwd h" "bwd h' = (bwd h)(p \<mapsto> q)" "pay h' = pay h"
  using assms
  by (intro that[of "h(p \<mapsto> the (h p)\<lparr>backward := q\<rparr>)"])
    (auto simp: set_backward_def fwd_def bwd_def pay_def fun_eq_iff)

lemma linked_fb: "linked h x y \<longleftrightarrow> fwd h x = Some y \<and> bwd h y = Some x"
  by (simp add: linked_def fwd_def bwd_def)

lemma alloc_fwd: "h p \<noteq> None \<longleftrightarrow> fwd h p \<noteq> None"
  by (simp add: fwd_def)

lemma alloc_dom: "dom h' = dom h \<Longrightarrow> (h' p = None) = (h p = None)"
  by (metis domIff)

lemma links_cong_fb:
  assumes "\<And>p. p \<in> set (x # ps) \<Longrightarrow> fwd h' p = fwd h p" "\<And>p. p \<in> set (ps @ [y]) \<Longrightarrow> bwd h' p = bwd h p"
  shows "links h' x ps y = links h x ps y"
  using links_cong[of x ps h' h y] assms by (simp add: fwd_def bwd_def)

section \<open>Correctness\<close>

lemma dll_head: "dll h hn ps \<Longrightarrow> h hn \<noteq> None"
  using links_alloc[of h hn ps hn hn] by (simp add: dll_def)

lemma List_ctor_dll:
  assumes "h hn \<noteq> None"
  shows "\<exists>h'. List_ctor hn h = Some h' \<and> dll h' hn [] \<and> dom h' = dom h \<and> pay h' = pay h"
proof -
  obtain h1 where
    1: "set_forward hn hn h = Some h1" "dom h1 = dom h" "fwd h1 = (fwd h)(hn \<mapsto> hn)"
      "bwd h1 = bwd h" "pay h1 = pay h"
    by (rule set_forward_Some[of h hn hn, OF assms])
  from assms have a1: "h1 hn \<noteq> None" by (simp add: alloc_dom[OF 1(2)])
  obtain h2 where
    2: "set_backward hn hn h1 = Some h2" "dom h2 = dom h1" "fwd h2 = fwd h1"
      "bwd h2 = (bwd h1)(hn \<mapsto> hn)" "pay h2 = pay h1"
    by (rule set_backward_Some[of h1 hn hn, OF a1])
  show ?thesis using 1 2 by (auto simp: List_ctor_def dll_def linked_fb)
qed

lemma IsEmpty_dll: "dll h hn ps \<Longrightarrow> IsEmpty hn h = Some (ps = [])"
proof -
  assume d: "dll h hn ps"
  then obtain e where e: "h hn = Some e" using dll_head by fastforce
  show ?thesis using d e by (cases ps) (auto simp: IsEmpty_def dll_def linked_def)
qed

lemma Peek_dll: "dll h hn (p # ps) \<Longrightarrow> Peek hn h = Some p"
  by (auto simp: Peek_def dll_def linked_def)

lemma AppendTail_dll:
  assumes d: "dll h hn ps" and a: "h entry \<noteq> None" and n: "entry \<notin> set (hn # ps)"
  shows "\<exists>h'. AppendTail hn entry h = Some h' \<and> dll h' hn (ps @ [entry]) \<and> dom h' = dom h \<and> pay h' = pay h"
proof -
  define l where "l = last (hn # ps)"
  from d have lk: "linked h l hn" unfolding l_def using links_last[of h hn ps hn] by (simp add: dll_def)
  then have al: "h l \<noteq> None" "h hn \<noteq> None" by (auto dest: linked_alloc)
  then obtain eh el where e: "h hn = Some eh" "h l = Some el" by blast
  with lk have bl: "backward eh = l" "forward el = hn" by (auto simp: linked_def)
  obtain h1 where
    1: "set_forward l entry h = Some h1" "dom h1 = dom h" "fwd h1 = (fwd h)(l \<mapsto> entry)"
      "bwd h1 = bwd h" "pay h1 = pay h"
    by (rule set_forward_Some[of h l entry, OF al(1)])
  from al have a2: "h1 hn \<noteq> None" by (simp add: alloc_dom[OF 1(2)])
  obtain h2 where
    2: "set_backward hn entry h1 = Some h2" "dom h2 = dom h1" "fwd h2 = fwd h1"
      "bwd h2 = (bwd h1)(hn \<mapsto> entry)" "pay h2 = pay h1"
    by (rule set_backward_Some[of h1 hn entry, OF a2])
  from a have a3: "h2 entry \<noteq> None" by (simp add: alloc_dom[OF 2(2)] alloc_dom[OF 1(2)])
  obtain h3 where
    3: "set_forward entry hn h2 = Some h3" "dom h3 = dom h2" "fwd h3 = (fwd h2)(entry \<mapsto> hn)"
      "bwd h3 = bwd h2" "pay h3 = pay h2"
    by (rule set_forward_Some[of h2 entry hn, OF a3])
  from a3 have a4: "h3 entry \<noteq> None" by (simp add: alloc_dom[OF 3(2)])
  obtain h4 where
    4: "set_backward entry l h3 = Some h4" "dom h4 = dom h3" "fwd h4 = fwd h3"
      "bwd h4 = (bwd h3)(entry \<mapsto> l)" "pay h4 = pay h3"
    by (rule set_backward_Some[of h3 entry l, OF a4])
  have run: "AppendTail hn entry h = Some h4"
    using e bl 1(1) 2(1) 3(1) 4(1) by (simp add: AppendTail_def Let_def)
  have ln: "l \<noteq> entry" "hn \<noteq> entry" using n by (auto simp: l_def)
  have F: "fwd h4 = (fwd h)(l \<mapsto> entry, entry \<mapsto> hn)" using 1 2 3 4 by simp
  have B: "bwd h4 = (bwd h)(hn \<mapsto> entry, entry \<mapsto> l)" using 1 2 3 4 by simp
  have "links h4 hn ps entry"
  proof (cases ps rule: rev_cases)
    case Nil
    then show ?thesis using ln by (simp add: l_def linked_fb F B)
  next
    case (snoc qs q)
    with d have L: "links h hn qs q" "distinct (hn # qs @ [q])" by (simp_all add: dll_def links_append)
    have lq: "l = q" using snoc by (simp add: l_def)
    have "links h4 hn qs q = links h hn qs q"
      by (intro links_cong_fb) (use n snoc L(2) lq in \<open>auto simp: F B\<close>)
    with L lq show ?thesis using n snoc by (auto simp: links_append linked_fb F B)
  qed
  moreover have "linked h4 entry hn" using ln by (simp add: linked_fb F B)
  ultimately have "dll h4 hn (ps @ [entry])" using d n by (auto simp: dll_def links_append)
  with run 1 2 3 4 show ?thesis by simp
qed

lemma RemoveHead_links_dll:
  assumes d: "dll h hn (p # ps)"
  shows "\<exists>h'. RemoveHead_links hn h = Some (p, h') \<and> dll (h'(p := None)) hn ps \<and> dom h' = dom h \<and> pay h' = pay h"
proof -
  from d have dist: "p \<noteq> hn" "hn \<notin> set ps" "p \<notin> set ps" "distinct ps" and lp: "linked h hn p" "links h p ps hn"
    by (auto simp: dll_def)
  obtain q where q: "linked h p q" "q \<in> set (ps @ [hn])" "q = hd (ps @ [hn])" using lp(2) by (cases ps) auto
  from lp(1) obtain eh ep where e: "h hn = Some eh" "h p = Some ep" "forward eh = p" "backward ep = hn"
    by (auto simp: linked_def)
  with q(1) have eq: "forward ep = q" by (simp add: linked_def)
  from e(1) have a5: "h hn \<noteq> None" by simp
  obtain h1 where
    1: "set_forward hn q h = Some h1" "dom h1 = dom h" "fwd h1 = (fwd h)(hn \<mapsto> q)"
      "bwd h1 = bwd h" "pay h1 = pay h"
    by (rule set_forward_Some[of h hn q, OF a5])
  have h1p: "h1 p = Some ep" using 1(1) e dist by (auto simp: set_forward_def)
  have a6: "h1 q \<noteq> None" using linked_alloc[OF q(1)] by (simp add: alloc_dom[OF 1(2)])
  obtain h2 where
    2: "set_backward q hn h1 = Some h2" "dom h2 = dom h1" "fwd h2 = fwd h1"
      "bwd h2 = (bwd h1)(q \<mapsto> hn)" "pay h2 = pay h1"
    by (rule set_backward_Some[of h1 q hn, OF a6])
  have run: "RemoveHead_links hn h = Some (p, h2)"
    using e eq 1(1) h1p 2(1) by (simp add: RemoveHead_links_def Let_def)
  let ?h = "h2(p := None)"
  have F: "fwd ?h x = (if x = hn then Some q else fwd h x)" if "x \<noteq> p" for x
    using that 1 2 by (simp add: fwd_def fun_eq_iff)
  have B: "bwd ?h x = (if x = q then Some hn else bwd h x)" if "x \<noteq> p" for x
    using that 1 2 by (simp add: bwd_def fun_eq_iff)
  have "links ?h hn ps hn"
  proof (cases ps)
    case Nil
    with q dist show ?thesis by (simp add: linked_fb F B)
  next
    case (Cons r rs)
    with lp(2) q have r: "q = r" "links h r rs hn" by auto
    have np: "x \<noteq> p" "x \<noteq> hn" if "x \<in> set ps" for x using that dist by auto
    have "links ?h r rs hn = links h r rs hn"
      by (rule links_cong_fb) (use dist Cons r in \<open>auto simp: F B np\<close>)
    with r dist Cons show ?thesis by (auto simp: linked_fb F B)
  qed
  with dist run 1 2 show ?thesis by (simp add: dll_def)
qed

text \<open>The heap outside an operation's entry is what its domain and payload say.\<close>

lemma pay_upd [heap_simps]: "pay (h(p \<mapsto> e)) = (pay h)(p \<mapsto> payload e)" "pay (h(p := None)) = (pay h)(p := None)"
  by (auto simp: pay_def fun_eq_iff)

lemma dll_insert_fresh:
  assumes "dll h hn ps" "p \<notin> set (hn # ps)"
  shows "dll (h(p \<mapsto> e)) hn ps"
proof -
  have "links (h(p \<mapsto> e)) hn ps hn = links h hn ps hn" by (rule links_cong) (use assms in auto)
  with assms show ?thesis by (simp add: dll_def)
qed

lemma dll_payload:
  assumes "dll h hn ps" "h p = Some e"
  shows "dll (h(p \<mapsto> e\<lparr>payload := x\<rparr>)) hn ps"
proof -
  have "links (h(p \<mapsto> e\<lparr>payload := x\<rparr>)) hn ps hn = links h hn ps hn"
    by (rule links_cong) (use assms in auto)
  with assms show ?thesis by (simp add: dll_def)
qed

section \<open>The list as a queue\<close>

text \<open>
  The client view: entries are allocated at addresses never used before, appended, and deleted
  when they leave the list.  The head is the entry at address 1.
\<close>

definition head :: nat where "head = 1"

definition list_push :: "'p \<Rightarrow> nat \<times> 'p ents \<Rightarrow> nat \<times> 'p ents" where
  "list_push x s = (case s of (b, h) \<Rightarrow>
     (case AppendTail head b (h(b \<mapsto> \<lparr>forward = 0, backward = 0, payload = x\<rparr>)) of
        None \<Rightarrow> s | Some h' \<Rightarrow> (Suc b, h')))"

definition list_pop :: "nat \<times> 'p ents \<Rightarrow> 'p \<times> (nat \<times> 'p ents)" where
  "list_pop s = (case s of (b, h) \<Rightarrow>
     (case RemoveHead_links head h of
        None \<Rightarrow> (the None, s) | Some (p, h') \<Rightarrow> (the (map_option payload (h' p)), (b, h'(p := None)))))"

definition list_new :: "'p \<Rightarrow> nat \<times> 'p ents" where
  "list_new x = (2, case List_ctor head [head \<mapsto> \<lparr>forward = 0, backward = 0, payload = x\<rparr>] of
     None \<Rightarrow> Map.empty | Some h \<Rightarrow> h)"

fun entries :: "nat \<Rightarrow> 'p ents \<Rightarrow> nat \<Rightarrow> nat list" where
  "entries 0 h p = []"
| "entries (Suc n) h p = (case h p of
     None \<Rightarrow> [] | Some e \<Rightarrow> if forward e = head then [] else forward e # entries n h (forward e))"

definition list_ok :: "nat \<Rightarrow> 'p ents \<Rightarrow> nat list \<Rightarrow> bool" where
  "list_ok b h ps \<longleftrightarrow> dll h head ps \<and> dom h = set (head # ps) \<and> (\<forall>p \<in> set (head # ps). 0 < p \<and> p < b)"

definition list_inv :: "nat \<times> 'p ents \<Rightarrow> bool" where
  "list_inv s \<longleftrightarrow> (\<exists>ps. list_ok (fst s) (snd s) ps)"

definition list_abs :: "nat \<times> 'p ents \<Rightarrow> 'p list" where
  "list_abs s = map (\<lambda>p. the (pay (snd s) p)) (entries (fst s) (snd s) head)"

lemma entries_links:
  "links h p ps head \<Longrightarrow> head \<notin> set ps \<Longrightarrow> length ps < n \<Longrightarrow> entries n h p = ps"
proof (induction ps arbitrary: p n)
  case Nil
  then show ?case by (cases n) (auto simp: linked_def)
next
  case (Cons q qs)
  then show ?case by (cases n) (auto simp: linked_def)
qed

lemma list_ok_length: "list_ok b h ps \<Longrightarrow> length ps < b"
proof -
  assume "list_ok b h ps"
  then have "set ps \<subseteq> {1..<b}" "distinct ps" "0 < b" by (auto simp: list_ok_def dll_def)
  then have "length ps \<le> b - 1" using card_mono[of "{1..<b}" "set ps"] by (simp add: distinct_card)
  with \<open>0 < b\<close> show ?thesis by simp
qed

lemma list_ok_entries: "list_ok b h ps \<Longrightarrow> entries b h head = ps"
  using list_ok_length[of b h ps] by (intro entries_links) (auto simp: list_ok_def dll_def)

lemma list_abs_ok: "list_ok b h ps \<Longrightarrow> list_abs (b, h) = map (\<lambda>p. the (pay h p)) ps"
  by (simp add: list_abs_def list_ok_entries)

lemma list_new_ok: "list_ok (fst (list_new x)) (snd (list_new x)) []"
proof -
  obtain h where "List_ctor head [head \<mapsto> \<lparr>forward = 0, backward = 0, payload = x\<rparr>] = Some h"
    "dll h head []" "dom h = {head}"
    using List_ctor_dll[of "[head \<mapsto> \<lparr>forward = 0, backward = 0, payload = x\<rparr>]" head] by auto
  moreover have "0 < head \<and> head < 2" by (simp add: head_def)
  ultimately show ?thesis by (simp add: list_new_def list_ok_def)
qed

lemma AppendTail_ok:
  assumes "list_ok b h ps"
  shows "\<exists>h'. AppendTail head b (h(b \<mapsto> e)) = Some h' \<and> list_ok (Suc b) h' (ps @ [b]) \<and>
    pay h' = (pay h)(b \<mapsto> payload e)"
proof -
  let ?h = "h(b \<mapsto> e)"
  from assms have b: "b \<notin> set (head # ps)" "dll h head ps" by (auto simp: list_ok_def)
  from dll_insert_fresh[OF b(2,1), of e] obtain h' where h': "AppendTail head b ?h = Some h'"
    "dll h' head (ps @ [b])" "dom h' = dom ?h" "pay h' = pay ?h"
    using AppendTail_dll[of ?h head ps b] b(1) by auto
  moreover have "dom ?h = set (head # ps @ [b])" using assms by (auto simp: list_ok_def)
  moreover have "\<forall>p \<in> set (head # ps @ [b]). 0 < p \<and> p < Suc b" using assms by (auto simp: list_ok_def)
  ultimately show ?thesis by (auto simp: list_ok_def heap_simps)
qed

lemma RemoveHead_ok:
  assumes "list_ok b h (p # ps)"
  shows "\<exists>h'. RemoveHead_links head h = Some (p, h') \<and> list_ok b (h'(p := None)) ps \<and> pay h' = pay h \<and> dom h' = dom h"
proof -
  from assms have d: "dll h head (p # ps)" "dom h = set (head # p # ps)" by (auto simp: list_ok_def)
  from RemoveHead_links_dll[OF d(1)] obtain h' where
    "RemoveHead_links head h = Some (p, h')" "dll (h'(p := None)) head ps" "dom h' = dom h" "pay h' = pay h" by blast
  moreover have "set (head # p # ps) - {p} = set (head # ps)" using d(1) by (auto simp: dll_def)
  ultimately show ?thesis using assms by (auto simp: list_ok_def)
qed

lemma list_push_ok:
  assumes "list_ok b h ps"
  shows "\<exists>h'. list_push x (b, h) = (Suc b, h') \<and> list_ok (Suc b) h' (ps @ [b]) \<and> pay h' = (pay h)(b \<mapsto> x)"
  using AppendTail_ok[OF assms, of "\<lparr>forward = 0, backward = 0, payload = x\<rparr>"] by (auto simp: list_push_def)

lemma list_pop_ok:
  assumes "list_ok b h (p # ps)"
  shows "\<exists>h'. list_pop (b, h) = (the (pay h p), (b, h')) \<and> list_ok b h' ps \<and> pay h' = (pay h)(p := None)"
proof -
  from RemoveHead_ok[OF assms] obtain h' where
    h': "RemoveHead_links head h = Some (p, h')" "list_ok b (h'(p := None)) ps" "pay h' = pay h" by blast
  from h'(3) have "map_option payload (h' p) = pay h p" by (metis pay_def)
  with h' show ?thesis by (auto simp: list_pop_def heap_simps)
qed

lemma list_push_abs:
  assumes "list_inv s"
  shows "list_inv (list_push x s)" "list_abs (list_push x s) = list_abs s @ [x]"
proof -
  obtain b h where s: "s = (b, h)" by (cases s)
  with assms obtain ps where ok: "list_ok b h ps" by (auto simp: list_inv_def)
  from list_push_ok[OF ok, of x] obtain h' where p: "list_push x (b, h) = (Suc b, h')"
    "list_ok (Suc b) h' (ps @ [b])" "pay h' = (pay h)(b \<mapsto> x)" by blast
  have "b \<notin> set ps" using ok by (auto simp: list_ok_def)
  with p ok show "list_abs (list_push x s) = list_abs s @ [x]"
    by (simp add: s list_abs_ok)
  from p show "list_inv (list_push x s)" by (auto simp: s list_inv_def)
qed

lemma list_pop_abs:
  assumes "list_inv s" "list_abs s \<noteq> []"
  shows "list_inv (snd (list_pop s))" "list_abs s = fst (list_pop s) # list_abs (snd (list_pop s))"
proof -
  obtain b h where s: "s = (b, h)" by (cases s)
  with assms obtain p ps where ok: "list_ok b h (p # ps)"
    by (auto simp: list_inv_def list_abs_ok neq_Nil_conv)
  from list_pop_ok[OF ok] obtain h' where r: "list_pop (b, h) = (the (pay h p), (b, h'))"
    "list_ok b h' ps" "pay h' = (pay h)(p := None)" by blast
  have "p \<notin> set ps" using ok by (auto simp: list_ok_def dll_def)
  with r ok show "list_abs s = fst (list_pop s) # list_abs (snd (list_pop s))"
    by (simp add: s list_abs_ok)
  from r show "list_inv (snd (list_pop s))" by (auto simp: s list_inv_def)
qed

interpretation lq: fifo list_inv list_abs None list_push list_pop
  by unfold_locales (rule list_push_abs list_pop_abs; assumption)+

text \<open>
  C7: From an empty list, any sequence of \<open>AppendTail\<close>s of new entries and \<open>RemoveHead\<close>s that never
  removes from an empty list hands the entries back in the order they were appended, none lost,
  repeated or changed, whatever pointers the operations rewired on the way; what was not removed
  is what the list still holds.
\<close>

theorem list_is_fifo:
  assumes "suits None 0 ops" and "run_ops list_push list_pop (list_new d) ops = (s, ys)"
  shows "inserted ops = ys @ list_abs s"
proof (rule lq.run_ops_from_empty[OF _ _ assms])
  show "list_inv (list_new d)" unfolding list_inv_def by (rule exI) (rule list_new_ok)
  show "list_abs (list_new d) = []"
    using list_abs_ok[OF list_new_ok[of d]] by simp
qed

theorem list_is_fifo_witness:
  "[7, 8, 9] = snd (run_ops list_push list_pop (list_new (0::nat)) [Enq 7, Enq 8, Deq, Enq 9])
     @ list_abs (fst (run_ops list_push list_pop (list_new 0) [Enq 7, Enq 8, Deq, Enq 9]))"
  using list_is_fifo[of "[Enq 7, Enq 8, Deq, Enq 9]", OF _ prod.collapse[symmetric]] by simp

end
