(* ===== verification/Raii.thy ===== *)
theory Raii
  imports Win32_Prelude "HOL-Library.Multiset"
begin

text \<open>
  The discipline the RAII wrappers of the repository promise: every handle the operating system
  hands out is given back exactly once, and nothing is given back that is not held, on every
  path, whichever call fails.  \<open>handle_api\<close> is the interface: which answers hand out a handle and
  which calls give one back.  Inside it, a history determines the multiset of handles still held
  (\<open>None\<close> once something was given back that was not held), and \<open>owns\<close> is the triple a component
  proves of its operations.
\<close>

named_theorems neutral_intro \<open>introduction rules for neutral, of every interpretation\<close>

locale handle_api =
  fixes opens :: "'c \<Rightarrow> resp \<Rightarrow> 'h option"
    and closes :: "'c \<Rightarrow> 'h option"
  assumes closes_not_opens: "closes c = Some x \<Longrightarrow> opens c r = None"
begin

fun track :: "'h multiset \<Rightarrow> 'c history \<Rightarrow> 'h multiset option" where
  "track L [] = Some L"
| "track L ((c, r) # h) =
     (case closes c of
        Some x \<Rightarrow> if x \<in># L then track (L - {#x#}) h else None
      | None \<Rightarrow> (case opens c r of Some x \<Rightarrow> track (add_mset x L) h | None \<Rightarrow> track L h))"

definition live :: "'c history \<Rightarrow> 'h multiset option" where
  "live h = track {#} h"

lemma track_append:
  "track L (h @ h') = (case track L h of None \<Rightarrow> None | Some L' \<Rightarrow> track L' h')"
  by (induction L h rule: track.induct) (auto split: option.split)

lemma live_Nil [simp]: "live [] = Some {#}"
  by (simp add: live_def)

lemma live_snoc_close:
  "closes c = Some x \<Longrightarrow> live h = Some (add_mset x L) \<Longrightarrow> live (h @ [(c, r)]) = Some L"
  by (simp add: live_def track_append)

lemma live_snoc_open:
  "opens c r = Some x \<Longrightarrow> live h = Some L \<Longrightarrow> live (h @ [(c, r)]) = Some (add_mset x L)"
  using closes_not_opens[of c _ r] by (cases "closes c") (auto simp: live_def track_append)

lemma live_snoc_other:
  "opens c r = None \<Longrightarrow> closes c = None \<Longrightarrow> live h = Some L \<Longrightarrow> live (h @ [(c, r)]) = Some L"
  by (simp add: live_def track_append)

text \<open>
  \<open>owns P m Q\<close>: run while the handles \<open>P\<close> are held (and any others, which \<open>m\<close> does not touch), \<open>m\<close>
  returns \<open>a\<close> holding \<open>Q a\<close> in their place, or throws with none of \<open>P\<close> left; it never gives back
  what it does not hold, not even on a path that ends the process or faults.
\<close>

definition post ::
  "'h multiset \<Rightarrow> ('a \<Rightarrow> 'h multiset) \<Rightarrow> 'h multiset \<Rightarrow> ('e, 'a) outcome \<Rightarrow> 'c history \<Rightarrow> bool" where
  "post L Q E oc h = (case oc of
       Val a \<Rightarrow> live h = Some (L + Q a)
     | Exn e \<Rightarrow> live h = Some (L + E)
     | Halted n \<Rightarrow> live h \<noteq> None
     | Fault \<Rightarrow> live h \<noteq> None
     | Running \<Rightarrow> live h \<noteq> None)"

lemma post_simps [simp]:
  "post L Q E (Val a) h = (live h = Some (L + Q a))"
  "post L Q E (Exn e) h = (live h = Some (L + E))"
  "post L Q E (Halted n) h = (live h \<noteq> None)"
  "post L Q E Fault h = (live h \<noteq> None)"
  "post L Q E Running h = (live h \<noteq> None)"
  by (simp_all add: post_def)

definition owns :: "'h multiset \<Rightarrow> ('s, 'c, 'e, 'a) io \<Rightarrow> ('a \<Rightarrow> 'h multiset) \<Rightarrow> 'h multiset \<Rightarrow> bool" where
  "owns P m Q E \<longleftrightarrow> (\<forall>os s h L oc s' h'. live h = Some (L + P) \<longrightarrow> m os s h = (oc, s', h') \<longrightarrow> post L Q E oc h')"

text \<open>\<open>neutral m\<close>: \<open>m\<close> leaves the handles it finds and keeps none of its own.\<close>

definition neutral :: "('s, 'c, 'e, 'a) io \<Rightarrow> bool" where
  "neutral m \<longleftrightarrow> owns {#} m (\<lambda>_. {#}) {#}"

lemma ownsI:
  assumes "\<And>os s h L oc s' h'. live h = Some (L + P) \<Longrightarrow> m os s h = (oc, s', h') \<Longrightarrow> post L Q E oc h'"
  shows "owns P m Q E"
  unfolding owns_def using assms by blast

lemma ownsD:
  "owns P m Q E \<Longrightarrow> live h = Some (L + P) \<Longrightarrow> m os s h = (oc, s', h') \<Longrightarrow> post L Q E oc h'"
  unfolding owns_def by blast

lemma owns_ret: "owns (Q a) (ret a) Q E"
  by (simp add: owns_def ret_def)

lemma owns_ret_eq: "Q a = P \<Longrightarrow> owns P (ret a) Q E"
  by (simp add: owns_def ret_def)

lemma owns_throw: "owns E (throw e) Q E"
  by (simp add: owns_def throw_def)

lemma owns_halt: "owns P (halt n) Q E"
  by (auto simp: owns_def halt_def)

lemma owns_fault: "owns P fault Q E"
  by (auto simp: owns_def fault_def)

lemma owns_running: "owns P running Q E"
  by (auto simp: owns_def running_def)

text \<open>Steps of the program itself: no call, hence no handle.\<close>

lemma owns_silent:
  assumes "\<And>os s h. history_of (m os s h) = h"
  shows "owns P m (\<lambda>_. P) P"
proof (rule ownsI)
  fix os s h L oc s' h'
  assume "live h = Some (L + P)" "m os s h = (oc, s', h')"
  moreover from this assms[of os s h] have "h' = h" by simp
  ultimately show "post L (\<lambda>_. P) P oc h'" by (cases oc) simp_all
qed

lemma neutral_silent: "(\<And>os s h. history_of (m os s h) = h) \<Longrightarrow> neutral m"
  unfolding neutral_def by (rule owns_silent)

lemma owns_frame:
  assumes "owns P m Q E"
  shows "owns (P + F) m (\<lambda>a. Q a + F) (E + F)"
proof (rule ownsI)
  fix os s h L oc s' h'
  assume "live h = Some (L + (P + F))" and r: "m os s h = (oc, s', h')"
  then have "live h = Some ((L + F) + P)" by (simp add: ac_simps)
  from ownsD[OF assms this r] show "post L (\<lambda>a. Q a + F) (E + F) oc h'"
    by (cases oc) (auto simp: ac_simps)
qed

lemma owns_bnd:
  assumes m: "owns P m Q E" and f: "\<And>a. owns (Q a) (f a) R E"
  shows "owns P (bnd m f) R E"
proof (rule ownsI)
  fix os s h L oc s' h'
  assume l: "live h = Some (L + P)" and r: "bnd m f os s h = (oc, s', h')"
  obtain oc1 s1 h1 where m1: "m os s h = (oc1, s1, h1)" by (cases "m os s h")
  note p = ownsD[OF m l m1]
  show "post L R E oc h'"
  proof (cases oc1)
    case (Val a)
    with p have "live h1 = Some (L + Q a)" by simp
    from ownsD[OF f this] Val m1 r show ?thesis by (simp add: bnd_def)
  qed (use p m1 r in \<open>auto simp: bnd_def\<close>)
qed

lemma owns_if: "(b \<Longrightarrow> owns P m Q E) \<Longrightarrow> (\<not> b \<Longrightarrow> owns P m' Q E) \<Longrightarrow> owns P (if b then m else m') Q E"
  by simp

lemma owns_whenM: "(b \<Longrightarrow> owns P m (\<lambda>_. Q ()) E) \<Longrightarrow> (\<not> b \<Longrightarrow> Q () = P) \<Longrightarrow> owns P (whenM b m) Q E"
  by (cases b) (auto simp: whenM_def owns_def ret_def)

lemma owns_try_catch:
  assumes m: "owns P m Q E" and k: "\<And>e. owns E (k e) Q E'"
  shows "owns P (try_catch m k) Q E'"
proof (rule ownsI)
  fix os s h L oc s' h'
  assume l: "live h = Some (L + P)" and r: "try_catch m k os s h = (oc, s', h')"
  obtain oc1 s1 h1 where m1: "m os s h = (oc1, s1, h1)" by (cases "m os s h")
  note p = ownsD[OF m l m1]
  show "post L Q E' oc h'"
  proof (cases oc1)
    case (Exn e)
    with p have "live h1 = Some (L + E)" by simp
    from ownsD[OF k this] Exn m1 r show ?thesis by (simp add: try_catch_def)
  qed (use p m1 r in \<open>auto simp: try_catch_def\<close>)
qed

lemma owns_no_throw:
  assumes "owns P m Q E" "no_throw m"
  shows "owns P m Q E'"
proof (rule ownsI)
  fix os s h L oc s' h'
  assume l: "live h = Some (L + P)" and r: "m os s h = (oc, s', h')"
  from ownsD[OF assms(1) l r] no_throwD[OF assms(2) r] show "post L Q E' oc h'" by (cases oc) auto
qed

text \<open>What is kept of a frame when nothing is thrown.\<close>

lemma neutral_owns:
  assumes "neutral m" "no_throw m"
  shows "owns P m (\<lambda>_. P) E"
  using owns_no_throw[OF owns_frame[OF assms(1)[unfolded neutral_def], of P] assms(2)] by simp

text \<open>A call that neither hands out nor takes back a handle, one that takes one back, one that hands one out.\<close>

lemma owns_call_other:
  assumes "\<And>r. opens c r = None" "closes c = None"
  shows "owns P (call c) (\<lambda>_. P) E"
  using assms live_snoc_other by (auto simp: owns_def call_def)

lemma owns_call_close:
  assumes "closes c = Some x"
  shows "owns {#x#} (call c) (\<lambda>_. {#}) E"
  using assms live_snoc_close by (auto simp: owns_def call_def)

lemma owns_call_open:
  assumes "closes c = None"
  shows "owns {#} (call c) (\<lambda>r. case opens c r of None \<Rightarrow> {#} | Some x \<Rightarrow> {#x#}) E"
  using assms by (auto simp: owns_def call_def live_snoc_other live_snoc_open split: option.split)

lemma owns_do_close: "closes c = Some x \<Longrightarrow> owns {#x#} (do_call c) (\<lambda>_. {#}) E"
  unfolding do_call_def by (rule owns_bnd[OF owns_call_close]) (simp_all add: owns_ret[of "\<lambda>_. {#}", simplified])

text \<open>A scope whose destructor gives \<open>P\<close> back.\<close>

lemma owns_finally:
  assumes m: "owns P m (\<lambda>a. R + Q a) R" and k: "owns R k (\<lambda>_. {#}) {#}"
  shows "owns P (finally_do m k) Q {#}"
proof (rule ownsI)
  fix os s h L oc s' h'
  assume l: "live h = Some (L + P)" and r: "finally_do m k os s h = (oc, s', h')"
  obtain oc1 s1 h1 where m1: "m os s h = (oc1, s1, h1)" by (cases "m os s h")
  obtain oc2 s2 h2 where k2: "k os s1 h1 = (oc2, s2, h2)" by (cases "k os s1 h1")
  note p = ownsD[OF m l m1]
  show "post L Q {#} oc h'"
  proof (cases oc1)
    case (Val a)
    with p have "live h1 = Some ((L + Q a) + R)" by (simp add: ac_simps)
    from ownsD[OF k this k2] Val m1 k2 r show ?thesis
      by (cases oc2) (auto simp: finally_do_def)
  next
    case (Exn e)
    with p have "live h1 = Some (L + R)" by simp
    from ownsD[OF k this k2] Exn m1 k2 r show ?thesis
      by (cases oc2) (auto simp: finally_do_def)
  qed (use p m1 r in \<open>auto simp: finally_do_def\<close>)
qed

text \<open>Rules for \<open>neutral\<close>, the form most operations have.\<close>

lemma neutral_ret [simp, neutral_intro]: "neutral (ret a)"
  using owns_ret[of "\<lambda>_. {#}"] by (simp add: neutral_def)

lemma neutral_throw [simp, neutral_intro]: "neutral (throw e)"
  by (simp add: neutral_def owns_throw)

lemma neutral_halt [simp, neutral_intro]: "neutral (halt e)"
  by (simp add: neutral_def owns_halt)

lemma neutral_fault [simp, neutral_intro]: "neutral fault"
  by (simp add: neutral_def owns_fault)

lemma neutral_running [simp, neutral_intro]: "neutral running"
  by (simp add: neutral_def owns_running)

lemma neutral_gets [simp, neutral_intro]: "neutral (gets f)"
  by (simp add: neutral_def owns_def gets_def)

lemma neutral_modify [simp, neutral_intro]: "neutral (modify f)"
  by (simp add: neutral_def owns_def modify_def)

lemma neutral_bnd [neutral_intro]: "neutral m \<Longrightarrow> (\<And>a. neutral (f a)) \<Longrightarrow> neutral (bnd m f)"
  unfolding neutral_def by (rule owns_bnd)

lemma neutral_andthen [neutral_intro]: "neutral m \<Longrightarrow> neutral k \<Longrightarrow> neutral (andthen m k)"
  unfolding andthen_def by (rule neutral_bnd)

lemma neutral_call: "(\<And>r. opens c r = None) \<Longrightarrow> closes c = None \<Longrightarrow> neutral (call c)"
  unfolding neutral_def by (rule owns_call_other)

lemma neutral_do_call: "(\<And>r. opens c r = None) \<Longrightarrow> closes c = None \<Longrightarrow> neutral (do_call c)"
  unfolding do_call_def by (intro neutral_bnd neutral_call) auto

lemma neutral_whenM [neutral_intro]: "(b \<Longrightarrow> neutral m) \<Longrightarrow> neutral (whenM b m)"
  by (simp add: whenM_def)

lemma neutral_try_catch [neutral_intro]: "neutral m \<Longrightarrow> (\<And>e. neutral (k e)) \<Longrightarrow> neutral (try_catch m k)"
  unfolding neutral_def by (rule owns_try_catch)

lemma neutral_if [neutral_intro]:
  "(b \<Longrightarrow> neutral m) \<Longrightarrow> (\<not> b \<Longrightarrow> neutral m') \<Longrightarrow> neutral (if b then m else m')"
  by simp

lemma neutral_prod [neutral_intro]: "(\<And>a b. p = (a, b) \<Longrightarrow> neutral (f a b)) \<Longrightarrow> neutral (case p of (a, b) \<Rightarrow> f a b)"
  by (cases p) simp

lemma neutral_option [neutral_intro]:
  "(x = None \<Longrightarrow> neutral m) \<Longrightarrow> (\<And>a. x = Some a \<Longrightarrow> neutral (f a)) \<Longrightarrow>
   neutral (case x of None \<Rightarrow> m | Some a \<Rightarrow> f a)"
  by (cases x) simp_all

lemma neutral_Let [neutral_intro]: "neutral (f x) \<Longrightarrow> neutral (Let x f)"
  by simp

text \<open>
  The RAII pattern: a handle is acquired, the rest of the scope runs with it and the destructor
  gives it back.  If the rest is neutral, so is the whole scope.
\<close>

lemma neutral_scope:
  assumes m: "neutral m" and k: "owns {#x#} k (\<lambda>_. {#}) {#}"
  shows "owns {#x#} (finally_do m k) (\<lambda>_. {#}) {#}"
proof (rule owns_finally[OF _ k])
  show "owns {#x#} m (\<lambda>a. {#x#} + {#}) {#x#}"
    using owns_frame[OF m[unfolded neutral_def], of "{#x#}"] by simp
qed

lemma neutral_finally [neutral_intro]:
  assumes "neutral m" "neutral k"
  shows "neutral (finally_do m k)"
  unfolding neutral_def
  by (rule owns_finally[where R = "{#}"]) (use assms in \<open>simp_all add: neutral_def\<close>)

text \<open>What \<open>neutral\<close> gives for a whole program: run from the empty history it holds nothing at its end.\<close>

lemma neutral_post: "neutral m \<Longrightarrow> m os s [] = (oc, s', h) \<Longrightarrow> post {#} (\<lambda>_. {#}) {#} oc h"
  by (rule ownsD[where P = "{#}" and Q = "\<lambda>_. {#}" and h = "[]" and m = m]) (simp_all add: neutral_def)

lemma neutral_run:
  assumes "neutral m" and "m os s [] = (oc, s', h)" and "\<forall>n. oc \<noteq> Halted n" and "oc \<noteq> Running" and "oc \<noteq> Fault"
  shows "live h = Some {#}"
  using neutral_post[OF assms(1,2)] assms(3-5) by (cases oc) auto

lemma neutral_regular:
  assumes "neutral m" and "regular m"
  shows "live (history_of (m os s [])) = Some {#}"
proof -
  obtain oc s' h where r: "m os s [] = (oc, s', h)" by (cases "m os s []")
  show ?thesis using neutral_post[OF assms(1) r] regularD[OF assms(2) r] by (cases oc) (simp_all add: r)
qed

text \<open>
  A \<open>unique_ptr\<close> with a deleter: \<open>k\<close> gives back what the call \<open>c\<close> handed out, or does nothing when the
  call handed out nothing.
\<close>

lemma neutral_unique:
  assumes "closes c = None" and "\<And>r. neutral (m r)"
    and "\<And>r. owns (case opens c r of None \<Rightarrow> {#} | Some x \<Rightarrow> {#x#}) (k r) (\<lambda>_. {#}) {#}"
  shows "neutral (bnd (call c) (\<lambda>r. finally_do (m r) (k r)))"
  unfolding neutral_def
proof (rule owns_bnd[OF owns_call_open[OF assms(1)]])
  fix r
  let ?F = "case opens c r of None \<Rightarrow> {#} | Some x \<Rightarrow> {#x#}"
  show "owns ?F (finally_do (m r) (k r)) (\<lambda>_. {#}) {#}"
    using owns_finally[OF _ assms(3)[of r], of ?F "m r" "\<lambda>_. {#}"] owns_frame[OF assms(2)[of r, unfolded neutral_def], of ?F]
    by simp
qed

lemma neutral_unique_if:
  assumes "closes c = None" and "\<And>r. neutral (m r)" and "\<And>r. bad r \<Longrightarrow> opens c r = None" and "\<And>r. neutral (e r)"
    and "\<And>r. \<not> bad r \<Longrightarrow> owns (case opens c r of None \<Rightarrow> {#} | Some x \<Rightarrow> {#x#}) (k r) (\<lambda>_. {#}) {#}"
  shows "neutral (bnd (call c) (\<lambda>r. if bad r then e r else finally_do (m r) (k r)))"
  unfolding neutral_def
proof (rule owns_bnd[OF owns_call_open[OF assms(1)]])
  fix r
  let ?F = "case opens c r of None \<Rightarrow> {#} | Some x \<Rightarrow> {#x#}"
  show "owns ?F (if bad r then e r else finally_do (m r) (k r)) (\<lambda>_. {#}) {#}"
  proof (cases "bad r")
    case True
    then show ?thesis using assms(3)[OF True] assms(4)[of r] by (simp add: neutral_def)
  next
    case False
    then show ?thesis
      using owns_finally[OF _ assms(5)[OF False], of ?F "m r" "\<lambda>_. {#}"]
        owns_frame[OF assms(2)[of r, unfolded neutral_def], of ?F] by simp
  qed
qed

text \<open>The deleter of a \<open>unique_ptr\<close>: it gives the handle back unless it is null.\<close>

lemma owns_unless_null:
  assumes "x \<noteq> n \<Longrightarrow> closes c = Some h"
  shows "owns (if x = n then {#} else {#h#}) (whenM (x \<noteq> n) (do_call c)) (\<lambda>_. {#}) {#}"
proof (cases "x = n")
  case True
  then show ?thesis using owns_ret[of "\<lambda>_. {#}"] by (simp add: whenM_def)
next
  case False
  show ?thesis unfolding do_call_def whenM_def using False assms[OF False]
    by (simp add: owns_bnd[OF owns_call_close] owns_ret[of "\<lambda>_. {#}", simplified])
qed

lemma owns_deleter:
  assumes "x = n \<Longrightarrow> y = None" and "x \<noteq> n \<Longrightarrow> y = Some hh \<and> closes d = Some hh"
  shows "owns (case y of None \<Rightarrow> {#} | Some u \<Rightarrow> {#u#}) (whenM (x \<noteq> n) (do_call d)) (\<lambda>_. {#}) {#}"
  using owns_unless_null[of x n d hh] assms by (cases "x = n") auto

lemma neutral_do_call_call [neutral_intro]:
  "neutral (call c :: ('s, 'c, 'e, resp) io) \<Longrightarrow> neutral (do_call c :: ('s, 'c, 'e, unit) io)"
  unfolding do_call_def by (intro neutral_bnd) auto

end

end
