(* ===== verification/XTransport.thy ===== *)
theory XTransport
  imports XList Raii
begin

text \<open>
  The transport of XSocket (List.h, List.cpp, Transport.h, Transport.cpp): a byte stream kept as a
  linked list of buffers, on a heap of list entries and a heap of byte buffers.  The allocator and
  the critical section are calls of the operating system; an allocation it grants gets an address
  never used before.  The debug build is modelled: a failed \<open>assert\<close> aborts the process.
\<close>

section \<open>State\<close>

text \<open>The members of \<open>ListEntry\<close> other than its links; \<open>data\<close> is the address of a buffer, 0 for NULL.\<close>

record chunk =
  size :: ULONG
  index :: ULONG
  data :: nat

record tstate =
  ents :: "chunk ents"
  bufs :: "nat \<Rightarrow> BYTE list option"
  brk :: nat

text \<open>
  The calls the transport makes, and those its client main.cpp (theory XSocketMain) makes to the
  WebSocket library.  A header is a name and a value; \<open>WsGetAction\<close> answers with the action, its
  context and its buffers, and \<open>WsCompleteAction\<close> sees the buffers as the program left them.
\<close>

type_synonym header = "BYTE list \<times> BYTE list"

datatype wscall =
    WsCreateClientHandle
  | WsCreateServerHandle
  | WsDeleteHandle HANDLE
  | WsBeginClientHandshake HANDLE
  | WsBeginServerHandshake HANDLE "header list"
  | WsEndClientHandshake HANDLE "header list"
  | WsEndServerHandshake HANDLE
  | WsSend HANDLE "BYTE list"
  | WsReceive HANDLE
  | WsGetAction HANDLE
  | WsAbortHandle HANDLE
  | WsCompleteAction HANDLE "64 word" ULONG "BYTE list list"
  | NewHeaders ULONG

datatype tcall =
    InitializeCriticalSection
  | DeleteCriticalSection
  | EnterCriticalSection
  | LeaveCriticalSection
  | NewEntry
  | NewBytes ULONG
  | Ws wscall

type_synonym 'a tio = "(tstate, tcall, unit, 'a) io"

abbreviation (input) E_FAIL :: HRESULT where "E_FAIL \<equiv> 0x80004005"
abbreviation (input) E_OUTOFMEMORY :: HRESULT where "E_OUTOFMEMORY \<equiv> 0x8007000E"

definition assert_that :: "bool \<Rightarrow> unit tio" where
  "assert_that b = (if b then ret () else halt 3)"

section \<open>Heap access\<close>

definition entry_at :: "nat \<Rightarrow> chunk lentry tio" where
  "entry_at p = (\<lambda>os s h. case ents s p of None \<Rightarrow> (Fault, s, h) | Some e \<Rightarrow> (Val e, s, h))"

definition put_chunk :: "nat \<Rightarrow> chunk \<Rightarrow> unit tio" where
  "put_chunk p c = bnd (entry_at p) (\<lambda>e. modify (\<lambda>s. s\<lparr>ents := (ents s)(p \<mapsto> e\<lparr>payload := c\<rparr>)\<rparr>))"

definition on_list :: "(chunk ents \<Rightarrow> ('a \<times> chunk ents) option) \<Rightarrow> 'a tio" where
  "on_list f = (\<lambda>os s h. case f (ents s) of None \<Rightarrow> (Fault, s, h) | Some (a, e) \<Rightarrow> (Val a, s\<lparr>ents := e\<rparr>, h))"

definition bytes_at :: "nat \<Rightarrow> BYTE list tio" where
  "bytes_at p = (\<lambda>os s h. case bufs s p of None \<Rightarrow> (Fault, s, h) | Some b \<Rightarrow> (Val b, s, h))"

text \<open>\<open>new(std::nothrow) BYTE[n]\<close>, \<open>delete[]\<close>.\<close>

definition new_bytes :: "ULONG \<Rightarrow> nat tio" where
  "new_bytes n = bnd (call (NewBytes n)) (\<lambda>r. if rv r = 0 then ret 0 else
     bnd (gets brk) (\<lambda>p. andthen
       (modify (\<lambda>s. s\<lparr>bufs := (bufs s)(p \<mapsto> replicate (unat n) 0), brk := Suc p\<rparr>)) (ret p)))"

definition delete_bytes :: "nat \<Rightarrow> unit tio" where
  "delete_bytes p = bnd (bytes_at p) (\<lambda>_. modify (\<lambda>s. s\<lparr>bufs := (bufs s)(p := None)\<rparr>))"

section \<open>ListEntry\<close>

definition ListEntry_ctor :: "chunk lentry" where
  "ListEntry_ctor = \<lparr>forward = 0, backward = 0, payload = \<lparr>size = 0, index = 0, data = 0\<rparr>\<rparr>"

definition new_entry :: "nat tio" where
  "new_entry = bnd (call NewEntry) (\<lambda>r. if rv r = 0 then ret 0 else
     bnd (gets brk) (\<lambda>p. andthen
       (modify (\<lambda>s. s\<lparr>ents := (ents s)(p \<mapsto> ListEntry_ctor), brk := Suc p\<rparr>)) (ret p)))"

text \<open>\<open>~ListEntry\<close>, and the \<open>delete\<close> that runs it and frees the entry.\<close>

definition ListEntry_dtor :: "nat \<Rightarrow> unit tio" where
  "ListEntry_dtor p = bnd (entry_at p) (\<lambda>e.
     whenM (data (payload e) \<noteq> 0)
       (andthen (delete_bytes (data (payload e))) (put_chunk p \<lparr>size = 0, index = 0, data = 0\<rparr>)))"

definition delete_entry :: "nat \<Rightarrow> unit tio" where
  "delete_entry p = andthen (ListEntry_dtor p) (modify (\<lambda>s. s\<lparr>ents := (ents s)(p := None)\<rparr>))"

definition Attach :: "nat \<Rightarrow> ULONG \<Rightarrow> nat \<Rightarrow> unit tio" where
  "Attach p dataLength d = put_chunk p \<lparr>size = dataLength, index = 0, data = d\<rparr>"

text \<open>
  \<open>CopyTo(data + off, dataLength, &bytesCopied)\<close>, with the array \<open>dst\<close> that \<open>data\<close> points into.  The
  number of bytes is the minimum of \<open>dataLength\<close> and the size of the whole entry, as in the source.
\<close>

definition CopyTo :: "nat \<Rightarrow> BYTE list \<Rightarrow> nat \<Rightarrow> ULONG \<Rightarrow> (ULONG \<times> BYTE list) tio" where
  "CopyTo p dst off dataLength = bnd (entry_at p) (\<lambda>e.
     let c = payload e;
         sz = min dataLength (size c)
     in bnd (if sz = 0 then ret [] else bnd (bytes_at (data c)) (\<lambda>b.
          if unat (index c) + unat sz \<le> length b \<and> off + unat sz \<le> length dst
          then ret (take (unat sz) (drop (unat (index c)) b)) else fault)) (\<lambda>bytes.
        andthen (put_chunk p (c\<lparr>index := index c + sz\<rparr>)) (ret (sz, overwrite off bytes dst))))"

definition DataLeft :: "nat \<Rightarrow> ULONG tio" where
  "DataLeft p = bnd (entry_at p) (\<lambda>e. ret (size (payload e) - index (payload e)))"

section \<open>List\<close>

definition List_IsEmpty :: "bool tio" where
  "List_IsEmpty = on_list (\<lambda>h. map_option (\<lambda>b. (b, h)) (IsEmpty head h))"

definition List_Peek :: "nat tio" where
  "List_Peek = bnd List_IsEmpty (\<lambda>b. andthen (assert_that (\<not> b))
     (on_list (\<lambda>h. map_option (\<lambda>p. (p, h)) (Peek head h))))"

definition List_AppendTail :: "nat \<Rightarrow> unit tio" where
  "List_AppendTail entry = on_list (\<lambda>h. map_option (Pair ()) (AppendTail head entry h))"

definition List_RemoveHead :: "unit tio" where
  "List_RemoveHead = bnd List_IsEmpty (\<lambda>b. andthen (assert_that (\<not> b))
     (bnd (on_list (RemoveHead_links head)) delete_entry))"

definition List_dtor :: "unit tio" where
  "List_dtor = bnd List_IsEmpty assert_that"

section \<open>Transport\<close>

text \<open>\<open>Transport::Transport\<close> constructs the list and then the critical section; the destructor is the reverse.\<close>

definition Transport_ctor :: "unit tio" where
  "Transport_ctor = andthen
     (modify (\<lambda>s. \<lparr>ents = snd (list_new \<lparr>size = 0, index = 0, data = 0\<rparr>), bufs = Map.empty,
                   brk = fst (list_new \<lparr>size = 0, index = 0, data = 0\<rparr>)\<rparr>))
     (do_call InitializeCriticalSection)"

definition Transport_dtor :: "unit tio" where
  "Transport_dtor = andthen (do_call DeleteCriticalSection) List_dtor"

text \<open>The label \<open>quit\<close> of \<open>WriteData\<close>: what is still owned is freed.\<close>

definition WriteData_quit :: "nat \<Rightarrow> nat \<Rightarrow> HRESULT \<Rightarrow> HRESULT tio" where
  "WriteData_quit entry buffer hr =
     andthen (whenM (entry \<noteq> 0) (delete_entry entry))
     (andthen (whenM (buffer \<noteq> 0) (delete_bytes buffer)) (ret hr))"

definition WriteData :: "BYTE list option \<Rightarrow> ULONG \<Rightarrow> HRESULT tio" where
  "WriteData src dataLength = (case src of
      None \<Rightarrow> WriteData_quit 0 0 S_OK
    | Some bytes \<Rightarrow>
        bnd new_entry (\<lambda>entry. if entry = 0 then WriteData_quit 0 0 E_OUTOFMEMORY else
        bnd (new_bytes dataLength) (\<lambda>buffer. if buffer = 0 then WriteData_quit entry 0 E_OUTOFMEMORY else
        (if length bytes < unat dataLength then fault else
         andthen (modify (\<lambda>s. s\<lparr>bufs := (bufs s)(buffer \<mapsto> take (unat dataLength) bytes)\<rparr>))
        (andthen (Attach entry dataLength buffer)
        (andthen (do_call EnterCriticalSection)
        (andthen (List_AppendTail entry)
        (andthen (do_call LeaveCriticalSection)
          (WriteData_quit 0 0 S_OK)))))))))"

fun ReadData_loop :: "nat \<Rightarrow> ULONG \<Rightarrow> ULONG \<Rightarrow> BYTE list \<Rightarrow> (ULONG \<times> BYTE list) tio" where
  "ReadData_loop 0 dataLength ix dst = running"
| "ReadData_loop (Suc n) dataLength ix dst = bnd List_IsEmpty (\<lambda>empty.
     if ix < dataLength \<and> \<not> empty then
       bnd List_Peek (\<lambda>first.
       bnd (CopyTo first dst (unat ix) (dataLength - ix)) (\<lambda>(copiedBytes, dst').
       bnd (DataLeft first) (\<lambda>left.
       andthen (whenM (left = 0) List_RemoveHead)
         (ReadData_loop n dataLength (ix + copiedBytes) dst'))))
     else ret (ix, dst))"

text \<open>\<open>ReadData\<close> returns its HRESULT, \<open>*outputDataLength\<close> and the caller's array.\<close>

definition ReadData :: "nat \<Rightarrow> ULONG \<Rightarrow> BYTE list option \<Rightarrow> (HRESULT \<times> ULONG \<times> BYTE list) tio" where
  "ReadData fuel dataLength dst = (case dst of
      None \<Rightarrow> ret (E_FAIL, 0, [])
    | Some d \<Rightarrow>
        andthen (do_call EnterCriticalSection)
        (bnd (ReadData_loop fuel dataLength 0 d) (\<lambda>(ix, d').
         andthen (do_call LeaveCriticalSection)
         (andthen (assert_that (ix \<noteq> 0)) (ret (S_OK, ix, d'))))))"

section \<open>Abstraction\<close>

text \<open>
  What a transport holds: for every entry, oldest first, how much of it was read and its bytes.
  \<open>trep\<close> also says that the two heaps hold nothing else, so an operation that preserves it
  leaks nothing.
\<close>

type_synonym content = "(nat \<times> BYTE list) list"

fun chunks :: "(nat \<Rightarrow> chunk option) \<Rightarrow> (nat \<Rightarrow> BYTE list option) \<Rightarrow> nat list \<Rightarrow> nat list \<Rightarrow> content \<Rightarrow> bool" where
  "chunks P B [] [] [] = True"
| "chunks P B (p # ps) (d # ds) (c # cs) =
     (P p = Some \<lparr>size = of_nat (length (snd c)), index = of_nat (fst c), data = d\<rparr> \<and> B d = Some (snd c) \<and>
      fst c \<le> length (snd c) \<and> length (snd c) < 2 ^ 32 \<and> chunks P B ps ds cs)"
| "chunks P B ps ds cs = False"

definition trep :: "tstate \<Rightarrow> nat list \<Rightarrow> nat list \<Rightarrow> content \<Rightarrow> bool" where
  "trep s ps ds cs \<longleftrightarrow> list_ok (brk s) (ents s) ps \<and> chunks (pay (ents s)) (bufs s) ps ds cs \<and>
     distinct ds \<and> dom (bufs s) = set ds \<and> (\<forall>d \<in> set ds. 0 < d \<and> d < brk s)"

definition holds :: "tstate \<Rightarrow> content \<Rightarrow> bool" where
  "holds s cs \<longleftrightarrow> (\<exists>ps ds. trep s ps ds cs)"

text \<open>The byte stream of a content, and the content after \<open>n\<close> bytes were taken from its front.\<close>

definition stream :: "content \<Rightarrow> BYTE list" where
  "stream cs = concat (map (\<lambda>c. drop (fst c) (snd c)) cs)"

fun after :: "nat \<Rightarrow> content \<Rightarrow> content" where
  "after 0 cs = cs"
| "after (Suc n) [] = []"
| "after (Suc n) (c # cs) =
     (if Suc n < length (snd c) - fst c then (fst c + Suc n, snd c) # cs
      else after (Suc n - (length (snd c) - fst c)) cs)"

lemma stream_simps [simp]:
  "stream [] = []" "stream (c # cs) = drop (fst c) (snd c) @ stream cs" "stream (cs @ cs') = stream cs @ stream cs'"
  by (simp_all add: stream_def)

lemma stream_after: "stream (after n cs) = drop n (stream cs)"
  by (induction n cs rule: after.induct) (auto simp: ac_simps)

lemma chunks_cong:
  "(\<And>p. p \<in> set ps \<Longrightarrow> P' p = P p) \<Longrightarrow> (\<And>d. d \<in> set ds \<Longrightarrow> B' d = B d) \<Longrightarrow>
   chunks P' B' ps ds cs = chunks P B ps ds cs"
  by (induction P B ps ds cs rule: chunks.induct) auto

lemma chunks_snoc:
  "chunks P B ps ds cs \<Longrightarrow> chunks P B [p] [d] [c] \<Longrightarrow> chunks P B (ps @ [p]) (ds @ [d]) (cs @ [c])"
  by (induction P B ps ds cs rule: chunks.induct) auto

lemma chunks_length: "chunks P B ps ds cs \<Longrightarrow> length ps = length cs \<and> length ds = length cs"
  by (induction P B ps ds cs rule: chunks.induct) auto

section \<open>Runs of the operations\<close>

lemma trep_Cons:
  assumes "trep s ps ds (c # cs)"
  obtains p ps' d ds' where "ps = p # ps'" "ds = d # ds'"
  using assms chunks_length[of "pay (ents s)" "bufs s" ps ds "c # cs"]
  by (cases ps; cases ds) (auto simp: trep_def)

lemma trep_Nil: "trep s ps ds [] \<Longrightarrow> ps = []"
  using chunks_length[of "pay (ents s)" "bufs s" ps ds "[]"] by (auto simp: trep_def)

lemma IsEmpty_run: "trep s ps ds cs \<Longrightarrow> List_IsEmpty os s h = (Val (cs = []), s, h)"
  using chunks_length[of "pay (ents s)" "bufs s" ps ds cs]
  by (auto simp: List_IsEmpty_def on_list_def trep_def list_ok_def IsEmpty_dll)

lemma Peek_run: "trep s (p # ps) ds (c # cs) \<Longrightarrow> List_Peek os s h = (Val p, s, h)"
  using IsEmpty_run[of s "p # ps" ds "c # cs" os h]
  by (auto simp: List_Peek_def bnd_Val io_simps assert_that_def on_list_def trep_def list_ok_def Peek_dll)

lemma bnd_IsEmpty: "trep s ps ds cs \<Longrightarrow> bnd List_IsEmpty f os s h = f (cs = []) os s h"
  by (simp add: bnd_Val[of List_IsEmpty, OF IsEmpty_run])

lemma bnd_Peek: "trep s (p # ps) ds (c # cs) \<Longrightarrow> bnd List_Peek f os s h = f p os s h"
  by (simp add: bnd_Val[of List_Peek, OF Peek_run])

lemma bnd_on_list: "f (ents s) = Some (a, e) \<Longrightarrow> bnd (on_list f) k os s h = k a os (s\<lparr>ents := e\<rparr>) h"
  by (simp add: bnd_def on_list_def)

lemma trep_entry:
  assumes "trep s (p # ps) (d # ds) (c # cs)"
  obtains e where "ents s p = Some e"
    "payload e = \<lparr>size = of_nat (length (snd c)), index = of_nat (fst c), data = d\<rparr>"
    "bufs s d = Some (snd c)"
  using assms by (auto simp: trep_def pay_def)

lemma entry_at_run: "ents s p = Some e \<Longrightarrow> bnd (entry_at p) f os s h = f e os s h"
  by (simp add: bnd_def entry_at_def)

lemma bytes_at_run: "bufs s p = Some b \<Longrightarrow> bnd (bytes_at p) f os s h = f b os s h"
  by (simp add: bnd_def bytes_at_def)

lemma put_chunk_run:
  "ents s p = Some e \<Longrightarrow> put_chunk p c os s h = (Val (), s\<lparr>ents := (ents s)(p \<mapsto> e\<lparr>payload := c\<rparr>)\<rparr>, h)"
  by (simp add: put_chunk_def entry_at_run modify_apply)

lemma bnd_put_run:
  "ents s p = Some e \<Longrightarrow>
   bnd (put_chunk p c) f os s h = f () os (s\<lparr>ents := (ents s)(p \<mapsto> e\<lparr>payload := c\<rparr>)\<rparr>) h"
  by (simp add: bnd_Val[of "put_chunk p c", OF put_chunk_run])

lemma trep_put_index:
  assumes t: "trep s (p # ps) (d # ds) (c # cs)" and e: "ents s p = Some e" and j: "j \<le> length (snd c)"
  shows "trep (s\<lparr>ents := (ents s)(p \<mapsto> e\<lparr>payload := \<lparr>size = of_nat (length (snd c)), index = of_nat j, data = d\<rparr>\<rparr>)\<rparr>)
    (p # ps) (d # ds) ((j, snd c) # cs)"
proof -
  let ?x = "\<lparr>size = of_nat (length (snd c)), index = of_nat j, data = d\<rparr> :: chunk"
  let ?h = "(ents s)(p \<mapsto> e\<lparr>payload := ?x\<rparr>)"
  have P: "pay ?h = (pay (ents s))(p \<mapsto> ?x)" by (simp add: heap_simps)
  have l: "list_ok (brk s) ?h (p # ps)"
    using t e dll_payload[of "ents s" head "p # ps" p e ?x] by (auto simp: trep_def list_ok_def)
  have "p \<notin> set ps" using t by (auto simp: trep_def list_ok_def dll_def)
  then have "chunks (pay ?h) (bufs s) ps ds cs = chunks (pay (ents s)) (bufs s) ps ds cs"
    by (intro chunks_cong) (auto simp: P)
  with l t j show ?thesis by (simp add: trep_def P)
qed

lemma CopyTo_run:
  assumes t: "trep s (p # ps) (d # ds) (c # cs)"
    and n: "min (unat n) (length (snd c)) + fst c \<le> length (snd c)" "off + min (unat n) (length (snd c)) \<le> length dst"
  defines "m \<equiv> min (unat n) (length (snd c))"
  obtains s' where
    "CopyTo p dst off n os s h = (Val (of_nat m, overwrite off (take m (drop (fst c) (snd c))) dst), s', h)"
    "trep s' (p # ps) (d # ds) ((fst c + m, snd c) # cs)" "brk s' = brk s"
proof -
  from t obtain e where e: "ents s p = Some e"
    "payload e = \<lparr>size = of_nat (length (snd c)), index = of_nat (fst c), data = d\<rparr>" "bufs s d = Some (snd c)"
    by (rule trep_entry)
  have b: "length (snd c) < 2 ^ 32" "fst c \<le> length (snd c)" using t by (auto simp: trep_def)
  have sz: "min n (of_nat (length (snd c))) = of_nat m"
    using b unat_less_imp_eq_of_nat[of "length (snd c)", where 'a = 32]
    by (auto simp: m_def min_def word_le_nat_alt)
  have mb: "m < 2 ^ 32" "fst c < 2 ^ 32" using b by (auto simp: m_def)
  have um: "unat (of_nat m :: ULONG) = m" "unat (of_nat (fst c) :: ULONG) = fst c"
    by (rule unat_less_imp_eq_of_nat; use mb in simp)+
  have m0: "(of_nat m :: ULONG) = 0 \<longleftrightarrow> m = 0" 
    using um(1) by (cases "m = 0") (auto simp: unat_eq_zero[symmetric] simp del: unat_eq_zero)
  note T = trep_put_index[OF t e(1), of "fst c + m"]
  let ?s = "s\<lparr>ents := (ents s)(p \<mapsto> e\<lparr>payload := \<lparr>size = of_nat (length (snd c)), index = of_nat (fst c + m), data = d\<rparr>\<rparr>)\<rparr>"
  show thesis
  proof (rule that[of ?s])
    show "trep ?s (p # ps) (d # ds) ((fst c + m, snd c) # cs)" using T n by (simp add: m_def)
    show "CopyTo p dst off n os s h =
      (Val (of_nat m, overwrite off (take m (drop (fst c) (snd c))) dst), ?s, h)"
    proof (cases "m = 0")
      case True
      then show ?thesis using sz
        by (simp add: CopyTo_def entry_at_run[OF e(1)] e(2) Let_def bnd_ret andthen_def
            bnd_put_run[OF e(1)] ret_apply)
    next
      case False
      have "fst c + m \<le> length (snd c)" "off + m \<le> length dst" using n by (simp_all add: m_def)
      then show ?thesis using False
        by (simp add: CopyTo_def entry_at_run[OF e(1)] e(2) sz m0 um Let_def bnd_ret bnd_bnd andthen_def
            bytes_at_run[OF e(3)] bnd_put_run[OF e(1)] ret_apply)
    qed
  qed simp
qed

lemma CopyTo_fault:
  assumes t: "trep s (p # ps) (d # ds) (c # cs)" and n: "length (snd c) < min (unat n) (length (snd c)) + fst c" "n \<noteq> 0"
  shows "CopyTo p dst off n os s h = (Fault, s, h)"
proof -
  from t obtain e where e: "ents s p = Some e"
    "payload e = \<lparr>size = of_nat (length (snd c)), index = of_nat (fst c), data = d\<rparr>" "bufs s d = Some (snd c)"
    by (rule trep_entry)
  have b: "length (snd c) < 2 ^ 32" "fst c \<le> length (snd c)" using t by (auto simp: trep_def)
  have u: "unat (of_nat (length (snd c)) :: ULONG) = length (snd c)" "unat (of_nat (fst c) :: ULONG) = fst c"
    by (rule unat_less_imp_eq_of_nat; use b in simp)+
  let ?sz = "min n (of_nat (length (snd c)))"
  have sz: "unat ?sz = min (unat n) (length (snd c))" using u(1) by (auto simp: min_def word_le_nat_alt)
  have "min (unat n) (length (snd c)) \<noteq> 0" using n b(2) by (auto simp: min_def unat_eq_zero split: if_splits)
  then have "?sz \<noteq> 0" using sz by (metis unat_0)
  then show ?thesis using n(1) sz
    by (simp add: CopyTo_def entry_at_run[OF e(1)] e(2) u Let_def bnd_bnd bnd_fault fault_apply
        bytes_at_run[OF e(3)] add.commute)
qed

lemma DataLeft_run:
  assumes t: "trep s (p # ps) (d # ds) (c # cs)"
  shows "bnd (DataLeft p) f os s h = f (of_nat (length (snd c)) - of_nat (fst c)) os s h"
proof -
  from t obtain e where e: "ents s p = Some e"
    "payload e = \<lparr>size = of_nat (length (snd c)), index = of_nat (fst c), data = d\<rparr>" "bufs s d = Some (snd c)"
    by (rule trep_entry)
  show ?thesis by (simp add: DataLeft_def bnd_bnd entry_at_run[OF e(1)] e(2) bnd_ret)
qed

lemma DataLeft_zero:
  assumes t: "trep s (p # ps) (d # ds) (c # cs)"
  shows "of_nat (length (snd c)) - of_nat (fst c) = (0 :: ULONG) \<longleftrightarrow> fst c = length (snd c)"
proof -
  have b: "length (snd c) < 2 ^ 32" "fst c \<le> length (snd c)" using t by (auto simp: trep_def)
  have u: "unat (of_nat (length (snd c)) :: ULONG) = length (snd c)" "unat (of_nat (fst c) :: ULONG) = fst c"
    by (rule unat_less_imp_eq_of_nat; use b in simp)+
  show ?thesis using u by (metis eq_iff_diff_eq_0)
qed

lemma delete_entry_run:
  assumes e: "ents s p = Some e" "data (payload e) = d" "d \<noteq> 0" and b: "bufs s d = Some bs"
  shows "delete_entry p os s h = (Val (), s\<lparr>ents := (ents s)(p := None), bufs := (bufs s)(d := None)\<rparr>, h)"
proof -
  let ?s = "s\<lparr>bufs := (bufs s)(d := None)\<rparr>"
  have "ents ?s p = Some e" using e(1) by simp
  note put = put_chunk_run[OF this] bnd_put_run[OF this]
  show ?thesis using e(2,3)
    by (simp add: delete_entry_def ListEntry_dtor_def andthen_def whenM_def delete_bytes_def bnd_bnd
        entry_at_run[OF e(1)] bytes_at_run[OF b] bnd_modify_apply put modify_apply)
qed

lemma RemoveHead_run:
  assumes t: "trep s (p # ps) (d # ds) (c # cs)"
  obtains s' where "List_RemoveHead os s h = (Val (), s', h)" "trep s' ps ds cs" "brk s' = brk s"
proof -
  from t have ok: "list_ok (brk s) (ents s) (p # ps)" and ch: "chunks (pay (ents s)) (bufs s) (p # ps) (d # ds) (c # cs)"
    and ds: "distinct (d # ds)" "dom (bufs s) = set (d # ds)" "\<forall>d \<in> set (d # ds). 0 < d \<and> d < brk s"
    by (simp_all add: trep_def)
  from RemoveHead_ok[OF ok] obtain h' where h': "RemoveHead_links head (ents s) = Some (p, h')"
    "list_ok (brk s) (h'(p := None)) ps" "pay h' = pay (ents s)" "dom h' = dom (ents s)" by blast
  have "p \<in> dom h'" using h'(4) ok by (simp add: list_ok_def)
  then obtain e where e: "h' p = Some e" by blast
  then have "pay h' p = Some (payload e)" by (simp add: pay_def)
  with h'(3) ch have "payload e = \<lparr>size = of_nat (length (snd c)), index = of_nat (fst c), data = d\<rparr>"
    and bd: "bufs s d = Some (snd c)" by auto
  then have pd: "data (payload e) = d" by simp
  let ?s1 = "s\<lparr>ents := h'\<rparr>"
  let ?s = "s\<lparr>ents := h'(p := None), bufs := (bufs s)(d := None)\<rparr>"
  have del: "delete_entry p os ?s1 h = (Val (), ?s, h)"
    using delete_entry_run[of ?s1 p e d "snd c" os h] e pd bd ds by simp
  have run: "List_RemoveHead os s h = (Val (), ?s, h)"
    by (simp add: List_RemoveHead_def bnd_IsEmpty[OF t] andthen_def assert_that_def bnd_ret
        bnd_on_list[of "RemoveHead_links head", OF h'(1)] del)
  have "p \<notin> set ps" "d \<notin> set ds" using ok ds by (auto simp: list_ok_def dll_def)
  then have "chunks (pay (h'(p := None))) ((bufs s)(d := None)) ps ds cs = chunks (pay (ents s)) (bufs s) ps ds cs"
    by (intro chunks_cong) (auto simp: heap_simps h'(3))
  then have "chunks (pay (h'(p := None))) ((bufs s)(d := None)) ps ds cs" using ch by simp
  moreover have "dom ((bufs s)(d := None)) = set ds" using ds by auto
  ultimately have "trep ?s ps ds cs" using h'(2) ds by (simp add: trep_def)
  with run show thesis by (intro that[of ?s]) simp_all
qed

text \<open>One iteration of the loop of \<open>ReadData\<close>, and the loop.\<close>

lemma ReadData_step:
  assumes t: "trep s (p # ps) (d # ds) (c # cs)" and ix: "ix < dataLength"
    and m: "m = min (unat (dataLength - ix)) (length (snd c))" "m + fst c \<le> length (snd c)"
    and dst: "unat dataLength \<le> length dst"
  obtains s' ps' ds' where
    "ReadData_loop (Suc n) dataLength ix dst os s h =
       ReadData_loop n dataLength (ix + of_nat m) (overwrite (unat ix) (take m (drop (fst c) (snd c))) dst) os s' h"
    "trep s' ps' ds' (if fst c + m = length (snd c) then cs else (fst c + m, snd c) # cs)" "brk s' = brk s"
proof -
  have "unat (dataLength - ix) = unat dataLength - unat ix" "unat ix < unat dataLength"
    using ix unat_sub_no_wrap[of ix dataLength] by (simp_all add: word_less_nat_alt)
  then have off: "unat ix + min (unat (dataLength - ix)) (length (snd c)) \<le> length dst" using dst by simp
  obtain s1 where s1: "CopyTo p dst (unat ix) (dataLength - ix) os s h =
      (Val (of_nat m, overwrite (unat ix) (take m (drop (fst c) (snd c))) dst), s1, h)"
    "trep s1 (p # ps) (d # ds) ((fst c + m, snd c) # cs)" "brk s1 = brk s"
    by (rule CopyTo_run[OF t _ off, of os h]) (use m in auto)
  let ?w = "of_nat (length (snd c)) - of_nat (fst c + m) :: ULONG"
  have left: "?w = 0 \<longleftrightarrow> fst c + m = length (snd c)" using DataLeft_zero[OF s1(2)] by simp
  have run: "ReadData_loop (Suc n) dataLength ix dst os s h =
      bnd (whenM (?w = 0) List_RemoveHead) (\<lambda>_. ReadData_loop n dataLength (ix + of_nat m)
        (overwrite (unat ix) (take m (drop (fst c) (snd c))) dst)) os s1 h"
    using ix
    by (simp add: andthen_def bnd_IsEmpty[OF t] bnd_Peek[OF t] bnd_Val[of "CopyTo p dst (unat ix) (dataLength - ix)", OF s1(1)]
      DataLeft_run[OF s1(2)])
  show thesis
  proof (cases "fst c + m = length (snd c)")
    case True
    obtain s2 where s2: "List_RemoveHead os s1 h = (Val (), s2, h)" "trep s2 ps ds cs" "brk s2 = brk s1"
      by (rule RemoveHead_run[OF s1(2)])
    have "?w = 0" using left True by blast
    then have "whenM (?w = 0) List_RemoveHead = List_RemoveHead" by (simp add: whenM_def)
    with run s2 True s1(3) show thesis by (intro that[of s2 ps ds]) (simp_all add: bnd_Val)
  next
    case False
    then have "?w \<noteq> 0" using left by blast
    then have "whenM (?w = 0) List_RemoveHead = ret ()" by (simp add: whenM_def)
    with run s1 False show thesis by (intro that[of s1 "p # ps" "d # ds"]) (simp_all add: bnd_ret)
  qed
qed

text \<open>When a read of \<open>n\<close> bytes stays inside the buffers: only the oldest entry may be partly read, and then \<open>n\<close> fits in its rest.\<close>

definition well_read :: "content \<Rightarrow> bool" where
  "well_read cs \<longleftrightarrow> (\<forall>c \<in> set (tl cs). fst c = 0)"

definition readable :: "nat \<Rightarrow> content \<Rightarrow> bool" where
  "readable n cs = (case cs of [] \<Rightarrow> True | c # _ \<Rightarrow> fst c = 0 \<or> n \<le> length (snd c) - fst c)"

lemma after_nonzero:
  "0 < n \<Longrightarrow> after n (c # cs) = (if n < length (snd c) - fst c then (fst c + n, snd c) # cs
     else after (n - (length (snd c) - fst c)) cs)"
  by (cases n) auto

lemma ReadData_loop_run:
  "trep s ps ds cs \<Longrightarrow> well_read cs \<Longrightarrow> readable (unat dataLength - unat ix) cs \<Longrightarrow> ix \<le> dataLength \<Longrightarrow>
   unat dataLength \<le> length dst \<Longrightarrow> length cs < fuel \<Longrightarrow>
   \<exists>s' ix' ps' ds'. ReadData_loop fuel dataLength ix dst os s h =
       (Val (ix', overwrite (unat ix) (take (unat dataLength - unat ix) (stream cs)) dst), s', h) \<and>
     trep s' ps' ds' (after (unat dataLength - unat ix) cs) \<and>
     unat ix' = unat ix + min (unat dataLength - unat ix) (length (stream cs))"
proof (induction cs arbitrary: s ps ds ix dst fuel)
  case Nil
  then obtain n where "fuel = Suc n" by (cases fuel) auto
  then have "ReadData_loop fuel dataLength ix dst os s h = (Val (ix, dst), s, h)"
    by (simp add: bnd_IsEmpty[OF Nil.prems(1)] ret_apply)
  moreover have "after (unat dataLength - unat ix) [] = []"
    by (cases "unat dataLength - unat ix") simp_all
  ultimately show ?case using Nil.prems(1) by auto
next
  case (Cons c cs)
  define n where "n = unat dataLength - unat ix"
  obtain f where f: "fuel = Suc f" "length cs < f" using Cons.prems(6) by (cases fuel) auto
  obtain p ps' d ds' where pd: "ps = p # ps'" "ds = d # ds'" by (rule trep_Cons[OF Cons.prems(1)])
  note t = Cons.prems(1)[unfolded pd]
  have z: "\<forall>c \<in> set cs. fst c = 0" using Cons.prems(2) by (simp add: well_read_def)
  have le: "fst c \<le> length (snd c)" using t by (simp add: trep_def)
  show ?case
  proof (cases "n = 0")
    case True
    then have "\<not> ix < dataLength" by (simp add: n_def word_less_nat_alt)
    then have "ReadData_loop fuel dataLength ix dst os s h = (Val (ix, dst), s, h)"
      by (simp add: f bnd_IsEmpty[OF t] ret_apply)
    with True t pd show ?thesis by (auto simp flip: n_def)
  next
    case False
    then have ix: "ix < dataLength" by (simp add: n_def word_less_nat_alt)
    have n: "unat (dataLength - ix) = n" using ix unat_sub_no_wrap[of ix dataLength]
      by (simp add: n_def word_less_nat_alt)
    define m where "m = min n (length (snd c))"
    have m: "m = min n (length (snd c) - fst c)" "m + fst c \<le> length (snd c)"
      using Cons.prems(3) le by (auto simp: readable_def m_def simp flip: n_def)
    obtain s1 ps1 ds1 where s1: "ReadData_loop (Suc f) dataLength ix dst os s h =
         ReadData_loop f dataLength (ix + of_nat m) (overwrite (unat ix) (take m (drop (fst c) (snd c))) dst) os s1 h"
      "trep s1 ps1 ds1 (if fst c + m = length (snd c) then cs else (fst c + m, snd c) # cs)"
      by (rule ReadData_step[OF t ix _ m(2) Cons.prems(5), of f os h]) (simp_all add: n m_def)
    have nb: "unat ix + n = unat dataLength" using ix by (simp add: n_def word_less_nat_alt)
    have mb: "m \<le> n" by (simp add: m_def)
    have um: "unat (of_nat m :: ULONG) = m"
      by (rule unat_less_imp_eq_of_nat) (use mb nb unat_bound[of dataLength] in simp)
    have uix: "unat (ix + of_nat m) = unat ix + m"
      using unat_add_no_wrap[of ix "of_nat m"] um mb nb unat_bound[of dataLength] by simp
    have ix': "ix + of_nat m \<le> dataLength" using uix mb nb by (simp add: word_le_nat_alt)
    let ?x = "take m (drop (fst c) (snd c))"
    have lx: "length ?x = m" using m by simp
    have nm: "unat dataLength - unat (ix + of_nat m) = n - m" using uix nb by simp
    have ovl: "length (overwrite (unat ix) ?x dst) = length dst"
      by (rule length_overwrite) (use lx mb nb Cons.prems(5) in simp)
    show ?thesis
    proof (cases "n < length (snd c) - fst c")
      case True
      then have mn: "m = n" "fst c + m \<noteq> length (snd c)" using m by auto
      then have e: "\<not> ix + of_nat m < dataLength" using uix nb by (simp add: word_less_nat_alt)
      obtain f' where "f = Suc f'" using f(2) by (cases f) auto
      then have "ReadData_loop fuel dataLength ix dst os s h = (Val (ix + of_nat m, overwrite (unat ix) ?x dst), s1, h)"
        using e s1 by (simp add: f bnd_IsEmpty[OF s1(2)] ret_apply)
      moreover have "take n (stream (c # cs)) = ?x" using True mn by simp
      moreover have "after n (c # cs) = (fst c + n, snd c) # cs" using True False by (simp add: after_nonzero)
      moreover have "min n (length (stream (c # cs))) = n" using True by simp
      ultimately show ?thesis using s1(2) mn uix by (auto simp flip: n_def)
    next
      case big: False
      then have ml: "m = length (snd c) - fst c" "fst c + m = length (snd c)" using m le by auto
      then have xx: "?x = drop (fst c) (snd c)" by simp
      have rd: "well_read cs" "readable (unat dataLength - unat (ix + of_nat m)) cs"
        using z by (cases cs; simp add: well_read_def readable_def)+
      from Cons.IH[OF _ rd ix' _ f(2), of s1 ps1 ds1 "overwrite (unat ix) ?x dst"] s1(2) ml ovl Cons.prems(5)
      obtain s' ix2 ps2 ds2 where r: "ReadData_loop f dataLength (ix + of_nat m) (overwrite (unat ix) ?x dst) os s1 h =
         (Val (ix2, overwrite (unat ix + m) (take (n - m) (stream cs)) (overwrite (unat ix) ?x dst)), s', h)"
        "trep s' ps2 ds2 (after (n - m) cs)" "unat ix2 = unat ix + m + min (n - m) (length (stream cs))"
        using nm uix by auto
      have "overwrite (unat ix + m) (take (n - m) (stream cs)) (overwrite (unat ix) ?x dst) =
          overwrite (unat ix) (?x @ take (n - m) (stream cs)) dst"
        using overwrite_append[of "unat ix" ?x "take (n - m) (stream cs)" dst] lx mb nb Cons.prems(5) by simp
      moreover have "?x @ take (n - m) (stream cs) = take n (stream (c # cs))" using xx ml mb by simp
      moreover have "after n (c # cs) = after (n - m) cs" using False big ml by (simp add: after_nonzero)
      moreover have "min n (length (stream (c # cs))) = m + min (n - m) (length (stream cs))"
        using ml mb by simp
      ultimately show ?thesis using r s1(1) f(1) by (auto simp flip: n_def)
    qed
  qed
qed

section \<open>Properties\<close>

text \<open>The constructor gives an empty transport.\<close>

definition t0 :: tstate where
  "t0 = \<lparr>ents = Map.empty, bufs = Map.empty, brk = 0\<rparr>"

lemma Transport_ctor_holds: "holds (state_of (Transport_ctor os t0 h)) []"
  using list_new_ok[of "\<lparr>size = 0, index = 0, data = 0\<rparr> :: chunk"]
  by (auto simp: Transport_ctor_def io_simps holds_def trep_def intro!: exI[of _ "[]"])

lemma list_ok_mono: "list_ok b h ps \<Longrightarrow> b \<le> b' \<Longrightarrow> list_ok b' h ps"
  by (auto simp: list_ok_def)

lemma WriteData_stored:
  assumes t: "trep s ps ds cs" and n: "unat n \<le> length bytes"
    and a: "rv (os h NewEntry) \<noteq> 0" "rv (os (h @ [(NewEntry, os h NewEntry)]) (NewBytes n)) \<noteq> 0"
  shows "\<exists>s' h'. WriteData (Some bytes) n os s h = (Val S_OK, s', h') \<and>
    holds s' (cs @ [(0, take (unat n) bytes)]) \<and>
    calls h' = calls h @ [NewEntry, NewBytes n, EnterCriticalSection, LeaveCriticalSection]"
proof -
  let ?b = "brk s"
  let ?x = "\<lparr>size = n, index = 0, data = Suc ?b\<rparr> :: chunk"
  let ?bs = "take (unat n) bytes"
  let ?e = "ListEntry_ctor\<lparr>payload := ?x\<rparr>"
  from t have ok: "list_ok ?b (ents s) ps" and ch: "chunks (pay (ents s)) (bufs s) ps ds cs"
    and ds: "distinct ds" "dom (bufs s) = set ds" "\<forall>d \<in> set ds. 0 < d \<and> d < ?b"
    by (simp_all add: trep_def)
  have b0: "?b \<noteq> 0" using ok by (auto simp: list_ok_def)
  from AppendTail_ok[OF ok, of ?e] obtain h' where h': "AppendTail head ?b ((ents s)(?b \<mapsto> ?e)) = Some h'"
    "list_ok (Suc ?b) h' (ps @ [?b])" "pay h' = (pay (ents s))(?b \<mapsto> ?x)" by auto
  let ?s = "s\<lparr>ents := h', bufs := (bufs s)(Suc ?b \<mapsto> ?bs), brk := Suc (Suc ?b)\<rparr>"
  have put: "bnd (put_chunk ?b c) f os s1 hh = f () os (s1\<lparr>ents := (ents s1)(?b \<mapsto> e\<lparr>payload := c\<rparr>)\<rparr>) hh"
    if "ents s1 ?b = Some e" for c f s1 e hh using that by (rule bnd_put_run)
  have app: "bnd (List_AppendTail ?b) f os s1 hh = f () os (s1\<lparr>ents := h'\<rparr>) hh"
    if "ents s1 = (ents s)(?b \<mapsto> ?e)" for f s1 hh
    using that h'(1) by (simp add: List_AppendTail_def bnd_on_list)
  have np: "?b \<notin> set ps" "Suc ?b \<notin> set ds" using ok ds by (auto simp: list_ok_def)
  have run: "\<exists>h2. WriteData (Some bytes) n os s h = (Val S_OK, ?s, h2) \<and>
    calls h2 = calls h @ [NewEntry, NewBytes n, EnterCriticalSection, LeaveCriticalSection]"
    using a n b0
    by (simp add: WriteData_def new_entry_def new_bytes_def io_simps Attach_def put app WriteData_quit_def)
  have "chunks (pay h') ((bufs s)(Suc ?b \<mapsto> ?bs)) ps ds cs = chunks (pay (ents s)) (bufs s) ps ds cs"
    by (rule chunks_cong) (use np h'(3) in auto)
  then have ch1: "chunks (pay h') (bufs ?s) ps ds cs" using ch by simp
  have len: "length ?bs = unat n" using n by simp
  have "chunks (pay h') (bufs ?s) [?b] [Suc ?b] [(0, ?bs)]"
    using h'(3) len unat_bound[of n] by simp
  from chunks_snoc[OF ch1 this] list_ok_mono[OF h'(2), of "Suc (Suc ?b)"] ds np
  have "trep ?s (ps @ [?b]) (ds @ [Suc ?b]) (cs @ [(0, ?bs)])" by (auto simp: trep_def)
  then have "holds ?s (cs @ [(0, ?bs)])" unfolding holds_def by blast
  with run show ?thesis by blast
qed

lemma trep_unchanged_heap:
  assumes t: "trep s ps ds cs" and "ents s' = ents s" "bufs s' = bufs s" "brk s \<le> brk s'"
  shows "trep s' ps ds cs"
  using assms list_ok_mono[of "brk s" "ents s" ps "brk s'"] by (auto simp: trep_def)

lemma WriteData_refused:
  assumes t: "trep s ps ds cs"
    and a: "rv (os h NewEntry) = 0 \<or> rv (os (h @ [(NewEntry, os h NewEntry)]) (NewBytes n)) = 0"
  shows "\<exists>s' h'. WriteData (Some bytes) n os s h = (Val E_OUTOFMEMORY, s', h') \<and> holds s' cs"
proof (cases "rv (os h NewEntry) = 0")
  case True
  then have "WriteData (Some bytes) n os s h = (Val E_OUTOFMEMORY, s, h @ [(NewEntry, os h NewEntry)])"
    by (simp add: WriteData_def new_entry_def io_simps WriteData_quit_def)
  with t show ?thesis by (auto simp: holds_def)
next
  case False
  let ?b = "brk s"
  let ?s1 = "s\<lparr>ents := (ents s)(?b \<mapsto> ListEntry_ctor), brk := Suc ?b\<rparr>"
  let ?s = "s\<lparr>ents := (ents s)(?b := None), brk := Suc ?b\<rparr>"
  from t have ok: "list_ok ?b (ents s) ps" by (simp add: trep_def)
  then have b: "?b \<noteq> 0" "?b \<notin> dom (ents s)" by (auto simp: list_ok_def)
  then have same: "(ents s)(?b := None) = ents s" by (auto simp: fun_upd_idem domIff)
  have e: "ents ?s1 ?b = Some ListEntry_ctor" by simp
  have pl: "data (payload ListEntry_ctor) = 0" by (simp add: ListEntry_ctor_def)
  have del: "bnd (delete_entry ?b) f os ?s1 hh = f () os (?s1\<lparr>ents := (ents s)(?b := None)\<rparr>) hh" for f hh
    by (simp add: delete_entry_def ListEntry_dtor_def andthen_def bnd_bnd entry_at_run[OF e] whenM_def
        pl bnd_ret bnd_modify_apply)
  have "\<exists>h'. WriteData (Some bytes) n os s h = (Val E_OUTOFMEMORY, ?s, h')"
    using False a b(1)
    by (simp add: WriteData_def new_entry_def new_bytes_def io_simps WriteData_quit_def del)
  moreover have "trep ?s ps ds cs" by (rule trep_unchanged_heap[OF t]) (simp_all add: same)
  ultimately show ?thesis by (auto simp: holds_def)
qed

text \<open>
  C6: \<open>WriteData\<close> appends exactly the first \<open>dataLength\<close> bytes of the caller's buffer as one entry
  when both allocations are granted; when either is refused it returns \<open>E_OUTOFMEMORY\<close> and leaves
  the content as it was.  Neither path faults or leaks: afterwards the two heaps hold the entries
  and buffers of the content and nothing else.
\<close>

theorem transport_write:
  assumes "holds s cs" and "unat n \<le> length bytes"
  shows "\<exists>s' h'. WriteData (Some bytes) n os s h =
      (Val (if rv (os h NewEntry) \<noteq> 0 \<and> rv (os (h @ [(NewEntry, os h NewEntry)]) (NewBytes n)) \<noteq> 0
            then S_OK else E_OUTOFMEMORY), s', h') \<and>
    holds s' (if rv (os h NewEntry) \<noteq> 0 \<and> rv (os (h @ [(NewEntry, os h NewEntry)]) (NewBytes n)) \<noteq> 0
              then cs @ [(0, take (unat n) bytes)] else cs)"
proof -
  from assms(1) obtain ps ds where t: "trep s ps ds cs" by (auto simp: holds_def)
  show ?thesis using WriteData_stored[OF t assms(2), of os h] WriteData_refused[OF t, of os h n bytes] by auto
qed

text \<open>
  The state a transport reaches when the messages \<open>ms\<close> are written to a new one and every allocation is granted.
\<close>

definition written :: "BYTE list list \<Rightarrow> tstate" where
  "written ms = fold (\<lambda>m s. state_of (WriteData (Some m) (of_nat (length m)) (\<lambda>_ _. ok_resp) s [])) ms
     (state_of (Transport_ctor (\<lambda>_ _. ok_resp) t0 []))"

lemma written_snoc: "written (ms @ [m]) =
    state_of (WriteData (Some m) (of_nat (length m)) (\<lambda>_ _. ok_resp) (written ms) [])"
  by (simp add: written_def)

lemma written_holds: "\<forall>m \<in> set ms. length m < 2 ^ 32 \<Longrightarrow> holds (written ms) (map (Pair 0) ms)"
proof (induction ms rule: rev_induct)
  case Nil
  then show ?case by (simp add: written_def Transport_ctor_holds)
next
  case (snoc m ms)
  then obtain ps ds where t: "trep (written ms) ps ds (map (Pair 0) ms)" by (auto simp: holds_def)
  have u: "unat (of_nat (length m) :: ULONG) = length m"
    by (rule unat_less_imp_eq_of_nat) (use snoc.prems in simp)
  from WriteData_stored[OF t, of "of_nat (length m)" m "\<lambda>_ _. ok_resp" "[]"] u show ?case
    by (auto simp: written_snoc)
qed

theorem transport_write_witness:
  "\<exists>s' h'. WriteData (Some [1, 2, 3]) 2 (\<lambda>_ _. ok_resp) (written [[7]]) [] = (Val S_OK, s', h') \<and>
     holds s' [(0, [7]), (0, [1, 2])]"
  using transport_write[OF written_holds[of "[[7]]"], of 2 "[1, 2, 3]" "\<lambda>_ _. ok_resp" "[]"] by simp

lemma ReadData_run:
  assumes "holds s cs" and "well_read cs" and "readable (unat n) cs"
    and "unat n \<le> length dst" and "length cs < fuel"
  shows "\<exists>s' h'. ReadData fuel n (Some dst) os s h =
      (if unat n = 0 \<or> stream cs = [] then Halted 3
       else Val (S_OK, of_nat (min (unat n) (length (stream cs))), overwrite 0 (take (unat n) (stream cs)) dst), s', h') \<and>
    holds s' (after (unat n) cs) \<and> stream (after (unat n) cs) = drop (unat n) (stream cs) \<and>
    calls h' = calls h @ [EnterCriticalSection, LeaveCriticalSection]"
proof -
  from assms(1) obtain ps ds where t: "trep s ps ds cs" by (auto simp: holds_def)
  let ?h = "h @ [(EnterCriticalSection, os h EnterCriticalSection)]"
  from ReadData_loop_run[OF t assms(2), of n 0 dst fuel os ?h] assms(3-5)
  obtain s' ix ps' ds' where r: "ReadData_loop fuel n 0 dst os s ?h =
      (Val (ix, overwrite 0 (take (unat n) (stream cs)) dst), s', ?h)"
    "trep s' ps' ds' (after (unat n) cs)" "unat ix = min (unat n) (length (stream cs))" by auto
  have ix: "ix = of_nat (min (unat n) (length (stream cs)))" by (simp flip: r(3))
  have z: "ix = 0 \<longleftrightarrow> unat n = 0 \<or> stream cs = []"
    using r(3) by (auto simp: unat_eq_zero[symmetric] min_def simp del: unat_eq_zero split: if_splits)
  have "ReadData fuel n (Some dst) os s h =
      (if ix = 0 then Halted 3 else Val (S_OK, ix, overwrite 0 (take (unat n) (stream cs)) dst), s',
       ?h @ [(LeaveCriticalSection, os ?h LeaveCriticalSection)])"
    by (simp add: ReadData_def io_simps bnd_Val[of "ReadData_loop fuel n 0 dst", OF r(1)] assert_that_def)
  moreover have "holds s' (after (unat n) cs)" unfolding holds_def using r(2) by blast
  ultimately show ?thesis using z ix by (auto simp: stream_after)
qed



text \<open>
  C8: A read that asks for more than the rest of a partly read oldest entry is out of bounds:
  \<open>CopyTo\<close> bounds the copy by the size of the whole entry, not by what is left of it, and so reads
  past the end of its buffer.
\<close>

theorem transport_read_past_entry:
  assumes "holds s ((i, bs) # cs)" and "0 < i" and "length bs - i < unat n" and "0 < fuel"
  shows "outcome_of (ReadData fuel n (Some dst) os s h) = Fault"
proof -
  from assms(1) obtain ps ds where t0: "trep s ps ds ((i, bs) # cs)" by (auto simp: holds_def)
  then obtain p ps' d ds' where t: "trep s (p # ps') (d # ds') ((i, bs) # cs)" by (metis trep_Cons)
  let ?h = "h @ [(EnterCriticalSection, os h EnterCriticalSection)]"
  obtain f where f: "fuel = Suc f" using assms(4) by (cases fuel) auto
  have n: "0 < n" using assms(3) by (simp add: word_less_nat_alt)
  have i: "i \<le> length bs" using t by (simp add: trep_def)
  have "CopyTo p dst (unat (0::ULONG)) (n - 0) os s ?h = (Fault, s, ?h)"
    by (rule CopyTo_fault[OF t]) (use assms(2,3) i n in auto)
  then have c: "CopyTo p dst 0 n os s ?h = (Fault, s, ?h)" by simp
  have "ReadData_loop fuel n 0 dst os s ?h = (Fault, s, ?h)"
    using n by (simp add: f bnd_IsEmpty[OF t] bnd_Peek[OF t] bnd_Fault[of "CopyTo p dst 0 n", OF c])
  note l = bnd_Fault[of "ReadData_loop fuel n 0 dst", OF this]
  show ?thesis by (simp add: ReadData_def io_simps l)
qed

theorem transport_read_past_entry_witness:
  "\<exists>s1 h1. ReadData 2 2 (Some [0, 0]) (\<lambda>_ _. ok_resp) (written [[1, 2, 3]]) [] = (Val (S_OK, 2, [1, 2]), s1, h1) \<and>
     outcome_of (ReadData 2 2 (Some [0, 0]) (\<lambda>_ _. ok_resp) s1 h1) = Fault"
proof -
  have "after 2 [(0, [1, 2, 3])] = [(2, [1, 2, 3 :: BYTE])]" by code_simp
  moreover have "overwrite 0 (take 2 (stream [(0, [1, 2, 3])])) [0, 0] = [1, 2]" by code_simp
  ultimately obtain s1 h1 where
    "ReadData 2 2 (Some [0, 0]) (\<lambda>_ _. ok_resp) (written [[1, 2, 3]]) [] = (Val (S_OK, 2, [1, 2]), s1, h1)"
    "holds s1 [(2, [1, 2, 3])]"
    using ReadData_run[OF written_holds[of "[[1, 2, 3]]"], of 2 "[0, 0]" 2 "\<lambda>_ _. ok_resp" "[]"]
    by (auto simp: well_read_def readable_def)
  then show ?thesis using transport_read_past_entry[of s1 2 "[1, 2, 3]" "[]" 2 2 "[0, 0]" "\<lambda>_ _. ok_resp" h1] by auto
qed

end
