(* ===== verification/Effects.thy ===== *)
theory Effects
  imports Raii
begin

text \<open>
  What a computation appends to the history, whatever the system answers: \<open>appends m Q\<close> and its rules, by
  which a straight-line program is reduced to statements about the calls of each of its paths.  The locale
  \<open>handles_api\<close> follows the resources of a list of calls when one call may hand out several.
\<close>

definition appends :: "('s, 'c, 'e, 'a) io \<Rightarrow> (('e, 'a) outcome \<Rightarrow> 'c history \<Rightarrow> bool) \<Rightarrow> bool" where
  "appends m Q \<longleftrightarrow> (\<forall>os s h. \<exists>oc s' g. m os s h = (oc, s', h @ g) \<and> Q oc g)"

named_theorems appends_intro \<open>rules that run a computation by its calls\<close>

lemma appendsD: "appends m Q \<Longrightarrow> \<exists>oc s' g. m os s h = (oc, s', h @ g) \<and> Q oc g"
  by (simp add: appends_def)

lemma appends_Nil: "appends m Q \<Longrightarrow> Q (outcome_of (m os s [])) (history_of (m os s []))"
  unfolding appends_def by (metis append_Nil projections(1,3))

lemma appends_mono: "appends m R \<Longrightarrow> (\<And>oc g. R oc g \<Longrightarrow> Q oc g) \<Longrightarrow> appends m Q"
  unfolding appends_def by blast

lemma appends_ret [appends_intro]: "Q (Val a) [] \<Longrightarrow> appends (ret a) Q"
  by (simp add: appends_def ret_def)

lemma appends_throw [appends_intro]: "Q (Exn e) [] \<Longrightarrow> appends (throw e) Q"
  by (simp add: appends_def throw_def)

lemma appends_fault [appends_intro]: "Q Fault [] \<Longrightarrow> appends fault Q"
  by (simp add: appends_def fault_def)

lemma appends_halt [appends_intro]: "Q (Halted n) [] \<Longrightarrow> appends (halt n) Q"
  by (simp add: appends_def halt_def)

lemma appends_running [appends_intro]: "Q Running [] \<Longrightarrow> appends running Q"
  by (simp add: appends_def running_def)

lemma appends_bnd_call [appends_intro]:
  assumes "\<And>r. appends (f r) (\<lambda>oc g. Q oc ((c, r) # g))"
  shows "appends (bnd (call c) f) Q"
  unfolding appends_def
proof (intro allI)
  fix os s h
  show "\<exists>oc s' g. bnd (call c) f os s h = (oc, s', h @ g) \<and> Q oc g"
    using appendsD[OF assms, of "os h c" os s "h @ [(c, os h c)]"] by (fastforce simp: bnd_call_apply)
qed

lemma appends_do_call [appends_intro]: "(\<And>r. Q (Val ()) [(c, r)]) \<Longrightarrow> appends (do_call c) Q"
  by (simp add: appends_def do_call_def bnd_call_apply ret_apply)

lemma appends_andthen_call [appends_intro]:
  "(\<And>r. appends k (\<lambda>oc g. Q oc ((c, r) # g))) \<Longrightarrow> appends (andthen (do_call c) k) Q"
  unfolding andthen_def do_call_def bnd_bnd bnd_ret by (rule appends_bnd_call)

lemma appends_andthen_when [appends_intro]:
  "(b \<Longrightarrow> appends (andthen m k) Q) \<Longrightarrow> (\<not> b \<Longrightarrow> appends k Q) \<Longrightarrow> appends (andthen (whenM b m) k) Q"
  by (cases b) (simp_all add: whenM_def andthen_def bnd_ret)

lemma appends_when [appends_intro]:
  "(b \<Longrightarrow> appends m Q) \<Longrightarrow> (\<not> b \<Longrightarrow> Q (Val ()) []) \<Longrightarrow> appends (whenM b m) Q"
  by (simp add: whenM_def appends_ret)

lemma appends_if [appends_intro]:
  "(b \<Longrightarrow> appends m Q) \<Longrightarrow> (\<not> b \<Longrightarrow> appends m' Q) \<Longrightarrow> appends (if b then m else m') Q"
  by simp

lemma appends_option [appends_intro]:
  "(x = None \<Longrightarrow> appends m Q) \<Longrightarrow> (\<And>a. x = Some a \<Longrightarrow> appends (f a) Q) \<Longrightarrow>
   appends (case x of None \<Rightarrow> m | Some a \<Rightarrow> f a) Q"
  by (cases x) simp_all

lemma appends_list [appends_intro]:
  "(xs = [] \<Longrightarrow> appends m Q) \<Longrightarrow> (\<And>y ys. xs = y # ys \<Longrightarrow> appends (f y ys) Q) \<Longrightarrow>
   appends (case xs of [] \<Rightarrow> m | y # ys \<Rightarrow> f y ys) Q"
  by (cases xs) simp_all

lemma appends_andthen_assoc [appends_intro]:
  "appends (andthen m (andthen k l)) Q \<Longrightarrow> appends (andthen (andthen m k) l) Q"
  by (simp add: andthen_def bnd_bnd)

text \<open>Sequencing: what the first part leaves when it returns, and when it does not.\<close>

lemma appends_bnd:
  assumes m: "appends m R" and f: "\<And>a g. R (Val a) g \<Longrightarrow> appends (f a) (\<lambda>oc g'. Q oc (g @ g'))"
    and e: "\<And>e g. R (Exn e) g \<Longrightarrow> Q (Exn e) g" "\<And>n g. R (Halted n) g \<Longrightarrow> Q (Halted n) g"
      "\<And>g. R Fault g \<Longrightarrow> Q Fault g" "\<And>g. R Running g \<Longrightarrow> Q Running g"
  shows "appends (bnd m f) Q"
  unfolding appends_def
proof (intro allI)
  fix os s h
  obtain oc s1 g where r: "m os s h = (oc, s1, h @ g)" and R: "R oc g" using appendsD[OF m] by blast
  show "\<exists>oc s' g. bnd m f os s h = (oc, s', h @ g) \<and> Q oc g"
  proof (cases oc)
    case (Val a)
    then have "R (Val a) g" using R by simp
    from appendsD[OF f[OF this], of os s1 "h @ g"] show ?thesis using r Val by (auto simp: bnd_def)
  qed (use r R e in \<open>auto simp: bnd_def\<close>)
qed

lemma appends_bnd_Val:
  assumes "appends m (\<lambda>oc g. \<exists>a. oc = Val a \<and> R a g)" "\<And>a g. R a g \<Longrightarrow> appends (f a) (\<lambda>oc g'. Q oc (g @ g'))"
  shows "appends (bnd m f) Q"
  by (rule appends_bnd[OF assms(1)]) (use assms(2) in auto)

lemma appends_andthen:
  assumes "appends m R" "\<And>g. R (Val ()) g \<Longrightarrow> appends k (\<lambda>oc g'. Q oc (g @ g'))"
    and "\<And>e g. R (Exn e) g \<Longrightarrow> Q (Exn e) g" "\<And>n g. R (Halted n) g \<Longrightarrow> Q (Halted n) g"
      "\<And>g. R Fault g \<Longrightarrow> Q Fault g" "\<And>g. R Running g \<Longrightarrow> Q Running g"
  shows "appends (andthen m k) Q"
  unfolding andthen_def by (rule appends_bnd[OF assms(1)]) (use assms(2-) in auto)

lemma appends_try_catch:
  assumes m: "appends m R" and k: "\<And>e g. R (Exn e) g \<Longrightarrow> appends (k e) (\<lambda>oc g'. Q oc (g @ g'))"
    and v: "\<And>a g. R (Val a) g \<Longrightarrow> Q (Val a) g" "\<And>n g. R (Halted n) g \<Longrightarrow> Q (Halted n) g"
      "\<And>g. R Fault g \<Longrightarrow> Q Fault g" "\<And>g. R Running g \<Longrightarrow> Q Running g"
  shows "appends (try_catch m k) Q"
  unfolding appends_def
proof (intro allI)
  fix os s h
  obtain oc s1 g where r: "m os s h = (oc, s1, h @ g)" and R: "R oc g" using appendsD[OF m] by blast
  show "\<exists>oc s' g. try_catch m k os s h = (oc, s', h @ g) \<and> Q oc g"
  proof (cases oc)
    case (Exn e)
    then have "R (Exn e) g" using R by simp
    from appendsD[OF k[OF this], of os s1 "h @ g"] show ?thesis using r Exn by (auto simp: try_catch_def)
  qed (use r R v in \<open>auto simp: try_catch_def\<close>)
qed

text \<open>A scope whose destructor always runs to its end.\<close>

lemma appends_finally:
  assumes m: "appends m R" and k: "appends k (\<lambda>oc g. oc = Val () \<and> D g)"
    and Q: "\<And>a g g'. R (Val a) g \<Longrightarrow> D g' \<Longrightarrow> Q (Val a) (g @ g')" "\<And>e g g'. R (Exn e) g \<Longrightarrow> D g' \<Longrightarrow> Q (Exn e) (g @ g')"
      "\<And>n g. R (Halted n) g \<Longrightarrow> Q (Halted n) g" "\<And>g. R Fault g \<Longrightarrow> Q Fault g" "\<And>g. R Running g \<Longrightarrow> Q Running g"
  shows "appends (finally_do m k) Q"
  unfolding appends_def
proof (intro allI)
  fix os s h
  obtain oc s1 g where r: "m os s h = (oc, s1, h @ g)" and R: "R oc g" using appendsD[OF m] by blast
  obtain s2 g' where r': "k os s1 (h @ g) = (Val (), s2, (h @ g) @ g')" and D: "D g'" using appendsD[OF k] by blast
  show "\<exists>oc s' g. finally_do m k os s h = (oc, s', h @ g) \<and> Q oc g"
    using r r' R D Q by (cases oc) (auto simp: finally_do_def)
qed

section \<open>Properties of the calls that concatenation keeps\<close>

locale call_pred =
  fixes P :: "'c history \<Rightarrow> bool"
  assumes P_Nil: "P []" and P_append: "P g \<Longrightarrow> P g' \<Longrightarrow> P (g @ g')"
begin

definition stays :: "('s, 'c, 'e, 'a) io \<Rightarrow> bool" where
  "stays m \<longleftrightarrow> appends m (\<lambda>_ g. P g)"

lemma stays_Nil: "stays m \<Longrightarrow> P (history_of (m os s []))"
  unfolding stays_def by (drule appends_Nil)

lemma stays_simps [simp]: "stays (ret a)" "stays (throw e)" "stays fault" "stays (halt n)" "stays running"
  by (simp_all add: stays_def appends_ret appends_throw appends_fault appends_halt appends_running P_Nil)

lemma stays_call: "(\<And>r. P [(c, r)]) \<Longrightarrow> stays (call c)"
  by (simp add: stays_def appends_def call_def)

lemma stays_do_call: "(\<And>r. P [(c, r)]) \<Longrightarrow> stays (do_call c)"
  by (simp add: stays_def appends_do_call)

lemma stays_bnd: "stays m \<Longrightarrow> (\<And>a. stays (f a)) \<Longrightarrow> stays (bnd m f)"
  unfolding stays_def by (erule appends_bnd) (auto intro: appends_mono P_append)

lemma stays_andthen: "stays m \<Longrightarrow> stays k \<Longrightarrow> stays (andthen m k)"
  unfolding andthen_def by (rule stays_bnd)

lemma stays_when: "(b \<Longrightarrow> stays m) \<Longrightarrow> stays (whenM b m)"
  by (simp add: whenM_def)

lemma stays_if: "(b \<Longrightarrow> stays m) \<Longrightarrow> (\<not> b \<Longrightarrow> stays m') \<Longrightarrow> stays (if b then m else m')"
  by simp

lemma stays_try_catch: "stays m \<Longrightarrow> (\<And>e. stays (k e)) \<Longrightarrow> stays (try_catch m k)"
  unfolding stays_def by (erule appends_try_catch) (auto intro: appends_mono P_append)

lemma stays_finally:
  assumes "stays m" "stays k"
  shows "stays (finally_do m k)"
  unfolding stays_def appends_def
proof (intro allI)
  fix os s h
  obtain oc s1 g where r: "m os s h = (oc, s1, h @ g)" and g: "P g" using appendsD[OF assms(1)[unfolded stays_def]] by blast
  obtain oc2 s2 g' where r': "k os s1 (h @ g) = (oc2, s2, (h @ g) @ g')" and g': "P g'"
    using appendsD[OF assms(2)[unfolded stays_def]] by blast
  show "\<exists>oc s' g. finally_do m k os s h = (oc, s', h @ g) \<and> P g"
    using r r' g g' P_append[OF g g'] by (cases oc; cases oc2) (auto simp: finally_do_def)
qed

lemmas stays_intro = stays_simps stays_bnd stays_andthen stays_when stays_if stays_try_catch stays_finally

end

section \<open>Several resources at once\<close>

locale handles_api =
  fixes hands_out :: "'c \<Rightarrow> resp \<Rightarrow> 'h multiset"
    and gives_back :: "'c \<Rightarrow> 'h option"
  assumes gives_or_hands: "gives_back c = Some x \<Longrightarrow> hands_out c r = {#}"
begin

fun held :: "'h multiset \<Rightarrow> 'c history \<Rightarrow> 'h multiset option" where
  "held L [] = Some L"
| "held L ((c, r) # h) = (case gives_back c of None \<Rightarrow> held (L + hands_out c r) h
     | Some x \<Rightarrow> if x \<in># L then held (L - {#x#}) h else None)"

lemma held_append: "held L (h @ h') = (case held L h of None \<Rightarrow> None | Some L' \<Rightarrow> held L' h')"
  by (induction L h rule: held.induct) (auto split: option.split)

text \<open>The calls leave what was held, and give back nothing else.\<close>

definition balanced :: "'c history \<Rightarrow> bool" where
  "balanced g \<longleftrightarrow> (\<forall>L. held L g = Some L)"

lemma balanced_Nil [simp]: "balanced []"
  by (simp add: balanced_def)

lemma balanced_append: "balanced g \<Longrightarrow> held L (g @ g') = held L g'"
  by (simp add: balanced_def held_append)

lemma balanced_both: "balanced g \<Longrightarrow> balanced g' \<Longrightarrow> balanced (g @ g')"
  by (simp add: balanced_def held_append)

lemma balanced_other: "gives_back c = None \<Longrightarrow> hands_out c r = {#} \<Longrightarrow> balanced ((c, r) # g) = balanced g"
  by (simp add: balanced_def)

lemma balanced_used: "balanced g \<Longrightarrow> held (add_mset x {#}) (g @ g') = held {#x#} g'"
  by (rule balanced_append)

end

text \<open>An interface with one handle per call is one with at most one.\<close>

sublocale handle_api \<subseteq> several: handles_api "\<lambda>c r. case opens c r of None \<Rightarrow> {#} | Some x \<Rightarrow> {#x#}" closes
  by unfold_locales (simp add: closes_not_opens)

context handle_api begin

lemma held_is_track: "several.held L h = track L h"
  by (induction L h rule: track.induct) (auto split: option.split)

end

end
