(* ===== verification/XSocketMain.thy ===== *)
theory XSocketMain
  imports XTransport Effects
begin

text \<open>
  The WebSocket client and server of XSocket/main.cpp: the handshake, the loop that serves the
  library's actions from the transport, and the clean-up of \<open>wmain\<close>.  The WebSocket library is not
  code of the repository; its calls are answered by the operating system of the prelude.  Printing
  is left out.  The program has no exception handler, so a refused \<open>new\<close> ends the process.
\<close>

section \<open>Set-up\<close>

text \<open>The HRESULT and the handle an answer carries; the out-parameter is written only on success.\<close>

definition hr_of :: "resp \<Rightarrow> HRESULT" where
  "hr_of r = ucast (rv r)"

definition handle_of :: "resp \<Rightarrow> HANDLE" where
  "handle_of r = (if SUCCEEDED (hr_of r) then out r else 0)"

definition delete_ws :: "HANDLE \<Rightarrow> unit tio" where
  "delete_ws x = whenM (x \<noteq> 0) (do_call (Ws (WsDeleteHandle x)))"

definition Initialize :: "(HRESULT \<times> HANDLE \<times> HANDLE) tio" where
  "Initialize =
     bnd (call (Ws WsCreateClientHandle)) (\<lambda>r1. let clientHandle = handle_of r1 in
     if FAILED (hr_of r1) then andthen (delete_ws clientHandle) (ret (hr_of r1, 0, 0)) else
     bnd (call (Ws WsCreateServerHandle)) (\<lambda>r2. let serverHandle = handle_of r2 in
     if FAILED (hr_of r2) then
       andthen (delete_ws clientHandle) (andthen (delete_ws serverHandle) (ret (hr_of r2, 0, 0)))
     else ret (hr_of r2, clientHandle, serverHandle)))"

text \<open>The headers a library call hands out: alternating names and values.\<close>

fun headers_of :: "BYTE list list \<Rightarrow> header list" where
  "headers_of (n # v # xs) = (n, v) # headers_of xs"
| "headers_of _ = []"

definition host :: header where
  "host = ([72, 111, 115, 116], [108, 111, 99, 97, 108, 104, 111, 115, 116])"

definition PerformHandshake :: "HANDLE \<Rightarrow> HANDLE \<Rightarrow> HRESULT tio" where
  "PerformHandshake clientHandle serverHandle =
     bnd (call (Ws (WsBeginClientHandshake clientHandle))) (\<lambda>r1.
     if FAILED (hr_of r1) then ret (hr_of r1) else
     let additional = headers_of (rows r1);
         clientHeaderCount = of_nat (length additional) + 1 :: ULONG
     in bnd (call (Ws (NewHeaders clientHeaderCount))) (\<lambda>r2.
     if rv r2 = 0 then halt 3 else
     if unat clientHeaderCount < length additional + 1 then fault else
     let clientHeaders = additional @ [host] in
     bnd (call (Ws (WsBeginServerHandshake serverHandle clientHeaders))) (\<lambda>r3.
     if FAILED (hr_of r3) then ret (hr_of r3) else
     bnd (call (Ws (WsEndClientHandshake clientHandle (headers_of (rows r3))))) (\<lambda>r4.
     if FAILED (hr_of r4) then ret (hr_of r4) else
     bnd (call (Ws (WsEndServerHandshake serverHandle))) (\<lambda>r5. ret (hr_of r5))))))"

section \<open>The action loop\<close>

datatype ws_action =
    NoAction
  | SendToNetwork
  | IndicateSendComplete
  | ReceiveFromNetwork
  | IndicateReceiveComplete
  | InvalidAction

definition action_of :: "resp \<Rightarrow> ws_action" where
  "action_of r = (if out r = 0 then NoAction else if out r = 1 then SendToNetwork
     else if out r = 2 then IndicateSendComplete else if out r = 3 then ReceiveFromNetwork
     else if out r = 4 then IndicateReceiveComplete else InvalidAction)"

definition ctx_of :: "resp \<Rightarrow> 64 word" where
  "ctx_of r = (case outs r of [] \<Rightarrow> 0 | x # _ \<Rightarrow> x)"

abbreviation (input) len :: "BYTE list \<Rightarrow> ULONG" where
  "len b \<equiv> of_nat (length b)"

text \<open>An element of the array \<open>buffers\<close>: \<open>None\<close> is the null pointer with length 0 that \<open>{0}\<close> leaves.\<close>

type_synonym ws_buffer = "BYTE list option"

definition blen :: "ws_buffer \<Rightarrow> ULONG" where
  "blen b = (case b of None \<Rightarrow> 0 | Some bytes \<Rightarrow> len bytes)"

text \<open>The two \<open>for\<close> loops: the status, \<open>bytesTransferred\<close>, and the buffers after the reads.\<close>

fun receive_buffers :: "nat \<Rightarrow> ws_buffer list \<Rightarrow> HRESULT \<Rightarrow> ULONG \<Rightarrow> (HRESULT \<times> ULONG \<times> ws_buffer list) tio" where
  "receive_buffers fuel [] hr transferred = ret (hr, transferred, [])"
| "receive_buffers fuel (b # bs) hr transferred =
     bnd (ReadData fuel (blen b) b) (\<lambda>(hr', transferred', read).
       let b' = map_option (\<lambda>_. read) b in
       if FAILED hr' then ret (hr', transferred', b' # bs)
       else if transferred' < blen b then ret (hr', transferred', b' # bs)
       else bnd (receive_buffers fuel bs hr' transferred') (\<lambda>(hr2, n, bs'). ret (hr2, n, b' # bs')))"

fun send_buffers :: "ws_buffer list \<Rightarrow> HRESULT \<Rightarrow> ULONG \<Rightarrow> (HRESULT \<times> ULONG) tio" where
  "send_buffers [] hr transferred = ret (hr, transferred)"
| "send_buffers (b # bs) hr transferred =
     bnd (WriteData b (blen b)) (\<lambda>hr'.
       if FAILED hr' then ret (hr', transferred) else send_buffers bs hr' (transferred + blen b))"

definition process_action ::
  "nat \<Rightarrow> ws_action \<Rightarrow> ws_buffer list \<Rightarrow> HRESULT \<Rightarrow> (HRESULT \<times> ULONG \<times> ws_buffer list) tio" where
  "process_action fuel action buffers hr = (case action of
      NoAction \<Rightarrow> ret (hr, 0, buffers)
    | ReceiveFromNetwork \<Rightarrow>
        andthen (assert_that (1 \<le> length buffers)) (receive_buffers fuel buffers hr 0)
    | IndicateReceiveComplete \<Rightarrow> if length buffers \<noteq> 1 then halt 3 else ret (hr, 0, buffers)
    | SendToNetwork \<Rightarrow> bnd (send_buffers buffers hr 0) (\<lambda>(hr', n). ret (hr', n, buffers))
    | IndicateSendComplete \<Rightarrow> ret (hr, 0, buffers)
    | InvalidAction \<Rightarrow> halt 3)"

text \<open>
  The locals \<open>action\<close> and \<open>actionContext\<close>, declared before the loop and not initialised, and the array
  \<open>buffers\<close> live from round to round.  A successful \<open>WebSocketGetAction\<close> writes all of them (the elements of
  the array up to the count it reports); a failed one writes none, so the round that follows works on what the
  last round left, with \<open>bufferCount\<close> back at 2, and in the first round \<open>switch (action)\<close> reads an
  indeterminate value.
\<close>

type_synonym ws_vars = "(ws_action \<times> 64 word) option"

definition get_action :: "resp \<Rightarrow> ws_vars \<Rightarrow> ws_vars" where
  "get_action r vars = (if FAILED (hr_of r) then vars else Some (action_of r, ctx_of r))"

definition get_buffers :: "resp \<Rightarrow> ws_buffer list \<Rightarrow> ws_buffer list" where
  "get_buffers r buffers =
     (if FAILED (hr_of r) then buffers else overwrite 0 (map Some (take 2 (rows r))) buffers)"

definition buffer_count :: "resp \<Rightarrow> nat" where
  "buffer_count r = (if FAILED (hr_of r) then 2 else length (take 2 (rows r)))"

definition contents :: "ws_buffer list \<Rightarrow> BYTE list list" where
  "contents bs = map (\<lambda>b. case b of None \<Rightarrow> [] | Some bytes \<Rightarrow> bytes) bs"

fun RunLoop_rounds :: "nat \<Rightarrow> HANDLE \<Rightarrow> ws_vars \<Rightarrow> ws_buffer list \<Rightarrow> HRESULT tio" where
  "RunLoop_rounds 0 handle vars buffers = running"
| "RunLoop_rounds (Suc fuel) handle vars buffers =
     bnd (call (Ws (WsGetAction handle))) (\<lambda>r.
     andthen (whenM (FAILED (hr_of r)) (do_call (Ws (WsAbortHandle handle))))
     (case get_action r vars of None \<Rightarrow> fault | Some (action, actionContext) \<Rightarrow>
     let array = get_buffers r buffers; n = buffer_count r in
     bnd (process_action fuel action (take n array) (hr_of r)) (\<lambda>(hr, bytesTransferred, used).
     andthen (whenM (FAILED hr) (do_call (Ws (WsAbortHandle handle))))
     (andthen (do_call (Ws (WsCompleteAction handle actionContext bytesTransferred (contents used))))
       (if action \<noteq> NoAction
        then RunLoop_rounds fuel handle (Some (action, actionContext)) (used @ drop n array)
        else ret hr)))))"

definition RunLoop :: "nat \<Rightarrow> HANDLE \<Rightarrow> HRESULT tio" where
  "RunLoop fuel handle = RunLoop_rounds fuel handle None [None, None]"

definition dataToSend :: "BYTE list" where
  "dataToSend = [72, 101, 108, 108, 111, 32, 87, 111, 114, 108, 100]"

definition PerformDataExchange :: "nat \<Rightarrow> HANDLE \<Rightarrow> HANDLE \<Rightarrow> HRESULT tio" where
  "PerformDataExchange fuel clientHandle serverHandle =
     bnd (call (Ws (WsSend clientHandle dataToSend))) (\<lambda>r1.
     if FAILED (hr_of r1) then ret (hr_of r1) else
     bnd (RunLoop fuel clientHandle) (\<lambda>hr.
     if FAILED hr then ret hr else
     bnd (call (Ws (WsReceive serverHandle))) (\<lambda>r2.
     if FAILED (hr_of r2) then ret (hr_of r2) else
     RunLoop fuel serverHandle)))"

text \<open>\<open>wmain\<close>: 1 for success and 0 for failure, as the source returns them; the transport is a local.\<close>

definition wmain :: "nat \<Rightarrow> int tio" where
  "wmain fuel = andthen Transport_ctor (finally_do
     (bnd Initialize (\<lambda>(hr, clientHandle, serverHandle).
      bnd (if FAILED hr then ret hr else
           bnd (PerformHandshake clientHandle serverHandle) (\<lambda>hr.
           if FAILED hr then ret hr else PerformDataExchange fuel clientHandle serverHandle)) (\<lambda>hr.
      andthen (delete_ws clientHandle)
      (andthen (delete_ws serverHandle)
      (if FAILED hr then ret 0 else ret 1)))))
     Transport_dtor)"

section \<open>Handles\<close>

text \<open>A WebSocket handle is handed out by a successful creation and given back by its deletion.\<close>

fun ws_opens :: "tcall \<Rightarrow> resp \<Rightarrow> HANDLE option" where
  "ws_opens (Ws WsCreateClientHandle) r = (if handle_of r \<noteq> 0 then Some (handle_of r) else None)"
| "ws_opens (Ws WsCreateServerHandle) r = (if handle_of r \<noteq> 0 then Some (handle_of r) else None)"
| "ws_opens _ r = None"

fun ws_closes :: "tcall \<Rightarrow> HANDLE option" where
  "ws_closes (Ws (WsDeleteHandle x)) = Some x"
| "ws_closes _ = None"

interpretation ws: handle_api ws_opens ws_closes
proof unfold_locales
  fix c r x assume "ws_closes c = Some x"
  then show "ws_opens c r = None" by (cases c rule: ws_closes.cases) auto
qed

text \<open>The operations on the transport touch no WebSocket handle.\<close>

abbreviation ws_neutral :: "'a tio \<Rightarrow> bool" where
  "ws_neutral \<equiv> ws.neutral"

lemma neutral_heap [neutral_intro]:
  "ws_neutral (entry_at p)" "ws_neutral (bytes_at p)" "ws_neutral (on_list f)"
  by (rule ws.neutral_silent, simp add: entry_at_def bytes_at_def on_list_def split: option.split)+

lemma neutral_calls [neutral_intro]:
  "ws_neutral (call InitializeCriticalSection)" "ws_neutral (call DeleteCriticalSection)"
  "ws_neutral (call EnterCriticalSection)" "ws_neutral (call LeaveCriticalSection)"
  "ws_neutral (call NewEntry)" "ws_neutral (call (NewBytes n))"
  "ws_neutral (call (Ws (WsBeginClientHandshake x)))" "ws_neutral (call (Ws (WsBeginServerHandshake x hs)))"
  "ws_neutral (call (Ws (WsEndClientHandshake x hs)))" "ws_neutral (call (Ws (WsEndServerHandshake x)))"
  "ws_neutral (call (Ws (WsSend x b)))" "ws_neutral (call (Ws (WsReceive x)))"
  "ws_neutral (call (Ws (WsGetAction x)))" "ws_neutral (call (Ws (WsAbortHandle x)))"
  "ws_neutral (call (Ws (WsCompleteAction x c n bs)))" "ws_neutral (call (Ws (NewHeaders n)))"
  by (rule ws.neutral_call; simp)+

lemma neutral_transport [neutral_intro]:
  "ws_neutral (WriteData src n)" "ws_neutral (Transport_ctor)" "ws_neutral (Transport_dtor)"
  "ws_neutral List_IsEmpty" "ws_neutral List_Peek" "ws_neutral List_RemoveHead"
  "ws_neutral (CopyTo p dst off n)" "ws_neutral (DataLeft p)" "ws_neutral (assert_that b)"
  unfolding WriteData_def WriteData_quit_def Transport_ctor_def Transport_dtor_def List_IsEmpty_def List_Peek_def
    List_RemoveHead_def CopyTo_def DataLeft_def assert_that_def new_entry_def new_bytes_def delete_entry_def
    delete_bytes_def ListEntry_dtor_def Attach_def put_chunk_def List_AppendTail_def List_dtor_def
  by (intro neutral_intro)+

lemma neutral_ReadData_loop [neutral_intro]: "ws_neutral (ReadData_loop fuel n ix dst)"
  by (induction fuel n ix dst rule: ReadData_loop.induct) (auto intro!: neutral_intro)

lemma neutral_ReadData [neutral_intro]: "ws_neutral (ReadData fuel n dst)"
  unfolding ReadData_def by (intro neutral_intro)

lemma neutral_receive [neutral_intro]: "ws_neutral (receive_buffers fuel bs hr n)"
  by (induction fuel bs hr n rule: receive_buffers.induct) (auto intro!: neutral_intro)

lemma neutral_send [neutral_intro]: "ws_neutral (send_buffers bs hr n)"
  by (induction bs hr n rule: send_buffers.induct) (auto intro!: neutral_intro)

lemma neutral_process [neutral_intro]: "ws_neutral (process_action fuel a bs hr)"
  unfolding process_action_def by (cases a; simp) (intro neutral_intro)+

lemma neutral_RunLoop_rounds [neutral_intro]: "ws_neutral (RunLoop_rounds fuel x v bs)"
  by (induction fuel arbitrary: v bs) (auto simp: Let_def intro!: neutral_intro)

lemma neutral_RunLoop [neutral_intro]: "ws_neutral (RunLoop fuel x)"
  unfolding RunLoop_def by (intro neutral_intro)

lemma neutral_handshake [neutral_intro]: "ws_neutral (PerformHandshake c s)"
  unfolding PerformHandshake_def by (intro neutral_intro)

lemma neutral_exchange [neutral_intro]: "ws_neutral (PerformDataExchange fuel c s)"
  unfolding PerformDataExchange_def by (intro neutral_intro)

text \<open>Nothing in the program throws.\<close>

lemma no_throw_heap [no_throw_intro]:
  "no_throw (entry_at p)" "no_throw (bytes_at p)" "no_throw (on_list f)"
  by (simp_all add: no_throw_def entry_at_def bytes_at_def on_list_def split: option.split)

lemma no_throw_transport [no_throw_intro]:
  "no_throw (WriteData src n)" "no_throw Transport_ctor" "no_throw Transport_dtor"
  "no_throw List_IsEmpty" "no_throw List_Peek" "no_throw List_RemoveHead"
  "no_throw (CopyTo p dst off n)" "no_throw (DataLeft p)" "no_throw (assert_that b)"
  unfolding WriteData_def WriteData_quit_def Transport_ctor_def Transport_dtor_def List_IsEmpty_def List_Peek_def
    List_RemoveHead_def CopyTo_def DataLeft_def assert_that_def new_entry_def new_bytes_def delete_entry_def
    delete_bytes_def ListEntry_dtor_def Attach_def put_chunk_def List_AppendTail_def List_dtor_def
  by (intro no_throw_intro)+

lemma no_throw_ReadData_loop [no_throw_intro]: "no_throw (ReadData_loop fuel n ix dst)"
  by (induction fuel n ix dst rule: ReadData_loop.induct) (auto intro!: no_throw_intro)

lemma no_throw_ReadData [no_throw_intro]: "no_throw (ReadData fuel n dst)"
  unfolding ReadData_def by (intro no_throw_intro)

lemma no_throw_receive [no_throw_intro]: "no_throw (receive_buffers fuel bs hr n)"
  by (induction fuel bs hr n rule: receive_buffers.induct) (auto intro!: no_throw_intro)

lemma no_throw_send [no_throw_intro]: "no_throw (send_buffers bs hr n)"
  by (induction bs hr n rule: send_buffers.induct) (auto intro!: no_throw_intro)

lemma no_throw_process [no_throw_intro]: "no_throw (process_action fuel a bs hr)"
  unfolding process_action_def by (cases a; simp) (intro no_throw_intro)+

lemma no_throw_RunLoop_rounds [no_throw_intro]: "no_throw (RunLoop_rounds fuel x v bs)"
  by (induction fuel arbitrary: v bs) (auto simp: Let_def intro!: no_throw_intro)

lemma no_throw_RunLoop [no_throw_intro]: "no_throw (RunLoop fuel x)"
  unfolding RunLoop_def by (intro no_throw_intro)

lemma no_throw_handshake [no_throw_intro]: "no_throw (PerformHandshake c s)"
  unfolding PerformHandshake_def by (intro no_throw_intro)

lemma no_throw_exchange [no_throw_intro]: "no_throw (PerformDataExchange fuel c s)"
  unfolding PerformDataExchange_def by (intro no_throw_intro)

lemma no_throw_delete [no_throw_intro]: "no_throw (delete_ws x)"
  unfolding delete_ws_def by (intro no_throw_intro)

text \<open>What \<open>Initialize\<close> hands out, \<open>wmain\<close> gives back.\<close>

definition held :: "HANDLE \<Rightarrow> HANDLE multiset" where
  "held x = (if x = 0 then {#} else {#x#})"

lemma owns_delete: "ws.owns (held x + F) (delete_ws x) (\<lambda>_. F) F"
proof (cases "x = 0")
  case True
  then show ?thesis using ws.owns_ret[of "\<lambda>_. F"] by (simp add: delete_ws_def whenM_def held_def)
next
  case False
  have "ws.owns {#x#} (do_call (Ws (WsDeleteHandle x))) (\<lambda>_. {#}) {#}"
    unfolding do_call_def by (rule ws.owns_bnd[OF ws.owns_call_close]) (simp_all add: ws.owns_ret[of "\<lambda>_. {#}", simplified])
  from ws.owns_frame[OF this, of F] False show ?thesis
    by (simp add: delete_ws_def whenM_def held_def)
qed

lemma owns_create:
  assumes "c = WsCreateClientHandle \<or> c = WsCreateServerHandle"
  shows "ws.owns F (call (Ws c)) (\<lambda>r. held (handle_of r) + F) F"
proof -
  have e: "(case ws_opens (Ws c) r of None \<Rightarrow> {#} | Some x \<Rightarrow> {#x#}) = held (handle_of r)" for r
    using assms by (auto simp: held_def)
  have "ws_closes (Ws c) = None" using assms by auto
  from ws.owns_frame[OF ws.owns_call_open[OF this], of F "{#}"] show ?thesis by (simp add: e)
qed

lemma owns_Initialize: "ws.owns {#} Initialize (\<lambda>x. held (fst (snd x)) + held (snd (snd x))) {#}"
proof -
  let ?Q = "\<lambda>x :: HRESULT \<times> HANDLE \<times> HANDLE. held (fst (snd x)) + held (snd (snd x))"
  have del: "ws.owns (held x) (delete_ws x) (\<lambda>_. {#}) E" for x E
    using ws.owns_no_throw[OF owns_delete[of x "{#}"] no_throw_delete] by simp
  have ret0: "ws.owns {#} (ret (hr, 0, 0)) ?Q {#}" for hr
    using ws.owns_ret[of ?Q "(hr, 0, 0)"] by (simp add: held_def)
  have client: "ws.owns {#} (call (Ws WsCreateClientHandle)) (\<lambda>r. held (handle_of r)) {#}"
    using owns_create[of WsCreateClientHandle "{#}"] by simp
  have server: "ws.owns (held c) (call (Ws WsCreateServerHandle)) (\<lambda>r. held (handle_of r) + held c) {#}" for c
    by (rule ws.owns_no_throw[OF owns_create]) (simp_all add: no_throw_intro)
  have del2: "ws.owns (held s + held c) (delete_ws c) (\<lambda>_. held s) {#}" for s c
    by (rule ws.owns_no_throw[OF owns_delete[of c "held s", unfolded add.commute[of "held c"]] no_throw_delete])
  have ok: "ws.owns (held s + held c) (ret (hr, c, s)) ?Q {#}" for hr c s
    using ws.owns_ret[of ?Q "(hr, c, s)"] by (simp add: add.commute)
  show ?thesis unfolding Initialize_def Let_def andthen_def
    by (intro ws.owns_bnd[OF client] ws.owns_bnd[OF server] ws.owns_if ws.owns_bnd[OF del] ws.owns_bnd[OF del2] ret0 ok)
qed

lemma owns_wmain_body:
  "ws.owns {#} (bnd Initialize (\<lambda>(hr, clientHandle, serverHandle).
      bnd (if FAILED hr then ret hr else
           bnd (PerformHandshake clientHandle serverHandle) (\<lambda>hr.
           if FAILED hr then ret hr else PerformDataExchange fuel clientHandle serverHandle)) (\<lambda>hr.
      andthen (delete_ws clientHandle)
      (andthen (delete_ws serverHandle)
      (if FAILED hr then ret 0 else ret (1::int)))))) (\<lambda>_. {#}) {#}"
proof -
  have mid: "ws.owns P (if FAILED hr then ret hr else
           bnd (PerformHandshake c s) (\<lambda>hr. if FAILED hr then ret hr else PerformDataExchange fuel c s)) (\<lambda>_. P) {#}" for P hr c s
    by (rule ws.neutral_owns; intro neutral_intro no_throw_intro)
  have del: "ws.owns (held x) (delete_ws x) (\<lambda>_. {#}) {#}" for x
    using owns_delete[of x "{#}"] by simp
  have del2: "ws.owns (held c + held s) (delete_ws c) (\<lambda>_. held s) {#}" for s c
    by (rule ws.owns_no_throw[OF owns_delete no_throw_delete])
  have end_: "ws.owns {#} (if b then ret 0 else ret 1 :: int tio) (\<lambda>_. {#}) {#}" for b
    by (cases b) (simp_all add: ws.neutral_ret[unfolded ws.neutral_def])
  show ?thesis
  proof (rule ws.owns_bnd[OF owns_Initialize], unfold split_beta andthen_def)
    fix a :: "HRESULT \<times> HANDLE \<times> HANDLE"
    show "ws.owns (held (fst (snd a)) + held (snd (snd a)))
        (bnd (if FAILED (fst a) then ret (fst a)
              else bnd (PerformHandshake (fst (snd a)) (snd (snd a)))
                    (\<lambda>hr. if FAILED hr then ret hr else PerformDataExchange fuel (fst (snd a)) (snd (snd a))))
          (\<lambda>hr. bnd (delete_ws (fst (snd a)))
             (\<lambda>_. bnd (delete_ws (snd (snd a))) (\<lambda>_. if FAILED hr then ret 0 else ret (1::int))))) (\<lambda>_. {#}) {#}"
      by (intro ws.owns_bnd[OF mid] ws.owns_bnd[OF del2] ws.owns_bnd[OF del] end_)
  qed
qed

lemma neutral_wmain: "ws.neutral (wmain fuel)"
  unfolding wmain_def
  by (rule ws.neutral_andthen[OF neutral_transport(2) ws.neutral_finally[OF _ neutral_transport(3)]])
    (simp only: ws.neutral_def owns_wmain_body)

section \<open>Actions\<close>

text \<open>The answers to \<open>WebSocketGetAction\<close>, and the contexts given to \<open>WebSocketCompleteAction\<close>, in order.\<close>

fun obtained :: "tcall history \<Rightarrow> resp list" where
  "obtained [] = []"
| "obtained ((Ws (WsGetAction x), r) # h) = r # obtained h"
| "obtained (_ # h) = obtained h"

fun completed :: "tcall history \<Rightarrow> 64 word list" where
  "completed [] = []"
| "completed ((Ws (WsCompleteAction x c n bs), r) # h) = c # completed h"
| "completed (_ # h) = completed h"

lemma obtained_append: "obtained (h @ h') = obtained h @ obtained h'"
  by (induction h rule: obtained.induct) simp_all

lemma completed_calls_append: "completed (h @ h') = completed h @ completed h'"
  by (induction h rule: completed.induct) simp_all

fun other_call :: "tcall \<Rightarrow> bool" where
  "other_call (Ws (WsGetAction x)) = False"
| "other_call (Ws (WsCompleteAction x c n bs)) = False"
| "other_call _ = True"

lemma others: "list_all (\<lambda>x. other_call (fst x)) g \<Longrightarrow> obtained g = [] \<and> completed g = []"
proof (induction g)
  case (Cons x g)
  then show ?case by (cases x; cases "fst x" rule: other_call.cases) auto
qed simp

lemma emits_heap [emits_intro]:
  "emits P (entry_at p)" "emits P (bytes_at p)" "emits P (on_list f)"
  by (simp_all add: emits_def entry_at_def bytes_at_def on_list_def split: option.split)

lemma others_transport [emits_intro]:
  "emits other_call (WriteData src n)" "emits other_call List_IsEmpty" "emits other_call List_Peek"
  "emits other_call List_RemoveHead" "emits other_call (CopyTo p dst off n)" "emits other_call (DataLeft p)"
  "emits other_call (assert_that b)"
  unfolding WriteData_def WriteData_quit_def List_IsEmpty_def List_Peek_def
    List_RemoveHead_def CopyTo_def DataLeft_def assert_that_def new_entry_def new_bytes_def delete_entry_def
    delete_bytes_def ListEntry_dtor_def Attach_def put_chunk_def List_AppendTail_def
  by (intro emits_intro; simp)+

lemma others_ReadData_loop [emits_intro]: "emits other_call (ReadData_loop fuel n ix dst)"
  by (induction fuel n ix dst rule: ReadData_loop.induct) (auto intro!: emits_intro)

lemma others_ReadData [emits_intro]: "emits other_call (ReadData fuel n dst)"
  unfolding ReadData_def by (intro emits_intro; simp)

lemma others_receive [emits_intro]: "emits other_call (receive_buffers fuel bs hr n)"
  by (induction fuel bs hr n rule: receive_buffers.induct) (auto simp: Let_def intro!: emits_intro)

lemma others_send [emits_intro]: "emits other_call (send_buffers bs hr n)"
  by (induction bs hr n rule: send_buffers.induct) (auto intro!: emits_intro)

lemma others_process: "emits other_call (process_action fuel a bs hr)"
  unfolding process_action_def by (cases a; simp) (intro emits_intro; simp)+

lemma appends_of_emits: "emits P m \<Longrightarrow> appends m (\<lambda>_ g. list_all (\<lambda>x. P (fst x)) g)"
  unfolding emits_def appends_def by (metis history_of_def prod.collapse)

text \<open>
  The contexts the loop has to give back, by the answers it gets: that of the action obtained, or, when
  none was obtained, that of the last one; with no last one there is nothing to go on with.
\<close>

fun contexts :: "64 word option \<Rightarrow> resp list \<Rightarrow> 64 word list" where
  "contexts c [] = []"
| "contexts c (r # rs) =
     (if SUCCEEDED (hr_of r) then ctx_of r # contexts (Some (ctx_of r)) rs
      else case c of None \<Rightarrow> [] | Some x \<Rightarrow> x # contexts c rs)"

lemma contexts_successes: "\<forall>r \<in> set rs. SUCCEEDED (hr_of r) \<Longrightarrow> contexts c rs = map ctx_of rs"
  by (induction rs arbitrary: c) auto

definition in_turn :: "ws_vars \<Rightarrow> tcall history \<Rightarrow> ('e, 'a) outcome \<Rightarrow> bool" where
  "in_turn v g oc \<longleftrightarrow>
     (let cs = completed g; rs = obtained g; due = contexts (map_option snd v) rs in
      cs = take (length cs) due \<and> length rs \<le> Suc (length cs) \<and>
      (is_Val oc \<longrightarrow> cs = due \<and> length cs = length rs) \<and>
      (v = None \<longrightarrow> rs \<noteq> [] \<longrightarrow> FAILED (hr_of (hd rs)) \<longrightarrow> oc = Fault \<and> cs = []))"

lemma in_turn_round:
  assumes "get_action r v = Some (a, c)" and "obtained g = [] \<and> completed g = []"
    and "completed g' = c # completed g2" "obtained g' = obtained g2" and "in_turn (Some (a, c)) g2 oc"
  shows "in_turn v ((Ws (WsGetAction x), r) # g @ g') oc"
  using assms unfolding in_turn_def Let_def
  by (auto simp: obtained_append completed_calls_append get_action_def split: if_splits)

lemma in_turn_cut:
  assumes "get_action r v = Some (a, c)" and "obtained g = [] \<and> completed g = []" and "\<not> is_Val oc"
  shows "in_turn v ((Ws (WsGetAction x), r) # g) oc"
  using assms unfolding in_turn_def Let_def by (auto simp: get_action_def split: if_splits)

lemma in_turn_last:
  assumes "get_action r v = Some (a, c)" and "obtained g = [] \<and> completed g = []"
    and "completed g' = [c]" "obtained g' = []"
  shows "in_turn v ((Ws (WsGetAction x), r) # g @ g') oc"
  using assms unfolding in_turn_def Let_def
  by (auto simp: obtained_append completed_calls_append get_action_def split: if_splits)

lemma others_abort: "emits other_call (whenM b (do_call (Ws (WsAbortHandle x))))"
  by (intro emits_intro) simp

lemma in_turn_prefix:
  "obtained g = [] \<and> completed g = [] \<Longrightarrow> in_turn v ((Ws (WsGetAction x), r) # g @ g') oc = in_turn v ((Ws (WsGetAction x), r) # g') oc"
  by (simp add: in_turn_def obtained_append completed_calls_append)

lemma RunLoop_rounds_in_turn: "appends (RunLoop_rounds fuel x v bs) (\<lambda>oc g. in_turn v g oc)"
proof (induction fuel arbitrary: v bs)
  case 0
  then show ?case by (auto intro!: appends_running simp: in_turn_def)
next
  case (Suc fuel)
  show ?case unfolding RunLoop_rounds.simps
  proof (rule appends_bnd_call)
    fix r :: resp
    let ?get = "(Ws (WsGetAction x), r)"
    let ?silent = "\<lambda>g :: tcall history. list_all (\<lambda>x. other_call (fst x)) g"
    show "appends (andthen (whenM (FAILED (hr_of r)) (do_call (Ws (WsAbortHandle x))))
       (case get_action r v of None \<Rightarrow> fault | Some (action, actionContext) \<Rightarrow>
        let array = get_buffers r bs; n = buffer_count r in
        bnd (process_action fuel action (take n array) (hr_of r)) (\<lambda>(hr, bytesTransferred, used).
        andthen (whenM (FAILED hr) (do_call (Ws (WsAbortHandle x))))
        (andthen (do_call (Ws (WsCompleteAction x actionContext bytesTransferred (contents used))))
          (if action \<noteq> NoAction then RunLoop_rounds fuel x (Some (action, actionContext)) (used @ drop n array)
           else ret hr))))) (\<lambda>oc g. in_turn v (?get # g) oc)"
    proof (cases "get_action r v")
      case None
      then have f: "v = None" "FAILED (hr_of r)" by (auto simp: get_action_def split: if_splits)
      show ?thesis unfolding None option.case
        by (intro appends_andthen_when appends_andthen_call appends_fault) (simp_all add: f in_turn_def)
    next
      case (Some ac)
      obtain a c where ac: "ac = (a, c)" by (cases ac)
      note get = Some[unfolded ac]
      have cut: "in_turn v (?get # g) oc" if "?silent g" "\<not> is_Val oc" for g and oc :: "(unit, HRESULT) outcome"
        using in_turn_cut[OF get others[OF that(1)] that(2)] .
      have complete: "appends (andthen (do_call (Ws (WsCompleteAction x c n (contents used))))
            (if a \<noteq> NoAction then RunLoop_rounds fuel x (Some (a, c)) array else ret hr))
          (\<lambda>oc g'. in_turn v (?get # g @ g') oc)" if "?silent g" for g n used array hr
      proof (rule appends_andthen_call, rule appends_if)
        fix r2 show "appends (RunLoop_rounds fuel x (Some (a, c)) array)
            (\<lambda>oc g'. in_turn v (?get # g @ (Ws (WsCompleteAction x c n (contents used)), r2) # g') oc)"
          by (rule appends_mono[OF Suc.IH]) (rule in_turn_round[OF get others[OF that]], simp_all)
      next
        fix r2 show "appends (ret hr)
            (\<lambda>oc g'. in_turn v (?get # g @ (Ws (WsCompleteAction x c n (contents used)), r2) # g') oc)"
          by (intro appends_ret in_turn_last[OF get others[OF that]]) simp_all
      qed
      have rest: "appends (case p of (hr, bytesTransferred, used) \<Rightarrow>
          andthen (whenM (FAILED hr) (do_call (Ws (WsAbortHandle x))))
          (andthen (do_call (Ws (WsCompleteAction x c bytesTransferred (contents used))))
            (if a \<noteq> NoAction then RunLoop_rounds fuel x (Some (a, c)) (used @ drop n array) else ret hr)))
          (\<lambda>oc g'. in_turn v (?get # g1 @ g2 @ g') oc)" if "?silent g1" "?silent g2" for g1 g2 p n array
      proof -
        obtain hr m used where p: "p = (hr, m, used)" by (cases p)
        show ?thesis unfolding p prod.case
          by (rule appends_andthen[OF appends_of_emits[OF others_abort]])
            (use that cut complete[of "g1 @ g2 @ _"] in auto)
      qed
      show ?thesis unfolding get option.case prod.case Let_def
        by (rule appends_andthen[OF appends_of_emits[OF others_abort]],
            rule appends_bnd[OF appends_of_emits[OF others_process]])
          (use cut rest in auto)
    qed
  qed
qed

section \<open>Properties\<close>

text \<open>
  C9: On every path of \<open>wmain\<close>, and whichever call of the WebSocket library fails, no handle is deleted
  that was not created or was deleted before; when \<open>wmain\<close> returns, every handle that was created
  has been deleted.
\<close>

theorem wmain_handles:
  "ws.live (history_of (wmain fuel os s [])) \<noteq> None \<and>
   (is_Val (outcome_of (wmain fuel os s [])) \<longrightarrow> ws.live (history_of (wmain fuel os s [])) = Some {#})"
  using ws.neutral_post[OF neutral_wmain[of fuel], of os s "outcome_of (wmain fuel os s [])"
      "state_of (wmain fuel os s [])" "history_of (wmain fuel os s [])"]
  by (cases "outcome_of (wmain fuel os s [])") (auto simp: outcome_of_def state_of_def history_of_def)

text \<open>A library that creates handles 7 and 8, completes the handshake and then has nothing to do.\<close>

definition idle_library :: "tcall os" where
  "idle_library h c = (case c of
      Ws WsCreateClientHandle \<Rightarrow> ok_resp\<lparr>out := 7\<rparr>
    | Ws WsCreateServerHandle \<Rightarrow> ok_resp\<lparr>out := 8\<rparr>
    | _ \<Rightarrow> ok_resp)"

theorem wmain_handles_witness:
  "ws.live (history_of (wmain 2 idle_library t0 [])) = Some {#}"
proof -
  have "is_Val (outcome_of (wmain 2 idle_library t0 []))" by code_simp
  with wmain_handles[of 2 idle_library t0] show ?thesis by blast
qed

text \<open>
  C10: \<open>RunLoop\<close> answers the actions in turn.  Between two calls of \<open>WebSocketGetAction\<close> there is exactly one
  \<open>WebSocketCompleteAction\<close>; the n-th one is given the context the n-th \<open>WebSocketGetAction\<close> wrote, and when
  that call failed and wrote nothing, the context of the action before, which is so completed once more.  If
  the first \<open>WebSocketGetAction\<close> fails, \<open>switch (action)\<close> reads an indeterminate value and nothing is completed.
  When \<open>RunLoop\<close> returns, no completion is missing; if no \<open>WebSocketGetAction\<close> failed, every action obtained
  has been completed exactly once with its own context.
\<close>

theorem actions_completed:
  assumes "RunLoop fuel x os s [] = (oc, s', h)"
  shows "completed h = take (length (completed h)) (contexts None (obtained h)) \<and>
    length (obtained h) \<le> Suc (length (completed h)) \<and>
    (is_Val oc \<longrightarrow> completed h = contexts None (obtained h) \<and> length (completed h) = length (obtained h)) \<and>
    (is_Val oc \<and> (\<forall>r \<in> set (obtained h). SUCCEEDED (hr_of r)) \<longrightarrow> completed h = map ctx_of (obtained h)) \<and>
    (obtained h \<noteq> [] \<and> FAILED (hr_of (hd (obtained h))) \<longrightarrow> oc = Fault \<and> completed h = [])"
proof -
  have "in_turn None h oc"
    using appends_Nil[OF RunLoop_rounds_in_turn[of fuel x None "[None, None]"], of os s] assms
    by (simp add: RunLoop_def)
  then show ?thesis using contexts_successes[of "obtained h" None] by (auto simp: in_turn_def Let_def)
qed

text \<open>
  A library that indicates a completed send under context 9, fails the second \<open>WebSocketGetAction\<close>, and then has
  nothing to do, under context 4.
\<close>

definition failing_library :: "tcall os" where
  "failing_library h c = (case c of
      Ws (WsGetAction x) \<Rightarrow> if h = [] then \<lparr>rv = 0, out = 2, buf = [], outs = [9], rows = []\<rparr>
        else if length h = 2 then \<lparr>rv = 0x80004005, out = 0, buf = [], outs = [], rows = []\<rparr>
        else \<lparr>rv = 0, out = 0, buf = [], outs = [4], rows = []\<rparr>
    | _ \<Rightarrow> ok_resp)"

theorem actions_completed_witness:
  "is_Val (outcome_of (RunLoop 4 5 failing_library (written []) [])) \<and>
   completed (history_of (RunLoop 4 5 failing_library (written []) [])) = [9, 9, 4]"
proof -
  let ?run = "RunLoop 4 5 failing_library (written []) []"
  have "is_Val (outcome_of ?run)" "contexts None (obtained (history_of ?run)) = [9, 9, 4]" by code_simp+
  then show ?thesis
    using actions_completed[of 4 5 failing_library "written []" "outcome_of ?run" "state_of ?run" "history_of ?run"]
    by (simp add: outcome_of_def state_of_def history_of_def)
qed

text \<open>Sending, when allocations are granted.\<close>

lemma send_buffers_run:
  "\<lbrakk>\<forall>h c. rv (os h c) \<noteq> 0; holds s cs; \<forall>b \<in> set bs. length b < 2 ^ 32\<rbrakk> \<Longrightarrow>
   \<exists>s' h'. send_buffers (map Some bs) hr n os s h =
     (Val (if bs = [] then hr else S_OK, n + of_nat (sum_list (map length bs))), s', h') \<and>
     holds s' (cs @ map (Pair 0) bs)"
proof (induction bs arbitrary: hr n s h cs)
  case Nil
  then show ?case by (simp add: ret_apply)
next
  case (Cons b bs)
  then obtain ps ds where t: "trep s ps ds cs" by (auto simp: holds_def)
  have u: "unat (len b) = length b"
    by (rule unat_less_imp_eq_of_nat) (use Cons.prems(3) in simp)
  obtain s1 h1 where w: "WriteData (Some b) (len b) os s h = (Val S_OK, s1, h1)" "holds s1 (cs @ [(0, b)])"
    using WriteData_stored[OF t, of "len b" b os h] Cons.prems(1) u by auto
  from Cons.IH[OF Cons.prems(1) w(2), of S_OK "n + len b" h1] Cons.prems(3) obtain s2 h2 where
    "send_buffers (map Some bs) S_OK (n + len b) os s1 h1 =
      (Val (S_OK, n + len b + of_nat (sum_list (map length bs))), s2, h2)"
    "holds s2 (cs @ (0, b) # map (Pair 0) bs)" by auto
  then show ?case by (simp add: bnd_Val[of "WriteData (Some b) (len b)", OF w(1)] add.assoc blen_def)
qed

lemma stream_fresh: "stream (map (Pair 0) bs) = concat bs"
  by (simp add: stream_def comp_def)

lemma well_read_fresh: "well_read (map (Pair 0) bs)" "readable n (map (Pair 0) bs)"
  by (cases bs; auto simp: well_read_def readable_def)+

text \<open>A read into a whole buffer.\<close>

lemma ReadData_buffer:
  assumes "holds s cs" and "well_read cs" and "readable (length b) cs" and "length b < 2 ^ 32"
    and "b \<noteq> []" and "stream cs \<noteq> []" and "length cs < fuel"
  obtains s' h' where "ReadData fuel (len b) (Some b) os s h =
      (Val (S_OK, of_nat (min (length b) (length (stream cs))), overwrite 0 (take (length b) (stream cs)) b), s', h')"
    "holds s' (after (length b) cs)"
proof -
  have u: "unat (len b) = length b" by (rule unat_less_imp_eq_of_nat) (use assms(4) in simp)
  have r: "readable (unat (len b)) cs" using assms(3) by (simp only: u)
  have n: "(length b = 0 \<or> stream cs = []) = False" using assms(5,6) by simp
  from ReadData_run[OF assms(1,2) r _ assms(7), of b os h, unfolded u n if_False]
  show thesis using that by blast
qed

lemma well_read_after: "well_read cs \<Longrightarrow> well_read (after n cs)"
proof (induction n cs rule: after.induct)
  case (3 n c cs)
  have w: "well_read cs" using 3(2) by (cases cs) (simp_all add: well_read_def)
  show ?case
  proof (cases "Suc n < length (snd c) - fst c")
    case True
    then show ?thesis using 3(2) by (simp add: well_read_def)
  next
    case False
    then show ?thesis using 3(1)[OF False w] by simp
  qed
qed simp_all

lemma length_after: "length (after n cs) \<le> length cs"
  by (induction n cs rule: after.induct) auto

text \<open>
  What one side sends the other receives: the buffers of a send action, written to an empty
  transport, come back as one byte string from a receive action with one buffer, cut at the
  buffer's length, and both actions report the number of bytes they moved.
\<close>

theorem network_roundtrip:
  assumes "holds s []" and "\<forall>h c. rv (os h c) \<noteq> 0" and "\<forall>b \<in> set bs. length b < 2 ^ 32"
    and "concat bs \<noteq> []" and "dst \<noteq> []" and "length dst < 2 ^ 32" and "length bs < fuel"
  shows "\<exists>s1 h1. send_buffers (map Some bs) S_OK 0 os s h = (Val (S_OK, of_nat (length (concat bs))), s1, h1) \<and>
    outcome_of (receive_buffers fuel [Some dst] S_OK 0 os s1 h1) =
      Val (S_OK, of_nat (min (length dst) (length (concat bs))),
           [Some (overwrite 0 (take (length dst) (concat bs)) dst)])"
proof -
  obtain s1 h1 where s1: "send_buffers (map Some bs) S_OK 0 os s h =
      (Val (S_OK, of_nat (sum_list (map length bs))), s1, h1)" "holds s1 (map (Pair 0) bs)"
    using send_buffers_run[OF assms(2,1,3), of S_OK 0 h] by auto
  obtain s2 h2 where r: "ReadData fuel (len dst) (Some dst) os s1 h1 =
    (Val (S_OK, of_nat (min (length dst) (length (concat bs))), overwrite 0 (take (length dst) (concat bs)) dst), s2, h2)"
    by (rule ReadData_buffer[OF s1(2) well_read_fresh assms(6,5), of fuel os h1])
      (use assms(4,7) stream_fresh[of bs] in simp_all)
  have "outcome_of (receive_buffers fuel [Some dst] S_OK 0 os s1 h1) =
      Val (S_OK, of_nat (min (length dst) (length (concat bs))), [Some (overwrite 0 (take (length dst) (concat bs)) dst)])"
    by (simp add: bnd_Val[of "ReadData fuel (len dst) (Some dst)", OF r] bnd_ret ret_apply if_apply blen_def Let_def)
  with s1 show ?thesis by (simp add: length_concat)
qed

theorem network_roundtrip_witness:
  "\<exists>s1 h1. send_buffers [Some [1, 2], Some [3]] S_OK 0 (\<lambda>_ _. ok_resp) (written []) [] = (Val (S_OK, 3), s1, h1) \<and>
    outcome_of (receive_buffers 5 [Some [0, 0, 0, 0]] S_OK 0 (\<lambda>_ _. ok_resp) s1 h1) = Val (S_OK, 3, [Some [1, 2, 3, 0]])"
  using network_roundtrip[of "written []" "\<lambda>_ _. ok_resp" "[[1, 2], [3]]" "[0, 0, 0, 0]" 5 "[]"] written_holds[of "[]"]
  by (simp add: overwrite_def)

text \<open>
  A receive action with two buffers that are both filled reports only the bytes of the second:
  the count of the first read is overwritten by that of the second, where the send loop adds them up.
\<close>

theorem receive_undercounts:
  assumes "holds s cs" and "well_read cs" and "readable (length b1) cs" and "readable (length b2) (after (length b1) cs)"
    and "0 < length b1" and "0 < length b2" and "length b1 < 2 ^ 32" and "length b2 < 2 ^ 32"
    and "length b1 + length b2 \<le> length (stream cs)" and "length cs < fuel"
  shows "\<exists>s' h'. receive_buffers fuel [Some b1, Some b2] S_OK 0 os s h =
      (Val (S_OK, of_nat (length b2), [Some (take (length b1) (stream cs)), Some (take (length b2) (drop (length b1) (stream cs)))]), s', h') \<and>
    (\<exists>cs'. holds s' cs' \<and> stream cs' = drop (length b1 + length b2) (stream cs))"
proof -
  have b: "b1 \<noteq> []" "b2 \<noteq> []" using assms(5,6) by auto
  have "length b1 < length (stream cs)" using assms(6,9) by linarith
  then have ne: "stream cs \<noteq> []" "stream (after (length b1) cs) \<noteq> []" by (auto simp: stream_after)
  have f: "length (after (length b1) cs) < fuel" using assms(10) length_after[of "length b1" cs] by simp
  obtain s1 h1 where "ReadData fuel (len b1) (Some b1) os s h =
      (Val (S_OK, of_nat (min (length b1) (length (stream cs))), overwrite 0 (take (length b1) (stream cs)) b1), s1, h1)"
    and h1: "holds s1 (after (length b1) cs)"
    by (rule ReadData_buffer[OF assms(1-3,7) b(1) ne(1) assms(10)])
  then have r1: "ReadData fuel (len b1) (Some b1) os s h = (Val (S_OK, len b1, take (length b1) (stream cs)), s1, h1)"
    using assms(9) by (simp add: overwrite_def min_def)
  have l: "length b2 \<le> length (stream (after (length b1) cs))" using assms(9) by (simp add: stream_after)
  obtain s2 h2 where "ReadData fuel (len b2) (Some b2) os s1 h1 =
      (Val (S_OK, of_nat (min (length b2) (length (stream (after (length b1) cs)))),
        overwrite 0 (take (length b2) (stream (after (length b1) cs))) b2), s2, h2)"
    and h2: "holds s2 (after (length b2) (after (length b1) cs))"
    by (rule ReadData_buffer[OF h1 well_read_after[OF assms(2)] assms(4,8) b(2) ne(2) f])
  then have r2: "ReadData fuel (len b2) (Some b2) os s1 h1 =
      (Val (S_OK, len b2, take (length b2) (stream (after (length b1) cs))), s2, h2)"
    using l by (simp add: overwrite_def min_absorb1 stream_after)
  have inner: "receive_buffers fuel [Some b2] S_OK (len b1) os s1 h1 =
      (Val (S_OK, len b2, [Some (take (length b2) (drop (length b1) (stream cs)))]), s2, h2)"
    by (simp add: bnd_Val[of "ReadData fuel (len b2) (Some b2)", OF r2] bnd_ret ret_apply stream_after blen_def Let_def)
  have "receive_buffers fuel [Some b1, Some b2] S_OK 0 os s h =
      (Val (S_OK, len b2, [Some (take (length b1) (stream cs)), Some (take (length b2) (drop (length b1) (stream cs)))]), s2, h2)"
    by (simp add: receive_buffers.simps(2)[of fuel "Some b1" "[Some b2]"] bnd_Val[of "ReadData fuel (len b1) (Some b1)", OF r1] ret_apply
        bnd_Val[of "receive_buffers fuel [Some b2] S_OK (len b1)", OF inner] blen_def Let_def del: receive_buffers.simps(2))
  moreover have "stream (after (length b2) (after (length b1) cs)) = drop (length b1 + length b2) (stream cs)"
    by (simp add: stream_after add.commute)
  ultimately show ?thesis using h2 by blast
qed

theorem receive_undercounts_witness:
  "\<exists>s' h'. receive_buffers 3 [Some [0, 0], Some [0]] S_OK 0 (\<lambda>_ _. ok_resp) (written [[1, 2, 3]]) [] =
      (Val (S_OK, 1, [Some [1, 2], Some [3]]), s', h')"
proof -
  have "well_read [(0, [1, 2, 3 :: BYTE])]" "readable (Suc (Suc 0)) [(0, [1, 2, 3 :: BYTE])]"
    "readable (Suc 0) [(Suc (Suc 0), [1, 2, 3 :: BYTE])]" by code_simp+
  moreover have "holds (written [[1, 2, 3]]) [(0, [1, 2, 3])]" using written_holds[of "[[1, 2, 3]]"] by simp
  ultimately have "\<exists>s' h'. receive_buffers 3 [Some [0, 0], Some [0]] S_OK 0 (\<lambda>_ _. ok_resp) (written [[1, 2, 3]]) [] =
      (Val (S_OK, 1, [Some [1, 2], Some [3]]), s', h') \<and>
      (\<exists>cs'. holds s' cs' \<and> stream cs' = [])"
    using receive_undercounts[of "written [[1, 2, 3]]" "[(0, [1, 2, 3])]" "[0, 0]" "[0]" 3 "\<lambda>_ _. ok_resp" "[]"]
    by (simp del: receive_buffers.simps)
  then show ?thesis by blast
qed

end
