(* ===== verification/BasicCom.thy ===== *)
theory BasicCom
  imports Raii
begin

text \<open>
  The in-process COM server basic-com: the object (AddObj.hpp, AddObj.cpp), its class factory
  (AddObjFactory.hpp, AddObjFactory.cpp) and the entry points of the DLL (Exports.cpp).  Objects live
  on a heap indexed by address; address 0 is NULL, and a call through an address that holds no
  object is a fault.  Allocation, the registry and the other services of Windows are calls of the
  operating system; \<open>new\<close> throws when it is refused, it never returns NULL.
\<close>

section \<open>Data\<close>

record GUID =
  Data1 :: DWORD
  Data2 :: WORD
  Data3 :: WORD
  Data4 :: "BYTE list"

definition CLSID_AddObject :: GUID where
  "CLSID_AddObject = \<lparr>Data1 = 0x92e7a9c2, Data2 = 0xf4cb, Data3 = 0x11d4,
     Data4 = [0x82, 0x5d, 0x0, 0x10, 0x4b, 0x36, 0x46, 0xc0]\<rparr>"

definition IID_IAdd :: GUID where
  "IID_IAdd = \<lparr>Data1 = 0x1221db62, Data2 = 0xf3d8, Data3 = 0x11d4,
     Data4 = [0x82, 0x5d, 0x00, 0x10, 0x4b, 0x36, 0x46, 0xc0]\<rparr>"

text \<open>The two interface identifiers of the COM headers.\<close>

definition IID_IUnknown :: GUID where
  "IID_IUnknown = \<lparr>Data1 = 0, Data2 = 0, Data3 = 0, Data4 = [0xc0, 0, 0, 0, 0, 0, 0, 0x46]\<rparr>"

definition IID_IClassFactory :: GUID where
  "IID_IClassFactory = \<lparr>Data1 = 1, Data2 = 0, Data3 = 0, Data4 = [0xc0, 0, 0, 0, 0, 0, 0, 0x46]\<rparr>"

abbreviation (input) S_FALSE :: HRESULT where "S_FALSE \<equiv> 1"
abbreviation (input) E_NOTIMPL :: HRESULT where "E_NOTIMPL \<equiv> 0x80004001"
abbreviation (input) E_NOINTERFACE :: HRESULT where "E_NOINTERFACE \<equiv> 0x80004002"
abbreviation (input) CLASS_E_NOAGGREGATION :: HRESULT where "CLASS_E_NOAGGREGATION \<equiv> 0x80040110"
abbreviation (input) CLASS_E_CLASSNOTAVAILABLE :: HRESULT where "CLASS_E_CLASSNOTAVAILABLE \<equiv> 0x80040111"

record CAddObj =
  m_nX1 :: LONG
  m_nX2 :: LONG
  m_nRefCount :: LONG

text \<open>The member of the factory has no initialiser: it holds what the memory held before.\<close>

record CAddFactory =
  f_nRefCount :: LONG

record com =
  adds :: "nat \<Rightarrow> CAddObj option"
  facs :: "nat \<Rightarrow> CAddFactory option"
  brk :: nat
  g_hModule :: HANDLE
  g_nComObjsInUse :: LONG

datatype comcall =
    NewAddObj
  | NewFactory
  | RegCreateKey wstring
  | RegSetValueEx HANDLE wstring
  | RegCloseKey HANDLE
  | RegDeleteKey wstring
  | StringFromCLSID GUID
  | GetModuleFileName HANDLE nat

type_synonym 'a cio = "(com, comcall, unit, 'a) io"

section \<open>CAddObj\<close>

definition add_at :: "nat \<Rightarrow> CAddObj cio" where
  "add_at p = (\<lambda>os s h. case adds s p of None \<Rightarrow> (Fault, s, h) | Some x \<Rightarrow> (Val x, s, h))"

definition put_add :: "nat \<Rightarrow> CAddObj option \<Rightarrow> unit cio" where
  "put_add p x = modify (\<lambda>s. s\<lparr>adds := (adds s)(p := x)\<rparr>)"

definition SetFirstNumber :: "nat \<Rightarrow> LONG \<Rightarrow> HRESULT cio" where
  "SetFirstNumber this nX1 = bnd (add_at this) (\<lambda>x. andthen (put_add this (Some (x\<lparr>m_nX1 := nX1\<rparr>))) (ret S_OK))"

definition SetSecondNumber :: "nat \<Rightarrow> LONG \<Rightarrow> HRESULT cio" where
  "SetSecondNumber this nX2 = bnd (add_at this) (\<lambda>x. andthen (put_add this (Some (x\<lparr>m_nX2 := nX2\<rparr>))) (ret S_OK))"

text \<open>The sum of two \<open>long\<close>s: undefined when it overflows.\<close>

definition DoTheAddition :: "nat \<Rightarrow> (HRESULT \<times> LONG) cio" where
  "DoTheAddition this = bnd (add_at this) (\<lambda>x.
     let r = sint (m_nX1 x) + sint (m_nX2 x)
     in if - (2 ^ 31) \<le> r \<and> r < 2 ^ 31 then ret (S_OK, of_int r) else fault)"

definition Add_AddRef :: "nat \<Rightarrow> ULONG cio" where
  "Add_AddRef this = bnd (add_at this) (\<lambda>x. let n = m_nRefCount x + 1 in
     andthen (put_add this (Some (x\<lparr>m_nRefCount := n\<rparr>))) (ret n))"

definition Add_Release :: "nat \<Rightarrow> ULONG cio" where
  "Add_Release this = bnd (add_at this) (\<lambda>x. let nRefCount = m_nRefCount x - 1 in
     andthen (put_add this (Some (x\<lparr>m_nRefCount := nRefCount\<rparr>)))
     (andthen (whenM (nRefCount = 0) (put_add this None)) (ret nRefCount)))"

text \<open>The status and what is stored through \<open>ppObj\<close>.\<close>

definition Add_QueryInterface :: "nat \<Rightarrow> GUID \<Rightarrow> (HRESULT \<times> nat) cio" where
  "Add_QueryInterface this riid =
     (if riid = IID_IUnknown then andthen (Add_AddRef this) (ret (S_OK, this))
      else if riid = IID_IAdd then andthen (Add_AddRef this) (ret (S_OK, this))
      else ret (E_NOINTERFACE, 0))"

section \<open>CAddFactory\<close>

definition fac_at :: "nat \<Rightarrow> CAddFactory cio" where
  "fac_at p = (\<lambda>os s h. case facs s p of None \<Rightarrow> (Fault, s, h) | Some x \<Rightarrow> (Val x, s, h))"

definition put_fac :: "nat \<Rightarrow> CAddFactory option \<Rightarrow> unit cio" where
  "put_fac p x = modify (\<lambda>s. s\<lparr>facs := (facs s)(p := x)\<rparr>)"

text \<open>\<open>ppv\<close> is written only past the first check; NULL stands for the caller's untouched pointer.\<close>

definition CreateInstance :: "nat \<Rightarrow> nat \<Rightarrow> GUID \<Rightarrow> (HRESULT \<times> nat) cio" where
  "CreateInstance this pUnknownOuter iid =
     (if pUnknownOuter \<noteq> 0 then ret (CLASS_E_NOAGGREGATION, 0) else
      bnd (call NewAddObj) (\<lambda>r. if rv r = 0 then throw () else
      bnd (gets brk) (\<lambda>pObject.
      andthen (modify (\<lambda>s. s\<lparr>adds := (adds s)(pObject \<mapsto> \<lparr>m_nX1 = 0, m_nX2 = 0, m_nRefCount = 0\<rparr>), brk := Suc pObject\<rparr>))
        (Add_QueryInterface pObject iid))))"

definition LockServer :: "nat \<Rightarrow> bool \<Rightarrow> HRESULT cio" where
  "LockServer this bLock = ret E_NOTIMPL"

definition Fac_AddRef :: "nat \<Rightarrow> ULONG cio" where
  "Fac_AddRef this = bnd (fac_at this) (\<lambda>x. let n = f_nRefCount x + 1 in
     andthen (put_fac this (Some (x\<lparr>f_nRefCount := n\<rparr>))) (ret n))"

definition Fac_Release :: "nat \<Rightarrow> ULONG cio" where
  "Fac_Release this = bnd (fac_at this) (\<lambda>x. let nRefCount = f_nRefCount x - 1 in
     andthen (put_fac this (Some (x\<lparr>f_nRefCount := nRefCount\<rparr>)))
     (andthen (whenM (nRefCount = 0) (put_fac this None)) (ret nRefCount)))"

definition Fac_QueryInterface :: "nat \<Rightarrow> GUID \<Rightarrow> (HRESULT \<times> nat) cio" where
  "Fac_QueryInterface this iid =
     (if iid = IID_IUnknown \<or> iid = IID_IClassFactory then andthen (Fac_AddRef this) (ret (S_OK, this))
      else ret (E_NOINTERFACE, 0))"

section \<open>Entry points\<close>

definition DllMain :: "HANDLE \<Rightarrow> DWORD \<Rightarrow> bool cio" where
  "DllMain hModule dwReason =
     andthen (whenM (dwReason = 1) (modify (\<lambda>s. s\<lparr>g_hModule := hModule\<rparr>))) (ret True)"

text \<open>\<open>new CAddFactory\<close> leaves the count indeterminate: it is what the answer's out-parameter says the memory held.\<close>

definition DllGetClassObject :: "GUID \<Rightarrow> GUID \<Rightarrow> (HRESULT \<times> nat) cio" where
  "DllGetClassObject clsid iid =
     (if clsid = CLSID_AddObject then
        bnd (call NewFactory) (\<lambda>r. if rv r = 0 then throw () else
        bnd (gets brk) (\<lambda>pAddFact.
        andthen (modify (\<lambda>s. s\<lparr>facs := (facs s)(pAddFact \<mapsto> \<lparr>f_nRefCount = ucast (out r)\<rparr>), brk := Suc pAddFact\<rparr>))
          (Fac_QueryInterface pAddFact iid)))
      else ret (CLASS_E_CLASSNOTAVAILABLE, 0))"

definition DllCanUnloadNow :: "HRESULT cio" where
  "DllCanUnloadNow = bnd (gets g_nComObjsInUse) (\<lambda>n. if n = 0 then ret S_OK else ret S_FALSE)"

text \<open>\<open>HelperWriteKey\<close> for the default value of a key, with the bytes up to the terminator of \<open>lpvData\<close>.\<close>

definition HelperWriteKey :: "wstring \<Rightarrow> wstring \<Rightarrow> bool cio" where
  "HelperWriteKey lpSubKey lpvData =
     bnd (call (RegCreateKey lpSubKey)) (\<lambda>r1. if rv r1 \<noteq> 0 then ret False else
     bnd (call (RegSetValueEx (out r1) lpvData)) (\<lambda>r2. if rv r2 \<noteq> 0 then ret False else
     bnd (call (RegCloseKey (out r1))) (\<lambda>r3. if rv r3 \<noteq> 0 then ret False else ret True)))"

definition AddObjProgId :: wstring where
  "AddObjProgId = wstr ''CodeGuru.FastAddition''"

definition backslash :: wstring where
  "backslash = [92]"

text \<open>The path of the module goes to a buffer of 1024 characters, whose size is passed in bytes.\<close>

definition module_path :: "wstring cio" where
  "module_path = bnd (gets g_hModule) (\<lambda>m. bnd (call (GetModuleFileName m 2048)) (\<lambda>r.
     let path = cstr (wide_of (buf r)) in if 1024 \<le> length path then fault else ret path))"

definition DllRegisterServer :: "HRESULT cio" where
  "DllRegisterServer =
     bnd (call (StringFromCLSID CLSID_AddObject)) (\<lambda>r.
     let szClsid = cstr (wide_of (buf r));
         szInproc = wstr ''clsid'' @ backslash @ szClsid @ backslash @ wstr ''InprocServer32'';
         szProgId = wstr ''clsid'' @ backslash @ szClsid @ backslash @ wstr ''ProgId'';
         description = wstr ''Fast Addition Algorithm'';
         szDescriptionVal = wstr ''clsid'' @ backslash @ szClsid
     in bnd (HelperWriteKey szDescriptionVal description) (\<lambda>_.
     bnd module_path (\<lambda>path.
     bnd (HelperWriteKey szInproc path) (\<lambda>_.
     bnd (HelperWriteKey szProgId AddObjProgId) (\<lambda>_.
     bnd (HelperWriteKey AddObjProgId description) (\<lambda>_.
     bnd (HelperWriteKey (AddObjProgId @ backslash @ wstr ''CLSID'') szClsid) (\<lambda>_.
     ret 1)))))))"

definition DllUnregisterServer :: "HRESULT cio" where
  "DllUnregisterServer =
     andthen (do_call (RegDeleteKey (AddObjProgId @ backslash @ wstr ''CLSID'')))
     (andthen (do_call (RegDeleteKey AddObjProgId))
     (bnd (call (StringFromCLSID CLSID_AddObject)) (\<lambda>r.
      let szClsid = cstr (wide_of (buf r)) in
      andthen (do_call (RegDeleteKey (wstr ''CLSID'' @ backslash @ szClsid @ backslash @ wstr ''InprocServer32'')))
      (andthen (do_call (RegDeleteKey (wstr ''CLSID'' @ backslash @ szClsid @ backslash @ wstr ''ProgId'')))
      (andthen (do_call (RegDeleteKey (wstr ''CLSID'' @ backslash @ szClsid)))
      (ret 1))))))"

section \<open>A client\<close>

text \<open>
  What a client may do that keeps the rules of COM: it calls only through references it holds, and
  releases each reference once.  \<open>R\<close> is the multiset of references; an operation on a pointer not
  held is not made.
\<close>

datatype com_op =
    Create GUID
  | Query nat GUID
  | AddRef nat
  | Release nat
  | SetFirst nat LONG
  | SetSecond nat LONG

fun com_run :: "com_op list \<Rightarrow> nat multiset \<Rightarrow> (nat multiset) cio" where
  "com_run [] R = ret R"
| "com_run (Create iid # ops) R =
     bnd (CreateInstance 0 0 iid) (\<lambda>(hr, p). com_run ops (if hr = S_OK then add_mset p R else R))"
| "com_run (Query p iid # ops) R = (if p \<in># R then
     bnd (Add_QueryInterface p iid) (\<lambda>(hr, q). com_run ops (if hr = S_OK then add_mset q R else R))
     else com_run ops R)"
| "com_run (AddRef p # ops) R = (if p \<in># R then
     bnd (Add_AddRef p) (\<lambda>_. com_run ops (add_mset p R)) else com_run ops R)"
| "com_run (Release p # ops) R = (if p \<in># R then
     bnd (Add_Release p) (\<lambda>_. com_run ops (R - {#p#})) else com_run ops R)"
| "com_run (SetFirst p n # ops) R = (if p \<in># R then
     bnd (SetFirstNumber p n) (\<lambda>_. com_run ops R) else com_run ops R)"
| "com_run (SetSecond p n # ops) R = (if p \<in># R then
     bnd (SetSecondNumber p n) (\<lambda>_. com_run ops R) else com_run ops R)"

section \<open>Lifetimes\<close>

text \<open>
  The invariant of a client's run: a reference count is the number of references the client holds,
  nothing is held to an object that is gone, and \<open>k\<close> objects live without a reference, the \<open>orphans\<close>.
\<close>

definition rc :: "CAddObj option \<Rightarrow> nat" where
  "rc x = (case x of None \<Rightarrow> 0 | Some y \<Rightarrow> unat (m_nRefCount y))"

lemma rc_simps [simp]: "rc None = 0" "rc (Some x) = unat (m_nRefCount x)"
  by (simp_all add: rc_def)

definition orphans :: "nat multiset \<Rightarrow> com \<Rightarrow> nat set" where
  "orphans R s = {p. adds s p \<noteq> None \<and> count R p = 0}"

definition cinv :: "nat \<Rightarrow> nat multiset \<Rightarrow> com \<Rightarrow> bool" where
  "cinv k R s \<longleftrightarrow> (\<forall>p. rc (adds s p) = count R p) \<and> card (orphans R s) = k \<and> (\<forall>p \<ge> brk s. adds s p = None)"

text \<open>How often the client asks for a new object under an interface the object does not have.\<close>

fun unsupported :: "com_op list \<Rightarrow> nat" where
  "unsupported [] = 0"
| "unsupported (Create iid # ops) = (if iid = IID_IUnknown \<or> iid = IID_IAdd then 0 else 1) + unsupported ops"
| "unsupported (_ # ops) = unsupported ops"

lemma finite_orphans: "cinv k R s \<Longrightarrow> finite (orphans R s)"
  by (rule finite_subset[of _ "{..< brk s}"]) (auto simp: cinv_def orphans_def not_le[symmetric])

lemma add_at_run: "adds s p = Some x \<Longrightarrow> bnd (add_at p) f os s h = f x os s h"
  by (simp add: bnd_def add_at_def)

lemma cinv_rc: "cinv c R s \<Longrightarrow> adds s p = Some x \<Longrightarrow> unat (m_nRefCount x) = count R p"
  unfolding cinv_def by (metis rc_simps(2))

lemma cinv_held: "cinv c R s \<Longrightarrow> p \<in># R \<Longrightarrow> \<exists>x. adds s p = Some x"
  unfolding cinv_def by (cases "adds s p") (metis rc_simps(1) count_greater_zero_iff less_irrefl, simp)

lemma cinv_brk: "cinv c R s \<Longrightarrow> adds s p = Some x \<Longrightarrow> p < brk s"
  unfolding cinv_def by (metis not_le option.distinct(1))

lemma Add_AddRef_run:
  assumes "adds s p = Some x"
  shows "bnd (Add_AddRef p) f os s h =
    f (m_nRefCount x + 1) os (s\<lparr>adds := (adds s)(p \<mapsto> x\<lparr>m_nRefCount := m_nRefCount x + 1\<rparr>)\<rparr>) h"
  using assms by (simp add: Add_AddRef_def bnd_bnd add_at_run Let_def andthen_def put_add_def bnd_modify_apply bnd_ret)

lemma Add_Release_run:
  assumes "adds s p = Some x"
  shows "bnd (Add_Release p) f os s h =
    f (m_nRefCount x - 1) os (s\<lparr>adds := (adds s)(p := if m_nRefCount x = 1 then None
      else Some (x\<lparr>m_nRefCount := m_nRefCount x - 1\<rparr>))\<rparr>) h"
  using assms by (simp add: Add_Release_def bnd_bnd add_at_run Let_def andthen_def put_add_def bnd_modify_apply
      bnd_ret whenM_def)

lemma cinv_AddRef:
  assumes "cinv c R s" "adds s p = Some x" "count R p + 1 < 2 ^ 32" "p \<in># R"
  shows "cinv c (add_mset p R) (s\<lparr>adds := (adds s)(p \<mapsto> x\<lparr>m_nRefCount := m_nRefCount x + 1\<rparr>)\<rparr>)"
proof -
  note x = cinv_rc[OF assms(1,2)] cinv_brk[OF assms(1,2)]
  have "unat (m_nRefCount x + 1) = Suc (count R p)"
    using unat_add_1_no_wrap[of "m_nRefCount x"] assms(3) x by simp
  moreover have "orphans (add_mset p R) (s\<lparr>adds := (adds s)(p \<mapsto> x\<lparr>m_nRefCount := m_nRefCount x + 1\<rparr>)\<rparr>) = orphans R s"
    using assms(4) by (auto simp: orphans_def simp flip: count_greater_zero_iff)
  ultimately show ?thesis using assms(1) x by (auto simp: cinv_def)
qed

lemma cinv_Release:
  assumes "cinv c R s" "adds s p = Some x" "p \<in># R"
  shows "cinv c (R - {#p#}) (s\<lparr>adds := (adds s)(p := if m_nRefCount x = 1 then None
      else Some (x\<lparr>m_nRefCount := m_nRefCount x - 1\<rparr>))\<rparr>)"
proof -
  note x = cinv_rc[OF assms(1,2)] cinv_brk[OF assms(1,2)]
  have r: "0 < count R p" using assms(3) by simp
  then have nz: "m_nRefCount x \<noteq> 0" using x(1) by (metis unat_0 less_irrefl)
  have m: "unat (m_nRefCount x - 1) = count R p - 1" using unat_sub_1_no_wrap[OF nz] x by simp
  have one: "m_nRefCount x = 1 \<longleftrightarrow> count R p = 1" using x(1) by (metis unat_1 word_unat_eq_iff)
  have "count R p = 1 \<or> 1 < count R p" using r by linarith
  moreover have "orphans (R - {#p#}) (s\<lparr>adds := (adds s)(p := if m_nRefCount x = 1 then None
      else Some (x\<lparr>m_nRefCount := m_nRefCount x - 1\<rparr>))\<rparr>) = orphans R s"
    using one calculation r by (auto simp: orphans_def split: if_splits)
  ultimately show ?thesis using assms(1) m one x by (auto simp: cinv_def)
qed

lemma cinv_field:
  assumes "cinv c R s" "adds s p = Some x" "m_nRefCount y = m_nRefCount x"
  shows "cinv c R (s\<lparr>adds := (adds s)(p \<mapsto> y)\<rparr>)"
proof -
  have "orphans R (s\<lparr>adds := (adds s)(p \<mapsto> y)\<rparr>) = orphans R s" using assms(2) by (auto simp: orphans_def)
  with assms cinv_rc[OF assms(1,2)] cinv_brk[OF assms(1,2)] show ?thesis by (auto simp: cinv_def)
qed

lemma cinv_fresh: "cinv c R s \<Longrightarrow> adds s (brk s) = None \<and> count R (brk s) = 0"
  unfolding cinv_def by (metis order_refl rc_simps(1))

lemma cinv_Create:
  assumes "cinv c R s" and "adds s' = (adds s)(brk s \<mapsto> \<lparr>m_nX1 = 0, m_nX2 = 0, m_nRefCount = 1\<rparr>)" "brk s' = Suc (brk s)"
  shows "cinv c (add_mset (brk s) R) s'"
proof -
  have "orphans (add_mset (brk s) R) s' = orphans R s" using assms(2) cinv_fresh[OF assms(1)] by (auto simp: orphans_def)
  with assms cinv_fresh[OF assms(1)] show ?thesis by (auto simp: cinv_def)
qed

lemma cinv_Create_orphan:
  assumes "cinv k R s" and "adds s' = (adds s)(brk s \<mapsto> \<lparr>m_nX1 = 0, m_nX2 = 0, m_nRefCount = 0\<rparr>)" "brk s' = Suc (brk s)"
  shows "cinv (Suc k) R s'"
proof -
  have "orphans R s' = insert (brk s) (orphans R s)" "brk s \<notin> orphans R s"
    using assms(2) cinv_fresh[OF assms(1)] by (auto simp: orphans_def)
  with assms cinv_fresh[OF assms(1)] finite_orphans[OF assms(1)] show ?thesis by (auto simp: cinv_def)
qed

definition iid_ok :: "GUID \<Rightarrow> bool" where
  "iid_ok iid \<longleftrightarrow> iid = IID_IUnknown \<or> iid = IID_IAdd"

lemma QueryInterface_run:
  assumes "adds s p = Some x"
  shows "bnd (Add_QueryInterface p iid) f os s h = (if iid_ok iid
     then f (S_OK, p) os (s\<lparr>adds := (adds s)(p \<mapsto> x\<lparr>m_nRefCount := m_nRefCount x + 1\<rparr>)\<rparr>) h
     else f (E_NOINTERFACE, 0) os s h)"
  using Add_AddRef_run[OF assms]
  by (cases "iid = IID_IUnknown"; cases "iid = IID_IAdd")
    (simp_all add: Add_QueryInterface_def iid_ok_def andthen_def bnd_bnd bnd_ret)

text \<open>A new object, with the count \<open>n\<close>.\<close>

definition created :: "LONG \<Rightarrow> com \<Rightarrow> com" where
  "created n s = s\<lparr>adds := (adds s)(brk s \<mapsto> \<lparr>m_nX1 = 0, m_nX2 = 0, m_nRefCount = n\<rparr>), brk := Suc (brk s)\<rparr>"

lemma created_simps [simp]:
  "adds (created n s) = (adds s)(brk s \<mapsto> \<lparr>m_nX1 = 0, m_nX2 = 0, m_nRefCount = n\<rparr>)"
  "brk (created n s) = Suc (brk s)" "g_nComObjsInUse (created n s) = g_nComObjsInUse s"
  by (simp_all add: created_def)

lemma CreateInstance_run:
  "bnd (CreateInstance this 0 iid) f os s h =
     (if rv (os h NewAddObj) = 0 then (Exn (), s, h @ [(NewAddObj, os h NewAddObj)])
      else if iid_ok iid then f (S_OK, brk s) os (created 1 s) (h @ [(NewAddObj, os h NewAddObj)])
      else f (E_NOINTERFACE, 0) os (created 0 s) (h @ [(NewAddObj, os h NewAddObj)]))"
proof -
  let ?x = "\<lparr>m_nX1 = 0, m_nX2 = 0, m_nRefCount = 0\<rparr>"
  have "adds (created 0 s) (brk s) = Some ?x" by simp
  note q = QueryInterface_run[OF this]
  have e: "created 0 s\<lparr>adds := (adds s)(brk s \<mapsto> \<lparr>m_nX1 = 0, m_nX2 = 0, m_nRefCount = 1\<rparr>)\<rparr> = created 1 s"
    by (simp add: created_def)
  show ?thesis
    by (simp add: CreateInstance_def io_simps throw_apply q e flip: created_def)
qed

lemma com_run_inv:
  "\<lbrakk>cinv k R s; size R + length ops < 2 ^ 32; com_run ops R os s h = (oc, s', h')\<rbrakk> \<Longrightarrow>
   (oc = Exn () \<or> (\<exists>R'. oc = Val R' \<and> cinv (k + unsupported ops) R' s')) \<and> g_nComObjsInUse s' = g_nComObjsInUse s"
proof (induction ops R arbitrary: s h k rule: com_run.induct)
  case (1 R)
  then show ?case by (auto simp: ret_apply)
next
  case (2 iid ops R)
  let ?h = "h @ [(NewAddObj, os h NewAddObj)]"
  consider (refused) "rv (os h NewAddObj) = 0" | (ok) "rv (os h NewAddObj) \<noteq> 0" "iid_ok iid"
    | (orphan) "rv (os h NewAddObj) \<noteq> 0" "\<not> iid_ok iid" by blast
  then show ?case
  proof cases
    case refused
    with 2(4) show ?thesis by (auto simp: CreateInstance_run)
  next
    case ok
    with 2(4) have "com_run ops (add_mset (brk s) R) os (created 1 s) ?h = (oc, s', h')"
      by (simp add: CreateInstance_run)
    with 2(1)[of k S_OK "brk s" "created 1 s" ?h] 2(3) cinv_Create[OF 2(2), of "created 1 s"] ok(2)
    show ?thesis by (auto simp: iid_ok_def)
  next
    case orphan
    with 2(4) have "com_run ops R os (created 0 s) ?h = (oc, s', h')"
      by (simp add: CreateInstance_run)
    with 2(1)[of "Suc k" E_NOINTERFACE 0 "created 0 s" ?h] 2(3) cinv_Create_orphan[OF 2(2), of "created 0 s"] orphan(2)
    show ?thesis by (auto simp: iid_ok_def)
  qed
next
  case (3 p iid ops R)
  show ?case
  proof (cases "p \<in># R")
    case held: True
    then obtain x where x: "adds s p = Some x" using 3(3) cinv_held by blast
    let ?s = "s\<lparr>adds := (adds s)(p \<mapsto> x\<lparr>m_nRefCount := m_nRefCount x + 1\<rparr>)\<rparr>"
    show ?thesis
    proof (cases "iid_ok iid")
      case True
      with 3(5) held have r: "com_run ops (add_mset p R) os ?s h = (oc, s', h')"
        by (simp add: QueryInterface_run[OF x])
      have "count R p + 1 < 2 ^ 32" using 3(4) count_le_size[of R p] by simp
      with 3(1)[OF held, of k S_OK p ?s h] r cinv_AddRef[OF 3(3) x this held] 3(4) show ?thesis by simp
    next
      case False
      with 3(5) held have r: "com_run ops R os s h = (oc, s', h')" by (simp add: QueryInterface_run[OF x])
      with 3(1)[OF held, of k E_NOINTERFACE 0 s h] 3(3,4) show ?thesis by simp
    qed
  next
    case False
    with 3(2)[OF False 3(3)] 3(4,5) show ?thesis by simp
  qed
next
  case (4 p ops R)
  show ?case
  proof (cases "p \<in># R")
    case held: True
    then obtain x where x: "adds s p = Some x" using 4(3) cinv_held by blast
    have b: "count R p + 1 < 2 ^ 32" using 4(4) count_le_size[of R p] by simp
    from 4(5) held have "com_run ops (add_mset p R) os
      (s\<lparr>adds := (adds s)(p \<mapsto> x\<lparr>m_nRefCount := m_nRefCount x + 1\<rparr>)\<rparr>) h = (oc, s', h')"
      by (simp add: Add_AddRef_run[OF x])
    from 4(1)[OF held cinv_AddRef[OF 4(3) x b held] _ this] 4(4) show ?thesis by simp
  next
    case False
    with 4(2)[OF False 4(3)] 4(4,5) show ?thesis by simp
  qed
next
  case (5 p ops R)
  show ?case
  proof (cases "p \<in># R")
    case held: True
    then obtain x where x: "adds s p = Some x" using 5(3) cinv_held by blast
    have sz: "size (R - {#p#}) + length ops < 2 ^ 32" using 5(4) size_Diff_singleton[OF held] by simp
    from 5(5) held have "com_run ops (R - {#p#}) os (s\<lparr>adds := (adds s)(p := if m_nRefCount x = 1 then None
      else Some (x\<lparr>m_nRefCount := m_nRefCount x - 1\<rparr>))\<rparr>) h = (oc, s', h')"
      by (simp add: Add_Release_run[OF x])
    from 5(1)[OF held cinv_Release[OF 5(3) x held] sz this] show ?thesis by simp
  next
    case False
    with 5(2)[OF False 5(3)] 5(4,5) show ?thesis by simp
  qed
next
  case (6 p n ops R)
  show ?case
  proof (cases "p \<in># R")
    case held: True
    then obtain x where x: "adds s p = Some x" using 6(3) cinv_held by blast
    from 6(5) held have "com_run ops R os (s\<lparr>adds := (adds s)(p \<mapsto> x\<lparr>m_nX1 := n\<rparr>)\<rparr>) h = (oc, s', h')"
      by (simp add: SetFirstNumber_def bnd_bnd add_at_run[OF x] andthen_def put_add_def bnd_modify_apply bnd_ret)
    from 6(1)[OF held cinv_field[OF 6(3) x] _ this] 6(4) show ?thesis by simp
  next
    case False
    with 6(2)[OF False 6(3)] 6(4,5) show ?thesis by simp
  qed
next
  case (7 p n ops R)
  show ?case
  proof (cases "p \<in># R")
    case held: True
    then obtain x where x: "adds s p = Some x" using 7(3) cinv_held by blast
    from 7(5) held have "com_run ops R os (s\<lparr>adds := (adds s)(p \<mapsto> x\<lparr>m_nX2 := n\<rparr>)\<rparr>) h = (oc, s', h')"
      by (simp add: SetSecondNumber_def bnd_bnd add_at_run[OF x] andthen_def put_add_def bnd_modify_apply bnd_ret)
    from 7(1)[OF held cinv_field[OF 7(3) x] _ this] 7(4) show ?thesis by simp
  next
    case False
    with 7(2)[OF False 7(3)] 7(4,5) show ?thesis by simp
  qed
qed

section \<open>Properties\<close>

definition com0 :: com where
  "com0 = \<lparr>adds = Map.empty, facs = Map.empty, brk = 1, g_hModule = 0, g_nComObjsInUse = 0\<rparr>"

lemma com_run_start:
  assumes "length ops < 2 ^ 32" and "com_run ops {#} os com0 h = (oc, s', h')"
  shows "(oc = Exn () \<or> (\<exists>R. oc = Val R \<and> cinv (unsupported ops) R s')) \<and> g_nComObjsInUse s' = 0"
proof -
  have "cinv 0 {#} com0" by (simp add: cinv_def com0_def orphans_def)
  from com_run_inv[OF this, of ops] assms show ?thesis by (simp add: com0_def)
qed

text \<open>
  C11: Whatever a client does that keeps the rules of COM, fewer than 2^32 operations in all, no call reaches an
  object that is gone: the run ends normally or because \<open>new\<close> was refused, and each object the client
  refers to is alive with a count equal to the number of references.  The objects that live on without
  a reference are as many as the requests for a new object under an interface it does not have: after
  \<open>CreateInstance\<close> has answered such a request with an error, nothing deletes the object.  A client that
  asks for \<open>IUnknown\<close> and \<open>IAdd\<close> only therefore leaves no object behind when it has released its references.
\<close>

theorem com_lifetimes:
  assumes "length ops < 2 ^ 32"
  shows "outcome_of (com_run ops {#} os com0 h) = Exn () \<or>
    (\<exists>R. outcome_of (com_run ops {#} os com0 h) = Val R \<and>
      (\<forall>p. (case adds (state_of (com_run ops {#} os com0 h)) p of
          Some x \<Rightarrow> unat (m_nRefCount x) = count R p
        | None \<Rightarrow> p \<notin># R)) \<and>
      finite (orphans R (state_of (com_run ops {#} os com0 h))) \<and>
      card (orphans R (state_of (com_run ops {#} os com0 h))) = unsupported ops)"
proof -
  obtain oc s' h' where r: "com_run ops {#} os com0 h = (oc, s', h')" by (cases "com_run ops {#} os com0 h")
  have "(case adds s' p of Some x \<Rightarrow> unat (m_nRefCount x) = count R p | None \<Rightarrow> p \<notin># R)"
    if "cinv k R s'" for R p k
    using cinv_rc[OF that, of p] cinv_held[OF that, of p] by (auto split: option.split)
  then show ?thesis using com_run_start[OF assms r] finite_orphans by (auto simp: r cinv_def)
qed

theorem com_lifetimes_witness:
  "card (orphans {#} (state_of (com_run [Create IID_IAdd, Query 1 IID_IUnknown, Release 1, SetFirst 1 7, Release 1,
     Create IID_IClassFactory] {#} (\<lambda>_ _. ok_resp) com0 []))) = 1"
proof -
  let ?ops = "[Create IID_IAdd, Query 1 IID_IUnknown, Release 1, SetFirst 1 7, Release 1, Create IID_IClassFactory]"
  have "outcome_of (com_run ?ops {#} (\<lambda>_ _. ok_resp) com0 []) = Val {#}" by code_simp
  moreover have "unsupported ?ops = 1" by code_simp
  ultimately show ?thesis using com_lifetimes[of ?ops "\<lambda>_ _. ok_resp" "[]"] by simp
qed

text \<open>
  The DLL counts no objects: it tells COM that it can be unloaded at any time, also while a client
  holds references.  And an object asked for under an interface it does not have is never deleted.
\<close>

lemma unload_ignores_objects:
  assumes "length ops < 2 ^ 32" and "com_run ops {#} os com0 h = (Val R, s', h')"
  shows "outcome_of (DllCanUnloadNow os s' h') = Val S_OK"
  using com_run_start[OF assms] by (simp add: DllCanUnloadNow_def io_simps)

lemma create_unsupported_leaks:
  assumes "\<not> iid_ok iid" and "rv (os h NewAddObj) \<noteq> 0"
  shows "\<exists>s' h'. CreateInstance this 0 iid os s h = (Val (E_NOINTERFACE, 0), s', h') \<and>
    adds s' (brk s) = Some \<lparr>m_nX1 = 0, m_nX2 = 0, m_nRefCount = 0\<rparr>"
  using CreateInstance_run[of this iid ret os s h] assms by (auto simp: bnd_def ret_def split: prod.splits outcome.splits)

text \<open>
  Setting the two operands and adding gives their sum as integers whenever it fits a \<open>long\<close>;
  when it does not, the addition is undefined.
\<close>

theorem com_addition:
  assumes "adds s p = Some x"
  shows "outcome_of (andthen (SetFirstNumber p a) (andthen (SetSecondNumber p b) (DoTheAddition p)) os s h) =
    (if - (2 ^ 31) \<le> sint a + sint b \<and> sint a + sint b < 2 ^ 31 then Val (S_OK, a + b) else Fault)"
proof -
  have "(of_int (sint a + sint b) :: LONG) = a + b" by simp
  then show ?thesis using assms
    by (simp add: andthen_def SetFirstNumber_def SetSecondNumber_def DoTheAddition_def bnd_bnd add_at_run
        put_add_def bnd_modify_apply bnd_ret Let_def ret_apply fault_apply)
qed

theorem com_addition_witness:
  "outcome_of (andthen (SetFirstNumber 1 (- 5)) (andthen (SetSecondNumber 1 7) (DoTheAddition 1))
     (\<lambda>_ _. ok_resp) (created 1 com0) []) = Val (S_OK, 2)"
  using com_addition[of "created 1 com0" 1 _ "- 5" 7 "\<lambda>_ _. ok_resp" "[]"] by (simp add: com0_def)

text \<open>
  The class factory starts with whatever count its memory held, because its constructor sets
  none: a client that obtains the factory and releases it again frees it exactly when that value
  was 0.
\<close>

theorem factory_freed_iff_memory_was_zero:
  assumes "rv (os h NewFactory) \<noteq> 0"
  shows "facs (state_of (bnd (DllGetClassObject CLSID_AddObject IID_IClassFactory)
      (\<lambda>(hr, p). Fac_Release p) os s h)) (brk s) = None \<longleftrightarrow> (ucast (out (os h NewFactory)) :: LONG) = 0"
proof -
  have run: "bnd (fac_at q) f os t hh = f x os t hh" if "facs t q = Some x" for q f t x hh
    using that by (simp add: bnd_def fac_at_def)
  show ?thesis using assms
    by (simp add: DllGetClassObject_def Fac_QueryInterface_def Fac_AddRef_def Fac_Release_def io_simps run put_fac_def Let_def)
qed

theorem factory_freed_witness:
  "facs (state_of (bnd (DllGetClassObject CLSID_AddObject IID_IClassFactory) (\<lambda>(hr, p). Fac_Release p)
      (\<lambda>_ _. ok_resp\<lparr>out := 205\<rparr>) com0 [])) (brk com0) \<noteq> None"
  using factory_freed_iff_memory_was_zero[of "\<lambda>_ _. ok_resp\<lparr>out := 205\<rparr>" "[]" com0] by simp

section \<open>Registration\<close>

text \<open>Registry handles, as a resource: a key that was opened has to be closed.\<close>

fun reg_opens :: "comcall \<Rightarrow> resp \<Rightarrow> HANDLE option" where
  "reg_opens (RegCreateKey k) r = (if rv r = 0 then Some (out r) else None)"
| "reg_opens _ r = None"

fun reg_closes :: "comcall \<Rightarrow> HANDLE option" where
  "reg_closes (RegCloseKey x) = Some x"
| "reg_closes _ = None"

interpretation reg: handle_api reg_opens reg_closes
proof unfold_locales
  fix c r x assume "reg_closes c = Some x"
  then show "reg_opens c r = None" by (cases c) auto
qed

text \<open>\<open>HelperWriteKey\<close> leaks the key it opened when the value cannot be set.\<close>

lemma HelperWriteKey_handles:
  assumes "reg.live h = Some L"
  shows "reg.live (history_of (HelperWriteKey k v os s h)) =
    Some (if rv (os h (RegCreateKey k)) = 0 \<and>
             rv (os (h @ [(RegCreateKey k, os h (RegCreateKey k))]) (RegSetValueEx (out (os h (RegCreateKey k))) v)) \<noteq> 0
          then add_mset (out (os h (RegCreateKey k))) L else L)"
  using assms by (simp add: HelperWriteKey_def io_simps ret_apply reg.live_def reg.track_append)

text \<open>The keys a history creates and deletes, in order.\<close>

fun created_keys :: "comcall list \<Rightarrow> wstring list" where
  "created_keys [] = []"
| "created_keys (RegCreateKey k # cs) = k # created_keys cs"
| "created_keys (_ # cs) = created_keys cs"

fun deleted_keys :: "comcall list \<Rightarrow> wstring list" where
  "deleted_keys [] = []"
| "deleted_keys (RegDeleteKey k # cs) = k # deleted_keys cs"
| "deleted_keys (_ # cs) = deleted_keys cs"

lemma created_keys_append [simp]: "created_keys (xs @ ys) = created_keys xs @ created_keys ys"
  by (induction xs rule: created_keys.induct) auto

lemma deleted_keys_append [simp]: "deleted_keys (xs @ ys) = deleted_keys xs @ deleted_keys ys"
  by (induction xs rule: deleted_keys.induct) auto

text \<open>The registry does not distinguish case; keys are compared after folding ASCII letters.\<close>

definition fold_case :: "wstring \<Rightarrow> wstring" where
  "fold_case = map (\<lambda>c. if 65 \<le> c \<and> c \<le> 90 then c + 32 else c)"

lemma fold_case_append [simp]: "fold_case (xs @ ys) = fold_case xs @ fold_case ys"
  by (simp add: fold_case_def)

lemma HelperWriteKey_run:
  "\<exists>b h'. HelperWriteKey k v os s h = (Val b, s, h') \<and> created_keys (calls h') = created_keys (calls h) @ [k] \<and>
     deleted_keys (calls h') = deleted_keys (calls h)"
  by (auto simp: HelperWriteKey_def io_simps ret_apply)

lemma HelperWriteKey_bnd:
  obtains b h' where "HelperWriteKey k v os s h = (Val b, s, h')"
    "created_keys (calls h') = created_keys (calls h) @ [k]" "deleted_keys (calls h') = deleted_keys (calls h)"
  using HelperWriteKey_run[of k v os s h] by blast

text \<open>The keys, for the class identifier \<open>cs\<close> as a string.\<close>

definition server_keys :: "wstring \<Rightarrow> wstring \<Rightarrow> wstring list" where
  "server_keys root cs = [root @ backslash @ cs, root @ backslash @ cs @ backslash @ wstr ''InprocServer32'',
     root @ backslash @ cs @ backslash @ wstr ''ProgId'', AddObjProgId, AddObjProgId @ backslash @ wstr ''CLSID'']"

lemma DllRegisterServer_run:
  assumes cs: "\<And>h. cstr (wide_of (buf (os h (StringFromCLSID CLSID_AddObject)))) = cs"
    and path: "\<And>h m. length (cstr (wide_of (buf (os h (GetModuleFileName m 2048))))) < 1024"
  shows "\<exists>h'. DllRegisterServer os s h = (Val 1, s, h') \<and>
    created_keys (calls h') = created_keys (calls h) @ server_keys (wstr ''clsid'') cs \<and>
    deleted_keys (calls h') = deleted_keys (calls h)"
proof -
  let ?r = "wstr ''clsid''"
  let ?h0 = "h @ [(StringFromCLSID CLSID_AddObject, os h (StringFromCLSID CLSID_AddObject))]"
  obtain b1 h1 where 1: "HelperWriteKey (?r @ backslash @ cs) (wstr ''Fast Addition Algorithm'') os s ?h0 = (Val b1, s, h1)"
    "created_keys (calls h1) = created_keys (calls ?h0) @ [?r @ backslash @ cs]" "deleted_keys (calls h1) = deleted_keys (calls ?h0)"
    by (rule HelperWriteKey_bnd)
  let ?m = "GetModuleFileName (g_hModule s) 2048"
  let ?path = "cstr (wide_of (buf (os h1 ?m)))"
  let ?h1 = "h1 @ [(?m, os h1 ?m)]"
  have p: "module_path os s h1 = (Val ?path, s, ?h1)"
    using path[of h1 "g_hModule s"] by (simp add: module_path_def io_simps ret_apply Let_def)
  obtain b2 h2 where 2: "HelperWriteKey (?r @ backslash @ cs @ backslash @ wstr ''InprocServer32'') ?path os s ?h1 = (Val b2, s, h2)"
    "created_keys (calls h2) = created_keys (calls ?h1) @ [?r @ backslash @ cs @ backslash @ wstr ''InprocServer32'']"
    "deleted_keys (calls h2) = deleted_keys (calls ?h1)" by (rule HelperWriteKey_bnd)
  obtain b3 h3 where 3: "HelperWriteKey (?r @ backslash @ cs @ backslash @ wstr ''ProgId'') AddObjProgId os s h2 = (Val b3, s, h3)"
    "created_keys (calls h3) = created_keys (calls h2) @ [?r @ backslash @ cs @ backslash @ wstr ''ProgId'']"
    "deleted_keys (calls h3) = deleted_keys (calls h2)" by (rule HelperWriteKey_bnd)
  obtain b4 h4 where 4: "HelperWriteKey AddObjProgId (wstr ''Fast Addition Algorithm'') os s h3 = (Val b4, s, h4)"
    "created_keys (calls h4) = created_keys (calls h3) @ [AddObjProgId]" "deleted_keys (calls h4) = deleted_keys (calls h3)"
    by (rule HelperWriteKey_bnd)
  obtain b5 h5 where 5: "HelperWriteKey (AddObjProgId @ backslash @ wstr ''CLSID'') cs os s h4 = (Val b5, s, h5)"
    "created_keys (calls h5) = created_keys (calls h4) @ [AddObjProgId @ backslash @ wstr ''CLSID'']"
    "deleted_keys (calls h5) = deleted_keys (calls h4)" by (rule HelperWriteKey_bnd)
  have "DllRegisterServer os s h = (Val 1, s, h5)"
    by (simp add: DllRegisterServer_def bnd_call_apply cs Let_def bnd_Val[of module_path, OF p] ret_apply
      bnd_Val[of "HelperWriteKey _ _", OF 1(1)] bnd_Val[of "HelperWriteKey _ _", OF 2(1)]
      bnd_Val[of "HelperWriteKey _ _", OF 3(1)] bnd_Val[of "HelperWriteKey _ _", OF 4(1)]
      bnd_Val[of "HelperWriteKey _ _", OF 5(1)])
  then show ?thesis using 1 2 3 4 5 by (simp add: server_keys_def)
qed

lemma DllUnregisterServer_run:
  assumes cs: "\<And>h. cstr (wide_of (buf (os h (StringFromCLSID CLSID_AddObject)))) = cs"
  shows "\<exists>h'. DllUnregisterServer os s h = (Val 1, s, h') \<and> created_keys (calls h') = created_keys (calls h) \<and>
    deleted_keys (calls h') = deleted_keys (calls h) @
      [AddObjProgId @ backslash @ wstr ''CLSID'', AddObjProgId,
       wstr ''CLSID'' @ backslash @ cs @ backslash @ wstr ''InprocServer32'',
       wstr ''CLSID'' @ backslash @ cs @ backslash @ wstr ''ProgId'', wstr ''CLSID'' @ backslash @ cs]"
  by (simp add: DllUnregisterServer_def io_simps ret_apply cs Let_def)

lemma fold_case_clsid: "fold_case (wstr ''CLSID'') = fold_case (wstr ''clsid'')"
  by code_simp

text \<open>
  C12: Unregistering undoes registering: whichever registry call fails, \<open>DllUnregisterServer\<close> deletes
  exactly the keys that \<open>DllRegisterServer\<close> creates, up to the case of letters, each once and each
  after the keys below it.
\<close>

theorem unregister_undoes_register:
  assumes "\<And>h. cstr (wide_of (buf (os h (StringFromCLSID CLSID_AddObject)))) = cs"
    and "\<And>h m. length (cstr (wide_of (buf (os h (GetModuleFileName m 2048))))) < 1024"
  shows "\<exists>h1 h2. DllRegisterServer os s [] = (Val 1, s, h1) \<and> DllUnregisterServer os s h1 = (Val 1, s, h2) \<and>
    mset (map fold_case (created_keys (calls h2))) = mset (map fold_case (deleted_keys (calls h2))) \<and>
    sorted_wrt (\<lambda>k k'. length k' \<le> length k \<or> take (length k) k' \<noteq> k) (deleted_keys (calls h2))"
proof -
  from DllRegisterServer_run[where os = os and s = s and h = "[]", OF assms] obtain h1 where
    h1: "DllRegisterServer os s [] = (Val 1, s, h1)" "created_keys (calls h1) = server_keys (wstr ''clsid'') cs"
    "deleted_keys (calls h1) = []" by auto
  from DllUnregisterServer_run[where os = os and s = s and h = h1, OF assms(1)] h1 obtain h2 where
    h2: "DllUnregisterServer os s h1 = (Val 1, s, h2)" "created_keys (calls h2) = server_keys (wstr ''clsid'') cs"
    "deleted_keys (calls h2) = [AddObjProgId @ backslash @ wstr ''CLSID'', AddObjProgId,
       wstr ''CLSID'' @ backslash @ cs @ backslash @ wstr ''InprocServer32'',
       wstr ''CLSID'' @ backslash @ cs @ backslash @ wstr ''ProgId'', wstr ''CLSID'' @ backslash @ cs]" by auto
  have "mset (map fold_case (created_keys (calls h2))) = mset (map fold_case (deleted_keys (calls h2)))"
    by (simp add: h2 server_keys_def fold_case_clsid)
  moreover have "sorted_wrt (\<lambda>k k'. length k' \<le> length k \<or> take (length k) k' \<noteq> k) (deleted_keys (calls h2))"
    by (auto simp: h2(3) AddObjProgId_def wstr_def backslash_def of_char_of take_Cons')
  ultimately show ?thesis using h1(1) h2(1) by blast
qed

theorem unregister_undoes_register_witness:
  "length (deleted_keys (calls (history_of (andthen DllRegisterServer DllUnregisterServer (\<lambda>_ _. ok_resp) com0 [])))) = 5"
proof -
  have "cstr (wide_of (buf ok_resp)) = []" by code_simp
  then obtain h1 h2 where h: "DllRegisterServer (\<lambda>_ _. ok_resp) com0 [] = (Val 1, com0, h1)"
    "DllUnregisterServer (\<lambda>_ _. ok_resp) com0 h1 = (Val 1, com0, h2)"
    "mset (map fold_case (created_keys (calls h2))) = mset (map fold_case (deleted_keys (calls h2)))"
    using unregister_undoes_register[of "\<lambda>_ _. ok_resp" "[]" com0] by auto
  have "length (created_keys (calls (history_of (andthen DllRegisterServer DllUnregisterServer (\<lambda>_ _. ok_resp) com0 [])))) = 5"
    by code_simp
  with h show ?thesis by (simp add: andthen_def bnd_def) (metis size_image_mset size_mset)
qed

end
