(* ===== verification/Win32Service.thy ===== *)
theory Win32Service
  imports Effects
begin

unbundle bit_operations_syntax

text \<open>
  The Windows service Win32Service/main.cpp, with the privilege helper of common.ixx: installation,
  the control handler, the service's main function, and the functions that act for the logged-on
  user.  An exception carries the code its \<open>Win32Error\<close> was built from.  Logging is left out.
\<close>

section \<open>State and system calls\<close>

record svc_status =
  dwServiceType :: DWORD
  dwCurrentState :: DWORD
  dwControlsAccepted :: DWORD
  dwWin32ExitCode :: DWORD
  dwServiceSpecificExitCode :: DWORD
  dwCheckPoint :: DWORD
  dwWaitHint :: DWORD

text \<open>The globals, and the static local of \<open>ReportSvcStatus\<close>.\<close>

record svc =
  gSvcStatus :: svc_status
  gSvcStatusHandle :: HANDLE
  ghSvcStopEvent :: HANDLE
  checkPoint :: DWORD

definition svc0 :: svc where
  "svc0 = \<lparr>gSvcStatus = \<lparr>dwServiceType = 0, dwCurrentState = 0, dwControlsAccepted = 0, dwWin32ExitCode = 0,
             dwServiceSpecificExitCode = 0, dwCheckPoint = 0, dwWaitHint = 0\<rparr>,
           gSvcStatusHandle = 0, ghSvcStopEvent = 0, checkPoint = 1\<rparr>"

datatype svccall =
    GetLastError
  | GetModuleFileNameW
  | OpenSCManagerW
  | OpenServiceW HANDLE wstring DWORD
  | CreateServiceW HANDLE wstring wstring
  | DeleteService HANDLE
  | CloseServiceHandle HANDLE
  | SetServiceStatus HANDLE svc_status
  | SetEvent HANDLE
  | WTSGetActiveConsoleSessionId
  | WTSQueryUserToken DWORD
  | DuplicateTokenEx HANDLE DWORD bool
  | CreateEnvironmentBlock HANDLE
  | CreateProcessAsUserW HANDLE HANDLE
  | CloseHandle HANDLE
  | OpenProcessToken
  | LookupPrivilegeValueW wstring
  | AdjustTokenPrivileges HANDLE "64 word" DWORD
  | GetUserNameW
  | LoadUserProfileW HANDLE wstring
  | UnloadUserProfile HANDLE HANDLE
  | ImpersonateLoggedOnUser HANDLE
  | RevertToSelf
  | RegOpenCurrentUser
  | RegCloseKey HANDLE
  | RegisterServiceCtrlHandlerExW wstring
  | CreateEventW
  | WaitForSingleObject HANDLE
  | StartServiceCtrlDispatcherW

type_synonym 'a vio = "(svc, svccall, DWORD, 'a) io"

definition last_error :: "DWORD vio" where
  "last_error = bnd (call GetLastError) (\<lambda>r. ret (ucast (rv r)))"

definition throw_last_error :: "'a vio" where
  "throw_last_error = bnd last_error throw"

text \<open>The deleters: a smart pointer closes what it holds unless it is null.\<close>

definition close_service :: "HANDLE \<Rightarrow> unit vio" where
  "close_service x = whenM (x \<noteq> 0) (do_call (CloseServiceHandle x))"

definition close_handle :: "HANDLE \<Rightarrow> unit vio" where
  "close_handle x = whenM (x \<noteq> 0) (do_call (CloseHandle x))"

definition close_key :: "HANDLE \<Rightarrow> unit vio" where
  "close_key x = whenM (x \<noteq> 0) (do_call (RegCloseKey x))"

text \<open>\<open>EnvironmentUniquePtr\<close> is declared with \<open>CloseHandle\<close> as its deleter.\<close>

definition close_environment :: "HANDLE \<Rightarrow> unit vio" where
  "close_environment x = whenM (x \<noteq> 0) (do_call (CloseHandle x))"

section \<open>Constants\<close>

definition ServiceName :: wstring where
  "ServiceName = wstr ''ThisIsATestService''"

abbreviation (input) ServiceStopped :: DWORD where "ServiceStopped \<equiv> 1"
abbreviation (input) ServiceStartPending :: DWORD where "ServiceStartPending \<equiv> 2"
abbreviation (input) ServiceStopPending :: DWORD where "ServiceStopPending \<equiv> 3"
abbreviation (input) ServiceRunning :: DWORD where "ServiceRunning \<equiv> 4"
abbreviation (input) ServiceControlStop :: DWORD where "ServiceControlStop \<equiv> 1"
abbreviation (input) ServiceControlInterrogate :: DWORD where "ServiceControlInterrogate \<equiv> 4"
abbreviation (input) ServiceControlShutdown :: DWORD where "ServiceControlShutdown \<equiv> 5"
abbreviation (input) ServiceControlSessionChange :: DWORD where "ServiceControlSessionChange \<equiv> 14"
abbreviation (input) ServiceAcceptStop :: DWORD where "ServiceAcceptStop \<equiv> 1"
abbreviation (input) ServiceAccepSessionChange :: DWORD where "ServiceAccepSessionChange \<equiv> 0x80"
abbreviation (input) ServiceAllAccess :: DWORD where "ServiceAllAccess \<equiv> 0xF01FF"
abbreviation (input) DeleteAccess :: DWORD where "DeleteAccess \<equiv> 0x10000"
abbreviation (input) NoError :: DWORD where "NoError \<equiv> 0"

section \<open>Installation\<close>

definition Install :: "unit vio" where
  "Install = bnd (call GetModuleFileNameW) (\<lambda>r. if rv r = 0 then throw_last_error else
     let servicePath = cstr (wide_of (buf r)) in
     bnd (call OpenSCManagerW) (\<lambda>scManager. finally_do
       (if rv scManager = 0 then throw_last_error else
        bnd (call (OpenServiceW (rv scManager) ServiceName ServiceAllAccess)) (\<lambda>service. finally_do
          (if rv service \<noteq> 0 then ret () else
           bnd (call (CreateServiceW (rv scManager) ServiceName servicePath)) (\<lambda>created. finally_do
             (if rv created = 0 then throw_last_error else ret ())
             (close_service (rv created))))
          (close_service (rv service))))
       (close_service (rv scManager))))"

definition Uninstall :: "unit vio" where
  "Uninstall = bnd (call OpenSCManagerW) (\<lambda>schSCManager. finally_do
     (if rv schSCManager = 0 then throw_last_error else
      bnd (call (OpenServiceW (rv schSCManager) ServiceName DeleteAccess)) (\<lambda>schService. finally_do
        (if rv schService = 0 then throw_last_error else
         bnd (call (DeleteService (rv schService))) (\<lambda>r. if rv r = 0 then throw_last_error else ret ()))
        (close_service (rv schService))))
     (close_service (rv schSCManager)))"

section \<open>Status and control\<close>

text \<open>What \<open>ReportSvcStatus\<close> writes, with the post-increment of its static counter.\<close>

definition fill_status :: "DWORD \<Rightarrow> DWORD \<Rightarrow> DWORD \<Rightarrow> svc \<Rightarrow> svc" where
  "fill_status currentState exitCode waitHint s =
     (let final = (currentState = ServiceRunning \<or> currentState = ServiceStopped)
      in s\<lparr>gSvcStatus := (gSvcStatus s)\<lparr>
             dwCurrentState := currentState,
             dwWin32ExitCode := exitCode,
             dwWaitHint := waitHint,
             dwControlsAccepted := (if currentState = ServiceStartPending then 0
               else ServiceAcceptStop OR ServiceAccepSessionChange OR ServiceControlShutdown),
             dwCheckPoint := (if final then 0 else checkPoint s)\<rparr>,
           checkPoint := (if final then checkPoint s else checkPoint s + 1)\<rparr>)"

definition ReportSvcStatus :: "DWORD \<Rightarrow> DWORD \<Rightarrow> DWORD \<Rightarrow> unit vio" where
  "ReportSvcStatus currentState exitCode waitHint =
     andthen (modify (fill_status currentState exitCode waitHint))
     (bnd (gets gSvcStatusHandle) (\<lambda>x. bnd (gets gSvcStatus) (\<lambda>st. do_call (SetServiceStatus x st))))"

definition SvcCtrlHandler :: "DWORD \<Rightarrow> DWORD vio" where
  "SvcCtrlHandler dwCtrl =
     (if dwCtrl = ServiceControlInterrogate then ret NoError
      else if dwCtrl = ServiceControlStop then
        andthen (ReportSvcStatus ServiceStopPending NoError 0)
        (bnd (gets ghSvcStopEvent) (\<lambda>ev. andthen (do_call (SetEvent ev))
        (bnd (gets (\<lambda>s. dwCurrentState (gSvcStatus s))) (\<lambda>st. andthen (ReportSvcStatus st NoError 0) (ret NoError)))))
      else if dwCtrl = ServiceControlShutdown then
        bnd (gets ghSvcStopEvent) (\<lambda>ev. andthen (do_call (SetEvent ev)) (ret NoError))
      else if dwCtrl = ServiceControlSessionChange then
        bnd (gets (\<lambda>s. dwCurrentState (gSvcStatus s))) (\<lambda>st. andthen (ReportSvcStatus st NoError 0) (ret NoError))
      else ret 0)"

section \<open>Acting for the user\<close>

text \<open>The session and the token of the user at the console, then a duplicate of the token.\<close>

definition with_session :: "(DWORD \<Rightarrow> unit vio) \<Rightarrow> unit vio" where
  "with_session k = bnd (call WTSGetActiveConsoleSessionId) (\<lambda>r.
     let dwSessionID = ucast (rv r) in if dwSessionID = 0xFFFFFFFF then throw_last_error else k dwSessionID)"

definition with_user_token :: "(HANDLE \<Rightarrow> unit vio) \<Rightarrow> unit vio" where
  "with_user_token k = with_session (\<lambda>dwSessionID.
     bnd (call (WTSQueryUserToken dwSessionID)) (\<lambda>r. if rv r = 0 then throw_last_error else
       finally_do (k (out r)) (close_handle (out r))))"

definition with_duplicate :: "DWORD \<Rightarrow> bool \<Rightarrow> HANDLE \<Rightarrow> (HANDLE \<Rightarrow> unit vio) \<Rightarrow> unit vio" where
  "with_duplicate access primary token k =
     bnd (call (DuplicateTokenEx token access primary)) (\<lambda>r. if rv r = 0 then throw_last_error else
       finally_do (k (out r)) (close_handle (out r)))"

definition CreateUserProcess :: "unit vio" where
  "CreateUserProcess = try_catch
     (with_user_token (\<lambda>userPrimaryToken.
      with_duplicate 0x2000B True userPrimaryToken (\<lambda>duplicatedToken.
      bnd (call (CreateEnvironmentBlock duplicatedToken)) (\<lambda>r. if rv r = 0 then throw_last_error else
      finally_do
        (bnd (call (CreateProcessAsUserW duplicatedToken (out r))) (\<lambda>p. if rv p = 0 then throw_last_error else
         finally_do (finally_do (ret ()) (close_handle (case outs p of [] \<Rightarrow> 0 | t # _ \<Rightarrow> t))) (close_handle (out p))))
        (close_environment (out r))))))
     (\<lambda>ex. ret ())"

text \<open>\<open>Security::SetPrivilege\<close>; the token's attribute is \<open>SE_PRIVILEGE_ENABLED\<close> or 0.\<close>

definition SetPrivilege :: "HANDLE \<Rightarrow> wstring \<Rightarrow> bool \<Rightarrow> bool vio" where
  "SetPrivilege hToken lpszPrivilege enable =
     bnd (call (LookupPrivilegeValueW lpszPrivilege)) (\<lambda>r1. if rv r1 = 0 then throw_last_error else
     bnd (call (AdjustTokenPrivileges hToken (out r1) (if enable then 2 else 0))) (\<lambda>r2.
       if rv r2 = 0 then throw_last_error else
     bnd last_error (\<lambda>e. ret (e \<noteq> 1300))))"

text \<open>\<open>UnloadUserProfile\<close> is passed the address \<open>profile\<close> of the local \<open>PROFILEINFOW\<close>, as in the source.\<close>

definition LoadUserProfile :: "HANDLE \<Rightarrow> unit vio" where
  "LoadUserProfile profile = try_catch
     (bnd (call OpenProcessToken) (\<lambda>r. if rv r = 0 then throw_last_error else
      finally_do
        (bnd (SetPrivilege (out r) (wstr ''SeRestorePrivilege'') True) (\<lambda>ok1. if \<not> ok1 then throw_last_error else
         bnd (SetPrivilege (out r) (wstr ''SeBackupPrivilege'') True) (\<lambda>ok2. if \<not> ok2 then throw_last_error else
         with_user_token (\<lambda>userPrimaryToken.
         with_duplicate 0xC False userPrimaryToken (\<lambda>duplicatedToken.
         bnd (call GetUserNameW) (\<lambda>u. if rv u = 0 then throw_last_error else
         let username = take (unat (ucast (out u) - 1 :: DWORD)) (wide_of (buf u)) in
         bnd (call (LoadUserProfileW duplicatedToken username)) (\<lambda>l. if rv l = 0 then throw_last_error else
         do_call (UnloadUserProfile duplicatedToken profile))))))))
        (close_handle (out r))))
     (\<lambda>ex. ret ())"

definition ImpersonateUser :: "unit vio" where
  "ImpersonateUser = try_catch
     (with_user_token (\<lambda>userPrimaryToken.
      with_duplicate 0xC False userPrimaryToken (\<lambda>duplicatedToken.
      bnd (call (ImpersonateLoggedOnUser duplicatedToken)) (\<lambda>r. if rv r = 0 then throw_last_error else
      bnd (call RegOpenCurrentUser) (\<lambda>k. if rv k \<noteq> 0 then throw (ucast (rv k)) else
      finally_do (do_call RevertToSelf) (close_key (out k)))))))
     (\<lambda>ex. do_call RevertToSelf)"

section \<open>The service's main function and the program's\<close>

text \<open>\<open>SvcMain\<close> from the creation of its stop event on, and from its start.\<close>

definition SvcMain_service :: "unit vio" where
  "SvcMain_service = bnd (call CreateEventW) (\<lambda>ev.
     andthen (modify (\<lambda>s. s\<lparr>ghSvcStopEvent := rv ev\<rparr>))
     (if rv ev = 0 then bnd last_error (\<lambda>e. ReportSvcStatus ServiceStopped e 0) else
      andthen (ReportSvcStatus ServiceRunning NoError 0)
      (andthen ImpersonateUser
      (andthen (do_call (WaitForSingleObject (rv ev)))
        (ReportSvcStatus ServiceStopped NoError 0)))))"

definition SvcMain :: "unit vio" where
  "SvcMain = try_catch
     (bnd (call (RegisterServiceCtrlHandlerExW ServiceName)) (\<lambda>r.
      andthen (modify (\<lambda>s. s\<lparr>gSvcStatusHandle := rv r\<rparr>))
      (if rv r = 0 then ret () else
       andthen (modify (\<lambda>s. s\<lparr>gSvcStatus := (gSvcStatus s)\<lparr>dwServiceType := 0x10, dwServiceSpecificExitCode := 0\<rparr>\<rparr>))
       (andthen (ReportSvcStatus ServiceStartPending 0 3000) SvcMain_service))))
     (\<lambda>ex. ret ())"

definition wmain :: "wstring list \<Rightarrow> int vio" where
  "wmain args = try_catch
     (case args of
        [str] \<Rightarrow>
          if str = wstr ''install'' then andthen Install (ret 0)
          else if str = wstr ''uninstall'' then andthen Uninstall (ret 0)
          else andthen (do_call StartServiceCtrlDispatcherW) (ret 0)
      | _ \<Rightarrow> andthen (do_call StartServiceCtrlDispatcherW) (ret 0))
     (\<lambda>ex. ret 1)"

section \<open>Handles\<close>

text \<open>
  The service, kernel and registry handles; the profile handle, which \<open>LoadUserProfileW\<close> writes to
  \<open>profile.hProfile\<close>, is followed by \<open>profiles\<close> below.
\<close>

datatype svc_res = ScHandle HANDLE | KernelHandle HANDLE | RegKey HANDLE

fun svc_opens :: "svccall \<Rightarrow> resp \<Rightarrow> svc_res option" where
  "svc_opens OpenSCManagerW r = (if rv r = 0 then None else Some (ScHandle (rv r)))"
| "svc_opens (OpenServiceW m n a) r = (if rv r = 0 then None else Some (ScHandle (rv r)))"
| "svc_opens (CreateServiceW m n p) r = (if rv r = 0 then None else Some (ScHandle (rv r)))"
| "svc_opens (WTSQueryUserToken i) r = (if rv r = 0 \<or> out r = 0 then None else Some (KernelHandle (out r)))"
| "svc_opens (DuplicateTokenEx t a p) r = (if rv r = 0 \<or> out r = 0 then None else Some (KernelHandle (out r)))"
| "svc_opens OpenProcessToken r = (if rv r = 0 \<or> out r = 0 then None else Some (KernelHandle (out r)))"
| "svc_opens RegOpenCurrentUser r = (if rv r \<noteq> 0 \<or> out r = 0 then None else Some (RegKey (out r)))"
| "svc_opens _ r = None"

fun svc_closes :: "svccall \<Rightarrow> svc_res option" where
  "svc_closes (CloseServiceHandle x) = Some (ScHandle x)"
| "svc_closes (CloseHandle x) = Some (KernelHandle x)"
| "svc_closes (RegCloseKey x) = Some (RegKey x)"
| "svc_closes _ = None"

interpretation sh: handle_api svc_opens svc_closes
proof unfold_locales
  fix c r x assume "svc_closes c = Some x"
  then show "svc_opens c r = None" by (cases c) auto
qed

lemma svc_neutral_calls [neutral_intro]:
  "sh.neutral (call GetLastError)" "sh.neutral (call GetModuleFileNameW)" "sh.neutral (call (DeleteService x))"
  "sh.neutral (call (SetServiceStatus x st))" "sh.neutral (call WTSGetActiveConsoleSessionId)"
  "sh.neutral (call (LookupPrivilegeValueW n))" "sh.neutral (call (AdjustTokenPrivileges t l a))"
  "sh.neutral (call GetUserNameW)" "sh.neutral (call (LoadUserProfileW t u))" "sh.neutral (call (UnloadUserProfile t p))"
  "sh.neutral (call (ImpersonateLoggedOnUser t))" "sh.neutral (call RevertToSelf)"
  "sh.neutral (call (RegisterServiceCtrlHandlerExW n))" "sh.neutral (call CreateEventW)"
  "sh.neutral (call (WaitForSingleObject x))" "sh.neutral (call StartServiceCtrlDispatcherW)"
  "sh.neutral (call (SetEvent x))"
  by (rule sh.neutral_call; simp)+

lemma svc_neutral_throw [neutral_intro]: "sh.neutral last_error" "sh.neutral throw_last_error"
  unfolding throw_last_error_def last_error_def by (intro neutral_intro)+

lemma svc_unique_service:
  assumes "svc_closes c = None" "\<And>r. svc_opens c r = (if rv r = 0 then None else Some (ScHandle (rv r)))"
    and "\<And>r. sh.neutral (m r)"
  shows "sh.neutral (bnd (call c) (\<lambda>r. finally_do (m r) (close_service (rv r))))"
proof (rule sh.neutral_unique[OF assms(1,3)])
  fix r :: resp
  show "sh.owns (case svc_opens c r of None \<Rightarrow> {#} | Some x \<Rightarrow> {#x#}) (close_service (rv r)) (\<lambda>_. {#}) {#}"
    unfolding close_service_def
    by (rule sh.owns_deleter[where hh = "ScHandle (rv r)"]) (simp_all add: assms(2))
qed

lemma svc_unique_handle:
  assumes "svc_closes c = None" "\<And>r. svc_opens c r = (if rv r = 0 \<or> out r = 0 then None else Some (KernelHandle (out r)))"
    and "\<And>r. sh.neutral (m r)" "\<And>r. sh.neutral (e r)"
  shows "sh.neutral (bnd (call c) (\<lambda>r. if rv r = 0 then e r else finally_do (m r) (close_handle (out r))))"
proof (rule sh.neutral_unique_if[OF assms(1,3) _ assms(4)])
  fix r :: resp assume "rv r \<noteq> 0"
  then show "sh.owns (case svc_opens c r of None \<Rightarrow> {#} | Some x \<Rightarrow> {#x#}) (close_handle (out r)) (\<lambda>_. {#}) {#}"
    unfolding close_handle_def
    by (intro sh.owns_deleter[where hh = "KernelHandle (out r)"]) (simp_all add: assms(2))
qed (simp add: assms(2))

lemma svc_unique_key:
  assumes "\<And>r. sh.neutral (m r)" "\<And>r. sh.neutral (e r)"
  shows "sh.neutral (bnd (call RegOpenCurrentUser) (\<lambda>r. if rv r \<noteq> 0 then e r else finally_do (m r) (close_key (out r))))"
proof (rule sh.neutral_unique_if[OF _ assms(1) _ assms(2)])
  fix r :: resp assume "\<not> rv r \<noteq> 0"
  then show "sh.owns (case svc_opens RegOpenCurrentUser r of None \<Rightarrow> {#} | Some x \<Rightarrow> {#x#}) (close_key (out r)) (\<lambda>_. {#}) {#}"
    unfolding close_key_def by (intro sh.owns_deleter[where hh = "RegKey (out r)"]) simp_all
qed simp_all

lemma neutral_Install: "sh.neutral Install"
  unfolding Install_def Let_def
  by (intro neutral_intro svc_unique_service) simp_all

lemma neutral_Uninstall: "sh.neutral Uninstall"
  unfolding Uninstall_def by (intro neutral_intro svc_unique_service) simp_all

lemma neutral_with_duplicate: "(\<And>x. sh.neutral (k x)) \<Longrightarrow> sh.neutral (with_duplicate a p t k)"
  unfolding with_duplicate_def by (intro svc_unique_handle neutral_intro) simp_all

lemma neutral_with_user_token: "(\<And>x. sh.neutral (k x)) \<Longrightarrow> sh.neutral (with_user_token k)"
  unfolding with_user_token_def with_session_def by (intro svc_unique_handle neutral_intro) simp_all

lemma neutral_SetPrivilege [neutral_intro]: "sh.neutral (SetPrivilege t n b)"
  unfolding SetPrivilege_def by (intro neutral_intro)

lemma neutral_LoadUserProfile: "sh.neutral (LoadUserProfile p)"
  unfolding LoadUserProfile_def
  by (intro sh.neutral_try_catch svc_unique_handle neutral_with_user_token neutral_with_duplicate neutral_intro) simp_all

lemma neutral_ImpersonateUser [neutral_intro]: "sh.neutral ImpersonateUser"
  unfolding ImpersonateUser_def
  by (intro sh.neutral_try_catch neutral_with_user_token neutral_with_duplicate svc_unique_key neutral_intro)

lemma neutral_ReportSvcStatus [neutral_intro]: "sh.neutral (ReportSvcStatus a b c)"
  unfolding ReportSvcStatus_def by (intro neutral_intro)

lemma neutral_SvcMain: "sh.neutral SvcMain"
  unfolding SvcMain_def SvcMain_service_def by (intro neutral_intro)

text \<open>
  The profiles that are loaded: \<open>LoadUserProfileW\<close> hands out \<open>hProfile\<close>, and \<open>UnloadUserProfile\<close> gives back
  the handle it is passed, if that is a loaded profile.
\<close>

definition loads :: "svccall \<times> resp \<Rightarrow> HANDLE multiset" where
  "loads x = (case fst x of LoadUserProfileW t u \<Rightarrow> if rv (snd x) \<noteq> 0 then {#out (snd x)#} else {#} | _ \<Rightarrow> {#})"

definition unloads :: "svccall \<times> resp \<Rightarrow> HANDLE multiset" where
  "unloads x = (case fst x of UnloadUserProfile t h \<Rightarrow> {#h#} | _ \<Rightarrow> {#})"

fun profiles :: "HANDLE multiset \<Rightarrow> svccall history \<Rightarrow> HANDLE multiset" where
  "profiles M [] = M"
| "profiles M (x # h) = profiles (M + loads x - unloads x) h"

definition loaded :: "svccall history \<Rightarrow> HANDLE multiset" where
  "loaded h = sum_list (map loads h)"

lemma profiles_append: "profiles M (g @ g') = profiles (profiles M g) g'"
  by (induction g arbitrary: M) simp_all

text \<open>The calls leave loaded all profiles but those with the handle \<open>p\<close>.\<close>

definition only_unloads :: "HANDLE \<Rightarrow> svccall history \<Rightarrow> bool" where
  "only_unloads p g \<longleftrightarrow> (\<forall>M. p \<notin># M \<longrightarrow> profiles M g = M + filter_mset (\<lambda>x. x \<noteq> p) (loaded g))"

interpretation prof: call_pred "only_unloads p" for p
proof unfold_locales
  show "only_unloads p []" by (simp add: only_unloads_def loaded_def)
next
  fix g g' assume "only_unloads p g" "only_unloads p g'"
  then show "only_unloads p (g @ g')" by (simp add: only_unloads_def profiles_append loaded_def)
qed

lemma only_unloads_other: "loads x = {#} \<Longrightarrow> unloads x = {#} \<Longrightarrow> only_unloads p [x]"
  by (simp add: only_unloads_def loaded_def)

lemma loads_unloads [simp]: "p \<notin># M \<Longrightarrow> profiles M [(LoadUserProfileW t u, r), (UnloadUserProfile t' p, r')] =
    M + filter_mset (\<lambda>x. x \<noteq> p) (loaded [(LoadUserProfileW t u, r), (UnloadUserProfile t' p, r')])"
  by (auto simp: loads_def unloads_def loaded_def diff_single_trivial)

lemma prof_load:
  "prof.stays p (bnd (call (LoadUserProfileW t u)) (\<lambda>l. if rv l = 0 then throw_last_error else do_call (UnloadUserProfile t p)))"
  unfolding prof.stays_def throw_last_error_def last_error_def
proof (rule appends_bnd_call, rule appends_if)
  fix l :: resp assume "rv l = 0"
  then show "appends (bnd (bnd (call GetLastError) (\<lambda>r. ret (ucast (rv r)))) throw)
      (\<lambda>_ g. only_unloads p ((LoadUserProfileW t u, l) # g))"
    by (auto simp: bnd_bnd bnd_ret only_unloads_def loads_def unloads_def loaded_def intro!: appends_bnd_call appends_throw)
next
  fix l :: resp assume "rv l \<noteq> 0"
  show "appends (do_call (UnloadUserProfile t p)) (\<lambda>_ g. only_unloads p ((LoadUserProfileW t u, l) # g))"
    by (rule appends_do_call) (auto simp: only_unloads_def simp del: profiles.simps)
qed

lemma prof_call: "(\<And>r. loads (c, r) = {#} \<and> unloads (c, r) = {#}) \<Longrightarrow> prof.stays p (call c) \<and> prof.stays p (do_call c)"
  by (intro conjI prof.stays_call prof.stays_do_call only_unloads_other) simp_all

lemma prof_calls:
  "prof.stays p (call GetLastError)" "prof.stays p (do_call (CloseHandle x))" "prof.stays p (call OpenProcessToken)"
  "prof.stays p (call (LookupPrivilegeValueW n))" "prof.stays p (call (AdjustTokenPrivileges t l a))"
  "prof.stays p (call WTSGetActiveConsoleSessionId)" "prof.stays p (call (WTSQueryUserToken i))"
  "prof.stays p (call (DuplicateTokenEx t b c))" "prof.stays p (call GetUserNameW)"
  by (simp_all add: prof_call loads_def unloads_def)

lemma prof_LoadUserProfile: "prof.stays p (LoadUserProfile p)"
proof -
  have err: "prof.stays p throw_last_error" "prof.stays p last_error"
    unfolding throw_last_error_def last_error_def by (intro prof.stays_intro prof_calls)+
  have close: "prof.stays p (close_handle x)" for x
    unfolding close_handle_def by (intro prof.stays_intro prof_calls)
  have priv: "prof.stays p (SetPrivilege t n b)" for t n b
    unfolding SetPrivilege_def by (intro prof.stays_intro prof_calls err)
  show ?thesis
    unfolding LoadUserProfile_def with_user_token_def with_session_def with_duplicate_def Let_def
    by (intro prof.stays_try_catch prof.stays_if prof.stays_finally prof_load prof.stays_bnd[OF prof_calls(3)]
        prof.stays_bnd[OF prof_calls(6)] prof.stays_bnd[OF prof_calls(7)] prof.stays_bnd[OF prof_calls(8)]
        prof.stays_bnd[OF prof_calls(9)] prof.stays_bnd[OF priv] err close prof.stays_simps)
qed

text \<open>None of them faults or ends the process.\<close>

lemma regular_throw_last [regular_intro]: "regular throw_last_error" "regular last_error"
  unfolding throw_last_error_def last_error_def by (intro regular_intro)+

lemma regular_close [regular_intro, simp]: "regular (close_service x)" "regular (close_handle x)" "regular (close_key x)"
  unfolding close_service_def close_handle_def close_key_def by (intro regular_intro)+

lemma no_throw_close [no_throw_intro, simp]:
  "no_throw (close_service x)" "no_throw (close_handle x)" "no_throw (close_key x)"
  unfolding close_service_def close_handle_def close_key_def by (intro no_throw_intro)+

lemma regular_Install: "regular Install"
  unfolding Install_def by (intro regular_intro no_throw_intro)

lemma regular_Uninstall: "regular Uninstall"
  unfolding Uninstall_def by (intro regular_intro no_throw_intro)

lemma regular_with_user_token [regular_intro]: "(\<And>x. regular (k x)) \<Longrightarrow> regular (with_user_token k)"
  unfolding with_user_token_def with_session_def by (intro regular_intro no_throw_intro)

lemma regular_with_duplicate [regular_intro]: "(\<And>x. regular (k x)) \<Longrightarrow> regular (with_duplicate a p t k)"
  unfolding with_duplicate_def by (intro regular_intro no_throw_intro)

lemma regular_SetPrivilege [regular_intro]: "regular (SetPrivilege t n b)"
  unfolding SetPrivilege_def by (intro regular_intro)

lemma regular_LoadUserProfile: "regular (LoadUserProfile p)"
  unfolding LoadUserProfile_def by (intro regular_intro no_throw_intro)

lemma regular_ImpersonateUser: "regular ImpersonateUser"
  unfolding ImpersonateUser_def by (intro regular_intro no_throw_intro)

section \<open>Impersonation\<close>

text \<open>Whether the thread impersonates a user after a history.\<close>

definition impersonating :: "svccall history \<Rightarrow> bool" where
  "impersonating h = foldl (\<lambda>b (c, r). case c of
      ImpersonateLoggedOnUser t \<Rightarrow> b \<or> rv r \<noteq> 0
    | RevertToSelf \<Rightarrow> False
    | _ \<Rightarrow> b) False h"

lemma impersonating_Nil [simp]: "\<not> impersonating []"
  by (simp add: impersonating_def)

lemma impersonating_snoc [simp]: "impersonating (h @ [(c, r)]) = (case c of
      ImpersonateLoggedOnUser t \<Rightarrow> impersonating h \<or> rv r \<noteq> 0 | RevertToSelf \<Rightarrow> False | _ \<Rightarrow> impersonating h)"
  by (cases c) (simp_all add: impersonating_def)

text \<open>A computation that returns only as itself; one whose end, in any way, is as itself if its start is.\<close>

definition returns_self :: "'a vio \<Rightarrow> bool" where
  "returns_self m \<longleftrightarrow> (\<forall>os s h. is_Val (outcome_of (m os s h)) \<longrightarrow> \<not> impersonating (history_of (m os s h)))"

lemma returns_selfD: "returns_self m \<Longrightarrow> m os s h = (Val a, s', h') \<Longrightarrow> \<not> impersonating h'"
  unfolding returns_self_def by (metis is_Val.simps(1) projections(1,3))

lemma returns_self_bnd: "(\<And>a. returns_self (f a)) \<Longrightarrow> returns_self (bnd m f)"
  by (auto simp: returns_self_def bnd_def split: prod.splits outcome.splits)

lemma returns_self_if: "returns_self m \<Longrightarrow> returns_self m' \<Longrightarrow> returns_self (if b then m else m')"
  by simp

lemma returns_self_throw: "returns_self (throw e)" "returns_self throw_last_error"
  by (simp_all add: returns_self_def throw_last_error_def last_error_def io_simps)

lemma returns_self_revert: "returns_self (do_call RevertToSelf)"
  by (simp add: returns_self_def io_simps)

lemma returns_self_close:
  assumes "returns_self m"
  shows "returns_self (finally_do m (close_handle x))" "returns_self (finally_do m (close_key x))"
  unfolding returns_self_def close_handle_def close_key_def
  by (auto simp: finally_do_def io_simps ret_apply split: prod.splits outcome.splits dest!: returns_selfD[OF assms])

lemmas returns_self_rules = returns_self_bnd returns_self_if returns_self_throw returns_self_revert returns_self_close

lemma returns_self_with: 
  "(\<And>x. returns_self (k x)) \<Longrightarrow> returns_self (with_duplicate a p t k)"
  "(\<And>x. returns_self (k x)) \<Longrightarrow> returns_self (with_user_token k)"
  unfolding with_duplicate_def with_user_token_def with_session_def Let_def
  by (intro returns_self_rules; simp)+

lemma try_revert:
  assumes "returns_self m" "regular m"
  shows "\<not> impersonating (history_of (try_catch m (\<lambda>ex. do_call RevertToSelf) os s h)) \<and>
    is_Val (outcome_of (try_catch m (\<lambda>ex. do_call RevertToSelf) os s h))"
proof -
  obtain oc s1 h1 where r: "m os s h = (oc, s1, h1)" by (cases "m os s h")
  show ?thesis using returns_selfD[OF assms(1)] regularD[OF assms(2) r] r
    by (cases oc) (simp_all add: try_catch_def do_call_def io_simps)
qed

lemma ImpersonateUser_reverts:
  "\<not> impersonating (history_of (ImpersonateUser os s h)) \<and> is_Val (outcome_of (ImpersonateUser os s h))"
  unfolding ImpersonateUser_def
  by (intro try_revert returns_self_with returns_self_rules regular_intro no_throw_intro)

section \<open>Reports\<close>

text \<open>The statuses a history reports to the service control manager.\<close>

fun reports :: "svccall history \<Rightarrow> svc_status list" where
  "reports [] = []"
| "reports ((SetServiceStatus x st, r) # h) = st # reports h"
| "reports (_ # h) = reports h"

lemma reports_append [simp]: "reports (g @ h) = reports g @ reports h"
  by (induction g rule: reports.induct) auto

fun not_report :: "svccall \<Rightarrow> bool" where
  "not_report (SetServiceStatus x st) = False"
| "not_report _ = True"

lemma reports_none: "list_all (\<lambda>x. not_report (fst x)) g \<Longrightarrow> reports g = []"
  by (induction g rule: reports.induct) auto

lemma emits_throw_last [emits_intro]: "emits not_report throw_last_error"
  unfolding throw_last_error_def last_error_def by (intro emits_intro) simp

lemma emits_close [emits_intro]: "emits not_report (close_handle x)" "emits not_report (close_key x)"
  unfolding close_handle_def close_key_def by (intro emits_intro; simp)+

lemma emits_with [emits_intro]:
  "(\<And>x. emits not_report (k x)) \<Longrightarrow> emits not_report (with_duplicate a p t k)"
  "(\<And>x. emits not_report (k x)) \<Longrightarrow> emits not_report (with_user_token k)"
  unfolding with_duplicate_def with_user_token_def with_session_def by (intro emits_intro; simp)+

lemma emits_ImpersonateUser: "emits not_report ImpersonateUser"
  unfolding ImpersonateUser_def by (intro emits_intro; simp)

lemma silent_throw_last [silent_intro]: "silent throw_last_error"
  unfolding throw_last_error_def last_error_def by (intro silent_intro)

lemma silent_close [silent_intro]: "silent (close_handle x)" "silent (close_key x)"
  unfolding close_handle_def close_key_def by (intro silent_intro)+

lemma silent_with [silent_intro]:
  "(\<And>x. silent (k x)) \<Longrightarrow> silent (with_duplicate a p t k)"
  "(\<And>x. silent (k x)) \<Longrightarrow> silent (with_user_token k)"
  unfolding with_duplicate_def with_user_token_def with_session_def by (intro silent_intro; simp)+

lemma silent_ImpersonateUser: "silent ImpersonateUser"
  unfolding ImpersonateUser_def by (intro silent_intro)

lemma ImpersonateUser_run:
  obtains g where "ImpersonateUser os s h = (Val (), s, h @ g)" "reports g = []"
proof -
  obtain oc s' h' where r: "ImpersonateUser os s h = (oc, s', h')" by (cases "ImpersonateUser os s h")
  obtain g where g: "h' = h @ g" "list_all (\<lambda>x. not_report (fst x)) g"
    by (rule emitsD[OF emits_ImpersonateUser r])
  have "is_Val oc" using ImpersonateUser_reverts[of os s h] r by simp
  then have "oc = Val ()" by (cases oc) simp_all
  with silentD[OF silent_ImpersonateUser r] r g reports_none[OF g(2)] that show thesis by simp
qed

lemma ReportSvcStatus_run:
  "bnd (ReportSvcStatus a b c) f os s h = f () os (fill_status a b c s)
     (h @ [(SetServiceStatus (gSvcStatusHandle (fill_status a b c s)) (gSvcStatus (fill_status a b c s)),
            os h (SetServiceStatus (gSvcStatusHandle (fill_status a b c s)) (gSvcStatus (fill_status a b c s))))])"
  by (simp add: ReportSvcStatus_def io_simps)

lemma ReportSvcStatus_end:
  "ReportSvcStatus a b c os s h = (Val (), fill_status a b c s,
     h @ [(SetServiceStatus (gSvcStatusHandle (fill_status a b c s)) (gSvcStatus (fill_status a b c s)),
            os h (SetServiceStatus (gSvcStatusHandle (fill_status a b c s)) (gSvcStatus (fill_status a b c s))))])"
  by (simp add: ReportSvcStatus_def io_simps ret_apply)

text \<open>State, accepted controls and checkpoint of a status.\<close>

definition essence :: "svc_status \<Rightarrow> DWORD \<times> DWORD \<times> DWORD" where
  "essence st = (dwCurrentState st, dwControlsAccepted st, dwCheckPoint st)"

lemma accepted_controls: "(ServiceAcceptStop OR ServiceAccepSessionChange OR ServiceControlShutdown) = (0x85 :: DWORD)"
  by simp

lemma essence_fill:
  "essence (gSvcStatus (fill_status a b c s)) =
     (a, if a = ServiceStartPending then 0 else 0x85,
      if a = ServiceRunning \<or> a = ServiceStopped then 0 else checkPoint s)"
  by (simp add: essence_def fill_status_def)

text \<open>\<open>SvcMain\<close> from the report that it runs, and from the creation of its event.\<close>

lemma SvcMain_running:
  "\<exists>s' g. andthen (ReportSvcStatus ServiceRunning NoError 0) (andthen ImpersonateUser
      (andthen (do_call (WaitForSingleObject x)) (ReportSvcStatus ServiceStopped NoError 0))) os s h = (Val (), s', h @ g) \<and>
     map essence (reports g) = [(ServiceRunning, 0x85, 0), (ServiceStopped, 0x85, 0)]"
proof -
  let ?s = "fill_status ServiceRunning NoError 0 s"
  let ?c = "SetServiceStatus (gSvcStatusHandle ?s) (gSvcStatus ?s)"
  let ?h = "h @ [(?c, os h ?c)]"
  obtain g where g: "ImpersonateUser os ?s ?h = (Val (), ?s, ?h @ g)" "reports g = []"
    by (rule ImpersonateUser_run)
  show ?thesis
    by (simp add: andthen_def ReportSvcStatus_run bnd_Val[of ImpersonateUser, OF g(1)] do_call_def bnd_bnd bnd_call_apply bnd_ret
        ReportSvcStatus_end essence_fill g(2))
qed

lemma SvcMain_started:
  "\<exists>s' g. SvcMain_service os s h = (Val (), s', h @ g) \<and>
     (map essence (reports g) = [(ServiceStopped, 0x85, 0)] \<or>
      map essence (reports g) = [(ServiceRunning, 0x85, 0), (ServiceStopped, 0x85, 0)])"
proof -
  let ?ev = "os h CreateEventW"
  let ?h = "h @ [(CreateEventW, ?ev)]"
  let ?s = "s\<lparr>ghSvcStopEvent := rv ?ev\<rparr>"
  show ?thesis
  proof (cases "rv ?ev = 0")
    case True
    then show ?thesis
      by (simp add: SvcMain_service_def andthen_def bnd_call_apply bnd_modify_apply last_error_def bnd_bnd bnd_ret ReportSvcStatus_end essence_fill)
  next
    case False
    from SvcMain_running[of "rv ?ev" os ?s ?h] obtain s' g where
      "andthen (ReportSvcStatus ServiceRunning NoError 0) (andthen ImpersonateUser
        (andthen (do_call (WaitForSingleObject (rv ?ev))) (ReportSvcStatus ServiceStopped NoError 0))) os ?s ?h =
         (Val (), s', ?h @ g)"
      "map essence (reports g) = [(ServiceRunning, 0x85, 0), (ServiceStopped, 0x85, 0)]"
      by (elim exE conjE) (rule that)
    with False show ?thesis by (simp add: SvcMain_service_def andthen_def[of "modify _"] bnd_call_apply bnd_modify_apply)
  qed
qed

lemma report_then:
  assumes "\<And>os s h. \<exists>s' g. K os s h = (Val (), s', h @ g) \<and> Q (map essence (reports g))"
  shows "\<exists>s' g es. andthen (ReportSvcStatus a b c) K os s h = (Val (), s', h @ g) \<and>
    map essence (reports g) = essence (gSvcStatus (fill_status a b c s)) # es \<and> Q es"
proof -
  let ?s = "fill_status a b c s"
  let ?c = "SetServiceStatus (gSvcStatusHandle ?s) (gSvcStatus ?s)"
  from assms[of os ?s "h @ [(?c, os h ?c)]"] show ?thesis
    by (elim exE conjE) (simp add: andthen_def ReportSvcStatus_run)
qed

lemma SvcMain_reports:
  "\<exists>s' g. SvcMain os s h = (Val (), s', h @ g) \<and>
     (if rv (os h (RegisterServiceCtrlHandlerExW ServiceName)) = 0 then reports g = []
      else map essence (reports g) = [(ServiceStartPending, 0, checkPoint s), (ServiceStopped, 0x85, 0)] \<or>
           map essence (reports g) = [(ServiceStartPending, 0, checkPoint s), (ServiceRunning, 0x85, 0), (ServiceStopped, 0x85, 0)])"
proof (cases "rv (os h (RegisterServiceCtrlHandlerExW ServiceName)) = 0")
  case True
  then show ?thesis by (auto simp: SvcMain_def io_simps try_catch_def ret_apply)
next
  case False
  let ?c = "RegisterServiceCtrlHandlerExW ServiceName"
  let ?s1 = "s\<lparr>gSvcStatusHandle := rv (os h ?c), gSvcStatus := (gSvcStatus s)\<lparr>dwServiceType := 0x10, dwServiceSpecificExitCode := 0\<rparr>\<rparr>"
  let ?h1 = "h @ [(?c, os h ?c)]"
  from report_then[of SvcMain_service, OF SvcMain_started, of ServiceStartPending 0 3000 os ?s1 ?h1]
  obtain s' g es where e: "andthen (ReportSvcStatus ServiceStartPending 0 3000) SvcMain_service os ?s1 ?h1 = (Val (), s', ?h1 @ g)"
    "map essence (reports g) = essence (gSvcStatus (fill_status ServiceStartPending 0 3000 ?s1)) # es"
    "es = [(ServiceStopped, 0x85, 0)] \<or> es = [(ServiceRunning, 0x85, 0), (ServiceStopped, 0x85, 0)]"
    by (elim exE conjE) (rule that)
  have "SvcMain os s h = (Val (), s', ?h1 @ g)"
    using False e(1)
    by (simp add: SvcMain_def try_catch_def andthen_def[of "modify _"] bnd_call_apply bnd_modify_apply)
  moreover have "essence (gSvcStatus (fill_status ServiceStartPending 0 3000 ?s1)) = (ServiceStartPending, 0, checkPoint s)"
    by (simp only: essence_fill) simp
  ultimately show ?thesis using False e(2,3)
    by (intro exI[of _ s'] exI[of _ "(?c, os h ?c) # g"]) auto
qed

section \<open>The control handler and the main function at the same time\<close>

text \<open>
  A stop control: the handler, on a thread of the dispatcher, and \<open>SvcMain\<close>, waiting for the stop
  event, interleave.  They share \<open>gSvcStatus\<close> and the static \<open>dwCheckPoint\<close> without a lock, so a step is one
  access to a shared variable (\<open>dwCheckPoint++\<close> is a read and a write) or one call; \<open>SetServiceStatus\<close> sends the
  record as it is at the moment of the call.  \<open>Report\<close> is a call of \<open>ReportSvcStatus\<close> whose first argument reads
  \<open>gSvcStatus.dwCurrentState\<close>.
\<close>

datatype micro =
    SetState DWORD
  | SetExitCode DWORD
  | SetWaitHint DWORD
  | SetControls DWORD
  | SetCheckPoint DWORD
  | ReadCounter
  | WriteCounter
  | StoreCheckPoint
  | Send
  | Signal
  | WaitStop
  | Report

definition report_steps :: "DWORD \<Rightarrow> DWORD \<Rightarrow> DWORD \<Rightarrow> micro list" where
  "report_steps currentState exitCode waitHint =
     [SetState currentState, SetExitCode exitCode, SetWaitHint waitHint,
      SetControls (if currentState = ServiceStartPending then 0
        else ServiceAcceptStop OR ServiceAccepSessionChange OR ServiceControlShutdown)] @
     (if currentState = ServiceRunning \<or> currentState = ServiceStopped then [SetCheckPoint 0]
      else [ReadCounter, WriteCounter, StoreCheckPoint]) @
     [Send]"

text \<open>What the threads share, and a thread: what it has still to do, and the old value its \<open>++\<close> has read.\<close>

record shared =
  rsvc :: svc
  rsent :: "svc_status list"
  rsignal :: bool

type_synonym thread = "micro list \<times> DWORD"

definition put_status :: "(svc_status \<Rightarrow> svc_status) \<Rightarrow> shared \<Rightarrow> shared" where
  "put_status f r = r\<lparr>rsvc := (rsvc r)\<lparr>gSvcStatus := f (gSvcStatus (rsvc r))\<rparr>\<rparr>"

text \<open>
  One step of a thread.  The results of \<open>SetEvent\<close> and \<open>WaitForSingleObject\<close> are not checked: \<open>set_ok\<close> says whether
  the first works, and \<open>wait_ok\<close> whether the second waits or fails at once.
\<close>

fun thread_step :: "bool \<Rightarrow> bool \<Rightarrow> shared \<Rightarrow> thread \<Rightarrow> (shared \<times> thread) option" where
  "thread_step set_ok wait_ok r ([], reg) = None"
| "thread_step set_ok wait_ok r (m # ms, reg) = (case m of
      SetState x \<Rightarrow> Some (put_status (\<lambda>st. st\<lparr>dwCurrentState := x\<rparr>) r, ms, reg)
    | SetExitCode x \<Rightarrow> Some (put_status (\<lambda>st. st\<lparr>dwWin32ExitCode := x\<rparr>) r, ms, reg)
    | SetWaitHint x \<Rightarrow> Some (put_status (\<lambda>st. st\<lparr>dwWaitHint := x\<rparr>) r, ms, reg)
    | SetControls x \<Rightarrow> Some (put_status (\<lambda>st. st\<lparr>dwControlsAccepted := x\<rparr>) r, ms, reg)
    | SetCheckPoint x \<Rightarrow> Some (put_status (\<lambda>st. st\<lparr>dwCheckPoint := x\<rparr>) r, ms, reg)
    | ReadCounter \<Rightarrow> Some (r, ms, checkPoint (rsvc r))
    | WriteCounter \<Rightarrow> Some (r\<lparr>rsvc := (rsvc r)\<lparr>checkPoint := reg + 1\<rparr>\<rparr>, ms, reg)
    | StoreCheckPoint \<Rightarrow> Some (put_status (\<lambda>st. st\<lparr>dwCheckPoint := reg\<rparr>) r, ms, reg)
    | Send \<Rightarrow> Some (r\<lparr>rsent := rsent r @ [gSvcStatus (rsvc r)]\<rparr>, ms, reg)
    | Signal \<Rightarrow> Some (if set_ok then r\<lparr>rsignal := True\<rparr> else r, ms, reg)
    | WaitStop \<Rightarrow> if rsignal r \<or> \<not> wait_ok then Some (r, ms, reg) else None
    | Report \<Rightarrow> Some (r, report_steps (dwCurrentState (gSvcStatus (rsvc r))) NoError 0 @ ms, reg))"

text \<open>A report that nothing interrupts is \<open>ReportSvcStatus\<close>.\<close>

fun thread_run :: "nat \<Rightarrow> shared \<Rightarrow> thread \<Rightarrow> shared \<times> thread" where
  "thread_run 0 r t = (r, t)"
| "thread_run (Suc n) r t = (case thread_step True True r t of None \<Rightarrow> (r, t) | Some (r', t') \<Rightarrow> thread_run n r' t')"

lemma report_alone:
  "\<exists>reg'. thread_run (length (report_steps st e w)) r (report_steps st e w @ ms, reg) =
     (r\<lparr>rsvc := fill_status st e w (rsvc r), rsent := rsent r @ [gSvcStatus (fill_status st e w (rsvc r))]\<rparr>, ms, reg')"
  by (cases "st = ServiceRunning \<or> st = ServiceStopped")
    (auto simp: report_steps_def fill_status_def Let_def put_status_def)

text \<open>\<open>SvcCtrlHandler\<close> for the stop control, and \<open>SvcMain\<close> from its wait on.\<close>

definition handler_steps :: "micro list" where
  "handler_steps = report_steps ServiceStopPending NoError 0 @ [Signal, Report]"

definition main_steps :: "micro list" where
  "main_steps = WaitStop # report_steps ServiceStopped NoError 0"

record race =
  rshared :: shared
  rh :: thread
  rm :: thread

definition handler_step :: "bool \<Rightarrow> bool \<Rightarrow> race \<Rightarrow> race option" where
  "handler_step set_ok wait_ok r =
     map_option (\<lambda>(s, t). r\<lparr>rshared := s, rh := t\<rparr>) (thread_step set_ok wait_ok (rshared r) (rh r))"

definition main_step :: "bool \<Rightarrow> bool \<Rightarrow> race \<Rightarrow> race option" where
  "main_step set_ok wait_ok r =
     map_option (\<lambda>(s, t). r\<lparr>rshared := s, rm := t\<rparr>) (thread_step set_ok wait_ok (rshared r) (rm r))"

inductive race_step :: "bool \<Rightarrow> bool \<Rightarrow> race \<Rightarrow> race \<Rightarrow> bool" for set_ok wait_ok where
  handler: "handler_step set_ok wait_ok r = Some r' \<Longrightarrow> race_step set_ok wait_ok r r'"
| main: "main_step set_ok wait_ok r = Some r' \<Longrightarrow> race_step set_ok wait_ok r r'"

inductive_cases race_stepE: "race_step set_ok wait_ok r r'"

text \<open>The service has just reported that it runs.\<close>

definition race0 :: race where
  "race0 = \<lparr>rshared = \<lparr>rsvc = fill_status ServiceRunning NoError 0 (svc0\<lparr>checkPoint := 2\<rparr>), rsent = [], rsignal = False\<rparr>,
     rh = (handler_steps, 0), rm = (main_steps, 0)\<rparr>"

definition states_sent :: "race \<Rightarrow> DWORD list" where
  "states_sent r = map dwCurrentState (rsent (rshared r))"

definition state_now :: "race \<Rightarrow> DWORD" where
  "state_now r = dwCurrentState (gSvcStatus (rsvc (rshared r)))"

definition race_done :: "race \<Rightarrow> bool" where
  "race_done r \<longleftrightarrow> fst (rh r) = [] \<and> fst (rm r) = []"

lemma report_steps_eqs:
  "report_steps ServiceStopPending 0 0 = [SetState 3, SetExitCode 0, SetWaitHint 0, SetControls 0x85, ReadCounter, WriteCounter, StoreCheckPoint, Send]"
  "report_steps ServiceStopped 0 0 = [SetState 1, SetExitCode 0, SetWaitHint 0, SetControls 0x85, SetCheckPoint 0, Send]"
  by (simp_all add: report_steps_def)

lemma first_steps:
  "handler_steps = m # ms \<Longrightarrow> m = SetState ServiceStopPending" "main_steps = m # ms \<Longrightarrow> m = WaitStop"
  "tl main_steps = m # ms \<Longrightarrow> m = SetState ServiceStopped"
  by (simp_all add: handler_steps_def main_steps_def report_steps_eqs)

text \<open>What is left to do, in steps; a \<open>Report\<close> is at most nine.\<close>

definition queue_work :: "micro list \<Rightarrow> nat" where
  "queue_work q = sum_list (map (\<lambda>m. if m = Report then 9 else 1) q)"

definition work :: "race \<Rightarrow> nat" where
  "work r = queue_work (fst (rh r)) + queue_work (fst (rm r))"

lemma queue_work_simps [simp]:
  "queue_work [] = 0" "queue_work (m # ms) = (if m = Report then 9 else 1) + queue_work ms"
  "queue_work (q @ q') = queue_work q + queue_work q'"
  by (simp_all add: queue_work_def)

lemma report_work: "queue_work (report_steps st e w) \<le> 8"
  by (simp add: report_steps_def)

lemma thread_step_work:
  assumes "thread_step set_ok wait_ok s t = Some (s', t')"
  shows "queue_work (fst t') < queue_work (fst t)"
  using assms report_work[of "dwCurrentState (gSvcStatus (rsvc s))" 0 0]
  by (cases "(set_ok, wait_ok, s, t)" rule: thread_step.cases) (auto split: micro.splits if_splits)

lemma work_decreases:
  assumes "race_step set_ok wait_ok r r'"
  shows "work r' < work r"
  using assms
proof (cases rule: race_step.cases)
  case handler
  then obtain s' t' where "thread_step set_ok wait_ok (rshared r) (rh r) = Some (s', t')" "r' = r\<lparr>rshared := s', rh := t'\<rparr>"
    by (auto simp: handler_step_def)
  with thread_step_work[OF this(1)] show ?thesis by (simp add: work_def)
next
  case main
  then obtain s' t' where "thread_step set_ok wait_ok (rshared r) (rm r) = Some (s', t')" "r' = r\<lparr>rshared := s', rm := t'\<rparr>"
    by (auto simp: main_step_def)
  with thread_step_work[OF this(1)] show ?thesis by (simp add: work_def)
qed

text \<open>The queues of the two threads.\<close>

definition handler_queue :: "micro list \<Rightarrow> bool" where
  "handler_queue q \<longleftrightarrow> (\<forall>x. SetState x \<in> set q \<longrightarrow> x = ServiceStopPending \<or> x = ServiceStopped) \<and>
     WaitStop \<notin> set q \<and> Report \<notin> set (butlast q) \<and> (q \<noteq> [] \<longrightarrow> last q = Send \<or> last q = Report)"

definition main_queue :: "micro list \<Rightarrow> bool" where
  "main_queue q \<longleftrightarrow> (\<forall>x. SetState x \<in> set q \<longrightarrow> x = ServiceStopped) \<and>
     WaitStop \<notin> set (tl q) \<and> (WaitStop \<in> set q \<longrightarrow> q = main_steps) \<and> Report \<notin> set q \<and> (q \<noteq> [] \<longrightarrow> last q = Send)"

definition sends :: "micro list \<Rightarrow> nat" where
  "sends q = length (filter (\<lambda>m. m = Send \<or> m = Report) q)"

definition race_inv :: "bool \<Rightarrow> bool \<Rightarrow> race \<Rightarrow> bool" where
  "race_inv set_ok wait_ok r \<longleftrightarrow>
     handler_queue (fst (rh r)) \<and> main_queue (fst (rm r)) \<and>
     (state_now r = ServiceStopPending \<or> state_now r = ServiceStopped \<or>
       fst (rh r) = handler_steps \<and> (fst (rm r) = main_steps \<or> fst (rm r) = tl main_steps)) \<and>
     set (states_sent r) \<subseteq> {ServiceStopPending, ServiceStopped} \<and>
     length (states_sent r) + sends (fst (rh r)) + sends (fst (rm r)) = 3 \<and>
     (race_done r \<longrightarrow> states_sent r \<noteq> [] \<and> last (states_sent r) = state_now r) \<and>
     (Signal \<in> set (fst (rh r)) \<or> rsignal (rshared r) \<or> \<not> set_ok) \<and>
     (rsignal (rshared r) \<longrightarrow> set_ok) \<and>
     (WaitStop \<in> set (fst (rm r)) \<or> rsignal (rshared r) \<or> \<not> wait_ok) \<and>
     (WaitStop \<in> set (fst (rm r)) \<longrightarrow> SetState ServiceStopped \<notin> set (fst (rh r)) \<and> state_now r \<noteq> ServiceStopped \<and>
       ServiceStopped \<notin> set (states_sent r))"

lemma handler_queue_tl: "handler_queue (m # ms) \<Longrightarrow> handler_queue ms \<and> (m = Report \<longrightarrow> ms = []) \<and> m \<noteq> WaitStop \<and>
    (ms = [] \<longrightarrow> m = Send \<or> m = Report)"
  by (auto simp: handler_queue_def split: if_splits)

lemma main_queue_tl: "main_queue (m # ms) \<Longrightarrow> main_queue ms \<and> m \<noteq> Report \<and> WaitStop \<notin> set ms \<and> (ms = [] \<longrightarrow> m = Send)"
  by (cases ms; auto simp: main_queue_def split: if_splits)

lemma sends_simps [simp]: "sends [] = 0" "sends (m # ms) = (if m = Send \<or> m = Report then Suc (sends ms) else sends ms)"
  "sends (q @ q') = sends q + sends q'" "sends (report_steps st e w) = 1"
  by (simp_all add: sends_def report_steps_def)

lemma handler_queue_report: "st = ServiceStopPending \<or> st = ServiceStopped \<Longrightarrow> handler_queue (report_steps st 0 0)"
  by (elim disjE) (simp_all add: report_steps_eqs handler_queue_def)

lemma thread_step_effect:
  assumes "thread_step set_ok wait_ok s t = Some (s', t')"
  shows "\<exists>m ms. fst t = m # ms \<and>
    fst t' = (if m = Report then report_steps (dwCurrentState (gSvcStatus (rsvc s))) 0 0 @ ms else ms) \<and>
    dwCurrentState (gSvcStatus (rsvc s')) = (case m of SetState x \<Rightarrow> x | _ \<Rightarrow> dwCurrentState (gSvcStatus (rsvc s))) \<and>
    rsent s' = rsent s @ (if m = Send then [gSvcStatus (rsvc s)] else []) \<and>
    (rsignal s' \<longleftrightarrow> rsignal s \<or> m = Signal \<and> set_ok) \<and> (m = WaitStop \<longrightarrow> rsignal s \<or> \<not> wait_ok)"
proof -
  obtain m ms reg where t: "t = (m # ms, reg)" using assms by (cases "(set_ok, wait_ok, s, t)" rule: thread_step.cases) auto
  show ?thesis using assms unfolding t by (auto simp: put_status_def split: micro.splits if_splits)
qed

lemma handler_preserves:
  assumes "handler_step set_ok wait_ok r = Some r'" and i: "race_inv set_ok wait_ok r"
  shows "race_inv set_ok wait_ok r'"
proof -
  obtain s' t' where st: "thread_step set_ok wait_ok (rshared r) (rh r) = Some (s', t')" and r': "r' = r\<lparr>rshared := s', rh := t'\<rparr>"
    using assms(1) by (auto simp: handler_step_def)
  obtain m ms where e0: "fst (rh r) = m # ms"
    "fst t' = (if m = Report then report_steps (dwCurrentState (gSvcStatus (rsvc (rshared r)))) 0 0 @ ms else ms)"
    "dwCurrentState (gSvcStatus (rsvc s')) = (case m of SetState x \<Rightarrow> x | _ \<Rightarrow> dwCurrentState (gSvcStatus (rsvc (rshared r))))"
    "rsent s' = rsent (rshared r) @ (if m = Send then [gSvcStatus (rsvc (rshared r))] else [])"
    "rsignal s' \<longleftrightarrow> rsignal (rshared r) \<or> m = Signal \<and> set_ok"
    using thread_step_effect[OF st] by blast
  then have e: "fst (rh r) = m # ms" "fst t' = (if m = Report then report_steps (state_now r) 0 0 @ ms else ms)"
    "state_now r' = (case m of SetState x \<Rightarrow> x | _ \<Rightarrow> state_now r)"
    "states_sent r' = states_sent r @ (if m = Send then [state_now r] else [])"
    "rsignal s' \<longleftrightarrow> rsignal (rshared r) \<or> m = Signal \<and> set_ok"
    by (simp_all add: state_now_def states_sent_def r' split: micro.split)
  have q: "handler_queue (m # ms)" using i e(1) by (simp add: race_inv_def)
  note tl = handler_queue_tl[OF q]
  have mq: "main_queue (fst (rm r))" using i by (simp add: race_inv_def)
  have x: "x = ServiceStopPending \<or> x = ServiceStopped" if "m = SetState x" for x using q that by (auto simp: handler_queue_def)
  note inv = i[unfolded race_inv_def]
  have now: "state_now r = ServiceStopPending \<or> state_now r = ServiceStopped \<or> m = SetState 3"
    using inv e(1) first_steps(1)[of m ms] by metis
  have now': "state_now r' = ServiceStopPending \<or> state_now r' = ServiceStopped" using now x e(3) by (cases m) auto
  have hq: "handler_queue (fst t')"
    using e(2) tl handler_queue_report[of "state_now r"] now by (auto split: if_splits)
  have fin: "race_done r' \<longrightarrow> m = Send"
    using e(2) tl by (auto simp: race_done_def r' report_steps_def split: if_splits)
  have count: "length (states_sent r') + sends (fst t') = length (states_sent r) + sends (fst (rh r))"
    using e(1,2,4) tl by simp
  have quiet: "SetState ServiceStopped \<notin> set (fst t') \<and> state_now r' \<noteq> ServiceStopped \<and> ServiceStopped \<notin> set (states_sent r')"
    if "WaitStop \<in> set (fst (rm r))"
  proof -
    have q: "SetState ServiceStopped \<notin> set (m # ms)" "state_now r \<noteq> ServiceStopped" "ServiceStopped \<notin> set (states_sent r)"
      using inv that e(1) by auto
    show ?thesis using q e(2-4) now by (cases m) (auto simp: report_steps_eqs split: if_splits)
  qed
  show ?thesis
    unfolding race_inv_def
  proof (intro conjI)
    show "set (states_sent r') \<subseteq> {ServiceStopPending, ServiceStopped}" using inv e(4) now by (auto split: if_splits)
    show "race_done r' \<longrightarrow> states_sent r' \<noteq> [] \<and> last (states_sent r') = state_now r'"
      using fin e(3,4) by auto
    show "Signal \<in> set (fst (rh r')) \<or> rsignal (rshared r') \<or> \<not> set_ok" using inv e(1,2,5) by (auto simp: r')
  qed (use inv e(5) hq now' mq count quiet in \<open>auto simp: r'\<close>)
qed

lemma main_preserves:
  assumes "main_step set_ok wait_ok r = Some r'" and i: "race_inv set_ok wait_ok r"
  shows "race_inv set_ok wait_ok r'"
proof -
  obtain s' t' where st: "thread_step set_ok wait_ok (rshared r) (rm r) = Some (s', t')" and r': "r' = r\<lparr>rshared := s', rm := t'\<rparr>"
    using assms(1) by (auto simp: main_step_def)
  have mq: "main_queue (fst (rm r))" using i by (simp add: race_inv_def)
  obtain m ms where e0: "fst (rm r) = m # ms"
    "fst t' = (if m = Report then report_steps (dwCurrentState (gSvcStatus (rsvc (rshared r)))) 0 0 @ ms else ms)"
    "dwCurrentState (gSvcStatus (rsvc s')) = (case m of SetState x \<Rightarrow> x | _ \<Rightarrow> dwCurrentState (gSvcStatus (rsvc (rshared r))))"
    "rsent s' = rsent (rshared r) @ (if m = Send then [gSvcStatus (rsvc (rshared r))] else [])"
    "rsignal s' \<longleftrightarrow> rsignal (rshared r) \<or> m = Signal \<and> set_ok" "m = WaitStop \<longrightarrow> rsignal (rshared r) \<or> \<not> wait_ok"
    using thread_step_effect[OF st] by blast
  have "m \<noteq> Report" using mq e0(1) by (auto simp: main_queue_def)
  with e0 have e: "fst (rm r) = m # ms" "fst t' = ms"
    "state_now r' = (case m of SetState x \<Rightarrow> x | _ \<Rightarrow> state_now r)"
    "states_sent r' = states_sent r @ (if m = Send then [state_now r] else [])"
    "rsignal s' \<longleftrightarrow> rsignal (rshared r) \<or> m = Signal \<and> set_ok" "m = WaitStop \<longrightarrow> rsignal (rshared r) \<or> \<not> wait_ok"
    "m \<noteq> Report"
    by (simp_all add: state_now_def states_sent_def r' split: micro.split)
  have q: "main_queue (m # ms)" using mq e(1) by simp
  note tl = main_queue_tl[OF q]
  have x: "x = ServiceStopped" if "m = SetState x" for x using q that by (auto simp: main_queue_def)
  note inv = i[unfolded race_inv_def]
  have now: "state_now r = ServiceStopPending \<or> state_now r = ServiceStopped \<or>
      fst (rh r) = handler_steps \<and> (m = WaitStop \<and> ms = tl main_steps \<or> m = SetState ServiceStopped)"
    using inv e(1) first_steps(2,3)[of m ms] by (metis list.sel(3))
  have now': "state_now r' = ServiceStopPending \<or> state_now r' = ServiceStopped \<or>
      fst (rh r) = handler_steps \<and> ms = tl main_steps"
    using now x e(3) by (cases m) auto
  have count: "length (states_sent r') + sends ms = length (states_sent r) + sends (fst (rm r))"
    using e(1,4,7) by simp
  have sent: "set (states_sent r') \<subseteq> {ServiceStopPending, ServiceStopped}" using inv e(4) now by (auto split: if_splits)
  have fin: "race_done r' \<longrightarrow> m = Send" using e(2) tl by (auto simp: race_done_def r')
  have sig: "Signal \<in> set (fst (rh r)) \<or> rsignal s' \<or> \<not> set_ok" "rsignal s' \<longrightarrow> set_ok" "rsignal s' \<or> \<not> wait_ok \<or> WaitStop \<in> set ms"
    using inv e(1,5,6) by auto
  show ?thesis
    unfolding race_inv_def
  proof (intro conjI)
    show "race_done r' \<longrightarrow> states_sent r' \<noteq> [] \<and> last (states_sent r') = state_now r'"
      using fin e(3,4) by auto
  qed (use inv e(2) now' count sent sig tl in \<open>auto simp: r'\<close>)
qed

lemma race_inv_reach: "(race_step set_ok wait_ok)\<^sup>*\<^sup>* race0 r \<Longrightarrow> race_inv set_ok wait_ok r"
proof (induction rule: rtranclp_induct)
  case base
  show ?case
    by (simp add: race_inv_def race0_def states_sent_def state_now_def fill_status_def handler_queue_def main_queue_def
        handler_steps_def main_steps_def report_steps_eqs race_done_def)
next
  case (step y z)
  then show ?case by (meson handler_preserves main_preserves race_stepE)
qed

lemma thread_step_runs: "fst t = m # ms \<Longrightarrow> m \<noteq> WaitStop \<or> rsignal s \<or> \<not> wait_ok \<Longrightarrow> thread_step set_ok wait_ok s t \<noteq> None"
  by (cases t) (auto split: micro.splits)

lemma race_no_deadlock:
  assumes i: "race_inv set_ok wait_ok r" and "set_ok \<or> \<not> wait_ok"
  shows "race_done r \<or> (\<exists>r'. race_step set_ok wait_ok r r')"
proof (cases "fst (rh r)")
  case (Cons m ms)
  then have "m \<noteq> WaitStop" using i by (auto simp: race_inv_def handler_queue_def)
  then obtain s' t' where "thread_step set_ok wait_ok (rshared r) (rh r) = Some (s', t')"
    using thread_step_runs[OF Cons] by (metis not_None_eq surj_pair)
  then have "handler_step set_ok wait_ok r = Some (r\<lparr>rshared := s', rh := t'\<rparr>)" by (simp add: handler_step_def)
  then show ?thesis using race_step.handler by blast
next
  case Nil
  then have w: "rsignal (rshared r) \<or> \<not> wait_ok" using i assms(2) by (auto simp: race_inv_def)
  show ?thesis
  proof (cases "fst (rm r)")
    case (Cons m ms)
    obtain s' t' where "thread_step set_ok wait_ok (rshared r) (rm r) = Some (s', t')"
      using thread_step_runs[OF Cons] w by (metis not_None_eq surj_pair)
    then have "main_step set_ok wait_ok r = Some (r\<lparr>rshared := s', rm := t'\<rparr>)" by (simp add: main_step_def)
    then show ?thesis using race_step.main by blast
  qed (use Nil in \<open>simp add: race_done_def\<close>)
qed

text \<open>Schedules: \<open>True\<close> is a step of the handler, \<open>False\<close> one of \<open>SvcMain\<close>.\<close>

fun race_run :: "bool list \<Rightarrow> race \<Rightarrow> race" where
  "race_run [] r = r"
| "race_run (b # bs) r =
     (case (if b then handler_step True True r else main_step True True r) of None \<Rightarrow> r | Some r' \<Rightarrow> race_run bs r')"

lemma race_run_reach: "(race_step True True)\<^sup>*\<^sup>* r (race_run bs r)"
proof (induction bs r rule: race_run.induct)
  case (2 b bs r)
  show ?case
  proof (cases "if b then handler_step True True r else main_step True True r")
    case (Some r')
    then have "race_step True True r r'" by (cases b) (auto intro: race_step.intros)
    with 2[OF Some] Some show ?thesis by simp
  qed simp
qed simp

definition schedule :: "nat list \<Rightarrow> bool list" where
  "schedule ns = concat (map2 replicate ns (map even [0 ..< length ns]))"

text \<open>
  \<open>SvcMain\<close> reports after the handler is done; between the handler's reading of the state and its report; and
  around the handler's write of the state; and, last, just before the handler stores its check point.
\<close>

definition in_order :: race where
  "in_order = race_run (schedule [18, 7]) race0"

definition overtaken :: race where
  "overtaken = race_run (schedule [10, 7, 8]) race0"

definition overwritten :: race where
  "overwritten = race_run (schedule [10, 2, 1, 5, 7]) race0"

definition torn :: race where
  "torn = race_run (schedule [16, 6, 1, 1, 1]) race0"

lemma schedules_end:
  "race_done in_order \<and> states_sent in_order = [ServiceStopPending, ServiceStopPending, ServiceStopped]"
  "race_done overtaken \<and> states_sent overtaken = [ServiceStopPending, ServiceStopped, ServiceStopPending]"
  "race_done overwritten \<and> states_sent overwritten = [ServiceStopPending, ServiceStopPending, ServiceStopPending]"
  "race_done torn \<and> map dwCheckPoint (rsent (rshared torn)) = [2, 3, 3] \<and>
     states_sent torn = [ServiceStopPending, ServiceStopped, ServiceStopped]"
  by code_simp+

section \<open>Properties\<close>

text \<open>
  C14: Installing and removing the service, loading the user's profile and impersonating the user
  leave no service, kernel or registry handle open and close none twice, whichever call fails.  The user's
  profile is the exception: \<open>UnloadUserProfile\<close> is passed the address of the local \<open>PROFILEINFOW\<close> and not its
  \<open>hProfile\<close>, so every profile that \<open>LoadUserProfileW\<close> loads is still loaded when the function returns,
  unless its handle happens to be that address.
\<close>

theorem service_handles:
  "sh.live (history_of (Install os s [])) = Some {#} \<and> sh.live (history_of (Uninstall os s [])) = Some {#} \<and>
   sh.live (history_of (LoadUserProfile p os s [])) = Some {#} \<and> sh.live (history_of (ImpersonateUser os s [])) = Some {#} \<and>
   profiles {#} (history_of (LoadUserProfile p os s [])) =
     filter_mset (\<lambda>x. x \<noteq> p) (loaded (history_of (LoadUserProfile p os s [])))"
  using prof.stays_Nil[OF prof_LoadUserProfile[of p], of os s]
  by (intro conjI sh.neutral_regular neutral_Install neutral_Uninstall neutral_LoadUserProfile neutral_ImpersonateUser
      regular_Install regular_Uninstall regular_LoadUserProfile regular_ImpersonateUser) (simp add: only_unloads_def)

text \<open>
  \<open>ImpersonateUser\<close> returns on every path, and never with the thread still acting as the user.
\<close>

theorem impersonation_reverted:
  "is_Val (outcome_of (ImpersonateUser os s h)) \<and> \<not> impersonating (history_of (ImpersonateUser os s h))"
  using ImpersonateUser_reverts by blast

text \<open>
  Once its control handler is registered, \<open>SvcMain\<close> reports that it starts, accepting no controls
  and with a checkpoint, then that it runs unless its event cannot be created, and always last that
  it has stopped, with the controls it accepts and no checkpoint.
\<close>

theorem service_reports:
  "\<exists>s' g. SvcMain os s h = (Val (), s', h @ g) \<and>
     (if rv (os h (RegisterServiceCtrlHandlerExW ServiceName)) = 0 then reports g = []
      else map essence (reports g) = [(ServiceStartPending, 0, checkPoint s), (ServiceStopped, 0x85, 0)] \<or>
           map essence (reports g) = [(ServiceStartPending, 0, checkPoint s), (ServiceRunning, 0x85, 0), (ServiceStopped, 0x85, 0)])"
  by (rule SvcMain_reports)

text \<open>
  C13: A stop control, in every interleaving of the accesses of the control handler and of \<open>SvcMain\<close> to the
  status they share: unless \<open>SetEvent\<close> fails, some thread can move until both are done, which takes a
  bounded number of steps; if it fails, \<open>SvcMain\<close> waits for ever and the stop is never reported.  When both are done
  three reports have been sent, each of a pending or of a completed stop, and the last one tells the state
  that \<open>gSvcStatus\<close> was left in.  But that state need not be \<open>SERVICE_STOPPED\<close>: there are interleavings whose reports
  are pending, stopped, pending, and pending three times, so that the completed stop is not reported at
  all, and one that reports a completed stop with a check point.
\<close>

theorem stop_control_race:
  "(\<forall>r. (race_step set_ok wait_ok)\<^sup>*\<^sup>* race0 r \<longrightarrow>
      (set_ok \<or> \<not> wait_ok \<longrightarrow> race_done r \<or> (\<exists>r'. race_step set_ok wait_ok r r')) \<and>
      (\<not> set_ok \<and> wait_ok \<longrightarrow> fst (rm r) = main_steps \<and> ServiceStopped \<notin> set (states_sent r)) \<and>
      (race_done r \<longrightarrow> length (states_sent r) = 3 \<and> set (states_sent r) \<subseteq> {ServiceStopPending, ServiceStopped} \<and>
        last (states_sent r) = state_now r)) \<and>
   (\<forall>r r'. race_step set_ok wait_ok r r' \<longrightarrow> work r' < work r) \<and>
   (\<exists>r. (race_step True True)\<^sup>*\<^sup>* race0 r \<and> race_done r \<and>
      states_sent r = [ServiceStopPending, ServiceStopPending, ServiceStopped]) \<and>
   (\<exists>r. (race_step True True)\<^sup>*\<^sup>* race0 r \<and> race_done r \<and>
      states_sent r = [ServiceStopPending, ServiceStopped, ServiceStopPending]) \<and>
   (\<exists>r. (race_step True True)\<^sup>*\<^sup>* race0 r \<and> race_done r \<and>
      states_sent r = [ServiceStopPending, ServiceStopPending, ServiceStopPending]) \<and>
   (\<exists>r. (race_step True True)\<^sup>*\<^sup>* race0 r \<and>
      (\<exists>st \<in> set (rsent (rshared r)). dwCurrentState st = ServiceStopped \<and> dwCheckPoint st \<noteq> 0))"
proof (intro conjI allI impI)
  fix r assume "(race_step set_ok wait_ok)\<^sup>*\<^sup>* race0 r"
  note i = race_inv_reach[OF this]
  show "race_done r \<or> (\<exists>r'. race_step set_ok wait_ok r r')" if "set_ok \<or> \<not> wait_ok"
    using race_no_deadlock[OF i that] .
  show "fst (rm r) = main_steps" "ServiceStopped \<notin> set (states_sent r)" if "\<not> set_ok \<and> wait_ok"
    using i that by (auto simp: race_inv_def main_queue_def)
  show "length (states_sent r) = 3" "set (states_sent r) \<subseteq> {ServiceStopPending, ServiceStopped}"
    "last (states_sent r) = state_now r" if "race_done r"
    using i that by (simp_all add: race_inv_def race_done_def)
next
  have st: "\<exists>st \<in> set (rsent (rshared torn)). dwCurrentState st = ServiceStopped \<and> dwCheckPoint st \<noteq> 0" by code_simp
  show "\<exists>r. (race_step True True)\<^sup>*\<^sup>* race0 r \<and>
      (\<exists>st \<in> set (rsent (rshared r)). dwCurrentState st = ServiceStopped \<and> dwCheckPoint st \<noteq> 0)"
    using race_run_reach[of race0 "schedule [16, 6, 1, 1, 1]", folded torn_def] st by (intro exI conjI)
qed (use work_decreases schedules_end race_run_reach in \<open>unfold in_order_def overtaken_def overwritten_def, blast+\<close>)

theorem stop_control_race_witness:
  "length (states_sent overtaken) = 3 \<and> last (states_sent overtaken) = state_now overtaken"
proof -
  have "(race_step True True)\<^sup>*\<^sup>* race0 overtaken" unfolding overtaken_def by (rule race_run_reach)
  then show ?thesis using stop_control_race[of True True] schedules_end(2) by blast
qed

text \<open>
  \<open>CreateUserProcess\<close> closes its environment block, here at address 103, as if it were a kernel handle.
\<close>

definition generous :: "svccall os" where
  "generous h c = \<lparr>rv = 1, out = of_nat (100 + length h), buf = [], outs = [of_nat (200 + length h)], rows = []\<rparr>"

lemma environment_closed_as_handle:
  "calls (history_of (CreateUserProcess generous svc0 [])) =
    [WTSGetActiveConsoleSessionId, WTSQueryUserToken 1, DuplicateTokenEx 101 0x2000B True, CreateEnvironmentBlock 102,
     CreateProcessAsUserW 102 103, CloseHandle 204, CloseHandle 104, CloseHandle 103, CloseHandle 102, CloseHandle 101]"
  by code_simp

end
