(* ===== verification/Pipes.thy ===== *)
theory Pipes
  imports Raii
begin

text \<open>
  The two named-pipe programs: SmallPipes/main.cpp (blocking and overlapped reads and writes of
  messages larger than the buffer) and PipeMessages/main.cpp (messages with a header).  The pipe is
  the operating system's; what an overlapped operation leaves in its \<open>OVERLAPPED\<close> and in the buffer
  is the answer to the call \<open>OverlappedStatus\<close>, made where the code reads it.
\<close>

section \<open>System calls\<close>

datatype pipecall =
    GetLastError
  | CreateEventW
  | CloseHandle HANDLE
  | WaitForSingleObject HANDLE DWORD
  | CreateNamedPipeW DWORD
  | CreateFileW
  | SetNamedPipeHandleState HANDLE
  | WriteFile HANDLE "BYTE list"
  | WriteFileOverlapped HANDLE "BYTE list" HANDLE
  | ReadFile HANDLE DWORD
  | ReadFileOverlapped HANDLE DWORD HANDLE
  | OverlappedStatus HANDLE
  | CancelIo HANDLE
  | ConnectNamedPipe HANDLE HANDLE
  | GetNamedPipeClientProcessId HANDLE
  | OpenProcess DWORD
  | GetCurrentProcess
  | K32GetProcessImageFileNameA HANDLE
  | QueryFullProcessImageNameA HANDLE

text \<open>The exceptions: a \<open>Win32Error\<close> with its code, or a plain \<open>runtime_error\<close>.\<close>

datatype perr = Win32Error DWORD | RuntimeError

type_synonym 'a pio = "(unit, pipecall, perr, 'a) io"

abbreviation (input) MoreData :: DWORD where "MoreData \<equiv> 234"
abbreviation (input) IoPending :: DWORD where "IoPending \<equiv> 997"

definition last_error :: "DWORD pio" where
  "last_error = bnd (call GetLastError) (\<lambda>r. ret (ucast (rv r)))"

definition throw_last_error :: "'a pio" where
  "throw_last_error = bnd last_error (\<lambda>e. throw (Win32Error e))"

definition close_handle :: "HANDLE \<Rightarrow> unit pio" where
  "close_handle x = whenM (x \<noteq> 0) (do_call (CloseHandle x))"

text \<open>What a read delivered: at most the bytes asked for.\<close>

definition delivered :: "DWORD \<Rightarrow> resp \<Rightarrow> BYTE list" where
  "delivered n r = take (unat n) (buf r)"

text \<open>The read loops store at \<open>returnBuffer.data() + totalBytesRead\<close>.\<close>

definition store :: "nat \<Rightarrow> BYTE list \<Rightarrow> BYTE list \<Rightarrow> BYTE list pio" where
  "store tot bytes buffer =
     (if tot + length bytes \<le> length buffer then ret (overwrite tot bytes buffer) else fault)"

section \<open>SmallPipes: overlapped operations\<close>

text \<open>\<open>Async::Overlapped\<close> is its event; the constructor creates it, \<open>Close\<close> closes it.\<close>

definition Overlapped_ctor :: "HANDLE pio" where
  "Overlapped_ctor = bnd (call CreateEventW) (\<lambda>r. if rv r = 0 then throw_last_error else ret (rv r))"

definition Overlapped_Close :: "HANDLE \<Rightarrow> unit pio" where
  "Overlapped_Close = close_handle"

definition Wait_millis :: "HANDLE \<Rightarrow> DWORD \<Rightarrow> bool pio" where
  "Wait_millis hEvent millis = (if hEvent = 0 then throw RuntimeError else
     bnd (call (WaitForSingleObject hEvent millis)) (\<lambda>r. ret (ucast (rv r) = (0 :: DWORD))))"

definition Wait_infinite :: "HANDLE \<Rightarrow> bool pio" where
  "Wait_infinite hEvent = Wait_millis hEvent 0xFFFFFFFF"

fun Wait_msg :: "nat \<Rightarrow> HANDLE \<Rightarrow> bool pio" where
  "Wait_msg 0 hEvent = running"
| "Wait_msg (Suc fuel) hEvent = bnd (Wait_millis hEvent 1000) (\<lambda>b. if b then ret True else Wait_msg fuel hEvent)"

definition IsPartial :: "64 word \<Rightarrow> bool" where
  "IsPartial internal \<longleftrightarrow> internal = 0x80000005"

definition Pending :: "64 word \<Rightarrow> bool" where
  "Pending internal \<longleftrightarrow> internal = 0x103"

text \<open>
  Moving an \<open>Overlapped\<close>: both the move constructor and the move assignment call \<open>std::swap\<close> on the
  objects, and \<open>std::swap\<close> moves them.  \<open>fuel\<close> bounds the depth of the recursion.
\<close>

fun Overlapped_move :: "nat \<Rightarrow> unit pio" and Overlapped_swap :: "nat \<Rightarrow> unit pio" where
  "Overlapped_move 0 = running"
| "Overlapped_move (Suc fuel) = Overlapped_swap fuel"
| "Overlapped_swap 0 = running"
| "Overlapped_swap (Suc fuel) =
     andthen (Overlapped_move fuel) (andthen (Overlapped_move fuel) (Overlapped_move fuel))"

section \<open>SmallPipes: asynchronous reads\<close>

record AsyncRead =
  Data :: "BYTE list"
  Operation :: HANDLE
  Pipe :: HANDLE
  BytesToRead :: DWORD

definition AsyncRead_Start :: "AsyncRead \<Rightarrow> AsyncRead pio" where
  "AsyncRead_Start a =
     bnd (call (ReadFileOverlapped (Pipe a) (BytesToRead a) (Operation a))) (\<lambda>r.
     bnd last_error (\<lambda>e.
       if rv r = 0 \<and> e \<noteq> IoPending then throw (Win32Error e)
       else ret (a\<lparr>Data := replicate (unat (BytesToRead a)) 0\<rparr>)))"

text \<open>The members are built before the constructor's body runs; its exceptions destroy them.\<close>

definition AsyncRead_ctor :: "HANDLE \<Rightarrow> DWORD \<Rightarrow> AsyncRead pio" where
  "AsyncRead_ctor handle bytesToRead = bnd Overlapped_ctor (\<lambda>ev.
     try_catch (if handle = 0 then throw RuntimeError else
         AsyncRead_Start \<lparr>Data = [], Operation = ev, Pipe = handle, BytesToRead = bytesToRead\<rparr>)
       (\<lambda>e. andthen (Overlapped_Close ev) (throw e)))"

definition AsyncRead_dtor :: "AsyncRead \<Rightarrow> unit pio" where
  "AsyncRead_dtor a = bnd (call (OverlappedStatus (Operation a))) (\<lambda>st.
     andthen (whenM (Pending (rv st)) (do_call (CancelIo (Pipe a)))) (Overlapped_Close (Operation a)))"

definition AsyncRead_Ready :: "AsyncRead \<Rightarrow> bool pio" where
  "AsyncRead_Ready a = Wait_infinite (Operation a)"

text \<open>
  \<open>FinishReading\<close>: a complete message is in the buffer after the wait; for a partial one the loop
  begins by moving a new \<open>Overlapped\<close> over the old.
\<close>

fun FinishReading_loop :: "nat \<Rightarrow> AsyncRead \<Rightarrow> nat \<Rightarrow> AsyncRead pio" where
  "FinishReading_loop 0 a tot = running"
| "FinishReading_loop (Suc fuel) a tot =
     bnd Overlapped_ctor (\<lambda>ev.
     andthen (Overlapped_move fuel)
     (bnd (call (ReadFileOverlapped (Pipe a) (BytesToRead a) ev)) (\<lambda>r.
      bnd (Wait_msg fuel ev) (\<lambda>_.
      bnd (call (OverlappedStatus ev)) (\<lambda>st.
      bnd (store tot (delivered (BytesToRead a) st) (Data a)) (\<lambda>data.
      let tot' = tot + length (delivered (BytesToRead a) st) in
      if rv r \<noteq> 0 then ret (a\<lparr>Data := take tot' data, Operation := ev\<rparr>) else
      bnd last_error (\<lambda>e. if e \<noteq> MoreData then throw (Win32Error e) else
        FinishReading_loop fuel (a\<lparr>Data := data @ replicate (unat (BytesToRead a)) 0, Operation := ev\<rparr>) tot')))))))"

definition FinishReading :: "nat \<Rightarrow> AsyncRead \<Rightarrow> AsyncRead pio" where
  "FinishReading fuel a = andthen (Wait_infinite (Operation a))
     (bnd (call (OverlappedStatus (Operation a))) (\<lambda>st.
      bnd (store 0 (delivered (BytesToRead a) st) (Data a)) (\<lambda>data.
      if \<not> IsPartial (rv st) then ret (a\<lparr>Data := take (length (delivered (BytesToRead a) st)) data\<rparr>)
      else FinishReading_loop fuel (a\<lparr>Data := data\<rparr>) (length (delivered (BytesToRead a) st)))))"

definition Event_ctor :: "HANDLE pio" where
  "Event_ctor = bnd (call CreateEventW) (\<lambda>r. if rv r = 0 then throw_last_error else ret (rv r))"

section \<open>SmallPipes: opening, writing and reading\<close>

abbreviation (input) Small_BufferSize :: DWORD where "Small_BufferSize \<equiv> 2"

definition CreateServerPipe :: "HANDLE pio" where
  "CreateServerPipe = bnd (call (CreateNamedPipeW Small_BufferSize)) (\<lambda>r.
     if rv r = 0 \<or> rv r = InvalidHandleValue then throw_last_error else ret (rv r))"

text \<open>The handle is wrapped only after its mode has been set.\<close>

definition CreateClientPipe :: "HANDLE pio" where
  "CreateClientPipe = bnd (call CreateFileW) (\<lambda>r.
     if rv r = 0 \<or> rv r = InvalidHandleValue then throw_last_error else
     bnd (call (SetNamedPipeHandleState (rv r))) (\<lambda>m.
       if rv m = 0 then throw_last_error else ret (rv r)))"

definition Blocking_WritePipe :: "HANDLE \<Rightarrow> BYTE list \<Rightarrow> unit pio" where
  "Blocking_WritePipe pipe data = bnd (call (WriteFile pipe data)) (\<lambda>r. if rv r = 0 then throw_last_error else ret ())"

fun Blocking_loop :: "nat \<Rightarrow> HANDLE \<Rightarrow> DWORD \<Rightarrow> BYTE list \<Rightarrow> nat \<Rightarrow> BYTE list pio" where
  "Blocking_loop 0 pipe n returnBuffer tot = running"
| "Blocking_loop (Suc fuel) pipe n returnBuffer tot =
     bnd (call (ReadFile pipe n)) (\<lambda>r.
     bnd (store tot (delivered n r) returnBuffer) (\<lambda>buffer.
     let tot' = tot + length (delivered n r) in
     if rv r \<noteq> 0 then ret (take tot' buffer) else
     bnd last_error (\<lambda>e. if e \<noteq> MoreData then throw (Win32Error e) else
       Blocking_loop fuel pipe n (buffer @ replicate (unat n) 0) tot')))"

definition Blocking_ReadPipe :: "nat \<Rightarrow> HANDLE \<Rightarrow> DWORD \<Rightarrow> BYTE list pio" where
  "Blocking_ReadPipe fuel pipe bytesToRead = Blocking_loop fuel pipe bytesToRead (replicate (unat bytesToRead) 0) 0"

definition Nonblocking_WritePipe :: "nat \<Rightarrow> HANDLE \<Rightarrow> BYTE list \<Rightarrow> unit pio" where
  "Nonblocking_WritePipe fuel pipe data = bnd (call CreateEventW) (\<lambda>ev. if rv ev = 0 then throw_last_error else
     finally_do
       (bnd (call (WriteFileOverlapped pipe data (rv ev))) (\<lambda>r.
        bnd (if rv r = 0 then bnd last_error (\<lambda>e. ret (e \<noteq> IoPending)) else ret False) (\<lambda>bad.
        if bad then throw_last_error else andthen (Wait_msg fuel (rv ev)) (ret ()))))
       (Overlapped_Close (rv ev)))"

text \<open>One iteration of the read loop, with its \<open>Overlapped\<close>: whether the message is complete, the buffer and the total.\<close>

definition Nonblocking_once :: "nat \<Rightarrow> HANDLE \<Rightarrow> DWORD \<Rightarrow> BYTE list \<Rightarrow> nat \<Rightarrow> HANDLE \<Rightarrow> (bool \<times> BYTE list \<times> nat) pio" where
  "Nonblocking_once wait pipe n returnBuffer tot ev =
     bnd (call (ReadFileOverlapped pipe n ev)) (\<lambda>r.
     bnd (Wait_msg wait ev) (\<lambda>_.
     bnd (call (OverlappedStatus ev)) (\<lambda>st.
     bnd (store tot (delivered n st) returnBuffer) (\<lambda>buffer.
     let tot' = tot + length (delivered n st) in
     if rv r \<noteq> 0 then ret (True, take tot' buffer, tot') else
     bnd last_error (\<lambda>e. if e \<noteq> MoreData then throw (Win32Error e) else
       ret (False, buffer @ replicate (unat n) 0, tot'))))))"

fun Nonblocking_loop :: "nat \<Rightarrow> nat \<Rightarrow> HANDLE \<Rightarrow> DWORD \<Rightarrow> BYTE list \<Rightarrow> nat \<Rightarrow> BYTE list pio" where
  "Nonblocking_loop 0 wait pipe n returnBuffer tot = running"
| "Nonblocking_loop (Suc fuel) wait pipe n returnBuffer tot =
     bnd (call CreateEventW) (\<lambda>ev. if rv ev = 0 then throw_last_error else
     bnd (finally_do (Nonblocking_once wait pipe n returnBuffer tot (rv ev)) (Overlapped_Close (rv ev)))
       (\<lambda>(done, buffer, tot'). if done then ret buffer else Nonblocking_loop fuel wait pipe n buffer tot'))"

definition Nonblocking_ReadPipe :: "nat \<Rightarrow> nat \<Rightarrow> HANDLE \<Rightarrow> DWORD \<Rightarrow> BYTE list pio" where
  "Nonblocking_ReadPipe fuel wait pipe bytesToRead =
     Nonblocking_loop fuel wait pipe bytesToRead (replicate (unat bytesToRead) 0) 0"

text \<open>The two thread procedures of \<open>Run\<close>.\<close>

definition ServerProc :: "nat \<Rightarrow> HANDLE \<Rightarrow> int pio" where
  "ServerProc fuel pipe = andthen (Nonblocking_WritePipe fuel pipe [65, 66, 67]) (ret 0)"

definition ClientProc :: "nat \<Rightarrow> HANDLE \<Rightarrow> int pio" where
  "ClientProc fuel pipe = andthen (Nonblocking_ReadPipe fuel fuel pipe Small_BufferSize) (ret 0)"

section \<open>PipeMessages\<close>

abbreviation (input) Msg_BufferSize :: DWORD where "Msg_BufferSize \<equiv> 1024"

text \<open>The handle wrapper of this program ignores \<open>INVALID_HANDLE_VALUE\<close> as well.\<close>

definition HandleDeleter :: "HANDLE \<Rightarrow> unit pio" where
  "HandleDeleter h = whenM (h \<noteq> 0 \<and> h \<noteq> InvalidHandleValue) (do_call (CloseHandle h))"

definition OpenServerPipe :: "HANDLE pio" where
  "OpenServerPipe = bnd (call (CreateNamedPipeW Msg_BufferSize)) (\<lambda>r.
     if rv r = 0 \<or> rv r = InvalidHandleValue then throw_last_error else ret (rv r))"

definition OpenClientPipe :: "HANDLE pio" where
  "OpenClientPipe = bnd (call CreateFileW) (\<lambda>r.
     if rv r = 0 \<or> rv r = InvalidHandleValue then throw_last_error else
     bnd (call (SetNamedPipeHandleState (rv r))) (\<lambda>m.
       if rv m = 0 then throw_last_error else ret (rv r)))"

datatype MessageType = MUnset | MTypeA | MTypeB
datatype Subtype = SUnset | STypeA | STypeB

record Header =
  HType :: DWORD
  HSubtype :: DWORD

text \<open>An enumerator in a \<open>Header\<close> is its \<open>int\<close>, little-endian in memory.\<close>

primrec MessageType_int :: "MessageType \<Rightarrow> DWORD" where
  "MessageType_int MUnset = 0" | "MessageType_int MTypeA = 1" | "MessageType_int MTypeB = 2"

primrec Subtype_int :: "Subtype \<Rightarrow> DWORD" where
  "Subtype_int SUnset = 0" | "Subtype_int STypeA = 1" | "Subtype_int STypeB = 2"

fun Msg_loop :: "nat \<Rightarrow> HANDLE \<Rightarrow> BYTE list \<Rightarrow> DWORD \<Rightarrow> BYTE list pio" where
  "Msg_loop 0 pipe returnBuffer totalBytesRead = running"
| "Msg_loop (Suc fuel) pipe returnBuffer totalBytesRead =
     bnd (call (ReadFile pipe Msg_BufferSize)) (\<lambda>r.
     bnd (store (unat totalBytesRead) (delivered Msg_BufferSize r) returnBuffer) (\<lambda>buffer.
     let tot' = totalBytesRead + of_nat (length (delivered Msg_BufferSize r)) in
     if rv r \<noteq> 0 then ret (take (unat tot') buffer) else
     bnd last_error (\<lambda>e. if e \<noteq> MoreData then throw (Win32Error e) else
       Msg_loop fuel pipe (buffer @ replicate 1024 0) tot')))"

definition Msg_ReadPipe :: "nat \<Rightarrow> HANDLE \<Rightarrow> BYTE list pio" where
  "Msg_ReadPipe fuel pipe = Msg_loop fuel pipe (replicate 1024 0) 0"

definition ReadWithHeader :: "nat \<Rightarrow> HANDLE \<Rightarrow> (Header \<times> BYTE list) pio" where
  "ReadWithHeader fuel pipe = bnd (Msg_ReadPipe fuel pipe) (\<lambda>data.
     if length data < 8 then ret (\<lparr>HType = MessageType_int MUnset, HSubtype = Subtype_int SUnset\<rparr>, [])
     else ret (\<lparr>HType = dword_of (take 4 data), HSubtype = dword_of (take 4 (drop 4 data))\<rparr>, drop 8 data))"

definition Msg_WritePipe :: "HANDLE \<Rightarrow> BYTE list \<Rightarrow> unit pio" where
  "Msg_WritePipe pipe data = bnd (call (WriteFile pipe data)) (\<lambda>r. if rv r = 0 then throw_last_error else ret ())"

text \<open>The message of \<open>WriteWithHeader\<close>: a zeroed vector of the final size, the header over its start, and then an insertion.\<close>

definition with_header :: "BYTE list \<Rightarrow> BYTE list" where
  "with_header data =
     (let v = overwrite 0 (bytes_of (MessageType_int MTypeB) @ bytes_of (Subtype_int STypeA)) (replicate (8 + length data) 0)
      in take 8 v @ data @ drop 8 v)"

definition WriteWithHeader :: "HANDLE \<Rightarrow> BYTE list \<Rightarrow> unit pio" where
  "WriteWithHeader pipe data = Msg_WritePipe pipe (with_header data)"

definition PrintProcessPath :: "bool \<Rightarrow> HANDLE \<Rightarrow> unit pio" where
  "PrintProcessPath useK32 hProcess =
     (if useK32 then bnd (call (K32GetProcessImageFileNameA hProcess)) (\<lambda>r. if rv r = 0 then do_call GetLastError else ret ())
      else bnd (call (QueryFullProcessImageNameA hProcess)) (\<lambda>r. if rv r = 0 then do_call GetLastError else ret ()))"

definition PrintClientId :: "HANDLE \<Rightarrow> unit pio" where
  "PrintClientId serverPipe =
     bnd (call (GetNamedPipeClientProcessId serverPipe)) (\<lambda>r.
     if rv r = 0 then do_call GetLastError else
     bnd (call (OpenProcess (ucast (out r)))) (\<lambda>p.
     finally_do
       (if rv p = 0 then do_call GetLastError else
        andthen (PrintProcessPath True (rv p))
        (andthen (PrintProcessPath False (rv p))
        (bnd (call GetCurrentProcess) (\<lambda>c. PrintProcessPath False (rv c)))))
       (HandleDeleter (rv p))))"

definition greeting :: "BYTE list" where
  "greeting = map of_char ''Hello, world!''"

definition Msg_main :: "nat \<Rightarrow> int pio" where
  "Msg_main fuel = try_catch
     (bnd OpenServerPipe (\<lambda>serverPipe. finally_do
       (bnd (call CreateEventW) (\<lambda>ev. if rv ev = 0 then throw_last_error else finally_do
         (andthen (do_call (ConnectNamedPipe serverPipe (rv ev)))
         (bnd last_error (\<lambda>lastError. if lastError \<noteq> IoPending then throw (Win32Error lastError) else
          bnd OpenClientPipe (\<lambda>clientPipe. finally_do
            (andthen (do_call (WaitForSingleObject (rv ev) 0xFFFFFFFF))
            (andthen (PrintClientId serverPipe)
            (andthen (WriteWithHeader serverPipe greeting)
            (andthen (ReadWithHeader fuel clientPipe)
             (ret 0)))))
            (HandleDeleter clientPipe)))))
         (HandleDeleter (rv ev))))
       (HandleDeleter serverPipe)))
     (\<lambda>ex. ret 1)"

section \<open>A message pipe\<close>

text \<open>How many bytes a history has read from the pipe \<open>p\<close>.\<close>

fun read_so_far :: "HANDLE \<Rightarrow> pipecall history \<Rightarrow> nat" where
  "read_so_far p [] = 0"
| "read_so_far p ((ReadFile q n, r) # h) = (if q = p then length (delivered n r) else 0) + read_so_far p h"
| "read_so_far p (_ # h) = read_so_far p h"

lemma read_so_far_append [simp]: "read_so_far p (g @ h) = read_so_far p g + read_so_far p h"
  by (induction p g rule: read_so_far.induct) auto

text \<open>
  The documented behaviour of a pipe in message mode that holds the message \<open>m\<close>: a read gets the
  next bytes, up to its buffer's size; it succeeds when that is the rest of the message, and
  otherwise fails with \<open>ERROR_MORE_DATA\<close>.
\<close>

definition message_pipe :: "pipecall os \<Rightarrow> HANDLE \<Rightarrow> BYTE list \<Rightarrow> bool" where
  "message_pipe os p m \<longleftrightarrow> (\<forall>h n. let rest = drop (read_so_far p h) m; r = os h (ReadFile p n) in
     buf r = take (unat n) rest \<and> (rv r \<noteq> 0 \<longleftrightarrow> length rest \<le> unat n) \<and>
     (rv r = 0 \<longrightarrow> ucast (rv (os (h @ [(ReadFile p n, r)]) GetLastError)) = MoreData))"

lemma message_pipeD:
  assumes "message_pipe os p m" and "read_so_far p h = t"
  shows "buf (os h (ReadFile p n)) = take (unat n) (drop t m)"
    and "rv (os h (ReadFile p n)) \<noteq> 0 \<longleftrightarrow> length m - t \<le> unat n"
    and "rv (os h (ReadFile p n)) = 0 \<Longrightarrow>
      ucast (rv (os (h @ [(ReadFile p n, os h (ReadFile p n))]) GetLastError)) = MoreData"
  using assms unfolding message_pipe_def Let_def by (metis length_drop)+

text \<open>One read of a message pipe.\<close>

lemma overwrite_prefix:
  "take t buffer = take t m \<Longrightarrow> t \<le> length m \<Longrightarrow> length buffer = t + n \<Longrightarrow>
   take (t + length (take n (drop t m))) (overwrite t (take n (drop t m)) buffer) = take (t + n) m"
  by (auto simp: overwrite_def min_def take_add)

lemma store_run:
  "tot + length bytes \<le> length buffer \<Longrightarrow> bnd (store tot bytes buffer) f = f (overwrite tot bytes buffer)"
  by (simp add: store_def bnd_ret)

lemma Blocking_loop_run:
  "\<lbrakk>message_pipe os p m; read_so_far p h = t; t \<le> length m; take t buffer = take t m; length buffer = t + unat n;
    length m - t \<le> fuel * unat n; 0 < fuel\<rbrakk> \<Longrightarrow>
   \<exists>h'. Blocking_loop fuel p n buffer t os s h = (Val m, s, h')"
proof (induction fuel arbitrary: h t buffer)
  case 0
  then show ?case by simp
next
  case (Suc fuel)
  note D = message_pipeD[OF Suc.prems(1,2), of n]
  let ?r = "os h (ReadFile p n)"
  let ?h = "h @ [(ReadFile p n, ?r)]"
  have del: "delivered n ?r = take (unat n) (drop t m)" using D(1) by (simp add: delivered_def)
  have len: "t + length (take (unat n) (drop t m)) \<le> length buffer" using Suc.prems(5) by simp
  let ?b = "overwrite t (take (unat n) (drop t m)) buffer"
  note pre = overwrite_prefix[OF Suc.prems(4,3,5)]
  show ?case
  proof (cases "length m - t \<le> unat n")
    case True
    then have ok: "rv ?r \<noteq> 0" using D(2) by blast
    have "take (t + length (take (unat n) (drop t m))) ?b = m" using pre True Suc.prems(3) by simp
    then show ?thesis using ok by (simp add: bnd_call_apply del store_run[OF len] Let_def ret_apply)
  next
    case False
    then have bad: "rv ?r = 0" using D(2) by blast
    have more: "ucast (rv (os ?h GetLastError)) = MoreData" by (rule D(3)[OF bad])
    have l: "length (take (unat n) (drop t m)) = unat n" using False by simp
    let ?h2 = "?h @ [(GetLastError, os ?h GetLastError)]"
    let ?b2 = "?b @ replicate (unat n) 0"
    have lb: "length ?b = t + unat n" using Suc.prems(5) l by (simp add: overwrite_def)
    have fu: "0 < fuel" "length m - (t + unat n) \<le> fuel * unat n" using Suc.prems(6) False by (cases fuel, auto)
    have "\<exists>h'. Blocking_loop fuel p n ?b2 (t + unat n) os s ?h2 = (Val m, s, h')"
    proof (rule Suc.IH[OF Suc.prems(1)])
      show "read_so_far p ?h2 = t + unat n" using Suc.prems(2) l by (simp add: del)
      show "t + unat n \<le> length m" using False by simp
      show "take (t + unat n) ?b2 = take (t + unat n) m" using pre l lb by simp
      show "length ?b2 = t + unat n + unat n" using lb by simp
    qed (use fu in simp_all)
    moreover have "Blocking_loop (Suc fuel) p n buffer t os s h = Blocking_loop fuel p n ?b2 (t + unat n) os s ?h2"
      using bad more l
      by (simp add: bnd_call_apply del store_run[OF len] Let_def last_error_def bnd_bnd bnd_ret)
    ultimately show ?thesis by simp
  qed
qed

text \<open>
  C15: A blocking read puts a message together that is larger than the buffer: from a message pipe
  that holds \<open>m\<close> it returns exactly \<open>m\<close>, after at most \<open>length m / bytesToRead\<close> reads, rounded up.
\<close>

theorem blocking_read_message:
  assumes "message_pipe os p m" and "read_so_far p h = 0" and "length m \<le> fuel * unat n" and "0 < fuel"
  shows "\<exists>h'. Blocking_ReadPipe fuel p n os s h = (Val m, s, h')"
  unfolding Blocking_ReadPipe_def
  by (rule Blocking_loop_run[OF assms(1,2)]) (use assms(3,4) in simp_all)

text \<open>A system with one message pipe, for the witnesses.\<close>

definition one_pipe :: "HANDLE \<Rightarrow> BYTE list \<Rightarrow> pipecall os" where
  "one_pipe p m h c = (case c of
      ReadFile q n \<Rightarrow> (let rest = drop (read_so_far p h) m in
        ok_resp\<lparr>rv := (if length rest \<le> unat n then 1 else 0), buf := take (unat n) rest\<rparr>)
    | GetLastError \<Rightarrow> ok_resp\<lparr>rv := 234\<rparr>
    | _ \<Rightarrow> ok_resp)"

lemma one_pipe_message: "message_pipe (one_pipe p m) p m"
  by (simp add: message_pipe_def one_pipe_def Let_def)

theorem blocking_read_message_witness:
  "\<exists>h'. Blocking_ReadPipe 2 5 2 (one_pipe 5 [65, 66, 67]) () [] = (Val [65, 66, 67], (), h')"
  using blocking_read_message[OF one_pipe_message, of 5 "[]" "[65, 66, 67]" 2 2 "()"] by simp

section \<open>Messages with a header\<close>

lemma Msg_loop_run:
  "\<lbrakk>message_pipe os p m; read_so_far p h = unat t; unat t \<le> length m; take (unat t) buffer = take (unat t) m;
    length buffer = unat t + 1024; length m - unat t \<le> fuel * 1024; 0 < fuel; length m + 1024 < 2 ^ 32\<rbrakk> \<Longrightarrow>
   \<exists>h'. Msg_loop fuel p buffer t os s h = (Val m, s, h')"
proof (induction fuel arbitrary: h t buffer)
  case 0
  then show ?case by simp
next
  case (Suc fuel)
  note D = message_pipeD[OF Suc.prems(1,2), of Msg_BufferSize]
  let ?n = "1024 :: nat"
  let ?r = "os h (ReadFile p Msg_BufferSize)"
  let ?h = "h @ [(ReadFile p Msg_BufferSize, ?r)]"
  let ?x = "take ?n (drop (unat t) m)"
  have del: "delivered Msg_BufferSize ?r = ?x" using D(1) by (simp add: delivered_def)
  have len: "unat t + length ?x \<le> length buffer" using Suc.prems(5) by simp
  let ?b = "overwrite (unat t) ?x buffer"
  note pre = overwrite_prefix[OF Suc.prems(4,3,5)]
  have "unat (of_nat (length ?x) :: DWORD) = length ?x"
    by (rule unat_less_imp_eq_of_nat) simp
  then have ut: "unat (t + of_nat (length ?x)) = unat t + length ?x"
    using unat_add_no_wrap[of t "of_nat (length ?x)"] Suc.prems(3,8) by simp
  show ?case
  proof (cases "length m - unat t \<le> ?n")
    case True
    then have ok: "rv ?r \<noteq> 0" using D(2) by simp
    have "take (unat t + length ?x) ?b = m" using pre True Suc.prems(3) by simp
    then show ?thesis using ok ut by (simp add: bnd_call_apply del store_run[OF len] Let_def ret_apply)
  next
    case False
    then have bad: "rv ?r = 0" using D(2) by simp
    have more: "ucast (rv (os ?h GetLastError)) = MoreData" by (rule D(3)[OF bad])
    have l: "length ?x = ?n" using False by simp
    let ?t = "t + 1024"
    have ut': "unat ?t = unat t + ?n" using ut l by simp
    let ?h2 = "?h @ [(GetLastError, os ?h GetLastError)]"
    let ?b2 = "?b @ replicate ?n 0"
    have lb: "length ?b = unat t + ?n" using Suc.prems(5) l by (simp add: overwrite_def)
    have fu: "0 < fuel" "length m - (unat t + ?n) \<le> fuel * ?n" using Suc.prems(6) False by (cases fuel, auto)
    have "\<exists>h'. Msg_loop fuel p ?b2 ?t os s ?h2 = (Val m, s, h')"
    proof (rule Suc.IH[OF Suc.prems(1)])
      show "read_so_far p ?h2 = unat ?t" using Suc.prems(2) l by (simp add: del ut')
      show "unat ?t \<le> length m" using False by (simp add: ut')
      show "take (unat ?t) ?b2 = take (unat ?t) m" using pre l lb by (simp add: ut')
      show "length ?b2 = unat ?t + 1024" using lb by (simp add: ut')
    qed (use fu Suc.prems(8) in \<open>simp_all add: ut'\<close>)
    moreover have "Msg_loop (Suc fuel) p buffer t os s h = Msg_loop fuel p ?b2 ?t os s ?h2"
      using bad more l
      by (simp add: bnd_call_apply del store_run[OF len] Let_def last_error_def bnd_bnd bnd_ret)
    ultimately show ?thesis by simp
  qed
qed

lemma with_header_eq: "with_header data = bytes_of 2 @ bytes_of 1 @ data @ replicate (length data) 0"
  by (simp add: with_header_def overwrite_def Let_def bytes_of_def numeral_eq_Suc)

text \<open>
  What \<open>WriteWithHeader\<close> sends, \<open>ReadWithHeader\<close> receives with the header intact; but the data come
  back with as many zero bytes behind them, because the vector that is sent was already sized for
  the data when they were inserted.
\<close>

theorem header_roundtrip_doubles:
  assumes "message_pipe os p (with_header data)" and "read_so_far p h = 0"
    and "8 + 2 * length data \<le> fuel * 1024" and "0 < fuel" and "2 * length data + 1032 < 2 ^ 32"
  shows "\<exists>h'. ReadWithHeader fuel p os s h =
    (Val (\<lparr>HType = MessageType_int MTypeB, HSubtype = Subtype_int STypeA\<rparr>, data @ replicate (length data) 0), s, h')"
proof -
  have len: "length (with_header data) = 8 + 2 * length data"
    by (simp add: with_header_eq bytes_of_def)
  have "\<exists>h'. Msg_loop fuel p (replicate 1024 0) 0 os s h = (Val (with_header data), s, h')"
    by (rule Msg_loop_run[OF assms(1)]) (use assms len in simp_all)
  then obtain h' where r: "Msg_ReadPipe fuel p os s h = (Val (with_header data), s, h')" by (auto simp: Msg_ReadPipe_def)
  have parts: "take 4 (with_header data) = bytes_of 2" "take 4 (drop 4 (with_header data)) = bytes_of 1"
    "drop 8 (with_header data) = data @ replicate (length data) 0"
    by (simp_all add: with_header_eq bytes_of_def)
  have "ReadWithHeader fuel p os s h =
    (Val (\<lparr>HType = MessageType_int MTypeB, HSubtype = Subtype_int STypeA\<rparr>, data @ replicate (length data) 0), s, h')"
    unfolding ReadWithHeader_def bnd_Val[of "Msg_ReadPipe fuel p", OF r] parts dword_of_bytes_of
    using len by (simp add: ret_apply)
  then show ?thesis by blast
qed

theorem header_roundtrip_witness:
  "\<exists>h'. ReadWithHeader 1 5 (one_pipe 5 (with_header [72, 105])) () [] =
    (Val (\<lparr>HType = 2, HSubtype = 1\<rparr>, [72, 105, 0, 0]), (), h')"
  using header_roundtrip_doubles[OF one_pipe_message, of 5 "[]" "[72, 105]" 1 "()"] by simp

section \<open>Overlapped reads\<close>

lemma Wait_msg_signalled:
  assumes "ev \<noteq> 0" and "rv (os h (WaitForSingleObject ev 1000)) = 0"
  shows "bnd (Wait_msg (Suc w) ev) f os s h = f True os s (h @ [(WaitForSingleObject ev 1000, os h (WaitForSingleObject ev 1000))])"
  using assms by (simp add: Wait_millis_def bnd_bnd bnd_call_apply bnd_ret)

text \<open>
  The overlapped read fails when it has to wait: if the read does not complete at once, the wait
  for its event succeeds and the data arrive, but \<open>ERROR_IO_PENDING\<close> is then taken for an error and
  the message is lost.
\<close>

theorem pending_read_throws:
  assumes "\<And>h. rv (os h CreateEventW) = ev" and "ev \<noteq> 0"
    and "\<And>h. rv (os h (ReadFileOverlapped p n ev)) = 0"
    and "\<And>h. ucast (rv (os h GetLastError)) = IoPending"
    and "\<And>h. rv (os h (WaitForSingleObject ev 1000)) = 0"
  shows "outcome_of (Nonblocking_ReadPipe (Suc fuel) (Suc w) p n os s h) = Exn (Win32Error IoPending)"
proof -
  have len: "0 + length (delivered n r) \<le> length (replicate (unat n) 0 :: BYTE list)" for r
    by (simp add: delivered_def)
  have w: "bnd (Wait_msg (Suc w) ev) f os () hh =
      f True os () (hh @ [(WaitForSingleObject ev 1000, os hh (WaitForSingleObject ev 1000))])" for hh and f :: "bool \<Rightarrow> (bool \<times> BYTE list \<times> nat) pio"
    by (rule Wait_msg_signalled) (use assms in simp_all)
  let ?h = "h @ [(CreateEventW, os h CreateEventW)]"
  have "\<exists>h2. Nonblocking_once (Suc w) p n (replicate (unat n) 0) 0 ev os () ?h = (Exn (Win32Error IoPending), (), h2)"
    using assms(3,4)
    by (simp add: Nonblocking_once_def bnd_call_apply w store_run[OF len] Let_def last_error_def bnd_bnd bnd_ret throw_apply
        del: Wait_msg.simps)
  then obtain h2 where body: "Nonblocking_once (Suc w) p n (replicate (unat n) 0) 0 ev os () ?h = (Exn (Win32Error IoPending), (), h2)"
    by blast
  have cl: "Overlapped_Close ev os () h2 = (Val (), (), h2 @ [(CloseHandle ev, os h2 (CloseHandle ev))])"
    using assms(2) by (simp add: Overlapped_Close_def close_handle_def whenM_def do_call_def bnd_call_apply ret_apply)
  note fin = finally_do_Exn[where m = "Nonblocking_once (Suc w) p n (replicate (unat n) 0) 0 ev" and k = "Overlapped_Close ev", OF body cl]
  show ?thesis using assms(1,2)
    by (simp add: Nonblocking_ReadPipe_def bnd_bnd bnd_call_apply
        bnd_Exn[of "finally_do (Nonblocking_once (Suc w) p n (replicate (unat n) 0) 0 ev) (Overlapped_Close ev)", OF fin])
qed

text \<open>A system in which an overlapped read stays pending until its event is waited for.\<close>

definition pending_os :: "pipecall os" where
  "pending_os h c = (case c of
      CreateEventW \<Rightarrow> ok_resp\<lparr>rv := 9\<rparr> | GetLastError \<Rightarrow> ok_resp\<lparr>rv := 997\<rparr>
    | OverlappedStatus ev \<Rightarrow> ok_resp\<lparr>buf := [65, 66]\<rparr> | _ \<Rightarrow> fail_resp)"

theorem pending_read_throws_witness:
  "outcome_of (Nonblocking_ReadPipe (Suc 2) (Suc 2) 5 2 pending_os () []) = Exn (Win32Error 997)"
  by (rule pending_read_throws[of pending_os 9]) (simp_all add: pending_os_def)

lemma Overlapped_never: "Overlapped_move n os s h = (Running, s, h) \<and> Overlapped_swap n os s h = (Running, s, h)"
proof (induction n)
  case 0
  show ?case by (simp add: running_apply)
next
  case (Suc n)
  then show ?case by (simp add: andthen_def bnd_def)
qed

text \<open>
  C16: An asynchronous read of a message larger than its buffer never finishes: assigning a new
  \<open>Overlapped\<close> recurses without end, so \<open>FinishReading\<close> has not returned whatever number of steps
  it is given.
\<close>

theorem partial_read_never_finishes:
  assumes "rv (os h (WaitForSingleObject (Operation a) 0xFFFFFFFF)) = 0" and "Operation a \<noteq> 0"
    and "\<And>h. IsPartial (rv (os h (OverlappedStatus (Operation a))))"
    and "\<And>h. rv (os h CreateEventW) \<noteq> 0" and "length (Data a) = unat (BytesToRead a)"
  shows "outcome_of (FinishReading fuel a os s h) = Running"
proof -
  have len: "0 + length (delivered (BytesToRead a) r) \<le> length (Data a)" for r
    using assms(5) by (simp add: delivered_def)
  have never: "bnd (Overlapped_move n) f os s h = (Running, s, h)" for n s h and f :: "unit \<Rightarrow> AsyncRead pio"
    using Overlapped_never[of n os s h] by (simp add: bnd_def)
  show ?thesis using assms(2,3,4) len
    by (cases fuel) (simp_all add: FinishReading_def Wait_infinite_def Wait_millis_def andthen_def bnd_bnd bnd_call_apply bnd_ret
        store_run Let_def running_apply Overlapped_ctor_def never)
qed

theorem partial_read_never_witness:
  "outcome_of (FinishReading 50 \<lparr>Data = [0, 0], Operation = 7, Pipe = 5, BytesToRead = 2\<rparr>
     (\<lambda>h c. case c of OverlappedStatus ev \<Rightarrow> ok_resp\<lparr>rv := 0x80000005, buf := [65, 66]\<rparr>
        | CreateEventW \<Rightarrow> ok_resp | _ \<Rightarrow> fail_resp) () []) = Running"
  by (rule partial_read_never_finishes) (simp_all add: IsPartial_def)

section \<open>Handles\<close>

fun pipe_opens :: "pipecall \<Rightarrow> resp \<Rightarrow> HANDLE option" where
  "pipe_opens CreateEventW r = (if rv r = 0 then None else Some (rv r))"
| "pipe_opens (CreateNamedPipeW n) r = (if rv r = 0 \<or> rv r = InvalidHandleValue then None else Some (rv r))"
| "pipe_opens CreateFileW r = (if rv r = 0 \<or> rv r = InvalidHandleValue then None else Some (rv r))"
| "pipe_opens (OpenProcess i) r = (if rv r = 0 \<or> rv r = InvalidHandleValue then None else Some (rv r))"
| "pipe_opens _ r = None"

fun pipe_closes :: "pipecall \<Rightarrow> HANDLE option" where
  "pipe_closes (CloseHandle x) = Some x"
| "pipe_closes _ = None"

interpretation ph: handle_api pipe_opens pipe_closes
proof unfold_locales
  fix c r x assume "pipe_closes c = Some x"
  then show "pipe_opens c r = None" by (cases c) auto
qed

lemma pipe_neutral_calls [neutral_intro]:
  "ph.neutral (call GetLastError)" "ph.neutral (call (WaitForSingleObject x n))"
  "ph.neutral (call (WriteFileOverlapped p b x))" "ph.neutral (call (ReadFileOverlapped p n x))"
  "ph.neutral (call (OverlappedStatus x))"
  by (rule ph.neutral_call; simp)+

lemma pipe_neutral_basic [neutral_intro]:
  "ph.neutral last_error" "ph.neutral throw_last_error" "ph.neutral (store t b buffer)" "ph.neutral (Wait_millis x n)"
  unfolding last_error_def throw_last_error_def store_def Wait_millis_def by (intro neutral_intro)+

lemma pipe_neutral_Wait [neutral_intro]: "ph.neutral (Wait_msg fuel x)"
  by (induction fuel x rule: Wait_msg.induct) (auto intro!: neutral_intro)

lemma pipe_neutral_event:
  assumes "\<And>x. ph.neutral (m x)" "ph.neutral e"
  shows "ph.neutral (bnd (call CreateEventW) (\<lambda>ev. if rv ev = 0 then e else finally_do (m (rv ev)) (Overlapped_Close (rv ev))))"
  unfolding Overlapped_Close_def close_handle_def
  by (rule ph.neutral_unique_if[where bad = "\<lambda>ev. rv ev = 0"], simp, rule assms(1), simp, rule assms(2))
    (rule ph.owns_deleter, auto)

lemma Nonblocking_WritePipe_handles: "ph.neutral (Nonblocking_WritePipe fuel pipe data)"
  unfolding Nonblocking_WritePipe_def by (intro pipe_neutral_event neutral_intro)

text \<open>A client pipe whose mode cannot be set stays open: the handle is not yet in its wrapper.\<close>

lemma client_pipe_leaks:
  assumes "rv (os [] CreateFileW) \<noteq> 0" "rv (os [] CreateFileW) \<noteq> InvalidHandleValue"
    and "rv (os [(CreateFileW, os [] CreateFileW)] (SetNamedPipeHandleState (rv (os [] CreateFileW)))) = 0"
  shows "ph.live (history_of (CreateClientPipe os () [])) = Some {#rv (os [] CreateFileW)#} \<and>
         ph.live (history_of (OpenClientPipe os () [])) = Some {#rv (os [] CreateFileW)#}"
  using assms
  by (simp add: CreateClientPipe_def OpenClientPipe_def io_simps throw_last_error_def last_error_def throw_apply ph.live_def)

end
