(* ===== verification/Cabinet.thy ===== *)
theory Cabinet
  imports Raii
begin

text \<open>
  The two cabinet programs: CabinetExtract/main.cpp and CabinetCreate/main.cpp, with the callbacks
  they hand to the cabinet library.  The library itself (FDI and FCI) is called through the
  operating system's interface; the callbacks are operations of their own, whose state is the
  \<open>*err\<close> the library passes them.  The two programs print what fails; the text is left out.
\<close>

unbundle bit_operations_syntax

section \<open>System calls\<close>

record CCAB =
  cb :: DWORD
  cbFolderThresh :: DWORD
  iCab :: DWORD
  iDisk :: DWORD
  setID :: WORD
  szDisk :: string
  szCab :: string
  szCabPath :: string

datatype cabcall =
    HeapSetInformation
  | GetLastError
  | CreateFileA string DWORD DWORD
  | ReadFile HANDLE DWORD
  | WriteFile HANDLE "BYTE list"
  | CloseHandle HANDLE
  | SetFilePointer HANDLE LONG DWORD
  | DeleteFileA string
  | GetTempPathA
  | GetTempFileNameA string
  | GetCurrentDirectoryA DWORD
  | GetFileInformationByHandle HANDLE
  | FileTimeToLocalFileTime "64 word"
  | FileTimeToDosDateTime "64 word"
  | FindFirstFileA string
  | FindClose HANDLE
  | FDICreate
  | FDICopy HANDLE string string string
  | FDIDestroy HANDLE
  | FCICreate CCAB
  | FCIFlushFolder HANDLE
  | FCIAddFile HANDLE string string
  | FCIFlushCabinet HANDLE
  | FCIDestroy HANDLE

type_synonym 'a cio = "(DWORD, cabcall, unit, 'a) io"

abbreviation (input) MAX_PATH :: nat where "MAX_PATH \<equiv> 260"

text \<open>\<open>strrchr\<close>: the last position of a character.\<close>

fun strrchr :: "string \<Rightarrow> char \<Rightarrow> nat option" where
  "strrchr [] c = None"
| "strrchr (x # xs) c = (case strrchr xs c of Some i \<Rightarrow> Some (Suc i) | None \<Rightarrow> if x = c then Some 0 else None)"

abbreviation (input) backslash :: char where "backslash \<equiv> CHR 0x5C"

section \<open>Callbacks both programs share\<close>

definition file_access :: "DWORD \<Rightarrow> DWORD" where
  "file_access oflag =
     (if oflag AND 2 \<noteq> 0 then 0x80000000 OR 0x40000000
      else if oflag AND 1 \<noteq> 0 then 0x40000000
      else 0x80000000)"

definition file_disposition :: "DWORD \<Rightarrow> DWORD" where
  "file_disposition oflag = (if oflag AND 0x100 \<noteq> 0 then 2 else 3)"

section \<open>CabinetExtract: callbacks\<close>

definition fdi_fnFileOpen :: "string \<Rightarrow> DWORD \<Rightarrow> HANDLE cio" where
  "fdi_fnFileOpen pszFile oflag =
     bnd (call (CreateFileA pszFile (file_access oflag) (file_disposition oflag))) (\<lambda>r. ret (rv r))"

definition fdi_fnFileRead :: "HANDLE \<Rightarrow> DWORD \<Rightarrow> (DWORD \<times> BYTE list) cio" where
  "fdi_fnFileRead hf n = bnd (call (ReadFile hf n)) (\<lambda>r. ret (if rv r = 0 then - 1 else ucast (out r), buf r))"

definition fdi_fnFileWrite :: "HANDLE \<Rightarrow> BYTE list \<Rightarrow> DWORD cio" where
  "fdi_fnFileWrite hf pv = bnd (call (WriteFile hf pv)) (\<lambda>r. ret (if rv r = 0 then - 1 else ucast (out r)))"

definition fdi_fnFileClose :: "HANDLE \<Rightarrow> DWORD cio" where
  "fdi_fnFileClose hf = bnd (call (CloseHandle hf)) (\<lambda>r. ret (if rv r = 1 then 0 else - 1))"

definition fdi_fnFileSeek :: "HANDLE \<Rightarrow> LONG \<Rightarrow> DWORD \<Rightarrow> LONG cio" where
  "fdi_fnFileSeek hf dist seektype = bnd (call (SetFilePointer hf dist seektype)) (\<lambda>r. ret (ucast (rv r)))"

text \<open>The notifications of \<open>FDICopy\<close>, as documented; \<open>fnNotify\<close> answers all of them with 0.\<close>

datatype fdint =
    FdintCabinetInfo
  | FdintPartialFile string
  | FdintCopyFile string
  | FdintCloseFileInfo string
  | FdintNextCabinet string
  | FdintEnumerate

definition fnNotify :: "fdint \<Rightarrow> HANDLE" where
  "fnNotify n = 0"

section \<open>CabinetExtract\<close>

text \<open>\<open>FDIErrorToString\<close>: the codes of \<open>FDIERROR\<close> count from 0.\<close>

definition FDIErrorToString :: "nat \<Rightarrow> string" where
  "FDIErrorToString err =
     (if err = 0 then ''No error'' else
      if err = 1 then ''Cabinet not found'' else
      if err = 2 then ''Not a cabinet'' else
      if err = 3 then ''Unknown cabinet version'' else
      if err = 4 then ''Corrupt cabinet'' else
      if err = 5 then ''Memory allocation failed'' else
      if err = 6 then ''Unknown compression type'' else
      if err = 7 then ''Failure decompressing data'' else
      if err = 8 then ''Failure writing to target file'' else
      if err = 9 then ''Cabinets in set have different RESERVE sizes'' else
      if err = 10 then ''Cabinet returned on fdintNEXT_CABINET is incorrect'' else
      if err = 11 then ''Application aborted'' else ''Unknown error'')"

definition ExtractCabinetFiles :: "string \<Rightarrow> string \<Rightarrow> string \<Rightarrow> bool cio" where
  "ExtractCabinetFiles pszCabinetName pszCabinetPath pszDestinationDir =
     bnd (call FDICreate) (\<lambda>c. if rv c = 0 then ret False else
     bnd (call (FDICopy (rv c) pszCabinetName pszCabinetPath pszDestinationDir)) (\<lambda>r.
     andthen (do_call (FDIDestroy (rv c))) (ret (rv r \<noteq> 0))))"

text \<open>
  The split of the first argument into name and path: \<open>StringCchCopyA\<close> fails when the string and
  its terminator do not fit the destination.
\<close>

definition split_cabinet :: "string \<Rightarrow> (string \<times> string) option" where
  "split_cabinet arg = (case strrchr arg backslash of
       None \<Rightarrow> Some (arg, [])
     | Some i \<Rightarrow> if length arg < MAX_PATH then Some (drop (Suc i) arg, take (Suc i) arg) else None)"

text \<open>From \<open>FindFirstFileA\<close> to the clean-up; \<open>out\<close> of the find is the file's attributes.\<close>

definition extract_to :: "string \<Rightarrow> string \<Rightarrow> string \<Rightarrow> int cio" where
  "extract_to name path dest =
     bnd (call (FindFirstFileA dest)) (\<lambda>f. if rv f = InvalidHandleValue then ret (- 1) else
     bnd (if out f AND 0x10 = 0 then ret (- 1) else
          bnd (ExtractCabinetFiles name path dest) (\<lambda>b. ret (if b then 0 else - 1)))
       (\<lambda>code. andthen (do_call (FindClose (rv f))) (ret code)))"

definition extract_main :: "string list \<Rightarrow> int cio" where
  "extract_main argv = andthen (do_call HeapSetInformation)
     (if length argv \<noteq> 3 then ret (- 1) else
      (case split_cabinet (argv ! 1) of
         None \<Rightarrow> ret (- 1)
       | Some (name, path) \<Rightarrow> extract_to name path (argv ! 2)))"

section \<open>CabinetCreate: callbacks\<close>

definition fnFilePlaced :: LONG where
  "fnFilePlaced = 0"

definition fnFileOpen :: "string \<Rightarrow> DWORD \<Rightarrow> HANDLE cio" where
  "fnFileOpen pszFile oflag =
     bnd (call (CreateFileA pszFile (file_access oflag) (file_disposition oflag))) (\<lambda>r.
     andthen (whenM (rv r = InvalidHandleValue) (bnd (call GetLastError) (\<lambda>e. modify (\<lambda>_. ucast (rv e)))))
       (ret (rv r)))"

definition fnFileRead :: "HANDLE \<Rightarrow> DWORD \<Rightarrow> (DWORD \<times> BYTE list) cio" where
  "fnFileRead hf n = bnd (call (ReadFile hf n)) (\<lambda>r.
     if rv r = 0 then bnd (call GetLastError) (\<lambda>e. andthen (modify (\<lambda>_. ucast (rv e))) (ret (- 1, buf r)))
     else ret (ucast (out r), buf r))"

definition fnFileWrite :: "HANDLE \<Rightarrow> BYTE list \<Rightarrow> DWORD cio" where
  "fnFileWrite hf memory = bnd (call (WriteFile hf memory)) (\<lambda>r.
     if rv r = 0 then bnd (call GetLastError) (\<lambda>e. andthen (modify (\<lambda>_. ucast (rv e))) (ret (- 1)))
     else ret (ucast (out r)))"

definition fnFileClose :: "HANDLE \<Rightarrow> DWORD cio" where
  "fnFileClose hf = bnd (call (CloseHandle hf)) (\<lambda>r.
     if rv r = 0 then bnd (call GetLastError) (\<lambda>e. andthen (modify (\<lambda>_. ucast (rv e))) (ret (- 1)))
     else ret 0)"

definition fnFileSeek :: "HANDLE \<Rightarrow> LONG \<Rightarrow> DWORD \<Rightarrow> LONG cio" where
  "fnFileSeek hf dist seektype = bnd (call (SetFilePointer hf dist seektype)) (\<lambda>r.
     andthen (whenM (ucast (rv r) = (- 1 :: LONG)) (bnd (call GetLastError) (\<lambda>e. modify (\<lambda>_. ucast (rv e)))))
       (ret (ucast (rv r))))"

definition fnFileDelete :: "string \<Rightarrow> DWORD cio" where
  "fnFileDelete pszFile = bnd (call (DeleteFileA pszFile)) (\<lambda>r.
     if rv r = 0 then bnd (call GetLastError) (\<lambda>e. andthen (modify (\<lambda>_. ucast (rv e))) (ret (- 1)))
     else ret 0)"

text \<open>The temporary file is created by the system, deleted again, and its name handed out.\<close>

definition fnGetTempFileName :: "DWORD \<Rightarrow> string option cio" where
  "fnGetTempFileName cbTempName =
     bnd (call GetTempPathA) (\<lambda>p. if rv p = 0 then ret None else
     bnd (call (GetTempFileNameA (str_of (buf p)))) (\<lambda>f. if rv f = 0 then ret None else
     andthen (do_call (DeleteFileA (str_of (buf f))))
       (ret (if length (str_of (buf f)) < unat cbTempName then Some (str_of (buf f)) else None))))"

text \<open>\<open>%02d\<close> of an \<open>int\<close>.\<close>

definition digit :: "nat \<Rightarrow> char" where
  "digit n = char_of (48 + n)"

fun decimal :: "nat \<Rightarrow> string" where
  "decimal n = (if n < 10 then [digit n] else decimal (n div 10) @ [digit (n mod 10)])"

declare decimal.simps [simp del]

definition format_02d :: "DWORD \<Rightarrow> string" where
  "format_02d w = (if 0 \<le> sint w then (if sint w < 10 then CHR ''0'' # decimal (nat (sint w)) else decimal (nat (sint w)))
     else CHR ''-'' # decimal (nat (- sint w)))"

definition cabinet_name :: "DWORD \<Rightarrow> string" where
  "cabinet_name i = ''FCISample'' @ format_02d i @ ''.cab''"

text \<open>\<open>StringCchPrintfA\<close> fails when the text and its terminator do not fit, and leaves what does.\<close>

definition fnGetNextCabinet :: "CCAB \<Rightarrow> bool \<times> CCAB" where
  "fnGetNextCabinet pccab =
     (length (cabinet_name (iCab pccab)) < 256, pccab\<lparr>szCab := take 255 (cabinet_name (iCab pccab))\<rparr>)"

definition fnStatus :: LONG where
  "fnStatus = 1"

text \<open>
  \<open>fnGetOpenInfo\<close>: the handle, and on success the date, the time and the attributes; the answers
  \<open>out\<close> and \<open>outs\<close> hold the attributes, the creation time, the date and the time.
\<close>

definition file_information :: "HANDLE \<Rightarrow> (WORD \<times> WORD \<times> WORD) option cio" where
  "file_information hFile =
     bnd (call (GetFileInformationByHandle hFile)) (\<lambda>i. if rv i = 0 then ret None else
     bnd (call (FileTimeToLocalFileTime (hd (outs i @ [0])))) (\<lambda>l. if rv l = 0 then ret None else
     bnd (call (FileTimeToDosDateTime (out l))) (\<lambda>d. if rv d = 0 then ret None else
       ret (Some (ucast (out d), ucast (hd (outs d @ [0])), ucast (out i) AND 0x27)))))"

definition fnGetOpenInfo :: "string \<Rightarrow> (HANDLE \<times> (WORD \<times> WORD \<times> WORD) option) cio" where
  "fnGetOpenInfo pszName = bnd (fnFileOpen pszName 0) (\<lambda>hFile.
     if hFile = InvalidHandleValue then ret (hFile, None) else
     bnd (file_information hFile) (\<lambda>info. case info of
         Some x \<Rightarrow> ret (hFile, Some x)
       | None \<Rightarrow> andthen (fnFileClose hFile) (ret (InvalidHandleValue, None))))"

section \<open>CabinetCreate\<close>

definition zeroed_CCAB :: CCAB where
  "zeroed_CCAB = \<lparr>cb = 0, cbFolderThresh = 0, iCab = 0, iDisk = 0, setID = 0, szDisk = [], szCab = [], szCabPath = []\<rparr>"

definition InitCab :: "(bool \<times> CCAB) cio" where
  "InitCab = (let c = zeroed_CCAB\<lparr>cb := 0x100000, cbFolderThresh := 0x10000, setID := 555, iCab := 1, iDisk := 0\<rparr>;
                  (b, c) = fnGetNextCabinet c in
     if \<not> b then ret (False, c) else
     let c = c\<lparr>szDisk := []\<rparr> in
     bnd (call (GetCurrentDirectoryA 256)) (\<lambda>d.
       let p = take 255 (str_of (buf d)) in
       if rv d = 0 then ret (False, c\<lparr>szCabPath := p\<rparr>)
       else ret (length p + 1 < 256, c\<lparr>szCabPath := take 255 (p @ [backslash])\<rparr>)))"

text \<open>The name to store is what \<open>strrchr\<close> points to.\<close>

definition stored_name :: "string \<Rightarrow> string" where
  "stored_name arg = (case strrchr arg backslash of None \<Rightarrow> arg | Some i \<Rightarrow> drop i arg)"

fun add_arguments :: "HANDLE \<Rightarrow> string list \<Rightarrow> bool cio" where
  "add_arguments hfci [] = ret True"
| "add_arguments hfci (a # args) =
     (if a = ''+''
      then bnd (call (FCIFlushFolder hfci)) (\<lambda>r. if rv r = 0 then ret False else add_arguments hfci args)
      else bnd (call (FCIAddFile hfci a (stored_name a))) (\<lambda>r. if rv r = 0 then ret False else add_arguments hfci args))"

definition build_cabinet :: "HANDLE \<Rightarrow> string list \<Rightarrow> int cio" where
  "build_cabinet hfci args = bnd (add_arguments hfci args) (\<lambda>b. if \<not> b then ret (- 1) else
     bnd (call (FCIFlushCabinet hfci)) (\<lambda>r. ret (if rv r = 0 then - 1 else 0)))"

definition create_main :: "string list \<Rightarrow> int cio" where
  "create_main argv = andthen (do_call HeapSetInformation)
     (if length argv < 2 then ret (- 1) else
      bnd InitCab (\<lambda>(b, ccab). if \<not> b then ret (- 1) else
      bnd (call (FCICreate ccab)) (\<lambda>f. if rv f = 0 then ret (- 1) else
      bnd (build_cabinet (rv f) (tl argv)) (\<lambda>code.
      andthen (do_call (FCIDestroy (rv f))) (ret code)))))"

definition FCIErrorToString :: "nat \<Rightarrow> string" where
  "FCIErrorToString err =
     (if err = 0 then ''No error'' else
      if err = 1 then ''Failure opening file to be stored in cabinet'' else
      if err = 2 then ''Failure reading file to be stored in cabinet'' else
      if err = 3 then ''Insufficient memory in FCI'' else
      if err = 4 then ''Could not create a temporary file'' else
      if err = 5 then ''Unknown compression type'' else
      if err = 6 then ''Could not create cabinet file'' else
      if err = 7 then ''Client requested abort'' else
      if err = 8 then ''Failure compressing data'' else ''Unknown error'')"

section \<open>The order of the commands\<close>

definition cab_command :: "HANDLE \<Rightarrow> string \<Rightarrow> cabcall" where
  "cab_command hfci a = (if a = ''+'' then FCIFlushFolder hfci else FCIAddFile hfci a (stored_name a))"

text \<open>
  \<open>ran cmds g b\<close>: \<open>g\<close> ran the commands in order, all of them with success if \<open>b\<close>, and otherwise up to
  and including the first that failed.
\<close>

definition ran :: "'c list \<Rightarrow> 'c history \<Rightarrow> bool \<Rightarrow> bool" where
  "ran cmds g b \<longleftrightarrow>
     (if b then calls g = cmds \<and> list_all (\<lambda>x. rv (snd x) \<noteq> 0) g
      else g \<noteq> [] \<and> calls g = take (length g) cmds \<and> list_all (\<lambda>x. rv (snd x) \<noteq> 0) (butlast g) \<and> rv (snd (last g)) = 0)"

lemma ran_fail: "rv r = 0 \<Longrightarrow> ran (c # cmds) [(c, r)] False"
  by (simp add: ran_def)

lemma ran_Cons: "rv r \<noteq> 0 \<Longrightarrow> ran cmds g b \<Longrightarrow> ran (c # cmds) ((c, r) # g) b"
  by (auto simp: ran_def)

lemma ran_app: "ran cmds g False \<Longrightarrow> ran (cmds @ ds) g False"
  by (auto simp: ran_def) (metis append_Nil2 diff_is_0_eq' length_map length_take min.cobounded1 min.absorb_iff2 take0)

lemma ran_append: "ran cmds g True \<Longrightarrow> ran ds g' b \<Longrightarrow> ran (cmds @ ds) (g @ g') b"
  by (auto simp: ran_def butlast_append)

lemma add_arguments_run:
  "\<exists>g b. add_arguments f args os s h = (Val b, s, h @ g) \<and> ran (map (cab_command f) args) g b"
proof (induction args arbitrary: h)
  case Nil
  show ?case by (simp add: ret_apply ran_def exI[of _ True])
next
  case (Cons a args)
  let ?c = "cab_command f a"
  let ?r = "os h ?c"
  have step: "add_arguments f (a # args) os s h =
      (if rv ?r = 0 then (Val False, s, h @ [(?c, ?r)]) else add_arguments f args os s (h @ [(?c, ?r)]))"
    by (simp add: cab_command_def bnd_call_apply ret_apply)
  show ?case
  proof (cases "rv ?r = 0")
    case True
    then show ?thesis using step ran_fail[OF True, of ?c "map (cab_command f) args"]
      by (intro exI[of _ "[(?c, ?r)]"] exI[of _ False]) (simp del: add_arguments.simps)
  next
    case False
    obtain g b where "add_arguments f args os s (h @ [(?c, ?r)]) = (Val b, s, (h @ [(?c, ?r)]) @ g)"
      "ran (map (cab_command f) args) g b"
      using Cons.IH by blast
    then show ?thesis using step False ran_Cons[OF False, of "map (cab_command f) args" g b ?c]
      by (intro exI[of _ "(?c, ?r) # g"] exI[of _ b]) (simp del: add_arguments.simps)
  qed
qed

lemma build_cabinet_run:
  "\<exists>g b. build_cabinet f args os s h = (Val (if b then 0 else - 1), s, h @ g) \<and>
         ran (map (cab_command f) args @ [FCIFlushCabinet f]) g b"
proof -
  obtain g b where g: "add_arguments f args os s h = (Val b, s, h @ g)" "ran (map (cab_command f) args) g b"
    using add_arguments_run by blast
  let ?c = "FCIFlushCabinet f" and ?r = "os (h @ g) (FCIFlushCabinet f)"
  show ?thesis
  proof (cases b)
    case False
    then show ?thesis
      using g ran_app[of "map (cab_command f) args" g] by (auto simp: build_cabinet_def bnd_def ret_apply)
  next
    case True
    have "build_cabinet f args os s h = (Val (if rv ?r = 0 then - 1 else 0), s, h @ g @ [(?c, ?r)])"
      using g(1) True by (simp add: build_cabinet_def bnd_Val[of "add_arguments f args", OF g(1)] bnd_call_apply ret_apply)
    moreover have "ran (map (cab_command f) args @ [?c]) (g @ [(?c, ?r)]) (rv ?r \<noteq> 0)"
      using g(2) True by (intro ran_append) (auto simp: ran_def)
    ultimately show ?thesis by (intro exI[of _ "g @ [(?c, ?r)]"] exI[of _ "rv ?r \<noteq> 0"]) simp
  qed
qed

text \<open>
  Once the library's context is created, \<open>CabinetCreate\<close> issues the command of each argument in
  order, \<open>+\<close> as a new folder and anything else as a file, then completes the cabinet, stopping at
  the first command that fails; the context is destroyed exactly once, as the last call, on every
  path, and the exit code is 0 exactly when every command succeeded.
\<close>

theorem cabinet_create_order:
  assumes "args \<noteq> []"
    and "InitCab os s [(HeapSetInformation, os [] HeapSetInformation)] = (Val (True, ccab), s, h1)"
    and "rv (os h1 (FCICreate ccab)) = f" and "f \<noteq> 0"
  shows "\<exists>g b d. create_main (prog # args) os s [] =
           (Val (if b then 0 else - 1), s, h1 @ [(FCICreate ccab, os h1 (FCICreate ccab))] @ g @ [(FCIDestroy f, d)]) \<and>
         ran (map (cab_command f) args @ [FCIFlushCabinet f]) g b"
proof -
  let ?h2 = "h1 @ [(FCICreate ccab, os h1 (FCICreate ccab))]"
  obtain g b where g: "build_cabinet f args os s ?h2 = (Val (if b then 0 else - 1), s, ?h2 @ g)"
    "ran (map (cab_command f) args @ [FCIFlushCabinet f]) g b"
    using build_cabinet_run by blast
  have "create_main (prog # args) os s [] =
      (Val (if b then 0 else - 1), s, ?h2 @ g @ [(FCIDestroy f, os (?h2 @ g) (FCIDestroy f))])"
    using assms(1,3,4)
    by (simp add: create_main_def andthen_def do_call_def bnd_bnd bnd_call_apply bnd_ret ret_apply
        bnd_Val[of InitCab, OF assms(2)] bnd_Val[of "build_cabinet f args", OF g(1)[simplified]])
  with g(2) show ?thesis by force
qed

theorem cabinet_create_witness:
  "\<exists>g b d. create_main [''prog'', ''a.txt'', ''+'', ''b.txt''] (\<lambda>h c. ok_resp\<lparr>buf := [67, 58]\<rparr>) 0 [] =
     (Val (if b then 0 else - 1), 0,
      [(HeapSetInformation, ok_resp\<lparr>buf := [67, 58]\<rparr>), (GetCurrentDirectoryA 256, ok_resp\<lparr>buf := [67, 58]\<rparr>)] @
      [(FCICreate \<lparr>cb = 0x100000, cbFolderThresh = 0x10000, iCab = 1, iDisk = 0, setID = 555, szDisk = [],
          szCab = ''FCISample01.cab'', szCabPath = [CHR ''C'', CHR '':'', backslash]\<rparr>, ok_resp\<lparr>buf := [67, 58]\<rparr>)] @ g @ [(FCIDestroy 1, d)]) \<and>
     ran (map (cab_command 1) [''a.txt'', ''+'', ''b.txt''] @ [FCIFlushCabinet 1]) g b"
  by (rule cabinet_create_order) (simp, code_simp, simp, simp)

section \<open>The names of the cabinets\<close>

definition decimal_value :: "string \<Rightarrow> nat" where
  "decimal_value s = foldl (\<lambda>v c. 10 * v + (of_char c - 48)) 0 s"

lemma of_char_digit: "n < 10 \<Longrightarrow> (of_char (digit n) :: nat) = 48 + n"
  by (simp add: digit_def)

lemma decimal_value_decimal: "decimal_value (decimal n) = n"
  by (induction n rule: decimal.induct)
    (subst decimal.simps, auto simp: decimal_value_def of_char_digit)

lemma decimal_value_zero: "decimal_value (CHR ''0'' # s) = decimal_value s"
  by (simp add: decimal_value_def)

lemma digit_not_minus: "n < 10 \<Longrightarrow> digit n \<noteq> CHR ''-''"
proof
  assume "n < 10" "digit n = CHR ''-''"
  then have "(of_char CHR ''-'' :: nat) = 48 + n" using of_char_digit[of n] by simp
  then show False by simp
qed

lemma hd_decimal: "hd (decimal n) \<noteq> CHR ''-'' \<and> decimal n \<noteq> []"
proof (induction n rule: decimal.induct)
  case (1 n)
  show ?case
  proof (cases "n < 10")
    case True
    then show ?thesis by (subst (1 2) decimal.simps) (simp add: digit_not_minus)
  next
    case False
    then show ?thesis using 1[OF False] by (subst (1 2) decimal.simps) simp
  qed
qed

lemma length_decimal: "n < 10 ^ k \<Longrightarrow> 0 < k \<Longrightarrow> length (decimal n) \<le> k"
proof (induction k arbitrary: n)
  case 0
  then show ?case by simp
next
  case (Suc k)
  show ?case
  proof (cases "n < 10")
    case True
    then show ?thesis by (subst decimal.simps) simp
  next
    case False
    then have "0 < k" using Suc.prems by (cases k) auto
    moreover have "n div 10 < 10 ^ k" using Suc.prems by (simp add: less_mult_imp_div_less)
    ultimately show ?thesis using Suc.IH[of "n div 10"] False by (subst decimal.simps) simp
  qed
qed

lemma format_nonneg: "0 \<le> sint w \<Longrightarrow> decimal_value (format_02d w) = nat (sint w) \<and> hd (format_02d w) \<noteq> CHR ''-''"
  using hd_decimal by (simp add: format_02d_def decimal_value_zero decimal_value_decimal)

lemma format_neg: "sint w < 0 \<Longrightarrow> decimal_value (tl (format_02d w)) = nat (- sint w) \<and> hd (format_02d w) = CHR ''-''"
  by (simp add: format_02d_def decimal_value_decimal)

lemma format_inj: "format_02d v = format_02d w \<longleftrightarrow> v = w"
proof
  assume e: "format_02d v = format_02d w"
  have "sint v = sint w"
  proof (cases "0 \<le> sint v")
    case True
    then have "0 \<le> sint w" using format_nonneg[OF True] format_neg[of w] e by (cases "sint w < 0") auto
    then show ?thesis using format_nonneg[OF True] format_nonneg[of w] e True by simp
  next
    case False
    then have "sint w < 0" using format_neg[of v] format_nonneg[of w] e by (cases "sint w < 0") auto
    then show ?thesis using format_neg[of v] format_neg[of w] e False by simp
  qed
  then show "v = w" by (simp add: signed_word_eqI)
qed simp

lemma length_format: "length (format_02d w) \<le> 11"
proof -
  have "- (2 ^ 31) \<le> sint w" "sint w < 2 ^ 31" using sint_range_size[of w] by (simp_all add: word_size)
  then have "nat (sint w) < 10 ^ 10" "nat (- sint w) < 10 ^ 10" by auto
  then show ?thesis using length_decimal[of "nat (sint w)" 10] length_decimal[of "nat (- sint w)" 10]
    by (simp add: format_02d_def)
qed

lemma length_cabinet_name: "length (cabinet_name i) \<le> 25"
  using length_format[of i] by (simp add: cabinet_name_def)

text \<open>
  Naming the next cabinet never fails and never truncates, and cabinets with different numbers
  get different names, so that no cabinet of a set is written over another.
\<close>

theorem cabinet_names_distinct:
  "fst (fnGetNextCabinet c) \<and>
   (szCab (snd (fnGetNextCabinet c)) = szCab (snd (fnGetNextCabinet c')) \<longleftrightarrow> iCab c = iCab c')"
  using length_cabinet_name[of "iCab c"] length_cabinet_name[of "iCab c'"]
  by (simp add: fnGetNextCabinet_def) (simp add: cabinet_name_def format_inj)

section \<open>Handles\<close>

text \<open>The four kinds of handles: files, searches and the contexts of the two libraries.\<close>

datatype cabhandle = FileH HANDLE | FindH HANDLE | FdiH HANDLE | FciH HANDLE

fun cab_opens :: "cabcall \<Rightarrow> resp \<Rightarrow> cabhandle option" where
  "cab_opens (CreateFileA n a d) r = (if rv r = InvalidHandleValue then None else Some (FileH (rv r)))"
| "cab_opens (FindFirstFileA n) r = (if rv r = InvalidHandleValue then None else Some (FindH (rv r)))"
| "cab_opens FDICreate r = (if rv r = 0 then None else Some (FdiH (rv r)))"
| "cab_opens (FCICreate c) r = (if rv r = 0 then None else Some (FciH (rv r)))"
| "cab_opens _ r = None"

fun cab_closes :: "cabcall \<Rightarrow> cabhandle option" where
  "cab_closes (CloseHandle x) = Some (FileH x)"
| "cab_closes (FindClose x) = Some (FindH x)"
| "cab_closes (FDIDestroy x) = Some (FdiH x)"
| "cab_closes (FCIDestroy x) = Some (FciH x)"
| "cab_closes _ = None"

interpretation cab: handle_api cab_opens cab_closes
proof unfold_locales
  fix c r x assume "cab_closes c = Some x"
  then show "cab_opens c r = None" by (cases c) auto
qed

lemma cab_neutral_calls [neutral_intro]:
  "cab.neutral (call HeapSetInformation)" "cab.neutral (call GetLastError)" "cab.neutral (call (FDICopy h n p d))"
  "cab.neutral (call (GetCurrentDirectoryA k))" "cab.neutral (call (FCIFlushFolder h))"
  "cab.neutral (call (FCIAddFile h n m))" "cab.neutral (call (FCIFlushCabinet h))"
  "cab.neutral (call (GetFileInformationByHandle h))" "cab.neutral (call (FileTimeToLocalFileTime t))"
  "cab.neutral (call (FileTimeToDosDateTime t))"
  by (rule cab.neutral_call; simp)+

text \<open>The clean-up label: a handle that was opened is closed after the neutral rest of the function.\<close>

lemma cab_scope:
  assumes "\<And>r. bad r \<Longrightarrow> cab_opens c r = None" and "\<And>r. \<not> bad r \<Longrightarrow> cab_opens c r = Some (hh r)"
    and "cab_closes c = None" and "\<And>r. cab_closes (d r) = Some (hh r)"
    and "\<And>r. cab.neutral (m r)" and "\<And>r. no_throw (m r)"
  shows "cab.neutral (bnd (call c) (\<lambda>r. if bad r then ret x else bnd (m r) (\<lambda>a. andthen (do_call (d r)) (ret (g a)))))"
  unfolding cab.neutral_def
proof (rule cab.owns_bnd[OF cab.owns_call_open[OF assms(3)]])
  fix r
  have rest: "cab.owns {#hh r#} (andthen (do_call (d r)) (ret (g a))) (\<lambda>_. {#}) {#}" for a
    unfolding do_call_def andthen_def
    by (intro cab.owns_bnd[where Q = "\<lambda>_. {#}"] cab.owns_call_close assms(4) cab.owns_ret[where Q = "\<lambda>_. {#}"])
  show "cab.owns (case cab_opens c r of None \<Rightarrow> {#} | Some x \<Rightarrow> {#x#})
      (if bad r then ret x else bnd (m r) (\<lambda>a. andthen (do_call (d r)) (ret (g a)))) (\<lambda>_. {#}) {#}"
  proof (cases "bad r")
    case True
    then show ?thesis using assms(1) cab.owns_ret[where Q = "\<lambda>_. {#}"] by simp
  next
    case False
    then show ?thesis using assms(2)
      cab.owns_bnd[OF cab.neutral_owns[OF assms(5)[of r] assms(6)[of r], of "{#hh r#}" "{#}"] rest] by simp
  qed
qed

lemma Extract_handles: "cab.neutral (ExtractCabinetFiles n p d)"
proof -
  have "cab.neutral (bnd (call FDICreate) (\<lambda>c. if rv c = 0 then ret False else
     bnd (call (FDICopy (rv c) n p d)) (\<lambda>r. andthen (do_call (FDIDestroy (rv c))) (ret (rv r \<noteq> 0)))))"
    by (rule cab_scope[where bad = "\<lambda>c. rv c = 0" and hh = "\<lambda>c. FdiH (rv c)"]) (simp_all add: cab_neutral_calls)
  then show ?thesis by (simp add: ExtractCabinetFiles_def)
qed

lemma Extract_no_throw: "no_throw (ExtractCabinetFiles n p d)"
  unfolding ExtractCabinetFiles_def by (intro no_throw_intro)

lemma extract_to_handles: "cab.neutral (extract_to n p d)"
  unfolding extract_to_def
  by (rule cab_scope[where bad = "\<lambda>c. rv c = InvalidHandleValue" and hh = "\<lambda>c. FindH (rv c)" and g = "\<lambda>x. x"];
      (intro neutral_intro no_throw_intro Extract_handles Extract_no_throw; simp; fail)?; simp)

lemma extract_main_handles: "cab.neutral (extract_main argv)"
  unfolding extract_main_def by (intro neutral_intro extract_to_handles)

lemma extract_main_regular: "regular (extract_main argv)"
  unfolding extract_main_def extract_to_def ExtractCabinetFiles_def by (intro regular_intro)

lemma add_arguments_neutral: "cab.neutral (add_arguments f args) \<and> no_throw (add_arguments f args) \<and> regular (add_arguments f args)"
  by (induction args) (auto intro!: neutral_intro no_throw_intro regular_intro)

lemma build_cabinet_neutral:
  "cab.neutral (build_cabinet f args)" "no_throw (build_cabinet f args)" "regular (build_cabinet f args)"
  unfolding build_cabinet_def using add_arguments_neutral
  by (auto intro!: neutral_intro no_throw_intro regular_intro)

lemma InitCab_neutral: "cab.neutral InitCab" "regular InitCab"
  unfolding InitCab_def by (intro neutral_intro, intro regular_intro)

lemma create_main_handles: "cab.neutral (create_main argv)"
  unfolding create_main_def
  by (intro neutral_intro InitCab_neutral
      cab_scope[where bad = "\<lambda>c. rv c = 0" and hh = "\<lambda>c. FciH (rv c)" and g = "\<lambda>x. x"])
    (simp_all add: build_cabinet_neutral)

lemma create_main_regular: "regular (create_main argv)"
  unfolding create_main_def by (intro regular_intro InitCab_neutral build_cabinet_neutral)

text \<open>
  Both programs end with every handle closed exactly once: the search handle of the destination
  directory and the contexts of the two cabinet libraries, on every path to the clean-up.
\<close>

theorem cabinet_handles:
  "cab.live (history_of (extract_main argv os s [])) = Some {#} \<and>
   cab.live (history_of (create_main argv' os' s' [])) = Some {#}"
  by (intro conjI cab.neutral_regular extract_main_handles extract_main_regular create_main_handles create_main_regular)

section \<open>Further facts\<close>

text \<open>\<open>fnGetOpenInfo\<close> hands out an open file with its information, or nothing and no file.\<close>

lemma record_error: "cab.owns P (bnd (call GetLastError) (\<lambda>e. modify (\<lambda>_. ucast (rv e)))) (\<lambda>_. P) E"
  by (rule cab.neutral_owns) (simp_all add: neutral_intro no_throw_intro)

abbreviation (input) file_if_open :: "HANDLE \<Rightarrow> cabhandle multiset" where
  "file_if_open hFile \<equiv> (if hFile = InvalidHandleValue then {#} else {#FileH hFile#})"

lemma fnFileOpen_handles: "cab.owns {#} (fnFileOpen n fl) file_if_open {#}"
  unfolding fnFileOpen_def
proof (rule cab.owns_bnd[OF cab.owns_call_open])
  fix r
  show "cab.owns (case cab_opens (CreateFileA n (file_access fl) (file_disposition fl)) r of None \<Rightarrow> {#} | Some x \<Rightarrow> {#x#})
     (andthen (whenM (rv r = InvalidHandleValue) (bnd (call GetLastError) (\<lambda>e. modify (\<lambda>_. ucast (rv e))))) (ret (rv r)))
     file_if_open {#}"
    unfolding andthen_def
    by (rule cab.owns_bnd[where Q = "\<lambda>_. file_if_open (rv r)"], rule cab.owns_whenM)
      (simp_all add: record_error cab.owns_ret_eq)
qed simp

lemma fnFileClose_handles: "cab.owns {#FileH hFile#} (fnFileClose hFile) (\<lambda>_. {#}) {#}"
  unfolding fnFileClose_def
  by (rule cab.owns_bnd[OF cab.owns_call_close]) (simp_all add: cab.owns_if cab.neutral_def[symmetric] neutral_intro)

lemma fnGetOpenInfo_handles:
  "cab.owns {#} (fnGetOpenInfo n) (\<lambda>(hFile, info). if info = None then {#} else {#FileH hFile#}) {#}"
  unfolding fnGetOpenInfo_def
proof (rule cab.owns_bnd[OF fnFileOpen_handles])
  fix hFile
  let ?Q = "\<lambda>(hFile, info). if info = None then {#} else {#FileH hFile#}"
  have info: "cab.owns {#FileH hFile#} (file_information hFile) (\<lambda>_. {#FileH hFile#}) {#}"
    unfolding file_information_def by (rule cab.neutral_owns; intro neutral_intro no_throw_intro)
  have fin: "cab.owns {#FileH hFile#} (case i of Some x \<Rightarrow> ret (hFile, Some x)
       | None \<Rightarrow> andthen (fnFileClose hFile) (ret (InvalidHandleValue, None))) ?Q {#}" for i
    using cab.owns_bnd[OF fnFileClose_handles[of hFile], of "\<lambda>_. ret (InvalidHandleValue, None)" ?Q]
    by (cases i) (simp_all add: andthen_def cab.owns_ret_eq)
  show "cab.owns (file_if_open hFile) (if hFile = InvalidHandleValue then ret (hFile, None) else
     bnd (file_information hFile) (\<lambda>info. case info of
         Some x \<Rightarrow> ret (hFile, Some x)
       | None \<Rightarrow> andthen (fnFileClose hFile) (ret (InvalidHandleValue, None)))) ?Q {#}"
    by (auto intro!: cab.owns_bnd[OF info] fin simp: cab.owns_ret_eq simp del: case_prod_conv option.case)
qed

text \<open>
  What \<open>FDICopy\<close> documents of its notifications: a file of the cabinet is written only if the answer
  to its notification is a file handle, neither 0 nor -1.  With \<open>fnNotify\<close> nothing is written.
\<close>

lemma nothing_extracted:
  assumes "\<And>notify f. f \<in> set (written notify) \<Longrightarrow> notify (FdintCopyFile f) \<noteq> 0 \<and> notify (FdintCopyFile f) \<noteq> InvalidHandleValue"
  shows "written fnNotify = []"
proof -
  have "f \<notin> set (written fnNotify)" for f using assms[of f fnNotify] by (auto simp: fnNotify_def)
  then show ?thesis by (cases "written fnNotify") auto
qed

lemma strrchr_None: "strrchr s c = None \<longleftrightarrow> c \<notin> set s"
  by (induction s) (auto split: option.splits)

lemma strrchr_Some: "strrchr s c = Some i \<Longrightarrow> i < length s \<and> s ! i = c \<and> c \<notin> set (drop (Suc i) s)"
  by (induction s arbitrary: i) (auto split: option.splits if_splits simp: strrchr_None)

text \<open>
  The split of \<open>CabinetExtract\<close> loses nothing and leaves a name without a directory; the name that
  \<open>CabinetCreate\<close> stores for a file in a directory still begins with the separator.
\<close>

lemma split_cabinet_parts:
  assumes "split_cabinet arg = Some (name, path)"
  shows "path @ name = arg \<and> backslash \<notin> set name \<and> (path = [] \<or> last path = backslash)"
proof (cases "strrchr arg backslash")
  case None
  then show ?thesis using assms strrchr_None[of arg backslash] by (simp add: split_cabinet_def)
next
  case (Some i)
  then have "name = drop (Suc i) arg" "path = take (Suc i) arg"
    using assms by (auto simp: split_cabinet_def split: if_splits)
  moreover have "last (take (Suc i) arg) = backslash" using strrchr_Some[OF Some] by (simp add: take_Suc_conv_app_nth)
  ultimately show ?thesis using strrchr_Some[OF Some] by simp
qed

lemma stored_name_keeps_separator: "backslash \<in> set arg \<Longrightarrow> hd (stored_name arg) = backslash"
  using strrchr_None[of arg backslash] strrchr_Some[of arg backslash]
  by (auto simp: stored_name_def hd_drop_conv_nth split: option.splits)

end
