(* ===== verification/Veh.thy ===== *)
theory Veh
  imports Raii "HOL-Library.Sublist"
begin

text \<open>
  The vectored exception handler of VectoredExceptionHandler/main.cpp, built for x64: the decoding of
  a C++ throw through the compiler's \<open>ThrowInfo\<close>, the symbol output behind its lazily initialised
  lock, and the program that installs the handler.  What the handler prints is part of the history.
\<close>

unbundle bit_operations_syntax

section \<open>Exception records and the memory they point into\<close>

record EXCEPTION_RECORD =
  ExceptionCode :: DWORD
  ExceptionFlags :: DWORD
  ExceptionAddress :: "64 word"
  NumberParameters :: DWORD
  ExceptionInformation :: "nat \<Rightarrow> 64 word"

text \<open>
  The compiler's tables, each at its address: the relative address of the catchable types of a
  \<open>ThrowInfo\<close>, the array with its count, a catchable type (relative address of its descriptor, sz),
  the name in a type descriptor, and the \<open>what()\<close> of the \<open>std::exception\<close> objects.
\<close>

record image =
  throw_infos :: "64 word \<rightharpoonup> 32 word"
  type_arrays :: "64 word \<rightharpoonup> LONG \<times> 32 word list"
  catchables :: "64 word \<rightharpoonup> 32 word \<times> LONG"
  descriptors :: "64 word \<rightharpoonup> string"
  exceptions :: "64 word \<rightharpoonup> string"

section \<open>Output and system calls\<close>

datatype vehline =
    Fired DWORD
  | Code DWORD string
  | Flags DWORD bool
  | Address "64 word"
  | AccessKind string "64 word"
  | TooFewParameters DWORD
  | Thrown "64 word" "64 word" "64 word"
  | NullThrowInfo
  | TypeCount LONG
  | CatchType nat string LONG bool
  | What string
  | SymbolsUnavailable "64 word"
  | Symbol "64 word" string "64 word" "string option"
  | NoSymbol "64 word"
  | BackTrace nat
  | Caught string

datatype vehcall =
    Printf vehline
  | GetCurrentThreadId
  | InitializeCriticalSection
  | EnterCriticalSection
  | LeaveCriticalSection
  | SymSetOptions
  | SymInitialize
  | SymFromAddr "64 word"
  | SymGetLineFromAddr64 "64 word"
  | RtlCaptureStackBackTrace nat
  | UnDecorateSymbolName string
  | AddVectoredExceptionHandler
  | RemoveVectoredExceptionHandler "64 word"
  | GetLastError
  | RaiseCpp string
  | RaiseHardware DWORD
  | RunOnThread string

text \<open>The globals: the one-time flag and whether the symbols are ready.\<close>

record vehglobals =
  once :: LONG
  g_symReady :: bool

type_synonym 'a vio = "(vehglobals, vehcall, unit, 'a) io"


section \<open>Helpers\<close>

abbreviation (input) kMsvcCppExceptionCode :: DWORD where "kMsvcCppExceptionCode \<equiv> 0xE06D7363"

definition seh_names :: "(DWORD \<times> string) list" where
  "seh_names = [
     (0xC0000005, ''EXCEPTION_ACCESS_VIOLATION''),
     (0xC000008C, ''EXCEPTION_ARRAY_BOUNDS_EXCEEDED''),
     (0x80000003, ''EXCEPTION_BREAKPOINT''),
     (0x80000002, ''EXCEPTION_DATATYPE_MISALIGNMENT''),
     (0xC000008D, ''EXCEPTION_FLT_DENORMAL_OPERAND''),
     (0xC000008E, ''EXCEPTION_FLT_DIVIDE_BY_ZERO''),
     (0xC000008F, ''EXCEPTION_FLT_INEXACT_RESULT''),
     (0xC0000090, ''EXCEPTION_FLT_INVALID_OPERATION''),
     (0xC0000091, ''EXCEPTION_FLT_OVERFLOW''),
     (0xC0000092, ''EXCEPTION_FLT_STACK_CHECK''),
     (0xC0000093, ''EXCEPTION_FLT_UNDERFLOW''),
     (0xC000001D, ''EXCEPTION_ILLEGAL_INSTRUCTION''),
     (0xC0000006, ''EXCEPTION_IN_PAGE_ERROR''),
     (0xC0000094, ''EXCEPTION_INT_DIVIDE_BY_ZERO''),
     (0xC0000095, ''EXCEPTION_INT_OVERFLOW''),
     (0xC0000026, ''EXCEPTION_INVALID_DISPOSITION''),
     (0xC0000025, ''EXCEPTION_NONCONTINUABLE_EXCEPTION''),
     (0xC0000096, ''EXCEPTION_PRIV_INSTRUCTION''),
     (0x80000004, ''EXCEPTION_SINGLE_STEP''),
     (0xC00000FD, ''EXCEPTION_STACK_OVERFLOW''),
     (kMsvcCppExceptionCode, ''MSVC C++ exception (0xE06D7363)'')]"

definition SehCodeName :: "DWORD \<Rightarrow> string" where
  "SehCodeName code = (case map_of seh_names code of Some n \<Rightarrow> n | None \<Rightarrow> ''<unknown>'')"

definition IsMsvcCppException :: "EXCEPTION_RECORD \<Rightarrow> bool" where
  "IsMsvcCppException r =
     (if ExceptionCode r \<noteq> kMsvcCppExceptionCode then False else
      if NumberParameters r < 3 then False else
      (let magic = ExceptionInformation r 0 in magic = 0x19930520 \<or> magic = 0x19930521 \<or> magic = 0x19930522))"

text \<open>\<open>static_cast<uintptr_t>\<close> of an \<open>int32_t\<close> extends the sign.\<close>

definition RvaToPtr :: "64 word \<Rightarrow> 32 word \<Rightarrow> 64 word" where
  "RvaToPtr base rva = base + scast rva"

section \<open>Symbols\<close>

definition InitSymbolsOnce :: "unit vio" where
  "InitSymbolsOnce = bnd (gets once) (\<lambda>old.
     andthen (modify (\<lambda>g. if old = 0 then g\<lparr>once := 1\<rparr> else g))
     (if old \<noteq> 0 then ret () else
      andthen (do_call InitializeCriticalSection)
      (andthen (do_call SymSetOptions)
      (bnd (call SymInitialize) (\<lambda>r. modify (\<lambda>g. g\<lparr>g_symReady := rv r \<noteq> 0\<rparr>))))))"

text \<open>The file of a line answer, and the name of a symbol answer, are in \<open>buf\<close>; \<open>out\<close> is the displacement.\<close>

definition look_up_symbol :: "64 word \<Rightarrow> unit vio" where
  "look_up_symbol address =
     bnd (call (SymFromAddr address)) (\<lambda>s.
     bnd (call (SymGetLineFromAddr64 address)) (\<lambda>l.
       if rv s \<noteq> 0
       then do_call (Printf (Symbol address (str_of (buf s)) (out s) (if rv l \<noteq> 0 then Some (str_of (buf l)) else None)))
       else do_call (Printf (NoSymbol address))))"

definition PrintSymbol :: "64 word \<Rightarrow> unit vio" where
  "PrintSymbol address = andthen InitSymbolsOnce (bnd (gets g_symReady) (\<lambda>ready.
     if \<not> ready then do_call (Printf (SymbolsUnavailable address)) else
     andthen (do_call EnterCriticalSection)
     (andthen (look_up_symbol address) (do_call LeaveCriticalSection))))"

fun print_frames :: "64 word list \<Rightarrow> unit vio" where
  "print_frames [] = ret ()"
| "print_frames (f # fs) = andthen (PrintSymbol f) (print_frames fs)"

text \<open>At most the 32 frames asked for.\<close>

definition PrintBackTrace :: "unit vio" where
  "PrintBackTrace = bnd (call (RtlCaptureStackBackTrace 32)) (\<lambda>r.
     let frames = take 32 (outs r) in
     andthen (do_call (Printf (BackTrace (length frames)))) (print_frames frames))"

section \<open>Decoding a C++ exception\<close>

text \<open>A read through a pointer: undefined where nothing of that type is.\<close>

definition deref :: "'b option \<Rightarrow> 'b vio" where
  "deref x = (case x of None \<Rightarrow> fault | Some v \<Rightarrow> ret v)"

text \<open>The \<open>i\<close>-th catchable type: the name in its descriptor and its sz.\<close>

definition catchable :: "image \<Rightarrow> 64 word \<Rightarrow> 32 word list \<Rightarrow> nat \<Rightarrow> (string \<times> LONG) vio" where
  "catchable m base arrayOfCatchableTypes i =
     bnd (if i < length arrayOfCatchableTypes then ret (arrayOfCatchableTypes ! i) else fault) (\<lambda>rva.
     bnd (deref (catchables m (RvaToPtr base rva))) (\<lambda>(pType, sz).
     bnd (deref (descriptors m (RvaToPtr base pType))) (\<lambda>name. ret (name, sz))))"

fun print_types :: "image \<Rightarrow> 64 word \<Rightarrow> 32 word list \<Rightarrow> nat \<Rightarrow> nat \<Rightarrow> unit vio" where
  "print_types m base types i 0 = ret ()"
| "print_types m base types i (Suc left) =
     bnd (catchable m base types i) (\<lambda>(name, sz).
     bnd (call (UnDecorateSymbolName name)) (\<lambda>n.
     andthen (do_call (Printf (CatchType i (if ucast (rv n) \<noteq> (0 :: DWORD) then str_of (buf n) else name) sz (i = 0))))
       (print_types m base types (Suc i) left)))"

definition names_exception :: "string \<Rightarrow> bool" where
  "names_exception name \<longleftrightarrow> sublist ''exception@std@@'' name"

fun any_exception :: "image \<Rightarrow> 64 word \<Rightarrow> 32 word list \<Rightarrow> nat \<Rightarrow> nat \<Rightarrow> bool vio" where
  "any_exception m base types i 0 = ret False"
| "any_exception m base types i (Suc left) =
     bnd (catchable m base types i) (\<lambda>(name, sz).
       if names_exception name then ret True else any_exception m base types (Suc i) left)"

text \<open>The call of \<open>what()\<close>: undefined unless a \<open>std::exception\<close> is at that address.\<close>

definition print_what :: "image \<Rightarrow> 64 word \<Rightarrow> unit vio" where
  "print_what m thrownObject = bnd (deref (exceptions m thrownObject)) (\<lambda>w. do_call (Printf (What w)))"

definition DecodeCppException :: "image \<Rightarrow> EXCEPTION_RECORD \<Rightarrow> unit vio" where
  "DecodeCppException m r =
     (if NumberParameters r < 4 then do_call (Printf (TooFewParameters (NumberParameters r))) else
      let base = ExceptionInformation r 3;
          thrownObject = ExceptionInformation r 1;
          throwInfo = ExceptionInformation r 2 in
      andthen (do_call (Printf (Thrown thrownObject throwInfo base)))
      (if throwInfo = 0 then do_call (Printf NullThrowInfo) else
       bnd (deref (throw_infos m throwInfo)) (\<lambda>pCatchableTypeArray.
       bnd (deref (type_arrays m (RvaToPtr base pCatchableTypeArray))) (\<lambda>(nCatchableTypes, types).
       andthen (do_call (Printf (TypeCount nCatchableTypes)))
       (andthen (print_types m base types 0 (nat (sint nCatchableTypes)))
       (bnd (any_exception m base types 0 (nat (sint nCatchableTypes))) (\<lambda>looksLikeStdException.
          whenM (looksLikeStdException \<and> thrownObject \<noteq> 0) (print_what m thrownObject))))))))"

section \<open>The handler\<close>

abbreviation (input) EXCEPTION_CONTINUE_SEARCH :: LONG where "EXCEPTION_CONTINUE_SEARCH \<equiv> 0"

definition access_kind :: "64 word \<Rightarrow> string" where
  "access_kind info = (if info = 0 then ''read'' else if info = 1 then ''write'' else
     if info = 8 then ''DEP/execute'' else ''?'')"

definition describe :: "image \<Rightarrow> EXCEPTION_RECORD \<Rightarrow> unit vio" where
  "describe m r =
     (if ExceptionCode r = 0xC0000005 \<or> ExceptionCode r = 0xC0000006
      then whenM (2 \<le> NumberParameters r)
             (do_call (Printf (AccessKind (access_kind (ExceptionInformation r 0)) (ExceptionInformation r 1))))
      else whenM (IsMsvcCppException r) (DecodeCppException m r))"

definition VehHandler :: "image \<Rightarrow> EXCEPTION_RECORD \<Rightarrow> LONG vio" where
  "VehHandler m r =
     bnd (call GetCurrentThreadId) (\<lambda>t.
     andthen (do_call (Printf (Fired (ucast (rv t)))))
     (andthen (do_call (Printf (Code (ExceptionCode r) (SehCodeName (ExceptionCode r)))))
     (andthen (do_call (Printf (Flags (ExceptionFlags r) (ExceptionFlags r AND 1 \<noteq> 0))))
     (andthen (do_call (Printf (Address (ExceptionAddress r))))
     (andthen (describe m r)
     (andthen (PrintSymbol (ExceptionAddress r))
     (andthen PrintBackTrace (ret EXCEPTION_CONTINUE_SEARCH))))))))"

section \<open>The program\<close>

text \<open>
  The demonstrations raise an exception, which the system dispatches to the handler and then to the
  block that catches it.
\<close>

definition DemoCppThrow :: "unit vio" where
  "DemoCppThrow = andthen (do_call (RaiseCpp ''something went wrong'')) (do_call (Printf (Caught ''something went wrong'')))"

definition DemoAccessViolation :: "unit vio" where
  "DemoAccessViolation = andthen (do_call (RaiseHardware 0xC0000005)) (do_call (Printf (Caught ''AV'')))"

definition DemoIntDivideByZero :: "unit vio" where
  "DemoIntDivideByZero = andthen (do_call (RaiseHardware 0xC0000094)) (do_call (Printf (Caught ''divide-by-zero'')))"

definition DemoOnAnotherThread :: "unit vio" where
  "DemoOnAnotherThread = do_call (RunOnThread ''hello from worker'')"

definition veh_main :: "int vio" where
  "veh_main = bnd (call AddVectoredExceptionHandler) (\<lambda>c.
     if rv c = 0 then andthen (do_call GetLastError) (ret 1) else
     andthen DemoCppThrow (andthen DemoAccessViolation (andthen DemoIntDivideByZero (andthen DemoOnAnotherThread
     (andthen (do_call (RemoveVectoredExceptionHandler (rv c))) (ret 0))))))"

section \<open>What is decoded\<close>

text \<open>
  The tables as the compiler writes them: \<open>described\<close> finds a catchable type's name and sz, and
  \<open>thrown_types\<close> the whole list of a throw, most-derived type first.
\<close>

definition described :: "image \<Rightarrow> 64 word \<Rightarrow> 32 word \<Rightarrow> (string \<times> LONG) option" where
  "described m base rva = (case catchables m (RvaToPtr base rva) of None \<Rightarrow> None
     | Some (p, sz) \<Rightarrow> map_option (\<lambda>n. (n, sz)) (descriptors m (RvaToPtr base p)))"

definition thrown_types :: "image \<Rightarrow> EXCEPTION_RECORD \<Rightarrow> (string \<times> LONG) list option" where
  "thrown_types m r =
     (let base = ExceptionInformation r 3 in
      case throw_infos m (ExceptionInformation r 2) of None \<Rightarrow> None | Some a \<Rightarrow>
     (case type_arrays m (RvaToPtr base a) of None \<Rightarrow> None | Some (n, types) \<Rightarrow>
        if sint n = int (length types) then those (map (described m base) types) else None))"

text \<open>What a history printed; the undecorated name of a type, for a system that always answers alike.\<close>

fun lines_of :: "vehcall history \<Rightarrow> vehline list" where
  "lines_of [] = []"
| "lines_of ((c, r) # h) = (case c of Printf l \<Rightarrow> l # lines_of h | _ \<Rightarrow> lines_of h)"

definition shown :: "(string \<Rightarrow> resp) \<Rightarrow> string \<Rightarrow> string" where
  "shown und name = (if ucast (rv (und name)) \<noteq> (0 :: DWORD) then str_of (buf (und name)) else name)"

definition type_lines :: "(string \<Rightarrow> resp) \<Rightarrow> nat \<Rightarrow> (string \<times> LONG) list \<Rightarrow> vehline list" where
  "type_lines und i infos = map (\<lambda>(k, n, sz). CatchType k (shown und n) sz (k = 0)) (zip [i ..< i + length infos] infos)"

lemma lines_of_append [simp]: "lines_of (g @ h) = lines_of g @ lines_of h"
  by (induction g rule: lines_of.induct) (auto split: vehcall.split)

lemma type_lines_Nil [simp]: "type_lines und i [] = []"
  by (simp add: type_lines_def)

lemma type_lines_Cons [simp]:
  "type_lines und i ((n, sz) # infos) = CatchType i (shown und n) sz (i = 0) # type_lines und (Suc i) infos"
  by (simp add: type_lines_def upt_conv_Cons del: upt_Suc)

lemma those_nth:
  "those (map f xs) = Some ys \<Longrightarrow> length ys = length xs \<and> (\<forall>i < length xs. f (xs ! i) = Some (ys ! i))"
  by (induction xs arbitrary: ys) (auto split: option.splits simp: nth_Cons' )

lemma catchable_run:
  assumes "those (map (described m base) types) = Some infos" and "i < length types"
  shows "catchable m base types i os s h = (Val (infos ! i), s, h)"
proof -
  have "described m base (types ! i) = Some (infos ! i)" using those_nth[OF assms(1)] assms(2) by blast
  then show ?thesis using assms(2)
    by (auto simp: catchable_def described_def deref_def bnd_ret ret_apply split: option.splits)
qed

lemma bnd_catchable:
  assumes "those (map (described m base) types) = Some infos" and "i < length types"
  shows "bnd (catchable m base types i) f os s h = f (infos ! i) os s h"
  by (rule bnd_Val[of "catchable m base types i", OF catchable_run[OF assms]])

lemma print_types_run:
  assumes infos: "those (map (described m base) types) = Some infos"
    and und: "\<And>h n. os h (UnDecorateSymbolName n) = und n"
  shows "i + left = length types \<Longrightarrow> \<exists>g. print_types m base types i left os s h = (Val (), s, h @ g) \<and>
           lines_of g = type_lines und i (drop i infos)"
proof (induction left arbitrary: i h)
  case 0
  then show ?case using those_nth[OF infos] by (simp add: ret_apply)
next
  case (Suc left)
  then have i: "i < length types" by simp
  obtain n sz where ns: "infos ! i = (n, sz)" by (cases "infos ! i")
  let ?line = "Printf (CatchType i (shown und n) sz (i = 0))"
  let ?h = "h @ [(UnDecorateSymbolName n, und n)]"
  obtain g where g: "print_types m base types (Suc i) left os s (?h @ [(?line, os ?h ?line)]) =
      (Val (), s, (?h @ [(?line, os ?h ?line)]) @ g)"
    "lines_of g = type_lines und (Suc i) (drop (Suc i) infos)"
    using Suc.IH[of "Suc i" "?h @ [(?line, os ?h ?line)]"] Suc.prems by auto
  have "print_types m base types i (Suc left) os s h = (Val (), s, (?h @ [(?line, os ?h ?line)]) @ g)"
    using g(1) by (cases "ucast (rv (und n)) = (0 :: DWORD)")
      (simp_all add: bnd_catchable[OF infos i] ns bnd_call_apply und andthen_def do_call_def bnd_bnd bnd_ret shown_def)
  moreover have "drop i infos = (n, sz) # drop (Suc i) infos"
    using Cons_nth_drop_Suc[of i infos] those_nth[OF infos] i ns by simp
  ultimately show ?case using g(2) by simp
qed

lemma any_exception_run:
  assumes infos: "those (map (described m base) types) = Some infos"
  shows "i + left = length types \<Longrightarrow> any_exception m base types i left os s h =
           (Val (\<exists>x \<in> set (drop i infos). names_exception (fst x)), s, h)"
proof (induction left arbitrary: i)
  case 0
  then show ?case using those_nth[OF infos] by (simp add: ret_apply)
next
  case (Suc left)
  then have i: "i < length types" by simp
  have "drop i infos = infos ! i # drop (Suc i) infos"
    using Cons_nth_drop_Suc[of i infos] those_nth[OF infos] i by simp
  then show ?case using Suc.IH[of "Suc i"] Suc.prems
    by (auto simp: bnd_catchable[OF infos i] ret_apply split: prod.split)
qed

text \<open>The decoding up to the call of \<open>what()\<close>.\<close>

lemma Decode_run:
  assumes np: "4 \<le> NumberParameters r" and ti: "ExceptionInformation r 2 \<noteq> 0"
    and types: "thrown_types m r = Some infos"
    and und: "\<And>h n. os h (UnDecorateSymbolName n) = und n"
  shows "\<exists>g n. lines_of g = Thrown (ExceptionInformation r 1) (ExceptionInformation r 2) (ExceptionInformation r 3)
                 # TypeCount n # type_lines und 0 infos \<and> sint n = int (length infos) \<and>
           DecodeCppException m r os s h =
             whenM ((\<exists>x \<in> set infos. names_exception (fst x)) \<and> ExceptionInformation r 1 \<noteq> 0)
               (print_what m (ExceptionInformation r 1)) os s (h @ g)"
proof -
  let ?base = "ExceptionInformation r 3"
  obtain a n ts where a: "throw_infos m (ExceptionInformation r 2) = Some a"
    "type_arrays m (RvaToPtr ?base a) = Some (n, ts)" and n: "sint n = int (length ts)"
    and infos: "those (map (described m ?base) ts) = Some infos"
    using types by (auto simp: thrown_types_def Let_def split: option.splits prod.splits if_splits)
  let ?l1 = "Printf (Thrown (ExceptionInformation r 1) (ExceptionInformation r 2) ?base)" and ?l2 = "Printf (TypeCount n)"
  let ?h = "h @ [(?l1, os h ?l1)]"
  let ?h2 = "?h @ [(?l2, os ?h ?l2)]"
  have k: "nat (sint n) = length ts" using n by simp
  obtain g where g: "print_types m ?base ts 0 (length ts) os s ?h2 = (Val (), s, ?h2 @ g)"
    "lines_of g = type_lines und 0 infos"
    using print_types_run[OF infos, of os und 0 "length ts" s ?h2] und by auto
  have "DecodeCppException m r os s h =
      whenM ((\<exists>x \<in> set infos. names_exception (fst x)) \<and> ExceptionInformation r 1 \<noteq> 0)
        (print_what m (ExceptionInformation r 1)) os s (?h2 @ g)"
    using not_less[THEN iffD2, OF np] ti a k
    by (simp add: bnd_Val[of "print_types m ?base ts 0 (length ts)", OF g(1)[simplified]]
        bnd_Val[of "any_exception m ?base ts 0 (length ts)", OF any_exception_run[OF infos, of 0 "length ts"]] DecodeCppException_def Let_def andthen_def do_call_def bnd_bnd bnd_ret bnd_call_apply deref_def)
  moreover have "sint n = int (length infos)" using n those_nth[OF infos] by simp
  ultimately show ?thesis using g(2)
    by (intro exI[of _ "[(?l1, os h ?l1), (?l2, os ?h ?l2)] @ g"] exI[of _ n]) simp
qed

text \<open>
  A C++ exception is decoded completely: for a throw whose tables are in place the handler prints
  the object, the number of catchable types, one line per type in order with its name and size, the
  first marked as the most-derived, and the text of \<open>what()\<close> exactly when one of the names says
  \<open>exception@std@@\<close> and there is an object.
\<close>

theorem cpp_exception_decoded:
  assumes "4 \<le> NumberParameters r" and "ExceptionInformation r 2 \<noteq> 0"
    and "thrown_types m r = Some infos"
    and "\<And>h n. os h (UnDecorateSymbolName n) = und n"
    and "exceptions m (ExceptionInformation r 1) = Some w"
  shows "\<exists>g n. DecodeCppException m r os s h = (Val (), s, h @ g) \<and> sint n = int (length infos) \<and>
    lines_of g = [Thrown (ExceptionInformation r 1) (ExceptionInformation r 2) (ExceptionInformation r 3), TypeCount n]
      @ type_lines und 0 infos
      @ (if (\<exists>x \<in> set infos. names_exception (fst x)) \<and> ExceptionInformation r 1 \<noteq> 0 then [What w] else [])"
proof -
  obtain g n where g: "lines_of g = Thrown (ExceptionInformation r 1) (ExceptionInformation r 2) (ExceptionInformation r 3)
        # TypeCount n # type_lines und 0 infos" "sint n = int (length infos)"
    "DecodeCppException m r os s h =
       whenM ((\<exists>x \<in> set infos. names_exception (fst x)) \<and> ExceptionInformation r 1 \<noteq> 0)
         (print_what m (ExceptionInformation r 1)) os s (h @ g)"
    using Decode_run[OF assms(1-3), of os und s h] assms(4) by blast
  show ?thesis
  proof (cases "(\<exists>x \<in> set infos. names_exception (fst x)) \<and> ExceptionInformation r 1 \<noteq> 0")
    case True
    then show ?thesis using g assms(5)
      by (intro exI[of _ "g @ [(Printf (What w), os (h @ g) (Printf (What w)))]"] exI[of _ n])
        (simp add: whenM_def print_what_def deref_def bnd_ret do_call_def bnd_call_apply ret_apply)
  next
    case False
    have "whenM ((\<exists>x \<in> set infos. names_exception (fst x)) \<and> ExceptionInformation r 1 \<noteq> 0)
        (print_what m (ExceptionInformation r 1)) = ret ()"
      using False by (auto simp: whenM_def)
    then show ?thesis using g False by (intro exI[of _ g] exI[of _ n]) (auto simp: ret_apply)
  qed
qed

definition sample_image :: "string \<Rightarrow> string option \<Rightarrow> image" where
  "sample_image name w = \<lparr>throw_infos = [0x1000 \<mapsto> 0x20], type_arrays = [0x40000020 \<mapsto> (1, [0x30])],
     catchables = [0x40000030 \<mapsto> (0x40, 24)], descriptors = [0x40000040 \<mapsto> name],
     exceptions = (case w of None \<Rightarrow> Map.empty | Some t \<Rightarrow> [0x2000 \<mapsto> t])\<rparr>"

definition sample_throw :: EXCEPTION_RECORD where
  "sample_throw = \<lparr>ExceptionCode = 0xE06D7363, ExceptionFlags = 0, ExceptionAddress = 0x77, NumberParameters = 4,
     ExceptionInformation = (\<lambda>i. [0x19930520, 0x2000, 0x1000, 0x40000000] ! i)\<rparr>"

lemma sample_types: "thrown_types (sample_image name w) sample_throw = Some [(name, 24)]"
  by (simp add: thrown_types_def sample_image_def sample_throw_def described_def RvaToPtr_def Let_def)

theorem cpp_exception_decoded_witness:
  "\<exists>g n. DecodeCppException (sample_image ''.?AVruntime_error@std@@'' (Some ''oops!'')) sample_throw
       (\<lambda>h c. fail_resp) \<lparr>once = 1, g_symReady = True\<rparr> [] = (Val (), \<lparr>once = 1, g_symReady = True\<rparr>, [] @ g) \<and>
     sint n = int (length [(''.?AVruntime_error@std@@'', 24 :: LONG)]) \<and>
     lines_of g = [Thrown 0x2000 0x1000 0x40000000, TypeCount n]
       @ type_lines (\<lambda>n. fail_resp) 0 [(''.?AVruntime_error@std@@'', 24)]
       @ (if (\<exists>x \<in> set [(''.?AVruntime_error@std@@'', 24 :: LONG)]. names_exception (fst x)) \<and> (0x2000 :: 64 word) \<noteq> 0
          then [What ''oops!''] else [])"
  using cpp_exception_decoded[OF _ _ sample_types, of "\<lambda>h c. fail_resp" "\<lambda>n. fail_resp"
      "''.?AVruntime_error@std@@''" "Some ''oops!''" "''oops!''" "\<lparr>once = 1, g_symReady = True\<rparr>" "[]"]
  by (simp add: sample_throw_def sample_image_def)

lemma describe_cpp: "IsMsvcCppException r \<Longrightarrow> describe m r = DecodeCppException m r"
  by (auto simp: describe_def IsMsvcCppException_def whenM_def split: if_splits)

text \<open>
  The name test accepts types that are no \<open>std::exception\<close>: when one of the names contains
  \<open>exception@std@@\<close>, as that of \<open>std::nested_exception\<close> does, but no \<open>std::exception\<close> is at the
  address of the thrown object, the handler calls \<open>what()\<close> on something that has none.
\<close>

theorem nested_exception_faults:
  assumes "IsMsvcCppException r" and "4 \<le> NumberParameters r" and "ExceptionInformation r 2 \<noteq> 0"
    and "thrown_types m r = Some infos"
    and "\<And>h n. os h (UnDecorateSymbolName n) = und n"
    and "\<exists>x \<in> set infos. names_exception (fst x)"
    and "ExceptionInformation r 1 \<noteq> 0" and "exceptions m (ExceptionInformation r 1) = None"
  shows "outcome_of (VehHandler m r os s h) = Fault"
proof -
  have "outcome_of (DecodeCppException m r os s k) = Fault" for k
    using Decode_run[OF assms(2-4), of os und s k] assms(5-8)
    by (auto simp: whenM_def print_what_def deref_def bnd_fault fault_apply)
  then show ?thesis
    by (simp add: VehHandler_def describe_cpp[OF assms(1)] andthen_def do_call_def bnd_bnd bnd_ret bnd_call_apply
        outcome_bnd_Fault)
qed

theorem nested_exception_witness:
  "outcome_of (VehHandler (sample_image ''.?AVnested_exception@std@@'' None) sample_throw
     (\<lambda>h c. fail_resp) \<lparr>once = 1, g_symReady = True\<rparr> []) = Fault"
proof (rule nested_exception_faults[OF _ _ _ sample_types])
  show "\<exists>x \<in> set [(''.?AVnested_exception@std@@'', 24)]. names_exception (fst x)"
    by (simp add: names_exception_def) code_simp
  show "\<And>h n. fail_resp = (\<lambda>n. fail_resp) n" by simp
qed (simp_all add: sample_throw_def sample_image_def IsMsvcCppException_def)

section \<open>The lock of the symbol library\<close>

text \<open>The critical section is entered and left in pairs, also across the frames of a back trace.\<close>

fun lock_opens :: "vehcall \<Rightarrow> resp \<Rightarrow> unit option" where
  "lock_opens EnterCriticalSection r = Some ()"
| "lock_opens c r = None"

fun lock_closes :: "vehcall \<Rightarrow> unit option" where
  "lock_closes LeaveCriticalSection = Some ()"
| "lock_closes c = None"

interpretation cs: handle_api lock_opens lock_closes
proof unfold_locales
  fix c r x assume "lock_closes c = Some x"
  then show "lock_opens c r = None" by (cases c) auto
qed

lemma veh_neutral_calls [neutral_intro]:
  "cs.neutral (call (Printf l))" "cs.neutral (call GetCurrentThreadId)" "cs.neutral (call InitializeCriticalSection)"
  "cs.neutral (call SymSetOptions)" "cs.neutral (call SymInitialize)" "cs.neutral (call (SymFromAddr a))"
  "cs.neutral (call (SymGetLineFromAddr64 a))" "cs.neutral (call (RtlCaptureStackBackTrace n))"
  "cs.neutral (call (UnDecorateSymbolName t))"
  by (rule cs.neutral_call; simp)+

lemma look_up_symbol_neutral: "cs.neutral (look_up_symbol a)" "no_throw (look_up_symbol a)"
  unfolding look_up_symbol_def by (intro neutral_intro, intro no_throw_intro)

lemma locked_neutral:
  "cs.neutral (andthen (do_call EnterCriticalSection) (andthen (look_up_symbol a) (do_call LeaveCriticalSection)))"
proof -
  have enter: "cs.owns {#} (do_call EnterCriticalSection) (\<lambda>_. {#()#}) {#}"
    unfolding do_call_def by (rule cs.owns_bnd[OF cs.owns_call_open]) (simp_all add: cs.owns_ret_eq)
  have leave: "cs.owns {#()#} (do_call LeaveCriticalSection) (\<lambda>_. {#}) {#}"
    unfolding do_call_def by (rule cs.owns_bnd[OF cs.owns_call_close]) (simp_all add: cs.owns_ret_eq)
  show ?thesis unfolding cs.neutral_def andthen_def
    by (rule cs.owns_bnd[OF enter cs.owns_bnd[OF cs.neutral_owns[OF look_up_symbol_neutral] leave]])
qed

lemma PrintSymbol_neutral [neutral_intro]: "cs.neutral (PrintSymbol a)"
  unfolding PrintSymbol_def InitSymbolsOnce_def by (intro neutral_intro locked_neutral)

lemma print_frames_neutral: "cs.neutral (print_frames fs)"
  by (induction fs) (auto intro: neutral_intro)

lemma deref_neutral: "cs.neutral (deref x)"
  unfolding deref_def by (intro neutral_intro)

lemma catchable_neutral: "cs.neutral (catchable m b ts i)"
  unfolding catchable_def by (intro neutral_intro deref_neutral)

lemma print_types_neutral: "cs.neutral (print_types m b ts i k)"
  by (induction m b ts i k rule: print_types.induct) (auto intro!: neutral_intro catchable_neutral)

lemma any_exception_neutral: "cs.neutral (any_exception m b ts i k)"
  by (induction m b ts i k rule: any_exception.induct) (auto intro!: neutral_intro catchable_neutral)

lemma handler_lock_balanced: "cs.neutral (VehHandler m r)"
  unfolding VehHandler_def describe_def DecodeCppException_def PrintBackTrace_def print_what_def
  by (intro neutral_intro print_frames_neutral print_types_neutral any_exception_neutral deref_neutral)

section \<open>Several threads\<close>

text \<open>
  The handler on many threads at once: where a thread is, what it has done to the globals, and the
  atomic steps between them.  From \<open>AtHandler\<close> a thread decodes a C++ exception, which calls
  \<open>UnDecorateSymbolName\<close> for every catchable type, or none; then it prints the symbol of the address and of each
  frame of the back trace.
\<close>

datatype symloc = AtHandler | Undecorating | AtExchange | AtInitLock | AtSymInit | AtCheck | AtEnter | InLock | Finished

record symstate =
  once_set :: bool
  lock_initialised :: bool
  symbols_ready :: bool
  holder :: "nat option"
  at :: "nat \<Rightarrow> symloc"

definition goto :: "nat \<Rightarrow> symloc \<Rightarrow> symstate \<Rightarrow> symstate" where
  "goto t l s = s\<lparr>at := (at s)(t := l)\<rparr>"

inductive sym_step :: "symstate \<Rightarrow> symstate \<Rightarrow> bool" where
  decode: "at s t = AtHandler \<Longrightarrow> sym_step s (goto t Undecorating s)"
| undecorated: "at s t = Undecorating \<Longrightarrow> sym_step s (goto t AtHandler s)"
| described: "at s t = AtHandler \<Longrightarrow> sym_step s (goto t AtExchange s)"
| won: "\<lbrakk>at s t = AtExchange; \<not> once_set s\<rbrakk> \<Longrightarrow> sym_step s (goto t AtInitLock (s\<lparr>once_set := True\<rparr>))"
| lost: "\<lbrakk>at s t = AtExchange; once_set s\<rbrakk> \<Longrightarrow> sym_step s (goto t AtCheck s)"
| init_lock: "at s t = AtInitLock \<Longrightarrow> sym_step s (goto t AtSymInit (s\<lparr>lock_initialised := True\<rparr>))"
| sym_init: "at s t = AtSymInit \<Longrightarrow> sym_step s (goto t AtCheck (s\<lparr>symbols_ready := b\<rparr>))"
| unavailable: "\<lbrakk>at s t = AtCheck; \<not> symbols_ready s\<rbrakk> \<Longrightarrow> sym_step s (goto t Finished s)"
| available: "\<lbrakk>at s t = AtCheck; symbols_ready s\<rbrakk> \<Longrightarrow> sym_step s (goto t AtEnter s)"
| enter: "\<lbrakk>at s t = AtEnter; holder s = None\<rbrakk> \<Longrightarrow> sym_step s (goto t InLock (s\<lparr>holder := Some t\<rparr>))"
| leave: "at s t = InLock \<Longrightarrow> sym_step s (goto t Finished (s\<lparr>holder := None\<rparr>))"
| again: "at s t = Finished \<Longrightarrow> sym_step s (goto t AtExchange s)"
| handled: "at s t = Finished \<Longrightarrow> sym_step s (goto t AtHandler s)"

definition sym_start :: symstate where
  "sym_start = \<lparr>once_set = False, lock_initialised = False, symbols_ready = False, holder = None, at = (\<lambda>_. AtHandler)\<rparr>"

inductive sym_reachable :: "symstate \<Rightarrow> bool" where
  start: "sym_reachable sym_start"
| step: "\<lbrakk>sym_reachable s; sym_step s s'\<rbrakk> \<Longrightarrow> sym_reachable s'"

text \<open>
  The places in which a thread is inside a function of the symbol library, and those of them in which it
  prints a symbol or prepares to.
\<close>

definition uses_dbghelp :: "symloc \<Rightarrow> bool" where
  "uses_dbghelp l \<longleftrightarrow> l = AtSymInit \<or> l = InLock \<or> l = Undecorating"

definition prints_symbol :: "symloc \<Rightarrow> bool" where
  "prints_symbol l \<longleftrightarrow> l = AtSymInit \<or> l = InLock"

definition initialising :: "symloc \<Rightarrow> bool" where
  "initialising l \<longleftrightarrow> l = AtInitLock \<or> l = AtSymInit"

definition sym_inv :: "symstate \<Rightarrow> bool" where
  "sym_inv s \<longleftrightarrow>
     (\<not> once_set s \<longrightarrow> \<not> symbols_ready s \<and> (\<forall>t. at s t \<noteq> AtInitLock \<and> at s t \<noteq> AtSymInit \<and> at s t \<noteq> AtCheck \<and> at s t \<noteq> AtEnter \<and>
       at s t \<noteq> InLock \<and> at s t \<noteq> Finished)) \<and>
     (\<forall>t u. initialising (at s t) \<and> initialising (at s u) \<longrightarrow> t = u) \<and>
     (\<forall>t. initialising (at s t) \<longrightarrow> \<not> symbols_ready s) \<and>
     (\<forall>t. at s t = AtSymInit \<longrightarrow> lock_initialised s) \<and>
     (symbols_ready s \<longrightarrow> lock_initialised s) \<and>
     (\<forall>t. at s t = AtEnter \<or> at s t = InLock \<longrightarrow> symbols_ready s) \<and>
     (\<forall>t. at s t = InLock \<longrightarrow> holder s = Some t)"

lemmas sym_defs = sym_inv_def goto_def initialising_def

lemma sym_init_keeps:
  assumes inv: "sym_inv s" and t: "at s t = AtSymInit"
  shows "sym_inv (goto t AtCheck (s\<lparr>symbols_ready := b\<rparr>))"
proof -
  have alone: "at s u \<noteq> AtInitLock \<and> at s u \<noteq> AtSymInit" if "u \<noteq> t" for u
    using inv t that unfolding sym_inv_def initialising_def by blast
  have before: "at s u \<noteq> AtEnter \<and> at s u \<noteq> InLock" for u
    using inv t unfolding sym_inv_def initialising_def by blast
  have "once_set s" "lock_initialised s"
    using inv t unfolding sym_inv_def by (metis symloc.distinct)+
  with alone before show ?thesis by (simp add: sym_defs)
qed

lemma leave_keeps:
  assumes inv: "sym_inv s" and t: "at s t = InLock"
  shows "sym_inv (goto t Finished (s\<lparr>holder := None\<rparr>))"
proof -
  have alone: "at s u \<noteq> InLock" if "u \<noteq> t" for u
    using inv t that unfolding sym_inv_def by (metis option.inject)
  show ?thesis using inv t alone unfolding sym_defs by auto
qed

lemma enter_keeps:
  assumes inv: "sym_inv s" and t: "at s t = AtEnter" and free: "holder s = None"
  shows "sym_inv (goto t InLock (s\<lparr>holder := Some t\<rparr>))"
proof -
  have alone: "at s u \<noteq> InLock" for u
    using inv free unfolding sym_inv_def by (metis option.distinct(1))
  show ?thesis using inv t alone unfolding sym_defs by auto
qed

lemma sym_inv_step: "sym_step s s' \<Longrightarrow> sym_inv s \<Longrightarrow> sym_inv s'"
proof (induction rule: sym_step.induct)
  case (won s t)
  then show ?case unfolding sym_defs by auto
next
  case (lost s t)
  then show ?case unfolding sym_defs by auto
next
  case (init_lock s t)
  then show ?case unfolding sym_defs by (auto split: if_splits)
next
  case (unavailable s t)
  then show ?case unfolding sym_defs by auto
next
  case (available s t)
  then show ?case unfolding sym_defs by auto
next
  case (again s t)
  then show ?case unfolding sym_defs by auto
next
  case (decode s t)
  then show ?case unfolding sym_defs by auto
next
  case (undecorated s t)
  then show ?case unfolding sym_defs by auto
next
  case (described s t)
  then show ?case unfolding sym_defs by auto
next
  case (handled s t)
  then show ?case unfolding sym_defs by auto
qed (simp_all add: sym_init_keeps enter_keeps leave_keeps)

lemma sym_reachable_inv: "sym_reachable s \<Longrightarrow> sym_inv s"
proof (induction rule: sym_reachable.induct)
  case start
  show ?case by (simp add: sym_defs sym_start_def)
next
  case (step s s')
  then show ?case by (blast intro: sym_inv_step)
qed

text \<open>Thread 0 initialises the library and is in the lock; thread 1, whose C++ exception has a type to show, is not.\<close>

definition sym_sample :: symstate where
  "sym_sample = \<lparr>once_set = True, lock_initialised = True, symbols_ready = True, holder = Some 0,
     at = (\<lambda>_. AtHandler)(0 := InLock, 1 := Undecorating)\<rparr>"

lemma sym_sample_reachable: "sym_reachable sym_sample"
proof -
  let ?s0 = "goto 0 AtExchange sym_start"
  let ?s1 = "goto 0 AtInitLock (?s0\<lparr>once_set := True\<rparr>)"
  let ?s2 = "goto 0 AtSymInit (?s1\<lparr>lock_initialised := True\<rparr>)"
  let ?s3 = "goto 0 AtCheck (?s2\<lparr>symbols_ready := True\<rparr>)"
  let ?s4 = "goto 0 AtEnter ?s3"
  let ?s5 = "goto 0 InLock (?s4\<lparr>holder := Some 0\<rparr>)"
  note [simp] = goto_def sym_start_def
  have "sym_reachable ?s0" by (rule step[OF start described]) simp
  then have "sym_reachable ?s1" by (rule step[OF _ won]) simp_all
  then have "sym_reachable ?s2" by (rule step[OF _ init_lock]) simp
  then have "sym_reachable ?s3" by (rule step[OF _ sym_init]) simp
  then have "sym_reachable ?s4" by (rule step[OF _ available]) simp_all
  then have "sym_reachable ?s5" by (rule step[OF _ enter]) simp_all
  then have "sym_reachable (goto 1 Undecorating ?s5)" by (rule step[OF _ decode]) simp
  then show ?thesis by (simp add: sym_sample_def)
qed

lemma printers_alone:
  assumes "sym_reachable s" and "prints_symbol (at s t)" "prints_symbol (at s u)"
  shows "t = u"
proof -
  have inv: "sym_inv s" by (rule sym_reachable_inv[OF assms(1)])
  show "t = u"
  proof (cases "at s t = AtSymInit \<or> at s u = AtSymInit")
    case True
    then show ?thesis using inv assms(2,3) unfolding sym_inv_def initialising_def prints_symbol_def by metis
  next
    case False
    then have "holder s = Some t" "holder s = Some u"
      using inv assms(2,3) unfolding sym_inv_def prints_symbol_def by blast+
    then show ?thesis by simp
  qed
qed

text \<open>
  C17: However many threads run the handler at once, at most one of them is inside the symbol library to
  print a symbol, and its lock is initialised before any thread reaches it.  But the library, which is
  single-threaded, is not used by one thread at a time: \<open>DecodeCppException\<close> calls \<open>UnDecorateSymbolName\<close> without
  the lock, and a state can be reached in which one thread is in that call while another holds the lock.  When
  two threads are in the library, one of them is in that call.
\<close>

theorem dbghelp_lock:
  "(\<forall>s t u. sym_reachable s \<longrightarrow>
      (prints_symbol (at s t) \<and> prints_symbol (at s u) \<longrightarrow> t = u) \<and>
      (at s t = AtEnter \<or> at s t = InLock \<longrightarrow> lock_initialised s) \<and>
      (uses_dbghelp (at s t) \<and> uses_dbghelp (at s u) \<and> t \<noteq> u \<longrightarrow> at s t = Undecorating \<or> at s u = Undecorating)) \<and>
   (\<exists>s t u. sym_reachable s \<and> t \<noteq> u \<and> holder s = Some t \<and> at s t = InLock \<and> at s u = Undecorating)"
proof (intro conjI allI impI)
  fix s t u assume s: "sym_reachable s"
  show "t = u" if "prints_symbol (at s t) \<and> prints_symbol (at s u)" using printers_alone[OF s] that by blast
  show "lock_initialised s" if "at s t = AtEnter \<or> at s t = InLock"
    using sym_reachable_inv[OF s] that unfolding sym_inv_def by blast
  show "at s t = Undecorating \<or> at s u = Undecorating" if "uses_dbghelp (at s t) \<and> uses_dbghelp (at s u) \<and> t \<noteq> u"
    using printers_alone[OF s, of t u] that by (auto simp: uses_dbghelp_def prints_symbol_def)
next
  show "\<exists>s t u. sym_reachable s \<and> t \<noteq> u \<and> holder s = Some t \<and> at s t = InLock \<and> at s u = Undecorating"
    using sym_sample_reachable by (intro exI[of _ sym_sample] exI[of _ 0] exI[of _ 1]) (simp add: sym_sample_def)
qed

theorem dbghelp_lock_witness:
  "prints_symbol (at sym_sample 0) \<and> \<not> prints_symbol (at sym_sample 2) \<and> lock_initialised sym_sample"
proof -
  have at: "at sym_sample 0 = InLock" by (simp add: sym_sample_def)
  have u: "prints_symbol (at sym_sample 0)" by (simp add: at prints_symbol_def)
  have two: "(0 :: nat) \<noteq> 2" by simp
  note d = dbghelp_lock[THEN conjunct1, rule_format, OF sym_sample_reachable]
  have "\<not> prints_symbol (at sym_sample 2)" using d[of 0 2] u two by blast
  moreover have "lock_initialised sym_sample" using d[of 0 0] at by blast
  ultimately show ?thesis using u by blast
qed

end
