(* ===== verification/Pages.thy ===== *)
theory Pages
  imports Win32_Prelude
begin

text \<open>
  Pages of virtual memory: VirtualAllocReserving.cpp, which reserves a block and commits its pages one
  by one from an exception filter, and GuardPages.cpp.  Both are Unicode builds.  What the processor
  does is part of the model: a write to memory that is not committed raises an access violation, and
  the filter decides whether it is tried again.
\<close>

section \<open>System calls and state\<close>

datatype pagecall =
    GetSystemInfo
  | VirtualAllocReserve DWORD
  | VirtualAllocCommit "64 word" DWORD
  | VirtualAllocGuard DWORD
  | VirtualFree "64 word"
  | VirtualLock "64 word" DWORD
  | GetLastError

text \<open>The globals, which bytes are committed, and the characters that have been written.\<close>

record pages =
  lpNxtPage :: "64 word"
  dwPages :: DWORD
  dwPageSize :: DWORD
  committed :: "64 word \<Rightarrow> bool"
  contents :: "64 word \<rightharpoonup> WCHAR"

type_synonym 'a pgio = "(pages, pagecall, unit, 'a) io"

abbreviation (input) PAGELIMIT :: DWORD where "PAGELIMIT \<equiv> 80"
abbreviation (input) AccessViolation :: DWORD where "AccessViolation \<equiv> 0xC0000005"

text \<open>\<open>sizeof(TCHAR)\<close> in a Unicode build.\<close>

definition sizeof_TCHAR :: nat where
  "sizeof_TCHAR = 2"

datatype disposition = ExecuteHandler | ContinueExecution

section \<open>VirtualAllocReserving\<close>

definition commit_page :: "pages \<Rightarrow> pages" where
  "commit_page s = s\<lparr>committed := (\<lambda>a. committed s a \<or> unat (a - lpNxtPage s) < unat (dwPageSize s)),
     dwPages := dwPages s + 1, lpNxtPage := lpNxtPage s + ucast (dwPageSize s)\<rparr>"

definition PageFaultExceptionFilter :: "DWORD \<Rightarrow> disposition pgio" where
  "PageFaultExceptionFilter dwCode =
     (if dwCode \<noteq> AccessViolation then ret ExecuteHandler else
      bnd (gets (\<lambda>s. s)) (\<lambda>s.
      if PAGELIMIT \<le> dwPages s then ret ExecuteHandler else
      bnd (call (VirtualAllocCommit (lpNxtPage s) (dwPageSize s))) (\<lambda>r.
      if rv r = 0 then ret ExecuteHandler
      else andthen (modify commit_page) (ret ContinueExecution))))"

definition ErrorExit :: "'a pgio" where
  "ErrorExit = bnd (call GetLastError) (\<lambda>_. halt 0)"

definition writable :: "pages \<Rightarrow> 64 word \<Rightarrow> bool" where
  "writable s a \<longleftrightarrow> committed s a \<and> committed s (a + 1)"

text \<open>\<open>lpPtr[i] = 'a'\<close>, tried again as long as the filter says so; \<open>fuel\<close> bounds the attempts.\<close>

fun write_char :: "nat \<Rightarrow> 64 word \<Rightarrow> nat \<Rightarrow> unit pgio" where
  "write_char 0 lpPtr i = running"
| "write_char (Suc fuel) lpPtr i =
     (let a = lpPtr + of_nat (sizeof_TCHAR * i) in
      bnd (gets (\<lambda>s. writable s a)) (\<lambda>ok.
      if ok then modify (\<lambda>s. s\<lparr>contents := (contents s)(a \<mapsto> 97)\<rparr>) else
      bnd (PageFaultExceptionFilter AccessViolation) (\<lambda>d. case d of
          ContinueExecution \<Rightarrow> write_char fuel lpPtr i
        | ExecuteHandler \<Rightarrow> bnd (call GetLastError) (\<lambda>e. halt (ucast (rv e))))))"

fun write_all :: "nat \<Rightarrow> 64 word \<Rightarrow> nat \<Rightarrow> nat \<Rightarrow> unit pgio" where
  "write_all fuel lpPtr i 0 = ret ()"
| "write_all fuel lpPtr i (Suc left) = andthen (write_char fuel lpPtr i) (write_all fuel lpPtr (Suc i) left)"

definition reserve_main :: "nat \<Rightarrow> int pgio" where
  "reserve_main fuel = bnd (call GetSystemInfo) (\<lambda>i.
     andthen (modify (\<lambda>s. s\<lparr>dwPageSize := ucast (out i)\<rparr>))
     (bnd (call (VirtualAllocReserve (PAGELIMIT * ucast (out i)))) (\<lambda>b.
      if rv b = 0 then ErrorExit else
      andthen (modify (\<lambda>s. s\<lparr>lpNxtPage := rv b\<rparr>))
      (andthen (write_all fuel (rv b) 0 (unat (PAGELIMIT * ucast (out i) :: DWORD)))
      (andthen (do_call (VirtualFree (rv b))) (ret 0))))))"

definition pages_start :: pages where
  "pages_start = \<lparr>lpNxtPage = 0, dwPages = 0, dwPageSize = 0, committed = (\<lambda>_. False), contents = Map.empty\<rparr>"

section \<open>GuardPages\<close>

text \<open>What is printed: whether each of the two locks was achieved.\<close>

definition guard_main :: "(int \<times> bool list) pgio" where
  "guard_main = bnd (call GetSystemInfo) (\<lambda>i.
     bnd (call (VirtualAllocGuard (ucast (out i)))) (\<lambda>a.
     if rv a = 0 then andthen (do_call GetLastError) (ret (1, [])) else
     bnd (call (VirtualLock (rv a) (ucast (out i)))) (\<lambda>l1.
     andthen (whenM (rv l1 = 0) (do_call GetLastError))
     (bnd (call (VirtualLock (rv a) (ucast (out i)))) (\<lambda>l2.
     andthen (whenM (rv l2 = 0) (do_call GetLastError))
     (ret (0, [rv l1 \<noteq> 0, rv l2 \<noteq> 0])))))))"

section \<open>The block and its pages\<close>

text \<open>
  The state between two instructions: the first \<open>dwPages\<close> pages of the block are committed and
  nothing else, and \<open>lpNxtPage\<close> is the first that is not.
\<close>

definition block_inv :: "64 word \<Rightarrow> nat \<Rightarrow> pages \<Rightarrow> bool" where
  "block_inv base ps s \<longleftrightarrow>
     unat (dwPageSize s) = ps \<and> unat (dwPages s) \<le> 80 \<and>
     lpNxtPage s = base + of_nat (unat (dwPages s) * ps) \<and>
     (\<forall>a. committed s a \<longleftrightarrow> unat (a - base) < unat (dwPages s) * ps)"

lemma offset_less:
  fixes a base K :: "64 word"
  shows "(unat (a - base) < unat K \<or> unat (a - (base + K)) < n) \<longleftrightarrow> unat (a - base) < unat K + n"
proof (cases "unat K \<le> unat (a - base)")
  case True
  have "unat (a - (base + K)) = unat (a - base) - unat K"
    using unat_sub_no_wrap[OF True] by (simp add: diff_diff_add)
  then show ?thesis using True by auto
qed simp

lemma block_bound:
  assumes "k \<le> 80" and "80 * ps < 2 ^ 32"
  shows "k * ps < (2 ^ 64 :: nat)"
proof -
  have "k * ps \<le> 80 * ps" using assms(1) by (rule mult_right_mono) simp
  also have "\<dots> < 2 ^ 64" using assms(2) by simp
  finally show ?thesis .
qed

lemma unat_block: "k \<le> 80 \<Longrightarrow> 80 * ps < 2 ^ 32 \<Longrightarrow> unat (of_nat (k * ps) :: 64 word) = k * ps"
  by (rule unat_less_imp_eq_of_nat) (simp only: block_bound len_num1 len_bit0 len_of_numeral_defs mult_1_right, simp add: block_bound[simplified])

lemma commit_page_inv:
  assumes inv: "block_inv base ps s" and "dwPages s < 80" and "80 * ps < 2 ^ 32"
  shows "block_inv base ps (commit_page s)" "unat (dwPages (commit_page s)) = Suc (unat (dwPages s))"
    "contents (commit_page s) = contents s"
proof -
  let ?k = "unat (dwPages s)"
  have k: "?k < 80" using assms(2) by (simp add: word_less_nat_alt)
  then have suc: "unat (dwPages s + 1) = Suc ?k" by (intro unat_add_1_no_wrap) simp
  have K: "unat (of_nat (?k * ps) :: 64 word) = ?k * ps" by (rule unat_block) (use k assms(3) in simp_all)
  have f: "unat (dwPageSize s) = ps" "lpNxtPage s = base + of_nat (?k * ps)"
    "\<And>a. committed s a \<longleftrightarrow> unat (a - base) < ?k * ps"
    using inv unfolding block_inv_def by blast+
  have nxt: "of_nat (Suc ?k * ps) = (of_nat (?k * ps) + of_nat ps :: 64 word)"
    by (simp only: mult_Suc of_nat_add add.commute)
  show "block_inv base ps (commit_page s)"
    unfolding block_inv_def commit_page_def
    using k offset_less[of _ base "of_nat (?k * ps)" ps, unfolded K]
    by (simp add: suc f nxt ucast_as_of_nat del: of_nat_mult mult_Suc) (simp add: add.commute)
  show "unat (dwPages (commit_page s)) = Suc (unat (dwPages s))" using suc by (simp add: commit_page_def)
qed (simp add: commit_page_def)

declare of_nat_mult [simp del]

lemma write_char_ok:
  "writable s (p + of_nat (sizeof_TCHAR * i)) \<Longrightarrow>
   write_char (Suc fuel) p i os s h = (Val (), s\<lparr>contents := (contents s)(p + of_nat (sizeof_TCHAR * i) \<mapsto> 97)\<rparr>, h)"
  by (simp add: Let_def bnd_gets_apply modify_apply)

lemma write_char_stop:
  assumes "\<not> writable s (p + of_nat (sizeof_TCHAR * i))"
    and "80 \<le> dwPages s \<or> rv (os h (VirtualAllocCommit (lpNxtPage s) (dwPageSize s))) = 0"
  shows "\<exists>n h'. write_char (Suc fuel) p i os s h = (Halted n, s, h')"
  using assms
  by (auto simp: Let_def bnd_gets_apply PageFaultExceptionFilter_def bnd_bnd bnd_ret bnd_call_apply halt_apply)

lemma write_char_commit:
  assumes "\<not> writable s (p + of_nat (sizeof_TCHAR * i))" and "dwPages s < 80"
    and "rv (os h (VirtualAllocCommit (lpNxtPage s) (dwPageSize s))) \<noteq> 0"
  shows "write_char (Suc fuel) p i os s h = write_char fuel p i os (commit_page s)
    (h @ [(VirtualAllocCommit (lpNxtPage s) (dwPageSize s), os h (VirtualAllocCommit (lpNxtPage s) (dwPageSize s)))])"
  using assms(1,3) assms(2)[unfolded not_le[symmetric]]
  by (simp add: Let_def bnd_gets_apply PageFaultExceptionFilter_def bnd_bnd bnd_ret bnd_call_apply
      andthen_def bnd_modify_apply)

lemma write_char_total:
  assumes bound: "80 * ps < 2 ^ 32"
  shows "\<lbrakk>block_inv base ps s; 80 - unat (dwPages s) < fuel\<rbrakk> \<Longrightarrow>
    \<exists>oc s' h'. write_char fuel p i os s h = (oc, s', h') \<and> block_inv base ps s' \<and> (oc = Val () \<or> (\<exists>n. oc = Halted n))"
proof (induction fuel arbitrary: s h)
  case 0
  then show ?case by simp
next
  case (Suc fuel)
  let ?w = "writable s (p + of_nat (sizeof_TCHAR * i))"
  let ?refused = "rv (os h (VirtualAllocCommit (lpNxtPage s) (dwPageSize s))) = 0"
  consider (ok) ?w | (stop) "\<not> ?w" "80 \<le> dwPages s \<or> ?refused" | (commit) "\<not> ?w" "dwPages s < 80" "\<not> ?refused"
    by fastforce
  then show ?case
  proof cases
    case ok
    then show ?thesis using Suc.prems(1) by (simp add: write_char_ok block_inv_def del: write_char.simps)
  next
    case stop
    then show ?thesis using write_char_stop[of s p i os h fuel] stop Suc.prems(1) by blast
  next
    case commit
    note inv = commit_page_inv[OF Suc.prems(1) commit(2) bound]
    have "80 - unat (dwPages (commit_page s)) < fuel"
      using Suc.prems(2) inv(2) commit(2) by (simp add: word_less_nat_alt)
    then show ?thesis using Suc.IH[OF inv(1)] write_char_commit[of s p i os h fuel] commit by simp
  qed
qed

lemma write_all_total:
  assumes bound: "80 * ps < 2 ^ 32"
  shows "block_inv base ps s \<Longrightarrow>
    \<exists>oc s' h'. write_all 81 p i n os s h = (oc, s', h') \<and> block_inv base ps s' \<and> (oc = Val () \<or> (\<exists>k. oc = Halted k))"
proof (induction n arbitrary: i s h)
  case 0
  then show ?case by (simp add: ret_apply)
next
  case (Suc n)
  have "80 - unat (dwPages s) < 81" by simp
  from write_char_total[OF bound Suc.prems this]
  obtain oc s1 h1 where w: "write_char 81 p i os s h = (oc, s1, h1)" "block_inv base ps s1"
    "oc = Val () \<or> (\<exists>n. oc = Halted n)"
    by blast
  from w(3) show ?case
  proof (elim disjE exE)
    assume "oc = Val ()"
    then show ?thesis using Suc.IH[OF w(2)] w(1) by (simp add: andthen_def bnd_def)
  next
    fix k assume "oc = Halted k"
    then show ?thesis using w(1,2) by (simp add: andthen_def bnd_def)
  qed
qed

section \<open>One character after another\<close>

definition cells :: "64 word \<Rightarrow> nat \<Rightarrow> 64 word set" where
  "cells base i = (\<lambda>j. base + of_nat (sizeof_TCHAR * j)) ` {..<i}"

text \<open>The state before the character \<open>i\<close> is written: just the pages that hold the characters so far are committed.\<close>

definition written_upto :: "64 word \<Rightarrow> nat \<Rightarrow> nat \<Rightarrow> pages \<Rightarrow> bool" where
  "written_upto base ps i s \<longleftrightarrow> block_inv base ps s \<and>
     2 * i \<le> unat (dwPages s) * ps \<and> unat (dwPages s) * ps < 2 * i + ps \<and> dom (contents s) = cells base i"

lemma cells_Suc: "cells base (Suc i) = insert (base + of_nat (sizeof_TCHAR * i)) (cells base i)"
  by (simp add: cells_def lessThan_Suc)

lemma writable_cell:
  assumes "block_inv base ps s" and "80 * ps < 2 ^ 32" and "2 * i \<le> unat (dwPages s) * ps"
  shows "writable s (base + of_nat (sizeof_TCHAR * i)) \<longleftrightarrow> 2 * i + 1 < unat (dwPages s) * ps"
proof -
  let ?k = "unat (dwPages s)"
  have "?k * ps \<le> 80 * ps" by (rule mult_right_mono) (use assms(1) in \<open>simp_all add: block_inv_def\<close>)
  then have "2 * i < 2 ^ 32" using assms(2,3) by linarith
  then have u: "unat (of_nat (2 * i) :: 64 word) = 2 * i" "unat (of_nat (2 * i + 1) :: 64 word) = 2 * i + 1"
    by (intro unat_less_imp_eq_of_nat; simp)+
  have c: "committed s a \<longleftrightarrow> unat (a - base) < ?k * ps" for a using assms(1) by (simp add: block_inv_def)
  have "base + of_nat (2 * i) - base = of_nat (2 * i)" "base + of_nat (2 * i) + 1 - base = of_nat (2 * i + 1)" by simp_all
  then show ?thesis
    unfolding writable_def c sizeof_TCHAR_def using u by (simp only:) auto
qed

definition commits_granted :: "pagecall os \<Rightarrow> bool" where
  "commits_granted os \<longleftrightarrow> (\<forall>h a n. rv (os h (VirtualAllocCommit a n)) \<noteq> 0)"

lemma written_Suc:
  assumes "block_inv base ps s" and "2 * i + 1 < unat (dwPages s) * ps" and "unat (dwPages s) * ps \<le> 2 * i + ps"
    and "dom (contents s) = cells base i"
  shows "written_upto base ps (Suc i) (s\<lparr>contents := (contents s)(base + of_nat (sizeof_TCHAR * i) \<mapsto> 97)\<rparr>)"
  using assms by (auto simp: written_upto_def block_inv_def cells_Suc)

lemma write_char_next:
  assumes commits: "commits_granted os"
    and ps: "even ps" "0 < ps" "80 * ps < 2 ^ 32"
    and w: "written_upto base ps i s" and i: "i < 40 * ps"
  shows "\<exists>s' h'. write_char 81 base i os s h = (Val (), s', h') \<and> written_upto base ps (Suc i) s'"
proof -
  let ?k = "unat (dwPages s)"
  have inv: "block_inv base ps s" and le: "2 * i \<le> ?k * ps" using w by (simp_all add: written_upto_def)
  have fuel: "(81 :: nat) = Suc (Suc 79)" by simp
  have "even (?k * ps)" using ps(1) by simp
  then consider (room) "2 * i + 1 < ?k * ps" | (edge) "2 * i = ?k * ps" using le by fastforce
  then show ?thesis
  proof cases
    case room
    then show ?thesis
      using write_char_ok[of s base i "80"] writable_cell[OF inv ps(3) le] written_Suc[OF inv room] w
      by (simp add: written_upto_def)
  next
    case edge
    have "?k < 80"
    proof (rule ccontr)
      assume "\<not> ?k < 80"
      then have "80 * ps \<le> ?k * ps" by (intro mult_right_mono) simp_all
      then show False using edge i by linarith
    qed
    then have k: "dwPages s < 80" by (simp add: word_less_nat_alt)
    have two: "1 < ps" using ps(1,2) by (metis One_nat_def Suc_lessI odd_one)
    let ?s = "commit_page s"
    note inv' = commit_page_inv[OF inv k ps(3)]
    have room: "2 * i + 1 < unat (dwPages ?s) * ps" and full: "unat (dwPages ?s) * ps \<le> 2 * i + ps"
      using inv' edge two by simp_all
    have "\<not> writable s (base + of_nat (sizeof_TCHAR * i))" using writable_cell[OF inv ps(3) le] edge by simp
    moreover have "writable ?s (base + of_nat (sizeof_TCHAR * i))"
      using writable_cell[OF inv'(1) ps(3), of i] room by simp
    ultimately show ?thesis
      using write_char_commit[of s base i os h "Suc 79"] k commits[unfolded commits_granted_def] write_char_ok[of ?s base i 79] written_Suc[OF inv'(1) room full] w inv'(3)
      unfolding fuel by (auto simp: written_upto_def simp del: write_char.simps)
  qed
qed

lemma write_all_exhausts:
  assumes commits: "commits_granted os"
    and ps: "even ps" "0 < ps" "80 * ps < 2 ^ 32"
  shows "\<lbrakk>written_upto base ps i s; i \<le> 40 * ps; 40 * ps < i + left\<rbrakk> \<Longrightarrow>
    \<exists>n s' h'. write_all 81 base i left os s h = (Halted n, s', h') \<and> written_upto base ps (40 * ps) s'"
proof (induction left arbitrary: i s h)
  case 0
  then show ?case by simp
next
  case (Suc left)
  show ?case
  proof (cases "i = 40 * ps")
    case True
    let ?k = "unat (dwPages s)"
    have inv: "block_inv base ps s" and le: "2 * i \<le> ?k * ps" using Suc.prems(1) by (simp_all add: written_upto_def)
    have "?k * ps \<le> 80 * ps" by (rule mult_right_mono) (use inv in \<open>simp_all add: block_inv_def\<close>)
    then have k: "?k * ps = 80 * ps" using le True by linarith
    then have "80 \<le> dwPages s" using ps(2) by (simp add: word_le_nat_alt)
    moreover have "\<not> writable s (base + of_nat (sizeof_TCHAR * i))"
      using writable_cell[OF inv ps(3) le] True k by simp
    ultimately obtain n h' where "write_char 81 base i os s h = (Halted n, s, h')"
      using write_char_stop[of s base i os h 80] by auto
    then show ?thesis using Suc.prems(1) True by (simp add: andthen_def bnd_def)
  next
    case False
    obtain s1 h1 where w: "write_char 81 base i os s h = (Val (), s1, h1)" "written_upto base ps (Suc i) s1"
      using write_char_next[OF commits ps Suc.prems(1)] Suc.prems(2) False by (metis le_neq_implies_less)
    then show ?thesis using Suc.IH[OF w(2)] Suc.prems False by (simp add: andthen_def bnd_def)
  qed
qed

section \<open>The program\<close>

lemma reserved_start:
  "block_inv base (unat ps) (pages_start\<lparr>dwPageSize := ps, lpNxtPage := base\<rparr>)"
  by (simp add: block_inv_def pages_start_def)

lemma unat_limit: "80 * unat ps < 2 ^ 32 \<Longrightarrow> unat (80 * ps :: DWORD) = 80 * unat ps"
  by (simp add: unat_word_ariths)

text \<open>
  C18: However the calls are answered, the program ends: each access is tried at most 81 times, the
  filter never commits more than the 80 pages that were reserved, and the committed memory is always
  exactly the first \<open>dwPages\<close> pages of the block, with \<open>lpNxtPage\<close> behind them.
\<close>

theorem pages_committed_in_order:
  assumes "ucast (out (os [] GetSystemInfo)) = ps" and "80 * unat ps < 2 ^ 32"
    and "rv (os [(GetSystemInfo, os [] GetSystemInfo)] (VirtualAllocReserve (80 * ps))) = base" and "base \<noteq> 0"
  shows "\<exists>oc s' h'. reserve_main 81 os pages_start [] = (oc, s', h') \<and>
    block_inv base (unat ps) s' \<and> (oc = Val 0 \<or> (\<exists>n. oc = Halted n))"
proof -
  let ?h = "[(GetSystemInfo, os [] GetSystemInfo),
    (VirtualAllocReserve (80 * ps), os [(GetSystemInfo, os [] GetSystemInfo)] (VirtualAllocReserve (80 * ps)))]"
  let ?s = "pages_start\<lparr>dwPageSize := ps, lpNxtPage := base\<rparr>"
  obtain oc s' h' where w: "write_all 81 base 0 (unat (80 * ps)) os ?s ?h = (oc, s', h')"
    "block_inv base (unat ps) s'" "oc = Val () \<or> (\<exists>k. oc = Halted k)"
    using write_all_total[OF assms(2) reserved_start] by blast
  have m: "reserve_main 81 os pages_start [] = andthen (write_all 81 base 0 (unat (80 * ps)))
      (andthen (do_call (VirtualFree base)) (ret 0)) os ?s ?h"
    using assms(1,3,4) by (simp add: reserve_main_def bnd_call_apply andthen_def bnd_modify_apply pages_start_def)
  from w(3) show ?thesis
    by (elim disjE exE) (use w(1,2) m in \<open>auto simp: andthen_def bnd_def do_call_def call_def ret_def\<close>)
qed

text \<open>A system that grants everything, with pages of 4096 bytes and the block at 0x10000000.\<close>

definition granting :: "pagecall os" where
  "granting h c = (case c of GetSystemInfo \<Rightarrow> ok_resp\<lparr>out := 4096\<rparr> | VirtualAllocReserve n \<Rightarrow> ok_resp\<lparr>rv := 0x10000000\<rparr>
     | _ \<Rightarrow> ok_resp)"

theorem pages_committed_witness:
  "\<exists>oc s' h'. reserve_main 81 granting pages_start [] = (oc, s', h') \<and>
    block_inv 0x10000000 4096 s' \<and> (oc = Val 0 \<or> (\<exists>n. oc = Halted n))"
  using pages_committed_in_order[of granting 4096 "0x10000000"] by (simp add: granting_def)

text \<open>
  The program never reaches its end: the loop counts bytes but writes wide characters, so when
  every call succeeds it has used up the 80 reserved pages after half of its iterations and ends the
  process from the exception handler, without releasing the block.
\<close>

theorem unicode_loop_exhausts_block:
  assumes "ucast (out (os [] GetSystemInfo)) = ps" and "80 * unat ps < 2 ^ 32" and "even (unat ps)" and "ps \<noteq> 0"
    and "rv (os [(GetSystemInfo, os [] GetSystemInfo)] (VirtualAllocReserve (80 * ps))) = base" and "base \<noteq> 0"
    and "commits_granted os"
  shows "\<exists>n s' h'. reserve_main 81 os pages_start [] = (Halted n, s', h') \<and>
    dom (contents s') = cells base (40 * unat ps)"
proof -
  let ?h = "[(GetSystemInfo, os [] GetSystemInfo),
    (VirtualAllocReserve (80 * ps), os [(GetSystemInfo, os [] GetSystemInfo)] (VirtualAllocReserve (80 * ps)))]"
  let ?s = "pages_start\<lparr>dwPageSize := ps, lpNxtPage := base\<rparr>"
  have pos: "0 < unat ps" using assms(4) by (simp add: unat_gt_0)
  have "written_upto base (unat ps) 0 ?s"
    using reserved_start[of base ps] pos by (simp add: written_upto_def pages_start_def cells_def)
  then obtain n s' h' where w: "write_all 81 base 0 (unat (80 * ps)) os ?s ?h = (Halted n, s', h')"
    "written_upto base (unat ps) (40 * unat ps) s'"
    using write_all_exhausts[OF assms(7,3) pos assms(2), of base 0 ?s "unat (80 * ps)" ?h] pos
    by (auto simp: unat_limit[OF assms(2)])
  have "reserve_main 81 os pages_start [] = andthen (write_all 81 base 0 (unat (80 * ps)))
      (andthen (do_call (VirtualFree base)) (ret 0)) os ?s ?h"
    using assms(1,5,6) by (simp add: reserve_main_def bnd_call_apply andthen_def bnd_modify_apply pages_start_def)
  then show ?thesis using w by (simp add: andthen_def bnd_def written_upto_def)
qed

theorem unicode_loop_witness:
  "\<exists>n s' h'. reserve_main 81 granting pages_start [] = (Halted n, s', h') \<and>
    dom (contents s') = cells 0x10000000 163840"
  using unicode_loop_exhausts_block[of granting 4096 "0x10000000"] by (simp add: granting_def commits_granted_def)

section \<open>The guard page\<close>

text \<open>
  A guard page as documented: the first access fails and removes the guard, the next one succeeds.
  The program then prints what its header comment says.
\<close>

lemma guard_page_trips_once:
  assumes "rv (os [(GetSystemInfo, i)] (VirtualAllocGuard (ucast (out i)))) = a" and "os [] GetSystemInfo = i" and "a \<noteq> 0"
    and "\<And>h n. rv (os h (VirtualLock a n)) = (if (\<exists>r n. (VirtualLock a n, r) \<in> set h) then 1 else 0)"
  shows "outcome_of (guard_main os s []) = Val (0, [False, True])"
  using assms by (simp add: guard_main_def bnd_call_apply andthen_def bnd_bnd bnd_ret do_call_def whenM_def ret_apply)

end
