(* ===== verification/Registry.thy ===== *)
theory Registry
  imports Win32_Prelude
begin

text \<open>
  The two registry interfaces of RegEditor: the functions of RegReads.cpp (namespace WinReg), which
  convert sizes to lengths themselves, and the templates of registry.ixx (namespace Registry), here
  instantiated as the program uses them.  The registry is the operating system's; \<open>faithful\<close> states
  what its documentation promises about reading what was written.
\<close>

section \<open>System calls\<close>

datatype regtype = REG_SZ | REG_DWORD | REG_QWORD

datatype regcall =
    RegGetValue HANDLE wstring wstring regtype "DWORD option"
  | RegOpenKeyEx HANDLE wstring
  | RegCreateKeyEx HANDLE wstring
  | RegCloseKey HANDLE
  | RegSetValueEx HANDLE wstring "BYTE list"
  | RegSetKeyValueW HANDLE wstring wstring regtype "BYTE list"
  | RegDeleteTreeW HANDLE wstring

text \<open>The exceptions of the two namespaces, and the one of \<open>std::expected::value\<close>.\<close>

datatype regerr = RegistryError LONG | BadExpectedAccess LONG | NullKey

type_synonym 'a rio = "(unit, regcall, regerr, 'a) io"

definition wide_bytes :: "wstring \<Rightarrow> BYTE list" where
  "wide_bytes s = concat (map (\<lambda>w. [ucast w, ucast (drop_bit 8 w)]) s)"

text \<open>\<open>std::wstring::resize\<close>, and what a call leaves in a string it is given as a buffer.\<close>

definition resize :: "nat \<Rightarrow> wstring \<Rightarrow> wstring" where
  "resize n s = take n s @ replicate (n - length s) 0"

definition filled :: "wstring \<Rightarrow> resp \<Rightarrow> wstring" where
  "filled data r = overwrite 0 (take (length data) (wide_of (buf r))) data"

section \<open>WinReg: RegReads.cpp\<close>

definition RegGetString :: "HANDLE \<Rightarrow> wstring \<Rightarrow> wstring \<Rightarrow> wstring rio" where
  "RegGetString hKey subKey value =
     bnd (call (RegGetValue hKey subKey value REG_SZ None)) (\<lambda>r.
     if rv r \<noteq> 0 then throw (RegistryError (ucast (rv r))) else
     let dataSize = ucast (out r) :: DWORD;
         data = resize (unat (dataSize div 2)) [] in
     bnd (call (RegGetValue hKey subKey value REG_SZ (Some dataSize))) (\<lambda>r.
     if rv r \<noteq> 0 then throw (RegistryError (ucast (rv r))) else
     let data = filled data r;
         stringLengthInWchars = (ucast (out r) :: DWORD) div 2 - 1 in
     ret (resize (unat stringLengthInWchars) data)))"

text \<open>The overload that reports success: the result and, if there is one, the new \<open>out\<close>.\<close>

definition RegGetString_out :: "HANDLE \<Rightarrow> wstring \<Rightarrow> wstring \<Rightarrow> (bool \<times> wstring option) rio" where
  "RegGetString_out hKey subKey value =
     bnd (call (RegGetValue hKey subKey value REG_SZ None)) (\<lambda>r.
     if rv r \<noteq> 0 then ret (False, None) else
     let dataSize = ucast (out r) :: DWORD;
         data = resize (unat (dataSize div 2)) [] in
     bnd (call (RegGetValue hKey subKey value REG_SZ (Some dataSize))) (\<lambda>r.
     if rv r \<noteq> 0 then ret (False, None) else
     let data = filled data r;
         stringLengthInWchars = (ucast (out r) :: DWORD) div 2 - 1 in
     ret (True, Some (resize (unat stringLengthInWchars) data))))"

definition RegGetDword :: "HANDLE \<Rightarrow> wstring \<Rightarrow> wstring \<Rightarrow> DWORD rio" where
  "RegGetDword hKey subKey value =
     bnd (call (RegGetValue hKey subKey value REG_DWORD (Some 4))) (\<lambda>r.
     if rv r \<noteq> 0 then throw (RegistryError (ucast (rv r))) else ret (dword_of (take 4 (buf r))))"

text \<open>The overload that returns \<open>retCode != ERROR_SUCCESS\<close>, with the data it read.\<close>

definition RegGetDword_out :: "HANDLE \<Rightarrow> wstring \<Rightarrow> wstring \<Rightarrow> (bool \<times> DWORD) rio" where
  "RegGetDword_out hKey subKey value =
     bnd (call (RegGetValue hKey subKey value REG_DWORD (Some 4))) (\<lambda>r. ret (rv r \<noteq> 0, dword_of (take 4 (buf r))))"

definition DoesKeyExist :: "HANDLE \<Rightarrow> wstring \<Rightarrow> bool rio" where
  "DoesKeyExist hKey subKey = bnd (call (RegOpenKeyEx hKey subKey)) (\<lambda>r.
     andthen (whenM (out r \<noteq> 0) (do_call (RegCloseKey (out r)))) (ret (rv r = 0)))"

text \<open>The disposition is the first of the further results; 1 is \<open>REG_CREATED_NEW_KEY\<close>.\<close>

definition WinReg_CreateKey :: "HANDLE \<Rightarrow> wstring \<Rightarrow> bool rio" where
  "WinReg_CreateKey hKey subKey = bnd (call (RegCreateKeyEx hKey subKey)) (\<lambda>r.
     if rv r \<noteq> 0 then throw (RegistryError (ucast (rv r))) else
     andthen (do_call (RegCloseKey (out r))) (ret (hd (outs r @ [0]) = 1)))"

definition WriteKey :: "HANDLE \<Rightarrow> wstring \<Rightarrow> wstring \<Rightarrow> wstring \<Rightarrow> unit rio" where
  "WriteKey hKey subKey keyName keyValue = bnd (call (RegOpenKeyEx hKey subKey)) (\<lambda>r.
     if rv r \<noteq> 0 then throw (RegistryError (ucast (rv r))) else
     bnd (call (RegSetValueEx (out r) keyName (wide_bytes (keyValue @ [0])))) (\<lambda>v.
     andthen (do_call (RegCloseKey (out r)))
     (if rv v \<noteq> 0 then throw (RegistryError (ucast (rv v))) else ret ())))"

definition DeleteTree :: "HANDLE \<Rightarrow> wstring \<Rightarrow> unit rio" where
  "DeleteTree hkey subkey = bnd (call (RegDeleteTreeW hkey subkey)) (\<lambda>r.
     if rv r \<noteq> 0 then throw (RegistryError (ucast (rv r))) else ret ())"

section \<open>Registry: registry.ixx\<close>

text \<open>
  \<open>Get<std::wstring>\<close>: the length of the string is fixed by the first answer, and the last character
  is popped, which is undefined for an empty string.
\<close>

definition Get_wstring :: "HANDLE \<Rightarrow> wstring \<Rightarrow> wstring \<Rightarrow> (LONG + wstring) rio" where
  "Get_wstring hKey subKey value =
     bnd (call (RegGetValue hKey subKey value REG_SZ None)) (\<lambda>r.
     if rv r \<noteq> 0 then ret (Inl (ucast (rv r))) else
     let dataSize = ucast (out r) :: DWORD;
         data = resize (unat (dataSize div 2)) [] in
     bnd (call (RegGetValue hKey subKey value REG_SZ (Some dataSize))) (\<lambda>r.
     if rv r \<noteq> 0 then ret (Inl (ucast (rv r))) else
     let data = filled data r in
     if data = [] then fault else ret (Inr (butlast data))))"

definition Get_DWORD :: "HANDLE \<Rightarrow> wstring \<Rightarrow> wstring \<Rightarrow> (LONG + DWORD) rio" where
  "Get_DWORD hKey subKey value = bnd (call (RegGetValue hKey subKey value REG_DWORD (Some 4))) (\<lambda>r.
     ret (if rv r \<noteq> 0 then Inl (ucast (rv r)) else Inr (dword_of (take 4 (buf r)))))"

text \<open>The two return types: a throw, or the \<open>std::expected\<close> itself.\<close>

definition or_throw :: "(LONG + 'a) rio \<Rightarrow> 'a rio" where
  "or_throw m = bnd m (\<lambda>x. case x of Inl e \<Rightarrow> throw (RegistryError e) | Inr a \<Rightarrow> ret a)"

definition expected_value :: "(LONG + 'a) rio \<Rightarrow> 'a rio" where
  "expected_value m = bnd m (\<lambda>x. case x of Inl e \<Rightarrow> throw (BadExpectedAccess e) | Inr a \<Rightarrow> ret a)"

definition CreateKey :: "HANDLE \<Rightarrow> wstring \<Rightarrow> HANDLE rio" where
  "CreateKey hKey subKey = bnd (call (RegCreateKeyEx hKey subKey)) (\<lambda>r.
     if rv r \<noteq> 0 then throw (RegistryError (ucast (rv r))) else ret (out r))"

definition RegKeyDeleter :: "HANDLE \<Rightarrow> unit rio" where
  "RegKeyDeleter key = whenM (key \<noteq> 0) (do_call (RegCloseKey key))"

text \<open>\<open>Set<std::wstring>\<close> writes the characters without their terminator.\<close>

definition Set_wstring :: "HANDLE \<Rightarrow> wstring \<Rightarrow> wstring \<Rightarrow> wstring \<Rightarrow> unit rio" where
  "Set_wstring parent subkey valueName value = (if parent = 0 then throw NullKey else
     bnd (call (RegSetKeyValueW parent subkey valueName REG_SZ (wide_bytes value))) (\<lambda>r.
     if rv r \<noteq> 0 then throw (RegistryError (ucast (rv r))) else ret ()))"

section \<open>RegEditor: main\<close>

abbreviation (input) HKEY_CURRENT_USER :: HANDLE where "HKEY_CURRENT_USER \<equiv> 0xFFFFFFFF80000001"

definition test_key :: wstring where
  "test_key = wstr ''SOFTWARE'' @ [0x5C] @ wstr ''WinRegTest''"

text \<open>What is printed: the two strings.\<close>

definition NewTests :: "(wstring \<times> wstring) rio" where
  "NewTests = bnd (CreateKey HKEY_CURRENT_USER test_key) (\<lambda>k. andthen (RegKeyDeleter k)
     (andthen (Set_wstring HKEY_CURRENT_USER test_key (wstr ''ValueName'') (wstr ''test''))
     (bnd (or_throw (Get_wstring HKEY_CURRENT_USER test_key (wstr ''ValueName''))) (\<lambda>a.
      bnd (expected_value (Get_wstring HKEY_CURRENT_USER test_key (wstr ''ValueName''))) (\<lambda>b.
      andthen (DeleteTree HKEY_CURRENT_USER test_key) (ret (a, b)))))))"

definition OldTests :: "(bool \<times> wstring \<times> wstring) rio" where
  "OldTests = (let A = wstr ''ValueA''; B = wstr ''ValueB''; key = HKEY_CURRENT_USER in
     bnd (DoesKeyExist key test_key) (\<lambda>e.
     andthen (WinReg_CreateKey key test_key)
     (andthen (WriteKey key test_key A A)
     (andthen (WriteKey key test_key B B)
     (bnd (RegGetString key test_key A) (\<lambda>a.
      bnd (RegGetString key test_key B) (\<lambda>b.
      andthen (DeleteTree key test_key) (ret (e, a, b)))))))))"

section \<open>What the registry holds\<close>

text \<open>A key and the keys below it.\<close>

definition below :: "wstring \<Rightarrow> wstring \<Rightarrow> bool" where
  "below sk k \<longleftrightarrow> k = sk \<or> take (length sk + 1) k = sk @ [0x5C]"

text \<open>
  The contents of the registry as a history determines them: which key a handle stands for, and the
  value last written under a key and a name.
\<close>

record regstate =
  open_keys :: "HANDLE \<rightharpoonup> HANDLE \<times> wstring"
  reg_values :: "HANDLE \<times> wstring \<times> wstring \<rightharpoonup> BYTE list"

fun reg_effect :: "regstate \<Rightarrow> regcall \<times> resp \<Rightarrow> regstate" where
  "reg_effect s (RegOpenKeyEx k sk, r) = (if rv r = 0 then s\<lparr>open_keys := (open_keys s)(out r \<mapsto> (k, sk))\<rparr> else s)"
| "reg_effect s (RegCreateKeyEx k sk, r) = (if rv r = 0 then s\<lparr>open_keys := (open_keys s)(out r \<mapsto> (k, sk))\<rparr> else s)"
| "reg_effect s (RegSetValueEx h n bs, r) = (case open_keys s h of
       Some (k, sk) \<Rightarrow> if rv r = 0 then s\<lparr>reg_values := (reg_values s)((k, sk, n) \<mapsto> bs)\<rparr> else s
     | None \<Rightarrow> s)"
| "reg_effect s (RegSetKeyValueW k sk n t bs, r) =
     (if rv r = 0 then s\<lparr>reg_values := (reg_values s)((k, sk, n) \<mapsto> bs)\<rparr> else s)"
| "reg_effect s (RegDeleteTreeW k sk, r) =
     (if rv r = 0 then s\<lparr>reg_values := (\<lambda>x. if fst x = k \<and> below sk (fst (snd x)) then None else reg_values s x)\<rparr> else s)"
| "reg_effect s (c, r) = s"

definition reg_of :: "regcall history \<Rightarrow> regstate" where
  "reg_of h = foldl reg_effect \<lparr>open_keys = Map.empty, reg_values = Map.empty\<rparr> h"

text \<open>
  A string as it is read: \<open>RegGetValue\<close> adds a terminator to a string that was stored without one,
  and its sizes count it.
\<close>

definition terminated :: "BYTE list \<Rightarrow> BYTE list" where
  "terminated bs = (if wide_of bs \<noteq> [] \<and> last (wide_of bs) = 0 then bs else bs @ [0, 0])"

definition faithful :: "regcall os \<Rightarrow> bool" where
  "faithful os \<longleftrightarrow> (\<forall>h k sk n bs. reg_values (reg_of h) (k, sk, n) = Some bs \<longrightarrow> length (terminated bs) < 2 ^ 32 \<longrightarrow>
     (let r = os h (RegGetValue k sk n REG_SZ None) in rv r = 0 \<and> out r = of_nat (length (terminated bs))) \<and>
     (\<forall>m. length (terminated bs) \<le> unat m \<longrightarrow>
        (let r = os h (RegGetValue k sk n REG_SZ (Some m)) in
           rv r = 0 \<and> out r = of_nat (length (terminated bs)) \<and> buf r = terminated bs)))"

section \<open>Reading what was written\<close>

lemma reg_of_snoc [simp]: "reg_of (h @ [x]) = reg_effect (reg_of h) x"
  by (simp add: reg_of_def)

lemma word_of_bytes: "ucast (ucast w :: BYTE) + 256 * ucast (ucast (drop_bit 8 w) :: BYTE) = (w :: WCHAR)"
proof -
  have low: "ucast (ucast w :: BYTE) = take_bit 8 w"
    by (rule bit_word_eqI) (auto simp: bit_simps)
  have high: "ucast (ucast (drop_bit 8 w) :: BYTE) = drop_bit 8 w"
    by (rule bit_word_eqI) (auto simp: bit_simps dest: bit_imp_le_length)
  have "take_bit 8 w + push_bit 8 (drop_bit 8 w) = w" using bits_ident[of 8 w] by (simp only: add.commute)
  then show ?thesis unfolding low high by (simp add: push_bit_eq_mult mult.commute)
qed

lemma wide_of_wide_bytes [simp]: "wide_of (wide_bytes s) = s"
  by (induction s) (simp_all add: wide_bytes_def word_of_bytes)

lemma length_wide_bytes [simp]: "length (wide_bytes s) = 2 * length s"
  by (induction s) (simp_all add: wide_bytes_def)

lemma wide_bytes_append: "wide_bytes (s @ t) = wide_bytes s @ wide_bytes t"
  by (simp add: wide_bytes_def)

lemma terminated_wide: "terminated (wide_bytes (s @ [0])) = wide_bytes (s @ [0])"
  by (simp add: terminated_def)

lemma terminated_bare: "s = [] \<or> last s \<noteq> 0 \<Longrightarrow> terminated (wide_bytes s) = wide_bytes (s @ [0])"
  by (auto simp: terminated_def wide_bytes_append) (simp_all add: wide_bytes_def)

lemma faithfulD:
  assumes "faithful os" and "reg_values (reg_of h) (k, sk, n) = Some bs" and "terminated bs = wide_bytes (s @ [0])"
    and "2 * (length s + 1) < 2 ^ 32"
  shows "rv (os h (RegGetValue k sk n REG_SZ None)) = 0"
    and "ucast (out (os h (RegGetValue k sk n REG_SZ None))) = (of_nat (2 * (length s + 1)) :: DWORD)"
    and "rv (os h (RegGetValue k sk n REG_SZ (Some (of_nat (2 * (length s + 1)))))) = 0"
    and "ucast (out (os h (RegGetValue k sk n REG_SZ (Some (of_nat (2 * (length s + 1))))))) = (of_nat (2 * (length s + 1)) :: DWORD)"
    and "buf (os h (RegGetValue k sk n REG_SZ (Some (of_nat (2 * (length s + 1)))))) = wide_bytes (s @ [0])"
proof -
  let ?L = "2 * (length s + 1)"
  have len: "length (terminated bs) = ?L" using assms(3) by simp
  have u: "unat (of_nat ?L :: DWORD) = ?L" by (rule unat_less_imp_eq_of_nat) (use assms(4) in simp)
  have uc: "(ucast (of_nat ?L :: 64 word) :: DWORD) = of_nat ?L"
    using assms(4) by (simp only: ucast_as_of_nat) (subst unat_less_imp_eq_of_nat, simp_all)
  have "length (terminated bs) < 2 ^ 32" using len assms(4) by simp
  note sp = assms(1)[unfolded faithful_def Let_def, rule_format, OF assms(2) this, unfolded len, unfolded assms(3)]
  have f: "rv (os h (RegGetValue k sk n REG_SZ None)) = 0" "out (os h (RegGetValue k sk n REG_SZ None)) = of_nat ?L"
    "\<And>m. ?L \<le> unat m \<Longrightarrow> rv (os h (RegGetValue k sk n REG_SZ (Some m))) = 0 \<and>
        out (os h (RegGetValue k sk n REG_SZ (Some m))) = of_nat ?L \<and>
        buf (os h (RegGetValue k sk n REG_SZ (Some m))) = wide_bytes (s @ [0])"
    using sp by blast+
  note g = f(3)[of "of_nat ?L", unfolded u, OF order_refl]
  show "rv (os h (RegGetValue k sk n REG_SZ None)) = 0" by (rule f(1))
  show "ucast (out (os h (RegGetValue k sk n REG_SZ None))) = (of_nat ?L :: DWORD)" unfolding f(2) by (rule uc)
  show "rv (os h (RegGetValue k sk n REG_SZ (Some (of_nat ?L)))) = 0" using g by blast
  show "ucast (out (os h (RegGetValue k sk n REG_SZ (Some (of_nat ?L))))) = (of_nat ?L :: DWORD)" using g uc by (simp only:)
  show "buf (os h (RegGetValue k sk n REG_SZ (Some (of_nat ?L)))) = wide_bytes (s @ [0])" using g by blast
qed

lemma half_size:
  assumes "2 * (n + 1) < 2 ^ 32"
  shows "unat ((of_nat (2 * (n + 1)) :: DWORD) div 2) = n + 1" and "unat ((of_nat (2 * (n + 1)) :: DWORD) div 2 - 1) = n"
proof -
  have "unat (of_nat (2 * (n + 1)) :: DWORD) = 2 * (n + 1)" by (rule unat_less_imp_eq_of_nat) (use assms in simp)
  then show d: "unat ((of_nat (2 * (n + 1)) :: DWORD) div 2) = n + 1" by (simp only: unat_div) simp
  then have nz: "(of_nat (2 * (n + 1)) :: DWORD) div 2 \<noteq> 0" by (metis Suc_eq_plus1 nat.distinct(1) unsigned_0)
  show "unat ((of_nat (2 * (n + 1)) :: DWORD) div 2 - 1) = n" unfolding unat_sub_1_no_wrap[OF nz] d by simp
qed

lemma filled_string:
  "buf r = wide_bytes (s @ [0]) \<Longrightarrow> filled (resize (length s + 1) []) r = s @ [0]"
  by (simp add: filled_def resize_def overwrite_def)

lemma read_run:
  assumes "rv (os h (RegGetValue k sk n REG_SZ None)) = 0" and "ucast (out (os h (RegGetValue k sk n REG_SZ None))) = (d :: DWORD)"
    and "h2 = h @ [(RegGetValue k sk n REG_SZ None, os h (RegGetValue k sk n REG_SZ None))]"
    and "r = os h2 (RegGetValue k sk n REG_SZ (Some d))" and "rv r = 0"
  shows "RegGetString k sk n os u h = (Val (resize (unat ((ucast (out r) :: DWORD) div 2 - 1))
      (filled (resize (unat (d div 2)) []) r)), u, h2 @ [(RegGetValue k sk n REG_SZ (Some d), r)])"
    and "Get_wstring k sk n os u h = ((if filled (resize (unat (d div 2)) []) r = [] then Fault else
      Val (Inr (butlast (filled (resize (unat (d div 2)) []) r)))), u, h2 @ [(RegGetValue k sk n REG_SZ (Some d), r)])"
  using assms(5) unfolding assms(4) assms(3) assms(2)[symmetric]
  by (simp_all add: RegGetString_def Get_wstring_def bnd_call_apply Let_def assms(1) ret_apply fault_apply)

lemma read_back:
  assumes "faithful os" and "reg_values (reg_of h) (k, sk, n) = Some bs" and "terminated bs = wide_bytes (s @ [0])"
    and len: "2 * (length s + 1) < 2 ^ 32"
  shows "\<exists>h'. RegGetString k sk n os u h = (Val s, u, h')" and "\<exists>h'. Get_wstring k sk n os u h = (Val (Inr s), u, h')"
proof -
  let ?q = "RegGetValue k sk n REG_SZ None"
  let ?h = "h @ [(?q, os h ?q)]"
  have "reg_values (reg_of ?h) (k, sk, n) = Some bs" using assms(2) by simp
  note f = faithfulD[OF assms(1,2,3,4)] and g = faithfulD[OF assms(1) this assms(3,4)]
  note run = read_run[OF f(1,2) refl refl g(3), unfolded g(4) half_size[OF len] filled_string[OF g(5)]]
  have "resize (length s) (s @ [0]) = s" by (simp add: resize_def)
  then show "\<exists>h'. RegGetString k sk n os u h = (Val s, u, h')" unfolding run by simp
  show "\<exists>h'. Get_wstring k sk n os u h = (Val (Inr s), u, h')" unfolding run by simp
qed

lemma WriteKey_stores:
  assumes "WriteKey k sk n s os u h = (Val (), u', h')"
  shows "reg_values (reg_of h') (k, sk, n) = Some (wide_bytes (s @ [0]))"
proof -
  let ?o = "RegOpenKeyEx k sk"
  let ?h = "h @ [(?o, os h ?o)]"
  let ?v = "RegSetValueEx (out (os h ?o)) n (wide_bytes (s @ [0]))"
  have ok: "rv (os h ?o) = 0"
    using assms by (auto simp: WriteKey_def bnd_call_apply throw_apply split: if_splits)
  then have "rv (os ?h ?v) = 0" and h': "\<exists>r. h' = (?h @ [(?v, os ?h ?v)]) @ [(RegCloseKey (out (os h ?o)), r)]"
    using assms by (auto simp: WriteKey_def bnd_call_apply andthen_def do_call_def bnd_bnd bnd_ret throw_apply ret_apply
        split: if_splits)
  then show ?thesis using ok by (auto simp del: append_assoc)
qed

lemma Set_wstring_stores:
  assumes "Set_wstring k sk n s os u h = (Val (), u', h')"
  shows "reg_values (reg_of h') (k, sk, n) = Some (wide_bytes s)"
  using assms by (auto simp: Set_wstring_def bnd_call_apply throw_apply ret_apply split: if_splits)

text \<open>
  C19: What \<open>WriteKey\<close> writes, \<open>RegGetString\<close> reads: if the first returns, the second returns the same
  string, its embedded zeros included.
\<close>

theorem registry_write_read:
  assumes "faithful os" and "2 * (length s + 1) < 2 ^ 32" and "WriteKey k sk n s os u h = (Val (), u', h')"
  shows "\<exists>h''. RegGetString k sk n os u' h' = (Val s, u', h'')"
  by (rule read_back(1)[OF assms(1) WriteKey_stores[OF assms(3)] terminated_wide assms(2)])

text \<open>
  What \<open>Registry::Set\<close> writes, \<open>Registry::Get\<close> reads, provided the string does not end with a zero:
  it is stored without its terminator, which is added when it is read, and popped.
\<close>

theorem registry_set_get:
  assumes "faithful os" and "2 * (length s + 1) < 2 ^ 32" and "s = [] \<or> last s \<noteq> 0"
    and "Set_wstring k sk n s os u h = (Val (), u', h')"
  shows "\<exists>h''. Get_wstring k sk n os u' h' = (Val (Inr s), u', h'')"
  by (rule read_back(2)[OF assms(1) Set_wstring_stores[OF assms(4)] terminated_bare[OF assms(3)] assms(2)])

text \<open>A registry that keeps what it is given, for the witnesses.\<close>

definition keeping :: "regcall os" where
  "keeping h c = (case c of
      RegGetValue k sk n t m \<Rightarrow> (case reg_values (reg_of h) (k, sk, n) of
          Some bs \<Rightarrow> fail_resp\<lparr>out := of_nat (length (terminated bs)), buf := terminated bs\<rparr>
        | None \<Rightarrow> fail_resp\<lparr>rv := 2\<rparr>)
    | RegOpenKeyEx k sk \<Rightarrow> fail_resp\<lparr>out := 7\<rparr>
    | _ \<Rightarrow> fail_resp)"

lemma keeping_faithful: "faithful keeping"
  by (simp add: faithful_def keeping_def Let_def)

theorem registry_write_read_witness:
  "\<exists>h''. RegGetString 5 (wstr ''K'') (wstr ''N'') keeping ()
     (history_of (WriteKey 5 (wstr ''K'') (wstr ''N'') (wstr ''text'') keeping () [])) = (Val (wstr ''text''), (), h'')"
proof (rule registry_write_read[OF keeping_faithful])
  show "WriteKey 5 (wstr ''K'') (wstr ''N'') (wstr ''text'') keeping () [] =
     (Val (), (), history_of (WriteKey 5 (wstr ''K'') (wstr ''N'') (wstr ''text'') keeping () []))"
    by (simp add: WriteKey_def keeping_def bnd_call_apply andthen_def do_call_def bnd_bnd bnd_ret ret_apply)
qed (simp add: wstr_def)

theorem registry_set_get_witness:
  "\<exists>h''. Get_wstring 5 (wstr ''K'') (wstr ''N'') keeping ()
     (history_of (Set_wstring 5 (wstr ''K'') (wstr ''N'') (wstr ''text'') keeping () [])) = (Val (Inr (wstr ''text'')), (), h'')"
proof (rule registry_set_get[OF keeping_faithful])
  show "Set_wstring 5 (wstr ''K'') (wstr ''N'') (wstr ''text'') keeping () [] =
     (Val (), (), history_of (Set_wstring 5 (wstr ''K'') (wstr ''N'') (wstr ''text'') keeping () []))"
    by (simp add: Set_wstring_def keeping_def bnd_call_apply ret_apply)
  show "wstr ''text'' = [] \<or> last (wstr ''text'') \<noteq> 0" by code_simp
qed (simp add: wstr_def)

section \<open>Further facts\<close>

text \<open>The overload of \<open>RegGetDword\<close> that returns a flag says \<open>true\<close> exactly when the read failed.\<close>

lemma RegGetDword_flag_inverted:
  "(\<exists>d h'. RegGetDword_out k sk n os u h = (Val (True, d), u, h')) \<longleftrightarrow> (\<exists>e h'. RegGetDword k sk n os u h = (Exn e, u, h'))"
  by (simp add: RegGetDword_out_def RegGetDword_def bnd_call_apply ret_apply throw_apply)

text \<open>
  If the system ever reports a size below that of one character, the length wraps around and the
  result is extended to \<open>2 ^ 32 - 1\<close> characters, and \<open>Registry::Get\<close> pops from an empty string.
\<close>

lemma short_value_wraps:
  assumes "\<And>h m. rv (os h (RegGetValue k sk n REG_SZ m)) = 0" and "\<And>h m. (ucast (out (os h (RegGetValue k sk n REG_SZ m))) :: DWORD) < 2"
  shows "\<exists>v h'. RegGetString k sk n os u h = (Val v, u, h') \<and> length v = 4294967295"
    and "outcome_of (Get_wstring k sk n os u h) = Fault"
proof -
  have z: "(ucast (out (os h (RegGetValue k sk n REG_SZ m))) :: DWORD) div 2 = 0" for h m
  proof -
    have "unat ((ucast (out (os h (RegGetValue k sk n REG_SZ m))) :: DWORD) div 2) = 0"
      using assms(2)[of h m] unfolding unat_div word_less_nat_alt by simp
    then show ?thesis by (simp only: unsigned_eq_0_iff)
  qed
  show "\<exists>v h'. RegGetString k sk n os u h = (Val v, u, h') \<and> length v = 4294967295"
    by (simp add: RegGetString_def bnd_call_apply Let_def assms(1) z ret_apply resize_def filled_def overwrite_def
        unsigned_minus_1_eq_mask mask_eq_exp_minus_1)
  show "outcome_of (Get_wstring k sk n os u h) = Fault"
    by (simp add: Get_wstring_def bnd_call_apply Let_def assms(1) z fault_apply resize_def filled_def overwrite_def)
qed

end
