(* ===== verification/SharedArray.thy ===== *)
theory SharedArray
  imports Raii
begin

text \<open>
  ClientServerLib: the memory-mapped file with its mutex (MemoryMappedFile.cpp) and the two arrays that
  live in one, \<open>IntArray\<close> (IntArray.cpp) and \<open>TypedArray\<close> (ClientServerLib.hpp).  The program's state is
  the memory of the view, as bytes; an object is placed in it as the bytes that represent it.
\<close>

section \<open>System calls\<close>

datatype mmfcall =
    CreateMutex wstring
  | OpenMutex wstring
  | WaitForSingleObject HANDLE
  | ReleaseMutex HANDLE
  | CreateFileMapping wstring DWORD
  | OpenFileMapping wstring
  | MapViewOfFile HANDLE DWORD
  | UnmapViewOfFile HANDLE
  | CloseHandle HANDLE
  | GetLastError

datatype mmferr = RuntimeError

type_synonym 'a mio = "(BYTE list, mmfcall, mmferr, 'a) io"

section \<open>The memory of a view\<close>

text \<open>Reads and writes at an offset; outside the view they are undefined.\<close>

definition peek :: "int \<Rightarrow> nat \<Rightarrow> BYTE list mio" where
  "peek off n = bnd (gets (\<lambda>v. v)) (\<lambda>v.
     if 0 \<le> off \<and> nat off + n \<le> length v then ret (take n (drop (nat off) v)) else fault)"

definition poke :: "int \<Rightarrow> BYTE list \<Rightarrow> unit mio" where
  "poke off bs = bnd (gets (\<lambda>v. v)) (\<lambda>v.
     if 0 \<le> off \<and> nat off + length bs \<le> length v then modify (overwrite (nat off) bs) else fault)"

section \<open>MemoryMappedFile\<close>

text \<open>\<open>m_View\<close> is not among the initialisers of the constructor: \<open>None\<close> until it is assigned.\<close>

record MemoryMappedFile =
  m_mmfName :: wstring
  m_mutexName :: wstring
  m_maxSize :: DWORD
  m_MapFile :: HANDLE
  m_Mutex :: HANDLE
  m_View :: "HANDLE option"
  m_initialised :: bool
  m_locked :: bool

definition Lock :: "MemoryMappedFile \<Rightarrow> MemoryMappedFile mio" where
  "Lock m = andthen (do_call (WaitForSingleObject (m_Mutex m))) (ret (m\<lparr>m_locked := True\<rparr>))"

definition Unlock :: "MemoryMappedFile \<Rightarrow> MemoryMappedFile mio" where
  "Unlock m = andthen (do_call (ReleaseMutex (m_Mutex m))) (ret (m\<lparr>m_locked := False\<rparr>))"

definition Cleanup :: "MemoryMappedFile \<Rightarrow> unit mio" where
  "Cleanup m = (case m_View m of None \<Rightarrow> fault | Some v \<Rightarrow>
     andthen (whenM (v \<noteq> 0) (do_call (UnmapViewOfFile v)))
     (andthen (whenM (m_MapFile m \<noteq> 0) (do_call (CloseHandle (m_MapFile m))))
     (whenM (m_Mutex m \<noteq> 0) (do_call (CloseHandle (m_Mutex m))))))"

text \<open>The constructor after the mutex has been opened.\<close>

definition open_mapping :: "MemoryMappedFile \<Rightarrow> bool \<Rightarrow> MemoryMappedFile mio" where
  "open_mapping m createNew = bnd (Lock m) (\<lambda>m.
     bnd (call (if createNew then CreateFileMapping (m_mmfName m) (m_maxSize m) else OpenFileMapping (m_mmfName m))) (\<lambda>f.
     let m = m\<lparr>m_MapFile := rv f\<rparr> in
     if rv f = 0 then andthen (do_call GetLastError) (andthen (Cleanup m) (throw RuntimeError)) else
     bnd (call (MapViewOfFile (rv f) (m_maxSize m))) (\<lambda>v.
     let m = m\<lparr>m_View := Some (rv v)\<rparr> in
     if rv v = 0 then andthen (Cleanup m) (throw RuntimeError) else
     andthen (if createNew then poke 0 (replicate (unat (m_maxSize m)) 0) else ret ())
       (Unlock (m\<lparr>m_initialised := True\<rparr>)))))"

definition MemoryMappedFile_ctor :: "wstring \<Rightarrow> DWORD \<Rightarrow> bool \<Rightarrow> MemoryMappedFile mio" where
  "MemoryMappedFile_ctor name maxSize createNew =
     (let m = \<lparr>m_mmfName = name, m_mutexName = name @ wstr ''Mutex'', m_maxSize = maxSize, m_MapFile = 0, m_Mutex = 0,
               m_View = None, m_initialised = False, m_locked = False\<rparr> in
      bnd (call (if createNew then CreateMutex (m_mutexName m) else OpenMutex (m_mutexName m))) (\<lambda>x.
      let m = m\<lparr>m_Mutex := rv x\<rparr> in
      if rv x = 0 then andthen (Cleanup m) (andthen (do_call GetLastError) (throw RuntimeError))
      else open_mapping m createNew))"

definition MemoryMappedFile_dtor :: "MemoryMappedFile \<Rightarrow> unit mio" where
  "MemoryMappedFile_dtor m = Cleanup m"

section \<open>IntArray\<close>

record IntArray =
  m_mmf :: MemoryMappedFile
  m_maxElements :: int

definition IntArray_ctor :: "wstring \<Rightarrow> DWORD \<Rightarrow> bool \<Rightarrow> IntArray mio" where
  "IntArray_ctor name maxSize createNew = bnd (MemoryMappedFile_ctor name maxSize createNew) (\<lambda>m.
     if \<not> m_initialised m then andthen (MemoryMappedFile_dtor m) (throw RuntimeError)
     else ret \<lparr>m_mmf = m, m_maxElements = 10\<rparr>)"

definition SetAt :: "IntArray \<Rightarrow> int \<Rightarrow> DWORD \<Rightarrow> unit mio" where
  "SetAt a index value = (if m_maxElements a \<le> index then throw RuntimeError else
     bnd (Lock (m_mmf a)) (\<lambda>m. andthen (poke (4 * index) (bytes_of value)) (andthen (Unlock m) (ret ()))))"

text \<open>\<open>operator[]\<close> returns before its call of \<open>Unlock\<close>.\<close>

definition IntArray_at :: "IntArray \<Rightarrow> int \<Rightarrow> DWORD mio" where
  "IntArray_at a index = (if m_maxElements a \<le> index then throw RuntimeError else
     bnd (Lock (m_mmf a)) (\<lambda>m. bnd (peek (4 * index) 4) (\<lambda>bs. ret (dword_of bs))))"

section \<open>TypedArray\<close>

text \<open>
  \<open>sz\<close> is \<open>sizeof(T)\<close>.  The count is the first \<open>int\<close> of the view, and the elements begin behind it, in
  a mapping of \<open>10 * sizeof(T)\<close> bytes.
\<close>

definition TypedArray_ctor :: "nat \<Rightarrow> wstring \<Rightarrow> bool \<Rightarrow> MemoryMappedFile mio" where
  "TypedArray_ctor sz name createNew = bnd (MemoryMappedFile_ctor name (of_nat (10 * sz)) createNew) (\<lambda>m.
     if \<not> m_initialised m then andthen (MemoryMappedFile_dtor m) (throw RuntimeError)
     else bnd (Lock m) Unlock)"

abbreviation (input) maxElements :: int where "maxElements \<equiv> 10"

definition GetCurrentCount :: "int mio" where
  "GetCurrentCount = bnd (peek 0 4) (\<lambda>bs. ret (sint (dword_of bs)))"

definition GetMaxCount :: int where
  "GetMaxCount = maxElements"

text \<open>The address of element \<open>i\<close>, as an offset into the view.\<close>

definition element :: "nat \<Rightarrow> int \<Rightarrow> int" where
  "element sz i = 4 + int sz * i"

definition TypedArray_at :: "nat \<Rightarrow> MemoryMappedFile \<Rightarrow> int \<Rightarrow> int mio" where
  "TypedArray_at sz m index = bnd (Lock m) (\<lambda>m.
     bnd (if maxElements \<le> index then ret True else bnd GetCurrentCount (\<lambda>c. ret (c \<le> index))) (\<lambda>out_of_range.
     if out_of_range then andthen (Unlock m) (throw RuntimeError)
     else andthen (Unlock m) (ret (element sz index))))"

text \<open>The locked part of \<open>Add\<close>: the object is constructed in place, then the count incremented.\<close>

definition append_object :: "nat \<Rightarrow> BYTE list \<Rightarrow> unit mio" where
  "append_object sz obj = bnd GetCurrentCount (\<lambda>c.
     andthen (poke (element sz c) obj) (bnd (peek 0 4) (\<lambda>bs. poke 0 (bytes_of (dword_of bs + 1)))))"

definition Add :: "nat \<Rightarrow> MemoryMappedFile \<Rightarrow> BYTE list \<Rightarrow> unit mio" where
  "Add sz m obj = bnd GetCurrentCount (\<lambda>c. if maxElements \<le> c then throw RuntimeError else
     bnd (Lock m) (\<lambda>m. andthen (append_object sz obj) (andthen (Unlock m) (ret ()))))"

definition Clear :: "nat \<Rightarrow> MemoryMappedFile \<Rightarrow> unit mio" where
  "Clear sz m = bnd GetCurrentCount (\<lambda>c. whenM (0 < c)
     (bnd (Lock m) (\<lambda>m. andthen (poke 4 (replicate (10 * sz) 0))
       (andthen (poke 0 (bytes_of 0)) (andthen (Unlock m) (ret ()))))))"

section \<open>What an array holds\<close>

text \<open>The view holds the objects \<open>xs\<close>: the count, then their bytes one after the other.\<close>

definition holds :: "nat \<Rightarrow> BYTE list \<Rightarrow> BYTE list list \<Rightarrow> bool" where
  "holds sz v xs \<longleftrightarrow> 4 \<le> length v \<and> length xs \<le> 10 \<and> (\<forall>x \<in> set xs. length x = sz) \<and>
     dword_of (take 4 v) = of_nat (length xs) \<and> take (length xs * sz) (drop 4 v) = concat xs"

lemma holds_count: "holds sz v xs \<Longrightarrow> sint (dword_of (take 4 v)) = int (length xs)"
  using take_bit_int_eq_self[of "int (length xs)" 31]
  by (simp add: holds_def signed_of_nat signed_take_bit_eq_if_positive bit_iff_odd take_bit_nat_eq_self)

lemma GetCurrentCount_run: "holds sz v xs \<Longrightarrow> GetCurrentCount os v h = (Val (int (length xs)), v, h)"
  using holds_count[of sz v xs]
  by (simp add: GetCurrentCount_def peek_def holds_def bnd_bnd bnd_gets_apply bnd_ret ret_apply)

lemma bnd_count: "holds sz v xs \<Longrightarrow> bnd GetCurrentCount f os v h = f (int (length xs)) os v h"
  by (rule bnd_Val[of GetCurrentCount, OF GetCurrentCount_run])

lemma peek_run: "off + n \<le> length v \<Longrightarrow> bnd (peek (int off) n) f os v h = f (take n (drop off v)) os v h"
  by (simp add: peek_def bnd_bnd bnd_gets_apply bnd_ret)

lemma poke_run: "off + length bs \<le> length v \<Longrightarrow> bnd (poke (int off) bs) f os v h = f () os (overwrite off bs v) h"
  by (simp add: poke_def bnd_bnd bnd_gets_apply bnd_modify_apply)

lemma poke_outside: "length v < off + length bs \<Longrightarrow> bnd (poke (int off) bs) f os v h = (Fault, v, h)"
  by (simp add: poke_def bnd_bnd bnd_gets_apply bnd_fault fault_apply)

lemma element_nat: "element sz (int n) = int (4 + n * sz)"
  by (simp add: element_def mult.commute)

lemma concat_nth:
  "\<lbrakk>\<forall>x \<in> set xs. length x = sz; i < length xs\<rbrakk> \<Longrightarrow> take sz (drop (i * sz) (concat xs)) = xs ! i"
  by (induction xs arbitrary: i) (auto simp: nth_Cons split: nat.split)

lemma holds_nth:
  assumes "holds sz v xs" and "i < length xs"
  shows "take sz (drop (4 + i * sz) v) = xs ! i" and "4 + i * sz + sz \<le> length v"
proof -
  have c: "length (concat xs) = length xs * sz" using assms(1)
    by (induction xs arbitrary: v) (auto simp: holds_def length_concat comp_def sum_list_triv cong: map_cong)
  have t: "take (length xs * sz) (drop 4 v) = concat xs" using assms(1) by (simp add: holds_def)
  have "Suc i * sz \<le> length xs * sz" using assms(2) by (intro mult_right_mono) simp_all
  then have fit: "i * sz + sz \<le> length xs * sz" by simp
  have l: "length xs * sz \<le> length v - 4" using arg_cong[OF t, of length] c by simp
  have "4 \<le> length v" using assms(1) by (simp add: holds_def)
  then show "4 + i * sz + sz \<le> length v" using l fit by simp
  have "take sz (drop (i * sz) (concat xs)) = take sz (drop (i * sz) (drop 4 v))"
    using fit by (simp add: t[symmetric] drop_take min_def)
  then show "take sz (drop (4 + i * sz) v) = xs ! i"
    using concat_nth[of xs sz i] assms by (simp add: holds_def add.commute)
qed

text \<open>The view after one more object.\<close>

definition appended :: "nat \<Rightarrow> nat \<Rightarrow> BYTE list \<Rightarrow> BYTE list \<Rightarrow> BYTE list" where
  "appended sz n obj v = overwrite 0 (bytes_of (of_nat n + 1)) (overwrite (4 + n * sz) obj v)"

lemma holds_appended:
  assumes "holds sz v xs" and "length xs < 10" and "length obj = sz" and "4 + length xs * sz + sz \<le> length v"
  shows "holds sz (appended sz (length xs) obj v) (xs @ [obj])" and "length (appended sz (length xs) obj v) = length v"
proof -
  let ?n = "length xs"
  let ?w = "overwrite (4 + ?n * sz) obj v"
  have w: "length ?w = length v" using assms(3,4) by simp
  then show l: "length (appended sz ?n obj v) = length v" using assms(4) by (simp add: appended_def)
  have d4: "drop 4 (appended sz ?n obj v) = drop 4 ?w" "take 4 (appended sz ?n obj v) = bytes_of (of_nat ?n + 1)"
    by (simp_all add: appended_def overwrite_def)
  have "drop 4 ?w = take (?n * sz) (drop 4 v) @ obj @ drop (?n * sz + sz) (drop 4 v)"
    using assms(3,4) by (simp add: overwrite_def drop_take add.commute add.left_commute)
  moreover have "take (?n * sz) (drop 4 v) = concat xs" using assms(1) by (simp add: holds_def)
  moreover have "length (take (?n * sz) (drop 4 v)) = ?n * sz" using assms(4) by simp
  ultimately have "take (?n * sz + sz) (drop 4 ?w) = concat xs @ obj" using assms(3) by simp
  then show "holds sz (appended sz ?n obj v) (xs @ [obj])"
    unfolding holds_def d4 using assms l by (simp add: holds_def add.commute)
qed

lemma Add_run:
  assumes h: "holds sz v xs" and n: "length xs < 10" and "length obj = sz" and fit: "4 + length xs * sz + sz \<le> length v"
  shows "\<exists>h'. Add sz m obj os v h = (Val (), appended sz (length xs) obj v, h')"
proof -
  let ?n = "length xs"
  have fit': "4 + ?n * sz + length obj \<le> length v" using fit assms(3) by simp
  have four: "0 + 4 \<le> length (overwrite (4 + ?n * sz) obj v)" using fit' by simp
  have c: "dword_of (take 4 (overwrite (4 + ?n * sz) obj v)) = of_nat ?n"
    using h by (simp add: overwrite_def holds_def)
  note of_nat_add [simp del] of_nat_mult [simp del]
  show ?thesis
    using n four by (simp add: Add_def bnd_count[OF h] Lock_def Unlock_def append_object_def andthen_def do_call_def bnd_bnd
        bnd_ret bnd_ret_eta bnd_call_apply element_nat poke_run[OF fit'] ret_apply appended_def c
        peek_run[of 0, simplified] poke_run[of 0, simplified])
qed

lemma Add_outside:
  assumes h: "holds sz v xs" and n: "length xs < 10" and out: "length v < 4 + length xs * sz + length obj"
  shows "outcome_of (Add sz m obj os v h) = Fault"
proof -
  note of_nat_add [simp del] of_nat_mult [simp del]
  show ?thesis using n by (simp add: Add_def bnd_count[OF h] Lock_def append_object_def andthen_def do_call_def bnd_bnd
      bnd_ret bnd_ret_eta bnd_call_apply element_nat poke_outside[OF out])
qed

lemma Add_full: "holds sz v xs \<Longrightarrow> length xs = 10 \<Longrightarrow> Add sz m obj os v h = (Exn RuntimeError, v, h)"
  by (simp add: Add_def bnd_count throw_apply)

lemma at_run:
  assumes h: "holds sz v xs" and i: "i < length xs"
  shows "\<exists>h'. bnd (TypedArray_at sz m (int i)) (\<lambda>p. peek p sz) os v h = (Val (xs ! i), v, h')"
proof -
  have "i < 10" using i h by (simp add: holds_def)
  note of_nat_add [simp del] of_nat_mult [simp del]
  show ?thesis
    using \<open>i < 10\<close> i holds_nth[OF h i] by (simp add: TypedArray_at_def Lock_def Unlock_def andthen_def do_call_def bnd_bnd bnd_ret
        bnd_ret_eta bnd_call_apply bnd_count[OF h] element_nat peek_def bnd_gets_apply ret_apply)
qed

fun add_all :: "nat \<Rightarrow> MemoryMappedFile \<Rightarrow> BYTE list list \<Rightarrow> unit mio" where
  "add_all sz m [] = ret ()"
| "add_all sz m (x # xs) = andthen (Add sz m x) (add_all sz m xs)"

lemma add_all_run:
  "\<lbrakk>holds sz v ys; length ys + length xs \<le> 10; \<forall>x \<in> set xs. length x = sz; 4 + (length ys + length xs) * sz \<le> length v\<rbrakk> \<Longrightarrow>
   \<exists>v' h'. add_all sz m xs os v h = (Val (), v', h') \<and> holds sz v' (ys @ xs) \<and> length v' = length v"
proof (induction xs arbitrary: ys v h)
  case Nil
  then show ?case by (simp add: ret_apply)
next
  case (Cons x xs)
  let ?v = "appended sz (length ys) x v"
  have n: "length ys < 10" "length x = sz" "4 + length ys * sz + sz \<le> length v"
    using Cons.prems by (simp_all add: algebra_simps)
  note a = holds_appended[OF Cons.prems(1) n]
  obtain h1 where r: "Add sz m x os v h = (Val (), ?v, h1)" using Add_run[OF Cons.prems(1) n] by blast
  have "\<exists>v' h'. add_all sz m xs os ?v h1 = (Val (), v', h') \<and> holds sz v' ((ys @ [x]) @ xs) \<and> length v' = length ?v"
    by (rule Cons.IH[OF a(1)]) (use Cons.prems a(2) in \<open>simp_all add: algebra_simps\<close>)
  then show ?case using r a(2) by (simp add: andthen_def bnd_Val[of "Add sz m x", OF r])
qed

text \<open>
  In a view that is large enough an empty array keeps what is added to it: after up to ten
  objects, each element reads back as the object added at its place, and an eleventh is refused
  without a change.
\<close>

theorem typed_array_keeps:
  assumes "holds sz v []" and "length xs \<le> 10" and "\<forall>x \<in> set xs. length x = sz" and "4 + 10 * sz \<le> length v"
  shows "\<exists>v' h'. add_all sz m xs os v h = (Val (), v', h') \<and>
    (\<forall>i < length xs. \<exists>h''. bnd (TypedArray_at sz m (int i)) (\<lambda>p. peek p sz) os v' h' = (Val (xs ! i), v', h'')) \<and>
    (length xs = 10 \<longrightarrow> Add sz m obj os v' h' = (Exn RuntimeError, v', h'))"
proof -
  have "4 + (length [] + length xs) * sz \<le> length v"
    by (rule order_trans[OF _ assms(4)]) (simp add: assms(2))
  then obtain v' h' where r: "add_all sz m xs os v h = (Val (), v', h')" "holds sz v' xs"
    using add_all_run[OF assms(1), of xs m os h] assms(2,3) by auto
  then show ?thesis using at_run[OF r(2)] Add_full[OF r(2)] by blast
qed

text \<open>An empty array of objects of \<open>sz\<close> bytes in a view of \<open>n\<close> bytes, and any open file.\<close>

definition sample_file :: MemoryMappedFile where
  "sample_file = \<lparr>m_mmfName = [], m_mutexName = [], m_maxSize = 0, m_MapFile = 8, m_Mutex = 4, m_View = Some 12,
     m_initialised = True, m_locked = False\<rparr>"

lemma empty_holds: "4 \<le> n \<Longrightarrow> holds sz (replicate n 0) []"
  by (simp add: holds_def dword_of_def numeral_eq_Suc)

theorem typed_array_keeps_witness:
  "\<exists>v' h'. add_all 2 sample_file [[1, 2], [3, 4]] (\<lambda>h c. ok_resp) (replicate 24 0) [] = (Val (), v', h') \<and>
    (\<exists>h''. bnd (TypedArray_at 2 sample_file 1) (\<lambda>p. peek p 2) (\<lambda>h c. ok_resp) v' h' = (Val [3, 4], v', h''))"
proof -
  obtain v' h' where a: "add_all 2 sample_file [[1, 2], [3, 4]] (\<lambda>h c. ok_resp) (replicate 24 0) [] = (Val (), v', h')"
    and b: "\<forall>i < length [[1, 2], [3, 4 :: BYTE]]. \<exists>h''. bnd (TypedArray_at 2 sample_file (int i)) (\<lambda>p. peek p 2)
        (\<lambda>h c. ok_resp) v' h' = (Val ([[1, 2], [3, 4]] ! i), v', h'')"
    using typed_array_keeps[OF empty_holds[of 24 2], of "[[1, 2], [3, 4]]" sample_file "\<lambda>h c. ok_resp" "[]"] by auto
  show ?thesis using a spec[OF b, of 1] by simp
qed

text \<open>
  The mapping is too small for what it is to hold: its size counts the ten elements but not the
  \<open>int\<close> in front of them.  In a view of exactly that size the tenth \<open>Add\<close> writes behind the end,
  although there is room according to the count, and so does \<open>Clear\<close> of any array that is not empty.
\<close>

theorem tenth_element_does_not_fit:
  assumes "holds sz v xs" and "length v = 10 * sz" and "0 < sz" and "length obj = sz"
  shows "(length xs = 9 \<longrightarrow> outcome_of (Add sz m obj os v h) = Fault) \<and>
    (xs \<noteq> [] \<longrightarrow> outcome_of (Clear sz m os v h) = Fault)"
proof (intro conjI impI)
  assume "length xs = 9"
  then show "outcome_of (Add sz m obj os v h) = Fault"
    using Add_outside[OF assms(1), of obj m os h] assms(2-4) by simp
next
  assume ne: "xs \<noteq> []"
  have "length v < 4 + length (replicate (10 * sz) (0 :: BYTE))" using assms(2) by simp
  note out = poke_outside[OF this, simplified]
  show "outcome_of (Clear sz m os v h) = Fault"
    using ne by (simp add: Clear_def bnd_count[OF assms(1)] whenM_def Lock_def andthen_def do_call_def bnd_bnd bnd_ret
        bnd_ret_eta bnd_call_apply out)
qed

text \<open>Nine objects of four bytes in a view of forty.\<close>

definition nine :: "BYTE list" where
  "nine = bytes_of 9 @ replicate 36 7"

lemma nine_holds: "holds 4 nine (replicate 9 (replicate 4 7))"
  by (simp add: holds_def nine_def numeral_eq_Suc)

theorem tenth_element_witness:
  "outcome_of (Add 4 sample_file [1, 2, 3, 4] (\<lambda>h c. ok_resp) nine []) = Fault \<and>
   outcome_of (Clear 4 sample_file (\<lambda>h c. ok_resp) nine []) = Fault"
  using tenth_element_does_not_fit[OF nine_holds, of "[1, 2, 3, 4]" sample_file "\<lambda>h c. ok_resp" "[]"]
  by (simp add: nine_def)

section \<open>The mutex\<close>

fun mutex_opens :: "mmfcall \<Rightarrow> resp \<Rightarrow> HANDLE option" where
  "mutex_opens (WaitForSingleObject h) r = Some h"
| "mutex_opens c r = None"

fun mutex_closes :: "mmfcall \<Rightarrow> HANDLE option" where
  "mutex_closes (ReleaseMutex h) = Some h"
| "mutex_closes c = None"

interpretation mx: handle_api mutex_opens mutex_closes
proof unfold_locales
  fix c r x assume "mutex_closes c = Some x"
  then show "mutex_opens c r = None" by (cases c) auto
qed

lemma mem_neutral [neutral_intro]: "mx.neutral (peek off n)" "mx.neutral (poke off bs)" "mx.neutral GetCurrentCount"
  unfolding GetCurrentCount_def peek_def poke_def by (intro neutral_intro)+

lemma mem_no_throw [no_throw_intro]: "no_throw (peek off n)" "no_throw (poke off bs)" "no_throw GetCurrentCount"
  unfolding GetCurrentCount_def peek_def poke_def by (intro no_throw_intro)+

text \<open>A locked section: what is neutral and cannot throw, between \<open>Lock\<close> and \<open>Unlock\<close>.\<close>

lemma locked_section:
  assumes "mx.neutral k" and "no_throw k" and "\<And>a. mx.neutral (g a)"
  shows "mx.neutral (bnd (Lock m) (\<lambda>m. bnd k (\<lambda>a. bnd (Unlock m) (\<lambda>_. g a))))"
proof -
  let ?h = "m_Mutex m"
  have lock: "mx.owns {#} (do_call (WaitForSingleObject ?h)) (\<lambda>_. {#?h#}) {#}"
    unfolding do_call_def by (rule mx.owns_bnd[OF mx.owns_call_open]) (simp_all add: mx.owns_ret_eq)
  have unlock: "mx.owns {#?h#} (do_call (ReleaseMutex ?h)) (\<lambda>_. {#}) {#}"
    unfolding do_call_def by (rule mx.owns_bnd[OF mx.owns_call_close]) (simp_all add: mx.owns_ret_eq)
  have "mx.owns {#} (bnd (do_call (WaitForSingleObject ?h)) (\<lambda>_. bnd k (\<lambda>a. bnd (do_call (ReleaseMutex ?h)) (\<lambda>_. g a))))
      (\<lambda>_. {#}) {#}"
    by (rule mx.owns_bnd[OF lock mx.owns_bnd[OF mx.neutral_owns[OF assms(1,2)] mx.owns_bnd[OF unlock]]])
      (simp add: assms(3)[unfolded mx.neutral_def])
  then show ?thesis
    by (simp add: mx.neutral_def Lock_def Unlock_def andthen_def bnd_bnd bnd_ret)
qed

lemma append_object_ok: "mx.neutral (append_object sz obj)" "no_throw (append_object sz obj)"
  unfolding append_object_def by (intro neutral_intro, intro no_throw_intro)

lemma SetAt_releases: "mx.neutral (SetAt a i x)"
  unfolding SetAt_def andthen_def by (intro neutral_intro locked_section no_throw_intro) 

lemma Add_releases: "mx.neutral (Add sz m obj)"
  unfolding Add_def andthen_def by (intro neutral_intro locked_section no_throw_intro append_object_ok)

lemma at_releases: "mx.neutral (TypedArray_at sz m i)"
proof -
  have "mx.neutral (bnd (Lock m) (\<lambda>m. bnd (if maxElements \<le> i then ret True else bnd GetCurrentCount (\<lambda>c. ret (c \<le> i)))
      (\<lambda>b. bnd (Unlock m) (\<lambda>_. if b then throw RuntimeError else ret (element sz i)))))"
    by (intro locked_section neutral_intro no_throw_intro)
  moreover have "(\<lambda>b. if b then bnd (Unlock m) (\<lambda>_. throw RuntimeError) else bnd (Unlock m) (\<lambda>_. ret (element sz i))) =
      (\<lambda>b. bnd (Unlock m) (\<lambda>_. if b then throw RuntimeError else ret (element sz i)))" for m
    by auto
  ultimately show ?thesis unfolding TypedArray_at_def andthen_def by (simp only:)
qed

text \<open>Reading an element of an \<open>IntArray\<close> leaves its mutex locked.\<close>

lemma IntArray_at_keeps_lock:
  assumes "0 \<le> i" "i < m_maxElements a" "4 * nat i + 4 \<le> length v"
  shows "mx.live (history_of (IntArray_at a i os v [])) = Some {#m_Mutex (m_mmf a)#}"
  using assms by (simp add: IntArray_at_def Lock_def andthen_def do_call_def bnd_bnd bnd_ret bnd_ret_eta bnd_call_apply
      peek_def bnd_gets_apply ret_apply mx.live_def nat_mult_distrib)

section \<open>Construction\<close>

text \<open>
  A constructor that fails does not throw its exception: \<open>Cleanup\<close> reads \<open>m_View\<close>, which has not
  been initialised yet, when the mutex or the mapping cannot be opened.
\<close>

theorem failed_constructor_reads_view:
  assumes "rv (os [] (if c then CreateMutex (name @ wstr ''Mutex'') else OpenMutex (name @ wstr ''Mutex''))) = 0 \<or>
     (\<forall>h. rv (os h (if c then CreateFileMapping name n else OpenFileMapping name)) = 0)"
  shows "outcome_of (MemoryMappedFile_ctor name n c os v []) = Fault"
  using assms
  by (auto simp: MemoryMappedFile_ctor_def open_mapping_def Cleanup_def Lock_def Let_def andthen_def do_call_def bnd_bnd bnd_ret
      bnd_ret_eta bnd_fault fault_apply bnd_call_apply split: if_splits)

theorem failed_constructor_witness:
  "outcome_of (MemoryMappedFile_ctor (wstr ''file'') 40 False (\<lambda>h c. fail_resp) [] []) = Fault"
  by (rule failed_constructor_reads_view) simp

section \<open>Several processes\<close>

text \<open>
  \<open>Add\<close> in \<open>n\<close> processes that share one array: each tests the count before it waits for the mutex.
  The steps of a process: the test, the wait, the append, the release; then it may add again.
\<close>

datatype addloc = AtTest | AtLock | InSection | AtUnlock | Refused

record sharedarray =
  current :: nat
  owner :: "nat option"
  loc :: "nat \<Rightarrow> addloc"

inductive add_step :: "nat \<Rightarrow> sharedarray \<Rightarrow> sharedarray \<Rightarrow> bool" for n where
  room: "\<lbrakk>p < n; loc s p = AtTest; current s < 10\<rbrakk> \<Longrightarrow> add_step n s (s\<lparr>loc := (loc s)(p := AtLock)\<rparr>)"
| full: "\<lbrakk>p < n; loc s p = AtTest; 10 \<le> current s\<rbrakk> \<Longrightarrow> add_step n s (s\<lparr>loc := (loc s)(p := Refused)\<rparr>)"
| acquire: "\<lbrakk>p < n; loc s p = AtLock; owner s = None\<rbrakk> \<Longrightarrow>
    add_step n s (s\<lparr>owner := Some p, loc := (loc s)(p := InSection)\<rparr>)"
| append: "\<lbrakk>p < n; loc s p = InSection\<rbrakk> \<Longrightarrow>
    add_step n s (s\<lparr>current := current s + 1, loc := (loc s)(p := AtUnlock)\<rparr>)"
| release: "\<lbrakk>p < n; loc s p = AtUnlock\<rbrakk> \<Longrightarrow> add_step n s (s\<lparr>owner := None, loc := (loc s)(p := AtTest)\<rparr>)"
| retry: "\<lbrakk>p < n; loc s p = Refused\<rbrakk> \<Longrightarrow> add_step n s (s\<lparr>loc := (loc s)(p := AtTest)\<rparr>)"

definition shared_start :: "nat \<Rightarrow> sharedarray" where
  "shared_start k = \<lparr>current = k, owner = None, loc = (\<lambda>_. AtTest)\<rparr>"

inductive add_reachable :: "nat \<Rightarrow> nat \<Rightarrow> sharedarray \<Rightarrow> bool" for n k where
  start: "add_reachable n k (shared_start k)"
| step: "\<lbrakk>add_reachable n k s; add_step n s s'\<rbrakk> \<Longrightarrow> add_reachable n k s'"

text \<open>The processes that have passed the test and not appended yet.\<close>

definition pending :: "nat \<Rightarrow> sharedarray \<Rightarrow> nat set" where
  "pending n s = {p. p < n \<and> (loc s p = AtLock \<or> loc s p = InSection)}"

lemma finite_pending [simp]: "finite (pending n s)"
  by (rule finite_subset[of _ "{..<n}"]) (auto simp: pending_def)

lemma pending_bound: "card (pending n s) \<le> n"
  using card_mono[of "{..<n}" "pending n s"] by (auto simp: pending_def)

lemma pending_append:
  assumes "p < n" "loc s p = InSection"
  shows "card (pending n s) = Suc (card (pending n (s\<lparr>current := c, loc := (loc s)(p := AtUnlock)\<rparr>)))"
proof -
  have "pending n s = insert p (pending n (s\<lparr>current := c, loc := (loc s)(p := AtUnlock)\<rparr>))"
    using assms by (auto simp: pending_def)
  moreover have "p \<notin> pending n (s\<lparr>current := c, loc := (loc s)(p := AtUnlock)\<rparr>)" by (simp add: pending_def)
  ultimately show ?thesis by simp
qed

lemma add_step_bound:
  "add_step n s s' \<Longrightarrow> current s + card (pending n s) \<le> 9 + n \<Longrightarrow> current s' + card (pending n s') \<le> 9 + n"
proof (induction rule: add_step.induct)
  case (room p s)
  then show ?case using pending_bound[of n "s\<lparr>loc := (loc s)(p := AtLock)\<rparr>"] by simp
next
  case (append p s)
  then show ?case using pending_append[of p n s "current s + 1"] by simp
next
  case (full p s)
  have "pending n (s\<lparr>loc := (loc s)(p := Refused)\<rparr>) = pending n s" using full by (auto simp: pending_def)
  then show ?case using full by simp
next
  case (acquire p s)
  have "pending n (s\<lparr>owner := Some p, loc := (loc s)(p := InSection)\<rparr>) = pending n s" using acquire by (auto simp: pending_def)
  then show ?case using acquire by simp
next
  case (release p s)
  have "pending n (s\<lparr>owner := None, loc := (loc s)(p := AtTest)\<rparr>) = pending n s" using release by (auto simp: pending_def)
  then show ?case using release by simp
next
  case (retry p s)
  have "pending n (s\<lparr>loc := (loc s)(p := AtTest)\<rparr>) = pending n s" using retry by (auto simp: pending_def)
  then show ?case using retry by simp
qed

lemma add_reachable_bound:
  assumes "0 < n" and "k \<le> 10"
  shows "add_reachable n k s \<Longrightarrow> current s + card (pending n s) \<le> 9 + n"
proof (induction rule: add_reachable.induct)
  case start
  have "pending n (shared_start k) = {}" by (simp add: pending_def shared_start_def)
  then show ?case using assms by (simp add: shared_start_def)
next
  case (step s s')
  then show ?case by (blast intro: add_step_bound)
qed

text \<open>Two processes test the array when it has nine elements, and then both append.\<close>

lemma eleven_reached: "\<exists>s. add_reachable 2 9 s \<and> current s = 11"
proof -
  note [simp] = shared_start_def
  let ?s1 = "(shared_start 9)\<lparr>loc := (\<lambda>_. AtTest)(0 := AtLock)\<rparr>"
  let ?s2 = "?s1\<lparr>loc := (loc ?s1)(1 := AtLock)\<rparr>"
  let ?s3 = "?s2\<lparr>owner := Some 0, loc := (loc ?s2)(0 := InSection)\<rparr>"
  let ?s4 = "?s3\<lparr>current := current ?s3 + 1, loc := (loc ?s3)(0 := AtUnlock)\<rparr>"
  let ?s5 = "?s4\<lparr>owner := None, loc := (loc ?s4)(0 := AtTest)\<rparr>"
  let ?s6 = "?s5\<lparr>owner := Some 1, loc := (loc ?s5)(1 := InSection)\<rparr>"
  let ?s7 = "?s6\<lparr>current := current ?s6 + 1, loc := (loc ?s6)(1 := AtUnlock)\<rparr>"
  have "add_reachable 2 9 ?s1"
    using step[OF start room[of 0 2 "shared_start 9"]] by simp
  then have "add_reachable 2 9 ?s2" by (rule step[OF _ room[of 1]]) simp_all
  then have "add_reachable 2 9 ?s3" by (rule step[OF _ acquire]) simp_all
  then have "add_reachable 2 9 ?s4" by (rule step[OF _ append]) simp_all
  then have "add_reachable 2 9 ?s5" by (rule step[OF _ release]) simp_all
  then have "add_reachable 2 9 ?s6" by (rule step[OF _ acquire]) simp_all
  then have "add_reachable 2 9 ?s7" by (rule step[OF _ append]) simp_all
  then show ?thesis by (intro exI[of _ ?s7]) simp
qed

text \<open>
  The capacity of a shared array is respected by one process, but not by several, because the
  count is tested outside the mutex: \<open>n\<close> processes can take it to at most \<open>9 + n\<close> elements, and two
  processes do reach 11.
\<close>

theorem shared_capacity:
  assumes "0 < n" and "k \<le> 10" and "add_reachable n k s"
  shows "current s \<le> 9 + n \<and> (\<exists>s. add_reachable 2 9 s \<and> current s = 9 + 2)"
  using add_reachable_bound[OF assms] eleven_reached by auto

theorem shared_capacity_witness:
  "current (shared_start 3) \<le> 9 + 1 \<and> (\<exists>s. add_reachable 2 9 s \<and> current s = 9 + 2)"
  by (rule shared_capacity[OF _ _ add_reachable.start]) simp_all

end
