(* ===== verification/EchoCoroutine.thy ===== *)
theory EchoCoroutine
  imports Raii
begin

unbundle bit_operations_syntax

text \<open>
  WinsockCoroutine/main.cpp: an echo server and its client, written as coroutines that an event loop
  over a completion port resumes.  A coroutine is the place at which it is suspended, and resuming it
  runs it to the next suspension or to its end; the loop counts the operations that are outstanding.
  The texts the program prints are left out.
\<close>

section \<open>System calls\<close>

datatype sockcall =
    WSAStartup
  | WSACleanup
  | CreateIoCompletionPort
  | AssociateSocket HANDLE
  | GetQueuedCompletionStatus
  | PostQueuedCompletionStatus
  | CloseHandle HANDLE
  | GetLastError
  | WSAGetLastError
  | getaddrinfo
  | freeaddrinfo HANDLE
  | WSASocketW
  | closesocket HANDLE
  | bind_socket HANDLE
  | listen_socket HANDLE
  | AcceptEx HANDLE HANDLE
  | setsockopt HANDLE
  | WSAIoctl HANDLE
  | ConnectEx HANDLE
  | WSARecv HANDLE DWORD
  | WSASend HANDLE "BYTE list"
  | shutdown_socket HANDLE

text \<open>The only exception is a \<open>runtime_error\<close>; the state of the loop is \<open>m_outstandingOps\<close>.\<close>

datatype sockerr = RuntimeError

type_synonym 'a sio = "(int, sockcall, sockerr, 'a) io"

abbreviation (input) SocketError :: "64 word" where "SocketError \<equiv> 0xFFFFFFFF"
abbreviation (input) IoPending :: DWORD where "IoPending \<equiv> 997"
abbreviation (input) BufferSize :: DWORD where "BufferSize \<equiv> 512"

section \<open>The event loop\<close>

definition AddOp :: "unit sio" where
  "AddOp = modify (\<lambda>n. n + 1)"

definition RemoveOp :: "unit sio" where
  "RemoveOp = modify (\<lambda>n. n - 1)"

definition Associate :: "HANDLE \<Rightarrow> unit sio" where
  "Associate s = bnd (call (AssociateSocket s)) (\<lambda>r. if rv r = 0 then throw RuntimeError else ret ())"

definition Post :: "unit sio" where
  "Post = do_call PostQueuedCompletionStatus"

text \<open>A completion: the bytes transferred, the error, and the content of the buffer of a receive behind it.\<close>

record completion =
  bytesTransferred :: DWORD
  error :: DWORD
  received_data :: "BYTE list"

text \<open>The \<open>OVERLAPPED\<close> of the answer is the first of its further results.\<close>

definition overlapped_of :: "resp \<Rightarrow> HANDLE" where
  "overlapped_of r = (case outs r of [] \<Rightarrow> 0 | p # _ \<Rightarrow> p)"

fun IoEventLoop_Run :: "('t \<Rightarrow> completion \<Rightarrow> 't sio) \<Rightarrow> nat \<Rightarrow> 't \<Rightarrow> 't sio" where
  "IoEventLoop_Run resume 0 t = running"
| "IoEventLoop_Run resume (Suc fuel) t = bnd (gets (\<lambda>n. n)) (\<lambda>n. if n \<le> 0 then ret t else
     bnd (call GetQueuedCompletionStatus) (\<lambda>r.
       if rv r = 0 \<and> overlapped_of r = 0 then IoEventLoop_Run resume fuel t else
       if overlapped_of r = 0 then fault else
       bnd (if rv r \<noteq> 0 then ret 0 else bnd (call GetLastError) (\<lambda>e. ret (ucast (rv e)))) (\<lambda>err.
       bnd (resume t \<lparr>bytesTransferred = ucast (out r), error = err, received_data = buf r\<rparr>)
         (\<lambda>t. IoEventLoop_Run resume fuel t))))"

text \<open>
  The contract between the loop and the coroutine it resumes: an invariant that a wait without a packet
  keeps and that a resumption re-establishes.  \<open>waited\<close> is what a wait leaves in the history.
\<close>

definition waited :: "resp \<Rightarrow> sockcall history \<Rightarrow> bool" where
  "waited r k \<longleftrightarrow> k = [(GetQueuedCompletionStatus, r)] \<or> (\<exists>r'. k = [(GetQueuedCompletionStatus, r), (GetLastError, r')])"

text \<open>What is known of the completion port: a packet has an \<open>OVERLAPPED\<close>, and no receive overruns its buffer.\<close>

definition port_ok :: "sockcall os \<Rightarrow> bool" where
  "port_ok os \<longleftrightarrow> (\<forall>h. let r = os h GetQueuedCompletionStatus in
     (rv r \<noteq> 0 \<longrightarrow> overlapped_of r \<noteq> 0) \<and> ucast (out r) \<le> BufferSize)"

locale resumable =
  fixes resume :: "'t \<Rightarrow> completion \<Rightarrow> 't sio"
    and inv :: "'t \<Rightarrow> int \<Rightarrow> sockcall history \<Rightarrow> bool"
  assumes waiting: "inv t n h \<Longrightarrow> overlapped_of r = 0 \<Longrightarrow> inv t n (h @ [(GetQueuedCompletionStatus, r)])"
    and resumed: "inv t n h \<Longrightarrow> 0 < n \<Longrightarrow> overlapped_of r \<noteq> 0 \<Longrightarrow> ucast (out r) \<le> BufferSize \<Longrightarrow> waited r k \<Longrightarrow>
      \<exists>t' n' h'. resume t \<lparr>bytesTransferred = ucast (out r), error = e, received_data = buf r\<rparr> os n (h @ k) = (Val t', n', h') \<and>
        inv t' n' h'"
begin

definition loop_post :: "('e, 't) outcome \<Rightarrow> int \<Rightarrow> sockcall history \<Rightarrow> bool" where
  "loop_post oc n h \<longleftrightarrow> (\<exists>t. inv t n h \<and> (oc = Running \<or> oc = Val t \<and> n \<le> 0))"

lemma loop:
  assumes "port_ok os"
  shows "inv t n h \<Longrightarrow> \<exists>oc n' h'. IoEventLoop_Run resume fuel t os n h = (oc, n', h') \<and> loop_post oc n' h'"
proof (induction fuel arbitrary: t n h)
  case 0
  then show ?case by (auto simp: io_simps loop_post_def)
next
  case (Suc fuel)
  let ?r = "os h GetQueuedCompletionStatus"
  let ?h = "h @ [(GetQueuedCompletionStatus, ?r)]"
  consider "n \<le> 0" | "0 < n" "overlapped_of ?r = 0" | "0 < n" "overlapped_of ?r \<noteq> 0" by linarith
  then show ?case
  proof cases
    case 1
    then show ?thesis using Suc.prems by (auto simp: io_simps loop_post_def)
  next
    case 2
    then have "rv ?r = 0" using assms by (auto simp: port_ok_def Let_def)
    then show ?thesis using Suc.IH[OF waiting[OF Suc.prems 2(2)]] 2 by (simp add: io_simps)
  next
    case 3
    obtain k and e :: DWORD where k: "k = (if rv ?r \<noteq> 0 then [] else [(GetLastError, os ?h GetLastError)])"
      and e: "e = (if rv ?r \<noteq> 0 then 0 else ucast (rv (os ?h GetLastError)))" by simp
    let ?c = "\<lparr>bytesTransferred = ucast (out ?r), error = e, received_data = buf ?r\<rparr>"
    have "waited ?r ((GetQueuedCompletionStatus, ?r) # k)" by (simp add: waited_def k)
    moreover have "ucast (out ?r) \<le> BufferSize" using assms by (simp add: port_ok_def Let_def)
    ultimately obtain t' n' h' where st: "resume t ?c os n (?h @ k) = (Val t', n', h')" and inv: "inv t' n' h'"
      using resumed[OF Suc.prems 3] by fastforce
    have "IoEventLoop_Run resume (Suc fuel) t os n h = bnd (resume t ?c) (IoEventLoop_Run resume fuel) os n (?h @ k)"
      using 3 by (simp add: io_simps e k)
    also have "\<dots> = IoEventLoop_Run resume fuel t' os n' h'" unfolding bnd_def st by simp
    finally show ?thesis using Suc.IH[OF inv] by simp
  qed
qed

end

section \<open>The awaitables\<close>

text \<open>Each \<open>await_suspend\<close>: the operation is counted before it is started, and no longer when it fails.\<close>

definition start_failed :: "bool \<Rightarrow> bool sio" where
  "start_failed failed = (if failed then bnd (call WSAGetLastError) (\<lambda>e. ret (ucast (rv e) \<noteq> IoPending)) else ret False)"

definition Accept_suspend :: "HANDLE \<Rightarrow> HANDLE sio" where
  "Accept_suspend listenSocket = bnd (call WSASocketW) (\<lambda>a. if rv a = InvalidHandleValue then throw RuntimeError else
     andthen AddOp (bnd (call (AcceptEx listenSocket (rv a))) (\<lambda>r. bnd (start_failed (rv r = 0)) (\<lambda>bad.
       if bad then andthen RemoveOp (andthen (do_call (closesocket (rv a))) (throw RuntimeError)) else ret (rv a)))))"

definition Accept_resume :: "HANDLE \<Rightarrow> completion \<Rightarrow> unit sio" where
  "Accept_resume acceptSocket c = andthen RemoveOp
     (if error c \<noteq> 0 then andthen (do_call (closesocket acceptSocket)) (throw RuntimeError)
      else do_call (setsockopt acceptSocket))"

definition Recv_suspend :: "HANDLE \<Rightarrow> DWORD \<Rightarrow> unit sio" where
  "Recv_suspend s len = andthen AddOp (bnd (call (WSARecv s len)) (\<lambda>r.
     bnd (start_failed (rv r AND 0xFFFFFFFF = SocketError)) (\<lambda>bad.
       if bad then andthen RemoveOp (throw RuntimeError) else ret ())))"

definition Send_suspend :: "HANDLE \<Rightarrow> BYTE list \<Rightarrow> unit sio" where
  "Send_suspend s bs = andthen AddOp (bnd (call (WSASend s bs)) (\<lambda>r.
     bnd (start_failed (rv r AND 0xFFFFFFFF = SocketError)) (\<lambda>bad.
       if bad then andthen RemoveOp (throw RuntimeError) else ret ())))"

text \<open>The pointer to \<open>ConnectEx\<close> is the scalar result of \<open>WSAIoctl\<close>.\<close>

definition Connect_suspend :: "HANDLE \<Rightarrow> unit sio" where
  "Connect_suspend s = bnd (call (WSAIoctl s)) (\<lambda>f. if out f = 0 then throw RuntimeError else
     andthen AddOp (bnd (call (ConnectEx s)) (\<lambda>r. bnd (start_failed (rv r = 0)) (\<lambda>bad.
       if bad then andthen RemoveOp (throw RuntimeError) else ret ()))))"

definition Connect_resume :: "HANDLE \<Rightarrow> completion \<Rightarrow> unit sio" where
  "Connect_resume s c = andthen RemoveOp (if error c \<noteq> 0 then throw RuntimeError else do_call (setsockopt s))"

section \<open>The server\<close>

text \<open>
  Where the server's task is: suspended in an accept, a receive or a send, or ended by a return or by
  an exception, which is kept in its promise.
\<close>

datatype server = AcceptPending HANDLE | RecvPending HANDLE | SendPending HANDLE | Returned | Thrown

definition keep_exception :: "server sio \<Rightarrow> server sio" where
  "keep_exception m = try_catch m (\<lambda>_. ret Thrown)"

definition CreateListenSocket :: "HANDLE sio" where
  "CreateListenSocket = bnd (call getaddrinfo) (\<lambda>a. if rv a \<noteq> 0 then throw RuntimeError else
     finally_do
       (bnd (call WSASocketW) (\<lambda>s. if rv s = InvalidHandleValue then throw RuntimeError else
        try_catch
          (bnd (call (bind_socket (rv s))) (\<lambda>b. if rv b AND 0xFFFFFFFF = SocketError then throw RuntimeError else
           bnd (call (listen_socket (rv s))) (\<lambda>l. if rv l AND 0xFFFFFFFF = SocketError then throw RuntimeError else
           andthen (Associate (rv s)) (ret (rv s)))))
          (\<lambda>e. andthen (do_call (closesocket (rv s))) (throw e))))
       (whenM (out a \<noteq> 0) (do_call (freeaddrinfo (out a)))))"

definition receive :: "HANDLE \<Rightarrow> server sio" where
  "receive client = andthen (Recv_suspend client BufferSize) (ret (RecvPending client))"

definition HandleClient :: "HANDLE \<Rightarrow> server sio" where
  "HandleClient client = andthen (Associate client) (receive client)"

definition AcceptAndServe :: "HANDLE \<Rightarrow> server sio" where
  "AcceptAndServe listenSocket = bnd (Accept_suspend listenSocket) (\<lambda>s. ret (AcceptPending s))"

fun server_continue :: "server \<Rightarrow> completion \<Rightarrow> server sio" where
  "server_continue (AcceptPending s) c = andthen (Accept_resume s c) (HandleClient s)"
| "server_continue (RecvPending s) c = andthen RemoveOp
     (if bytesTransferred c = 0 then andthen (do_call (closesocket s)) (ret Returned)
      else if BufferSize < bytesTransferred c then fault
      else andthen (Send_suspend s (take (unat (bytesTransferred c)) (received_data c))) (ret (SendPending s)))"
| "server_continue (SendPending s) c = andthen RemoveOp (receive s)"
| "server_continue Returned c = fault"
| "server_continue Thrown c = fault"

definition server_resume :: "server \<Rightarrow> completion \<Rightarrow> server sio" where
  "server_resume t c = keep_exception (server_continue t c)"

text \<open>The scopes of \<open>Run\<close>, innermost first: the listening socket, the loop, Winsock.\<close>

definition serve :: "nat \<Rightarrow> HANDLE \<Rightarrow> int sio" where
  "serve fuel listenSocket = bnd (keep_exception (AcceptAndServe listenSocket)) (\<lambda>t.
     bnd (IoEventLoop_Run server_resume fuel t) (\<lambda>t. if t = Thrown then throw RuntimeError else ret 0))"

definition with_loop :: "int sio \<Rightarrow> int sio" where
  "with_loop m = bnd (call WSAStartup) (\<lambda>w. if rv w \<noteq> 0 then throw RuntimeError else
     finally_do
       (bnd (call CreateIoCompletionPort) (\<lambda>p. if rv p = 0 then throw RuntimeError else
          finally_do m (do_call (CloseHandle (rv p)))))
       (do_call WSACleanup))"

definition Server_Run :: "nat \<Rightarrow> int sio" where
  "Server_Run fuel = try_catch
     (with_loop (bnd CreateListenSocket (\<lambda>s. finally_do (serve fuel s) (do_call (closesocket s)))))
     (\<lambda>_. ret 1)"

section \<open>The client\<close>

datatype client = ConnectPending HANDLE HANDLE | Sending HANDLE "BYTE list list" | Receiving HANDLE "BYTE list list"
  | ClientReturned | ClientThrown

definition messages :: "BYTE list list" where
  "messages = map (map of_char) [''Hello'', ''from'', ''coroutines!'']"

definition CreateConnectSocket :: "HANDLE sio" where
  "CreateConnectSocket = bnd (call WSASocketW) (\<lambda>s. if rv s = InvalidHandleValue then throw RuntimeError else
     bnd (call (bind_socket (rv s))) (\<lambda>b.
       if rv b AND 0xFFFFFFFF = SocketError then andthen (do_call (closesocket (rv s))) (throw RuntimeError)
       else andthen (Associate (rv s)) (ret (rv s))))"

text \<open>The loop over the messages that are left, and the end of the coroutine behind it.\<close>

definition chat :: "HANDLE \<Rightarrow> BYTE list list \<Rightarrow> client sio" where
  "chat s ms = (case ms of
      [] \<Rightarrow> andthen (do_call (shutdown_socket s)) (andthen (do_call (closesocket s)) (ret ClientReturned))
    | m # ms \<Rightarrow> andthen (Send_suspend s m) (ret (Sending s ms)))"

definition ConnectAndChat :: "client sio" where
  "ConnectAndChat = bnd CreateConnectSocket (\<lambda>s.
     bnd (call getaddrinfo) (\<lambda>a. if rv a \<noteq> 0 then throw RuntimeError else
     andthen (Connect_suspend s) (ret (ConnectPending s (out a)))))"

fun client_continue :: "client \<Rightarrow> completion \<Rightarrow> client sio" where
  "client_continue (ConnectPending s a) c =
     andthen (Connect_resume s c) (andthen (do_call (freeaddrinfo a)) (chat s messages))"
| "client_continue (Sending s ms) c = andthen RemoveOp (andthen (Recv_suspend s BufferSize) (ret (Receiving s ms)))"
| "client_continue (Receiving s ms) c = andthen RemoveOp (chat s ms)"
| "client_continue ClientReturned c = fault"
| "client_continue ClientThrown c = fault"

definition client_resume :: "client \<Rightarrow> completion \<Rightarrow> client sio" where
  "client_resume t c = try_catch (client_continue t c) (\<lambda>_. ret ClientThrown)"

definition client_body :: "nat \<Rightarrow> int sio" where
  "client_body fuel = bnd (try_catch ConnectAndChat (\<lambda>_. ret ClientThrown)) (\<lambda>t.
     bnd (IoEventLoop_Run client_resume fuel t) (\<lambda>t. if t = ClientThrown then throw RuntimeError else ret 0))"

definition Client_Run :: "nat \<Rightarrow> int sio" where
  "Client_Run fuel = try_catch (with_loop (client_body fuel)) (\<lambda>_. ret 1)"

definition coroutine_main :: "nat \<Rightarrow> string list \<Rightarrow> int sio" where
  "coroutine_main fuel argv =
     (if 1 < length argv \<and> argv ! 1 = ''--client'' then Client_Run fuel else Server_Run fuel)"

section \<open>The sockets\<close>

definition sock_opens :: "sockcall \<Rightarrow> resp \<Rightarrow> HANDLE option" where
  "sock_opens c r = (if c = WSASocketW \<and> rv r \<noteq> InvalidHandleValue then Some (rv r) else None)"

definition sock_closes :: "sockcall \<Rightarrow> HANDLE option" where
  "sock_closes c = (case c of closesocket s \<Rightarrow> Some s | _ \<Rightarrow> None)"

interpretation sk: handle_api sock_opens sock_closes
  by unfold_locales (auto simp: sock_opens_def sock_closes_def split: sockcall.splits)

section \<open>What the server receives and sends\<close>

text \<open>
  Both are read off a history.  A completion is one of a receive when the last operation that was
  started is a receive; \<open>mode\<close> says whether it is.
\<close>

fun mode :: "bool \<Rightarrow> sockcall history \<Rightarrow> bool" where
  "mode rx [] = rx"
| "mode rx ((WSARecv s n, r) # h) = mode True h"
| "mode rx ((WSASend s bs, r) # h) = mode False h"
| "mode rx ((c, r) # h) = mode rx h"

fun received :: "bool \<Rightarrow> sockcall history \<Rightarrow> BYTE list list" where
  "received rx [] = []"
| "received rx ((WSARecv s n, r) # h) = received True h"
| "received rx ((WSASend s bs, r) # h) = received False h"
| "received rx ((GetQueuedCompletionStatus, r) # h) =
     (if rx \<and> overlapped_of r \<noteq> 0 \<and> ucast (out r) \<noteq> (0 :: DWORD)
      then take (unat (ucast (out r) :: DWORD)) (buf r) # received rx h else received rx h)"
| "received rx ((c, r) # h) = received rx h"

fun sends :: "sockcall history \<Rightarrow> BYTE list list" where
  "sends [] = []"
| "sends ((WSASend s bs, r) # h) = bs # sends h"
| "sends ((c, r) # h) = sends h"

lemma sends_append [simp]: "sends (g @ h) = sends g @ sends h"
  by (induction g rule: sends.induct) auto

lemma mode_append [simp]: "mode rx (g @ h) = mode (mode rx g) h"
  by (induction rx g rule: mode.induct) auto

lemma received_append [simp]: "received rx (g @ h) = received rx g @ received (mode rx g) h"
  by (induction rx g rule: received.induct) auto

section \<open>One resumption\<close>

text \<open>The count of the loop and the mode belong to the place where the server is suspended.\<close>

fun at_place :: "server \<Rightarrow> int \<Rightarrow> bool \<Rightarrow> bool" where
  "at_place (AcceptPending s) n rx \<longleftrightarrow> n = 1 \<and> \<not> rx"
| "at_place (RecvPending s) n rx \<longleftrightarrow> n = 1 \<and> rx"
| "at_place (SendPending s) n rx \<longleftrightarrow> n = 1 \<and> \<not> rx"
| "at_place Returned n rx \<longleftrightarrow> n = 0"
| "at_place Thrown n rx \<longleftrightarrow> n = 0"

text \<open>The sockets the server holds: its client while there is one.  A server that has thrown may have left it.\<close>

fun holds :: "server \<Rightarrow> HANDLE multiset \<Rightarrow> bool" where
  "holds (AcceptPending s) M \<longleftrightarrow> M = {#s#}"
| "holds (RecvPending s) M \<longleftrightarrow> M = {#s#}"
| "holds (SendPending s) M \<longleftrightarrow> M = {#s#}"
| "holds Returned M \<longleftrightarrow> M = {#}"
| "holds Thrown M \<longleftrightarrow> size M \<le> 1"

text \<open>The chunk that a completion brings to a server that waits in a receive.\<close>

fun chunk :: "server \<Rightarrow> completion \<Rightarrow> BYTE list list" where
  "chunk (RecvPending s) c = (if bytesTransferred c = 0 then [] else [take (unat (bytesTransferred c)) (received_data c)])"
| "chunk _ c = []"

lemmas coro_defs = server_resume_def keep_exception_def Accept_resume_def HandleClient_def Associate_def receive_def
  Recv_suspend_def Send_suspend_def Accept_suspend_def AcceptAndServe_def start_failed_def AddOp_def RemoveOp_def

lemmas raw_io = bnd_def call_def throw_def ret_def modify_def try_catch_def andthen_def do_call_def fault_def

text \<open>The handles after a call, by the call.\<close>

lemma track_call [simp]: "sk.track K ((c, r) # g) = (case c of
    closesocket s \<Rightarrow> if s \<in># K then sk.track (K - {#s#}) g else None
  | WSASocketW \<Rightarrow> if rv r \<noteq> InvalidHandleValue then sk.track (add_mset (rv r) K) g else sk.track K g
  | _ \<Rightarrow> sk.track K g)"
  by (cases c) (simp_all add: sock_opens_def sock_closes_def)

declare sk.track.simps(2) [simp del]

lemma live_append: "sk.live h = Some K \<Longrightarrow> sk.live (h @ g) = sk.track K g"
  by (simp add: sk.live_def sk.track_append)

lemma server_step:
  assumes "at_place t n rx" "0 < n" "bytesTransferred c \<le> BufferSize" "sk.live h = Some (L + M)" "holds t M"
  shows "\<exists>t' n' g M'. server_resume t c os n h = (Val t', n', h @ g) \<and> at_place t' n' (mode rx g) \<and>
    received rx g = [] \<and> sends g = chunk t c \<and> sk.live (h @ g) = Some (L + M') \<and> holds t' M'"
proof (cases t)
  case (AcceptPending s)
  then show ?thesis using assms
    by (simp add: coro_defs raw_io live_append del: One_nat_def)
next
  case (RecvPending s)
  moreover have "\<not> BufferSize < bytesTransferred c" using assms(3) by simp
  ultimately show ?thesis using assms
    by (simp add: coro_defs raw_io live_append del: One_nat_def)
next
  case (SendPending s)
  then show ?thesis using assms
    by (simp add: coro_defs raw_io live_append del: One_nat_def)
qed (use assms in simp_all)

text \<open>The server keeps this of its count, of what it has received and sent, and of the sockets.\<close>

definition server_inv :: "HANDLE multiset \<Rightarrow> server \<Rightarrow> int \<Rightarrow> sockcall history \<Rightarrow> bool" where
  "server_inv L t n h \<longleftrightarrow> at_place t n (mode False h) \<and> sends h = received False h \<and>
     (\<exists>M. sk.live h = Some (L + M) \<and> holds t M)"

lemma received_completion:
  "at_place t n rx \<Longrightarrow> overlapped_of r \<noteq> 0 \<Longrightarrow> 0 < n \<Longrightarrow>
   received rx ((GetQueuedCompletionStatus, r) # g) =
     chunk t \<lparr>bytesTransferred = ucast (out r), error = e, received_data = buf r\<rparr> @ received rx g"
  by (cases t) auto

lemma after_wait [simp]:
  "waited r k \<Longrightarrow> mode rx k = mode rx [(GetQueuedCompletionStatus, r)]"
  "waited r k \<Longrightarrow> received rx k = received rx [(GetQueuedCompletionStatus, r)]"
  "waited r k \<Longrightarrow> sends k = []"
  "waited r k \<Longrightarrow> sk.live (h @ k) = sk.live h"
  by (cases "sk.live h"; auto simp: waited_def live_append sk.live_def sk.track_append)+

lemma not_waiting: "at_place t n rx \<Longrightarrow> n \<le> 0 \<Longrightarrow> (t = Returned \<or> t = Thrown) \<and> n = 0"
  by (cases t) auto

interpretation srv: resumable server_resume "server_inv L" for L
proof
  fix t n h and r :: resp
  assume "server_inv L t n h" "overlapped_of r = 0"
  then show "server_inv L t n (h @ [(GetQueuedCompletionStatus, r)])"
    by (auto simp: server_inv_def live_append)
next
  fix os t n h and r :: resp and k e
  let ?c = "\<lparr>bytesTransferred = ucast (out r), error = e, received_data = buf r\<rparr>"
  assume inv: "server_inv L t n h" and n: "0 < n" and o: "overlapped_of r \<noteq> 0" and b: "ucast (out r) \<le> BufferSize"
    and w: "waited r k"
  from inv obtain M where p: "at_place t n (mode False h)" and io: "sends h = received False h"
    and l: "sk.live h = Some (L + M)" "holds t M" by (auto simp: server_inv_def)
  have "sk.live (h @ k) = Some (L + M)" using l w by simp
  from server_step[OF p n _ this l(2), of ?c os] b obtain t' n' g M' where
    s: "server_resume t ?c os n (h @ k) = (Val t', n', (h @ k) @ g)" "at_place t' n' (mode (mode False h) g)"
      "received (mode False h) g = []" "sends g = chunk t ?c" "sk.live ((h @ k) @ g) = Some (L + M')" "holds t' M'"
    by auto
  have "server_inv L t' n' ((h @ k) @ g)"
    using s io w received_completion[OF p o n, of "[]" e] by (auto simp: server_inv_def)
  with s(1) show "\<exists>t' n' h'. server_resume t ?c os n (h @ k) = (Val t', n', h') \<and> server_inv L t' n' h'" by blast
qed

text \<open>The server up to its first suspension, and its whole run.\<close>

definition echoed :: "sockcall history \<Rightarrow> bool" where
  "echoed h \<longleftrightarrow> sends h = received False h"

lemma accept_start:
  assumes "sk.live h = Some L" "echoed h" "\<not> mode False h"
  shows "\<exists>t n h'. keep_exception (AcceptAndServe s) os 0 h = (Val t, n, h') \<and> server_inv L t n h'"
  using assms by (simp add: coro_defs raw_io live_append server_inv_def echoed_def del: One_nat_def)

lemma listen_start:
  assumes "sk.live h = Some {#}" "echoed h" "\<not> mode False h"
  shows "\<exists>oc h'. CreateListenSocket os n h = (oc, n, h') \<and> echoed h' \<and> \<not> mode False h' \<and>
    (oc = Exn RuntimeError \<and> sk.live h' = Some {#} \<or> (\<exists>s. oc = Val s \<and> sk.live h' = Some {#s#}))"
  using assms
  by (simp add: CreateListenSocket_def Associate_def finally_do_def whenM_def raw_io live_append echoed_def)

text \<open>How a part of the server's run ends: what it echoed, the count of the loop and the sockets left open.\<close>

definition server_result :: "HANDLE multiset \<Rightarrow> (sockerr, int) outcome \<Rightarrow> int \<Rightarrow> sockcall history \<Rightarrow> bool" where
  "server_result L oc n h \<longleftrightarrow> echoed h \<and> (case oc of
      Val x \<Rightarrow> x = 0 \<and> n = 0 \<and> sk.live h = Some L
    | Exn e \<Rightarrow> n = 0 \<and> (\<exists>M. sk.live h = Some (L + M) \<and> size M \<le> 1)
    | Running \<Rightarrow> sk.live h \<noteq> None
    | _ \<Rightarrow> False)"

lemma serve_result:
  assumes "port_ok os" "sk.live h = Some {#s#}" "echoed h" "\<not> mode False h"
  shows "\<exists>oc n h'. serve fuel s os 0 h = (oc, n, h') \<and> server_result {#s#} oc n h'"
proof -
  obtain t n h1 where st: "keep_exception (AcceptAndServe s) os 0 h = (Val t, n, h1)" and inv: "server_inv {#s#} t n h1"
    using accept_start[OF assms(2-4)] by blast
  obtain oc n2 h2 where run: "IoEventLoop_Run server_resume fuel t os n h1 = (oc, n2, h2)" and "srv.loop_post {#s#} oc n2 h2"
    using srv.loop[OF assms(1) inv] by blast
  then obtain t2 where "server_inv {#s#} t2 n2 h2" "oc = Running \<or> oc = Val t2 \<and> n2 \<le> 0"
    unfolding srv.loop_post_def by blast
  then have "\<exists>oc2. serve fuel s os 0 h = (oc2, n2, h2) \<and> server_result {#s#} oc2 n2 h2"
    using not_waiting[of t2 n2 "mode False h2"]
    by (auto simp: serve_def bnd_def st run server_result_def server_inv_def io_simps echoed_def)
  then show ?thesis by blast
qed

lemma scope_result:
  assumes "port_ok os" "sk.live h = Some {#}" "echoed h" "\<not> mode False h"
  shows "\<exists>oc n h'. bnd CreateListenSocket (\<lambda>s. finally_do (serve fuel s) (do_call (closesocket s))) os 0 h = (oc, n, h') \<and>
    server_result {#} oc n h'"
proof -
  obtain oc h1 where l: "CreateListenSocket os 0 h = (oc, 0, h1)" and q: "echoed h1" "\<not> mode False h1"
    and r: "oc = Exn RuntimeError \<and> sk.live h1 = Some {#} \<or> (\<exists>s. oc = Val s \<and> sk.live h1 = Some {#s#})"
    using listen_start[OF assms(2-4)] by blast
  from r show ?thesis
  proof
    assume "oc = Exn RuntimeError \<and> sk.live h1 = Some {#}"
    then show ?thesis using q by (auto simp: bnd_def l server_result_def)
  next
    assume "\<exists>s. oc = Val s \<and> sk.live h1 = Some {#s#}"
    then obtain s where s: "oc = Val s" "sk.live h1 = Some {#s#}" by blast
    obtain oc2 n h2 where run: "serve fuel s os 0 h1 = (oc2, n, h2)" and res: "server_result {#s#} oc2 n h2"
      using serve_result[OF assms(1) s(2) q] by blast
    show ?thesis using res
      by (cases oc2) (auto simp: bnd_def l s finally_do_def run server_result_def echoed_def raw_io live_append)
  qed
qed

text \<open>The scopes of Winsock and of the loop around any program, and the calls they make.\<close>

fun housekeeping :: "sockcall \<Rightarrow> bool" where
  "housekeeping WSAStartup = True"
| "housekeeping CreateIoCompletionPort = True"
| "housekeeping (CloseHandle p) = True"
| "housekeeping WSACleanup = True"
| "housekeeping _ = False"

definition exit_code :: "(sockerr, int) outcome \<Rightarrow> (sockerr, int) outcome" where
  "exit_code oc = (case oc of Exn e \<Rightarrow> Val 1 | _ \<Rightarrow> oc)"

lemma with_loop_run:
  obtains g where "try_catch (with_loop m) (\<lambda>_. ret 1 :: int sio) os n [] = (Val 1, n, g)" "list_all housekeeping (calls g)"
  | h where "list_all housekeeping (calls h)"
      "\<And>oc n' h'. m os n h = (oc, n', h') \<Longrightarrow> \<exists>k. list_all housekeeping (calls k) \<and>
         try_catch (with_loop m) (\<lambda>_. ret 1 :: int sio) os n [] = (exit_code oc, n', h' @ k)"
proof -
  let ?w = "(WSAStartup, os [] WSAStartup)"
  let ?p = "(CreateIoCompletionPort, os [?w] CreateIoCompletionPort)"
  consider "rv (snd ?w) \<noteq> 0" | "rv (snd ?w) = 0" "rv (snd ?p) = 0" | "rv (snd ?w) = 0" "rv (snd ?p) \<noteq> 0" by blast
  then show thesis
  proof cases
    case 3
    have "\<exists>k. list_all housekeeping (calls k) \<and> try_catch (with_loop m) (\<lambda>_. ret 1 :: int sio) os n [] = (exit_code oc, n', h' @ k)"
      if "m os n [?w, ?p] = (oc, n', h')" for oc n' h'
      using 3 that by (cases oc) (auto simp: with_loop_def finally_do_def raw_io exit_code_def intro: exI[of _ "[]"])
    then show thesis by (intro that(2)[of "[?w, ?p]"]) simp_all
  qed (auto simp: with_loop_def finally_do_def raw_io intro!: that(1))
qed

lemma housekeeping_unseen [simp]:
  "list_all housekeeping (calls g) \<Longrightarrow> mode rx g = rx \<and> received rx g = [] \<and> sends g = [] \<and> sk.track K g = Some K"
proof (induction g arbitrary: rx)
  case (Cons x g)
  then show ?case by (cases x; cases "fst x") auto
qed simp

lemma Server_Run_result:
  assumes "port_ok os"
  shows "\<exists>oc n h. Server_Run fuel os 0 [] = (exit_code oc, n, h) \<and> server_result {#} oc n h"
proof (cases rule: with_loop_run[of "bnd CreateListenSocket (\<lambda>s. finally_do (serve fuel s) (do_call (closesocket s)))" os 0])
  case (1 g)
  then have "server_result {#} (Exn RuntimeError) 0 g" by (simp add: server_result_def echoed_def sk.live_def)
  moreover have "Server_Run fuel os 0 [] = (exit_code (Exn RuntimeError), 0, g)"
    using 1 by (simp add: Server_Run_def exit_code_def)
  ultimately show ?thesis by blast
next
  case (2 h)
  have "sk.live h = Some {#}" "echoed h" "\<not> mode False h" using 2(1) by (simp_all add: sk.live_def echoed_def)
  from scope_result[OF assms this] obtain oc n h' where
    run: "bnd CreateListenSocket (\<lambda>s. finally_do (serve fuel s) (do_call (closesocket s))) os 0 h = (oc, n, h')"
    and res: "server_result {#} oc n h'" by blast
  obtain k where k: "list_all housekeeping (calls k)" "Server_Run fuel os 0 [] = (exit_code oc, n, h' @ k)"
    using 2(2)[OF run] unfolding Server_Run_def by blast
  have "server_result {#} oc n (h' @ k)"
    using res k(1) by (cases oc) (auto simp: server_result_def echoed_def live_append)
  with k(2) show ?thesis by blast
qed

section \<open>The client\<close>

fun client_place :: "client \<Rightarrow> int \<Rightarrow> BYTE list list \<Rightarrow> bool" where
  "client_place (ConnectPending s a) n sent \<longleftrightarrow> n = 1 \<and> sent = []"
| "client_place (Sending s ms) n sent \<longleftrightarrow> n = 1 \<and> sent @ ms = messages"
| "client_place (Receiving s ms) n sent \<longleftrightarrow> n = 1 \<and> sent @ ms = messages"
| "client_place ClientReturned n sent \<longleftrightarrow> n = 0 \<and> sent = messages"
| "client_place ClientThrown n sent \<longleftrightarrow> n = 0 \<and> (\<exists>ms. sent @ ms = messages)"

fun client_holds :: "client \<Rightarrow> HANDLE multiset \<Rightarrow> bool" where
  "client_holds (ConnectPending s a) M \<longleftrightarrow> M = {#s#}"
| "client_holds (Sending s ms) M \<longleftrightarrow> M = {#s#}"
| "client_holds (Receiving s ms) M \<longleftrightarrow> M = {#s#}"
| "client_holds ClientReturned M \<longleftrightarrow> M = {#}"
| "client_holds ClientThrown M \<longleftrightarrow> size M \<le> 1"

definition client_inv :: "client \<Rightarrow> int \<Rightarrow> sockcall history \<Rightarrow> bool" where
  "client_inv t n h \<longleftrightarrow> client_place t n (sends h) \<and> (\<exists>M. sk.live h = Some M \<and> client_holds t M)"

lemmas client_defs = client_resume_def Connect_resume_def chat_def Send_suspend_def Recv_suspend_def start_failed_def
  AddOp_def RemoveOp_def

lemma client_step:
  assumes "client_inv t n h" "0 < n"
  shows "\<exists>t' n' h'. client_resume t c os n h = (Val t', n', h') \<and> client_inv t' n' h'"
proof (cases t)
  case (ConnectPending s a)
  obtain m ms where m: "messages = m # ms" by (simp add: messages_def)
  have "chat s messages = andthen (Send_suspend s m) (ret (Sending s ms))" by (simp add: chat_def m)
  then show ?thesis using assms ConnectPending
    by (auto simp: client_defs raw_io live_append client_inv_def m simp del: One_nat_def)
next
  case (Sending s ms)
  then show ?thesis using assms
    by (auto simp: client_defs raw_io live_append client_inv_def simp del: One_nat_def)
next
  case (Receiving s ms)
  then show ?thesis using assms
    by (cases ms) (auto simp: client_defs raw_io live_append client_inv_def simp del: One_nat_def)
qed (use assms in \<open>simp_all add: client_inv_def\<close>)

interpretation cli: resumable client_resume client_inv
proof
  fix t n h and r :: resp
  assume "client_inv t n h" "overlapped_of r = 0"
  then show "client_inv t n (h @ [(GetQueuedCompletionStatus, r)])"
    by (auto simp: client_inv_def live_append)
next
  fix os t n h and r :: resp and k e
  assume inv: "client_inv t n h" and n: "0 < n" and w: "waited r k"
  have "client_inv t n (h @ k)" using inv w by (simp add: client_inv_def)
  from client_step[OF this n]
  show "\<exists>t' n' h'. client_resume t \<lparr>bytesTransferred = ucast (out r), error = e, received_data = buf r\<rparr> os n (h @ k) =
      (Val t', n', h') \<and> client_inv t' n' h'" .
qed

lemma connect_start:
  assumes "sk.live h = Some {#}" "sends h = []"
  shows "\<exists>t n h'. try_catch ConnectAndChat (\<lambda>_. ret ClientThrown :: client sio) os 0 h = (Val t, n, h') \<and> client_inv t n h'"
  using assms
  by (simp add: ConnectAndChat_def CreateConnectSocket_def Associate_def Connect_suspend_def client_defs raw_io live_append
      client_inv_def del: One_nat_def)

definition client_result :: "(sockerr, int) outcome \<Rightarrow> int \<Rightarrow> sockcall history \<Rightarrow> bool" where
  "client_result oc n h \<longleftrightarrow> (\<exists>rest. sends h @ rest = messages) \<and> (case oc of
      Val x \<Rightarrow> x = 0 \<and> n = 0 \<and> sends h = messages \<and> sk.live h = Some {#}
    | Exn e \<Rightarrow> n = 0 \<and> (\<exists>M. sk.live h = Some M \<and> size M \<le> 1)
    | Running \<Rightarrow> sk.live h \<noteq> None
    | _ \<Rightarrow> False)"

lemma client_not_waiting: "client_place t n g \<Longrightarrow> n \<le> 0 \<Longrightarrow> (t = ClientReturned \<or> t = ClientThrown) \<and> n = 0"
  by (cases t) auto

lemma client_sent: "client_place t n g \<Longrightarrow> \<exists>rest. g @ rest = messages"
  by (cases t) auto

lemma chat_result:
  assumes "port_ok os" "sk.live h = Some {#}" "sends h = []"
  shows "\<exists>oc n h'. client_body fuel os 0 h = (oc, n, h') \<and> client_result oc n h'"
proof -
  obtain t n h1 where st: "try_catch ConnectAndChat (\<lambda>_. ret ClientThrown :: client sio) os 0 h = (Val t, n, h1)"
    and inv: "client_inv t n h1" using connect_start[OF assms(2,3)] by blast
  obtain oc n2 h2 where run: "IoEventLoop_Run client_resume fuel t os n h1 = (oc, n2, h2)" and "cli.loop_post oc n2 h2"
    using cli.loop[OF assms(1) inv] by blast
  then obtain t2 where i: "client_inv t2 n2 h2" and oc: "oc = Running \<or> oc = Val t2 \<and> n2 \<le> 0"
    unfolding cli.loop_post_def by blast
  have "client_place t2 n2 (sends h2)" using i by (simp add: client_inv_def)
  note facts = client_sent[OF this] client_not_waiting[OF this]
  have "\<exists>oc2. client_body fuel os 0 h = (oc2, n2, h2) \<and> client_result oc2 n2 h2"
    using oc i facts by (auto simp: client_body_def bnd_def st run client_result_def client_inv_def io_simps)
  then show ?thesis by blast
qed

lemma Client_Run_result:
  assumes "port_ok os"
  shows "\<exists>oc n h. Client_Run fuel os 0 [] = (exit_code oc, n, h) \<and> client_result oc n h"
proof (cases rule: with_loop_run[of "client_body fuel" os 0])
  case (1 g)
  then have "client_result (Exn RuntimeError) 0 g" by (simp add: client_result_def sk.live_def)
  moreover have "Client_Run fuel os 0 [] = (exit_code (Exn RuntimeError), 0, g)"
    using 1 by (simp add: Client_Run_def exit_code_def)
  ultimately show ?thesis by blast
next
  case (2 h)
  have "sk.live h = Some {#}" "sends h = []" using 2(1) by (simp_all add: sk.live_def)
  from chat_result[OF assms this] obtain oc n h' where
    run: "client_body fuel os 0 h = (oc, n, h')" and res: "client_result oc n h'" by blast
  obtain k where k: "list_all housekeeping (calls k)" "Client_Run fuel os 0 [] = (exit_code oc, n, h' @ k)"
    using 2(2)[OF run] unfolding Client_Run_def by blast
  have "client_result oc n (h' @ k)"
    using res k(1) by (cases oc) (auto simp: client_result_def live_append)
  with k(2) show ?thesis by blast
qed

section \<open>Properties\<close>

text \<open>A system for the witnesses: one client sends \<open>chunk\<close> and then disconnects, or its connection is reset.\<close>

definition waits :: "sockcall history \<Rightarrow> nat" where
  "waits h = length (filter (\<lambda>x. fst x = GetQueuedCompletionStatus) h)"

definition answer :: "64 word \<Rightarrow> 64 word \<Rightarrow> BYTE list \<Rightarrow> resp" where
  "answer a b bs = \<lparr>rv = a, out = b, buf = bs, outs = [7], rows = []\<rparr>"

definition session_os :: "bool \<Rightarrow> sockcall os" where
  "session_os reset h c = (case c of
      GetQueuedCompletionStatus \<Rightarrow> answer 1 (if waits h = 1 \<or> waits h = 2 then 2 else 0) [104, 105]
    | WSASocketW \<Rightarrow> answer (10 + of_nat (length h)) 0 []
    | CreateIoCompletionPort \<Rightarrow> answer 1 0 []
    | AssociateSocket s \<Rightarrow> answer 1 0 []
    | AcceptEx s s' \<Rightarrow> answer 1 0 []
    | WSARecv s n \<Rightarrow> answer (if reset \<and> 2 \<le> waits h then SocketError else 0) 0 []
    | WSAGetLastError \<Rightarrow> answer 10054 0 []
    | WSAIoctl s \<Rightarrow> answer 0 1 []
    | ConnectEx s \<Rightarrow> answer 1 0 []
    | _ \<Rightarrow> answer 0 0 [])"

lemma session_os_port: "port_ok (session_os b)"
  by (simp add: port_ok_def session_os_def answer_def overlapped_of_def Let_def)

text \<open>
  A connection that breaks after an accepted client was served once: the program ends, and the
  client's socket, 17, is still open.
\<close>

lemma reset_session: "history_of (Server_Run 9 (session_os True) 0 []) = session \<Longrightarrow> sk.live session = Some {#17#}"
  by (code_simp, auto simp: sk.live_def InvalidHandleValue_def)

text \<open>
  C20: Whatever the system answers, the server sends, in order and with nothing added or lost, the
  chunks that its receives have delivered: at every point of a run each chunk received has been
  handed to \<open>WSASend\<close> once.
\<close>

theorem server_echoes:
  assumes "port_ok os"
  shows "sends (history_of (Server_Run fuel os 0 [])) = received False (history_of (Server_Run fuel os 0 []))"
proof -
  obtain oc n h where "Server_Run fuel os 0 [] = (exit_code oc, n, h)" "server_result {#} oc n h"
    using Server_Run_result[OF assms] by blast
  then show ?thesis by (simp add: server_result_def echoed_def)
qed

theorem server_echoes_witness: "sends (history_of (Server_Run 9 (session_os False) 0 [])) = [[104, 105]]"
proof -
  have "received False (history_of (Server_Run 9 (session_os False) 0 [])) = [[104, 105]]" by code_simp
  then show ?thesis using server_echoes[OF session_os_port, of 9 False] by simp
qed

text \<open>
  How the program ends: with an exit code, no outstanding operation and, after 0, no socket open;
  after 1 at most one socket is left open, and never is a socket closed that is not held.
\<close>

definition main_result :: "(sockerr, int) outcome \<times> int \<times> sockcall history \<Rightarrow> bool" where
  "main_result r = (case outcome_of r of
      Val x \<Rightarrow> state_of r = 0 \<and> (x = 0 \<and> sk.live (history_of r) = Some {#} \<or>
        x = 1 \<and> (\<exists>M. sk.live (history_of r) = Some M \<and> size M \<le> 1))
    | Running \<Rightarrow> sk.live (history_of r) \<noteq> None
    | _ \<Rightarrow> False)"

text \<open>
  The program, server or client, never resumes a coroutine that has ended and never ends in
  undefined behaviour or an uncaught exception: the loop returns exactly when the operations it has
  counted are done, and the sockets are balanced as \<open>main_result\<close> says.
\<close>

theorem coroutine_main_ends:
  assumes "port_ok os"
  shows "main_result (coroutine_main fuel argv os 0 [])"
proof -
  obtain oc n h where s: "Server_Run fuel os 0 [] = (exit_code oc, n, h)" "server_result {#} oc n h"
    using Server_Run_result[OF assms] by blast
  have "main_result (Server_Run fuel os 0 [])"
    using s(2) unfolding s(1) by (cases oc) (simp_all add: main_result_def server_result_def exit_code_def)
  moreover obtain oc2 n2 h2 where c: "Client_Run fuel os 0 [] = (exit_code oc2, n2, h2)" "client_result oc2 n2 h2"
    using Client_Run_result[OF assms] by blast
  have "main_result (Client_Run fuel os 0 [])"
    using c(2) unfolding c(1) by (cases oc2) (simp_all add: main_result_def client_result_def exit_code_def)
  ultimately show ?thesis by (simp add: coroutine_main_def)
qed

theorem coroutine_main_ends_witness:
  "main_result (coroutine_main 9 [''echo'', ''--client''] (session_os False) 0 []) \<and>
   outcome_of (coroutine_main 9 [''echo'', ''--client''] (session_os False) 0 []) = Val 0"
proof
  show "outcome_of (coroutine_main 9 [''echo'', ''--client''] (session_os False) 0 []) = Val 0" by code_simp
qed (rule coroutine_main_ends[OF session_os_port])

text \<open>
  A client that exits with 0 has sent its three messages, each once and in order; whatever
  happens, what it has sent is the beginning of them.
\<close>

theorem client_sends_messages:
  assumes "port_ok os"
  shows "(\<exists>rest. sends (history_of (Client_Run fuel os 0 [])) @ rest = messages) \<and>
    (outcome_of (Client_Run fuel os 0 []) = Val 0 \<longrightarrow> sends (history_of (Client_Run fuel os 0 [])) = messages)"
proof -
  obtain oc n h where c: "Client_Run fuel os 0 [] = (exit_code oc, n, h)" "client_result oc n h"
    using Client_Run_result[OF assms] by blast
  show ?thesis using c(2) unfolding c(1) by (cases oc) (simp_all add: client_result_def exit_code_def)
qed

theorem client_sends_messages_witness:
  "sends (history_of (Client_Run 9 (session_os False) 0 [])) = messages \<and> length messages = 3"
proof -
  have "outcome_of (Client_Run 9 (session_os False) 0 []) = Val 0" by code_simp
  then show ?thesis using client_sends_messages[OF session_os_port, of 9 False] by (simp add: messages_def)
qed

lemma data_step:
  assumes "t = RecvPending s \<or> t = SendPending s" "sk.live h = Some (add_mset s L)"
  shows "\<exists>oc n' h'. server_resume t c os n h = (oc, n', h') \<and> (oc = Val Thrown \<longrightarrow> sk.live h' = Some (add_mset s L))"
  using assms(1)
proof
  assume "t = RecvPending s"
  then show ?thesis using assms(2)
    by (cases "BufferSize < bytesTransferred c") (simp_all add: coro_defs raw_io live_append)
next
  assume "t = SendPending s"
  then show ?thesis using assms(2) by (simp add: coro_defs raw_io live_append)
qed

text \<open>
  When a receive or a send of a session fails, the server gives up with the client's socket
  still open: nothing closes it afterwards, since only the coroutine knows it.
\<close>

theorem session_leaks:
  assumes "t = RecvPending s \<or> t = SendPending s" "sk.live h = Some (add_mset s L)"
    "server_resume t c os n h = (Val Thrown, n', h')"
  shows "sk.live h' = Some (add_mset s L)"
  using data_step[OF assms(1,2), of c os n] assms(3) by auto

theorem session_leaks_witness:
  "sk.live (history_of (server_resume (SendPending 17) \<lparr>bytesTransferred = 2, error = 0, received_data = []\<rparr>
     (\<lambda>_ _. answer SocketError 0 []) 1 [(WSASocketW, answer 17 0 [])])) = Some {#17#}"
proof -
  let ?r = "server_resume (SendPending 17) \<lparr>bytesTransferred = 2, error = 0, received_data = []\<rparr>
     (\<lambda>_ _. answer SocketError 0 []) 1 [(WSASocketW, answer 17 0 [])]"
  have "?r = (Val Thrown, state_of ?r, history_of ?r)" by (simp add: coro_defs raw_io answer_def)
  then show ?thesis
    by (rule session_leaks[of _ 17, rotated 2]) (simp_all add: sk.live_def answer_def InvalidHandleValue_def)
qed

end
