(* ===== verification/IocpServer.thy ===== *)
theory IocpServer
  imports Raii
begin

unbundle bit_operations_syntax

text \<open>
  WinSockIOCP/main.cpp: an echo server for many clients.  The main thread accepts connections, worker
  threads take the completions of their receives and sends from a completion port.  First the set-up
  and its scopes, as calls of the operating system; then the threads, as a step relation over the
  connections on the heap, the requests the system is working on and the queue of the port.
\<close>

section \<open>The set-up\<close>

datatype iocall =
    WSAStartup
  | WSACleanup
  | WSAGetLastError
  | GetLastError
  | GetSystemInfo
  | getaddrinfo
  | freeaddrinfo HANDLE
  | WSASocketW
  | closesocket HANDLE
  | bind_socket HANDLE
  | listen_socket HANDLE
  | CreateIoCompletionPort DWORD
  | AssociateSocket HANDLE HANDLE HANDLE
  | PostQueuedCompletionStatus HANDLE DWORD HANDLE
  | CloseHandle HANDLE

datatype iocperr = WinSockError DWORD | Win32Error DWORD

type_synonym 'a pio = "(unit, iocall, iocperr, 'a) io"

definition winsock_throw :: "'a pio" where
  "winsock_throw = bnd (call WSAGetLastError) (\<lambda>e. throw (WinSockError (ucast (rv e))))"

definition win32_throw :: "'a pio" where
  "win32_throw = bnd (call GetLastError) (\<lambda>e. throw (Win32Error (ucast (rv e))))"

text \<open>The scope of a \<open>Socket\<close>: \<open>Close\<close> does nothing for a moved or an invalid one.\<close>

definition Close :: "HANDLE \<Rightarrow> unit pio" where
  "Close s = whenM (s \<noteq> InvalidHandleValue) (do_call (closesocket s))"

definition with_WsaContext :: "'a pio \<Rightarrow> 'a pio" where
  "with_WsaContext m = bnd (call WSAStartup) (\<lambda>r. if rv r \<noteq> 0 then throw (WinSockError (ucast (rv r)))
     else finally_do m (do_call WSACleanup))"

definition with_CompletionPort :: "DWORD \<Rightarrow> (HANDLE \<Rightarrow> 'a pio) \<Rightarrow> 'a pio" where
  "with_CompletionPort n m = bnd (call (CreateIoCompletionPort n)) (\<lambda>p. if rv p = 0 then win32_throw
     else finally_do (m (rv p)) (whenM (rv p \<noteq> 0) (do_call (CloseHandle (rv p)))))"

definition Associate :: "HANDLE \<Rightarrow> HANDLE \<Rightarrow> HANDLE \<Rightarrow> unit pio" where
  "Associate port s key = bnd (call (AssociateSocket port s key)) (\<lambda>r. if rv r = 0 then win32_throw else ret ())"

definition Post :: "HANDLE \<Rightarrow> DWORD \<Rightarrow> HANDLE \<Rightarrow> unit pio" where
  "Post port bytes key = bnd (call (PostQueuedCompletionStatus port bytes key)) (\<lambda>r. if rv r = 0 then win32_throw else ret ())"

text \<open>The socket is closed when a later step throws, and moved out of its scope otherwise.\<close>

definition CreateListenSocket :: "HANDLE pio" where
  "CreateListenSocket = bnd (call getaddrinfo) (\<lambda>a. if rv a \<noteq> 0 then throw (WinSockError (ucast (rv a))) else
     finally_do
       (bnd (call WSASocketW) (\<lambda>s. if rv s = InvalidHandleValue then winsock_throw else
        try_catch
          (bnd (call (bind_socket (rv s))) (\<lambda>b. if rv b AND 0xFFFFFFFF = 0xFFFFFFFF then winsock_throw else
           bnd (call (listen_socket (rv s))) (\<lambda>l. if rv l AND 0xFFFFFFFF = 0xFFFFFFFF then winsock_throw else
           ret (rv s))))
          (\<lambda>e. andthen (Close (rv s)) (throw e))))
       (whenM (out a \<noteq> 0) (do_call (freeaddrinfo (out a)))))"

text \<open>\<open>body\<close> is what the threads do, given the listening socket, the port and the number of workers.\<close>

definition iocp_main :: "(HANDLE \<Rightarrow> HANDLE \<Rightarrow> DWORD \<Rightarrow> int pio) \<Rightarrow> int pio" where
  "iocp_main body = try_catch
     (with_WsaContext (bnd CreateListenSocket (\<lambda>s. finally_do
        (bnd (call GetSystemInfo) (\<lambda>i. with_CompletionPort (ucast (out i)) (\<lambda>p. body s p (ucast (out i)))))
        (Close s))))
     (\<lambda>_. ret 1)"

subsection \<open>What the set-up holds\<close>

datatype resource = Winsock | AddrInfo HANDLE | OpenSocket HANDLE | Port HANDLE

definition io_opens :: "iocall \<Rightarrow> resp \<Rightarrow> resource option" where
  "io_opens c r = (case c of
      WSAStartup \<Rightarrow> if rv r = 0 then Some Winsock else None
    | getaddrinfo \<Rightarrow> if rv r = 0 \<and> out r \<noteq> 0 then Some (AddrInfo (out r)) else None
    | WSASocketW \<Rightarrow> if rv r \<noteq> InvalidHandleValue then Some (OpenSocket (rv r)) else None
    | CreateIoCompletionPort n \<Rightarrow> if rv r \<noteq> 0 then Some (Port (rv r)) else None
    | _ \<Rightarrow> None)"

definition io_closes :: "iocall \<Rightarrow> resource option" where
  "io_closes c = (case c of
      WSACleanup \<Rightarrow> Some Winsock
    | freeaddrinfo p \<Rightarrow> Some (AddrInfo p)
    | closesocket s \<Rightarrow> Some (OpenSocket s)
    | CloseHandle p \<Rightarrow> Some (Port p)
    | _ \<Rightarrow> None)"

interpretation ip: handle_api io_opens io_closes
  by unfold_locales (auto simp: io_opens_def io_closes_def split: iocall.splits)

lemma io_track_call [simp]: "ip.track K ((c, r) # g) = (case io_closes c of
    Some x \<Rightarrow> if x \<in># K then ip.track (K - {#x#}) g else None
  | None \<Rightarrow> (case io_opens c r of Some x \<Rightarrow> ip.track (add_mset x K) g | None \<Rightarrow> ip.track K g))"
  by simp

lemma io_classes [simp]:
  "io_closes WSAStartup = None" "io_closes WSACleanup = Some Winsock" "io_closes WSAGetLastError = None"
  "io_closes GetLastError = None" "io_closes GetSystemInfo = None" "io_closes getaddrinfo = None"
  "io_closes (freeaddrinfo x) = Some (AddrInfo x)" "io_closes WSASocketW = None" "io_closes (closesocket x) = Some (OpenSocket x)"
  "io_closes (bind_socket x) = None" "io_closes (listen_socket x) = None" "io_closes (CreateIoCompletionPort n) = None"
  "io_closes (CloseHandle x) = Some (Port x)"
  "io_opens WSAStartup r = (if rv r = 0 then Some Winsock else None)" "io_opens WSAGetLastError r = None"
  "io_opens GetLastError r = None" "io_opens GetSystemInfo r = None"
  "io_opens getaddrinfo r = (if rv r = 0 \<and> out r \<noteq> 0 then Some (AddrInfo (out r)) else None)"
  "io_opens WSASocketW r = (if rv r \<noteq> InvalidHandleValue then Some (OpenSocket (rv r)) else None)"
  "io_opens (bind_socket x) r = None" "io_opens (listen_socket x) r = None"
  "io_opens (CreateIoCompletionPort n) r = (if rv r \<noteq> 0 then Some (Port (rv r)) else None)"
  by (simp_all add: io_opens_def io_closes_def)

lemma io_live_append: "ip.live h = Some K \<Longrightarrow> ip.live (h @ g) = ip.track K g"
  by (simp add: ip.live_def ip.track_append)

definition open_socket :: "HANDLE \<Rightarrow> resource multiset" where
  "open_socket s = (if s = InvalidHandleValue then {#} else {#OpenSocket s#})"

lemma owns_CreateListenSocket: "ip.owns {#} CreateListenSocket open_socket {#}"
proof (rule ip.ownsI)
  fix os s h and L :: "resource multiset" and oc s' h'
  assume live: "ip.live h = Some (L + {#})" and r: "CreateListenSocket os s h = (oc, s', h')"
  have "\<exists>oc h'. CreateListenSocket os s h = (oc, s, h') \<and> ip.post L open_socket {#} oc h'"
    using live
    by (simp add: CreateListenSocket_def winsock_throw_def Close_def finally_do_def whenM_def io_live_append open_socket_def
        bnd_def call_def throw_def ret_def try_catch_def andthen_def do_call_def)
  with r show "ip.post L open_socket {#} oc h'" by auto
qed

lemma owns_Close: "ip.owns (open_socket s) (Close s) (\<lambda>_. {#}) {#}"
  unfolding open_socket_def Close_def by (rule ip.owns_unless_null) simp

lemma io_neutral_calls [neutral_intro]: "ip.neutral (call WSAGetLastError)" "ip.neutral (call GetLastError)" "ip.neutral (call GetSystemInfo)"
  by (rule ip.neutral_call; simp)+

lemma io_neutral_throws [neutral_intro]: "ip.neutral winsock_throw" "ip.neutral win32_throw"
  unfolding winsock_throw_def win32_throw_def by (intro neutral_intro)+

lemma neutral_CompletionPort:
  assumes "\<And>p. ip.neutral (m p)"
  shows "ip.neutral (with_CompletionPort n m)"
  unfolding with_CompletionPort_def
  by (rule ip.neutral_unique_if) (auto intro: assms io_neutral_throws simp: whenM_def ip.owns_do_close)

lemma neutral_WsaContext:
  assumes "ip.neutral m"
  shows "ip.neutral (with_WsaContext m)"
  unfolding with_WsaContext_def
  by (rule ip.neutral_unique_if) (auto intro: assms simp: ip.owns_do_close)

text \<open>Whatever fails, the scopes of \<open>main\<close> give back what they have acquired, once, if the threads do.\<close>

lemma neutral_iocp_main:
  assumes "\<And>s p n. ip.neutral (body s p n)"
  shows "ip.neutral (iocp_main body)"
proof -
  have n: "ip.neutral (bnd (call GetSystemInfo) (\<lambda>i. with_CompletionPort (ucast (out i)) (\<lambda>p. body s p (ucast (out i)))))" for s
    by (intro neutral_intro neutral_CompletionPort assms)
  have "ip.neutral (bnd CreateListenSocket (\<lambda>s. finally_do
        (bnd (call GetSystemInfo) (\<lambda>i. with_CompletionPort (ucast (out i)) (\<lambda>p. body s p (ucast (out i)))))
        (Close s)))"
    unfolding ip.neutral_def
  proof (rule ip.owns_bnd[OF owns_CreateListenSocket])
    fix s
    show "ip.owns (open_socket s) (finally_do
        (bnd (call GetSystemInfo) (\<lambda>i. with_CompletionPort (ucast (out i)) (\<lambda>p. body s p (ucast (out i)))))
        (Close s)) (\<lambda>_. {#}) {#}"
      using ip.owns_finally[OF _ owns_Close[of s], of "open_socket s" _ "\<lambda>_. {#}"]
        ip.owns_frame[OF n[of s, unfolded ip.neutral_def], of "open_socket s"] by simp
  qed
  then show ?thesis unfolding iocp_main_def by (rule ip.neutral_try_catch[OF neutral_WsaContext]) simp
qed

section \<open>Connections\<close>

datatype OpType = Accept | Recv | Send

text \<open>
  The \<open>IoContext\<close> objects: the two of the connection at an address, and a temporary of the function that
  is running, which no longer exists when it returns.
\<close>

datatype place = RecvOpOf nat | SendOpOf nat | Temporary

text \<open>\<open>buf_at\<close> says whose \<open>Buffer\<close> the pointer in \<open>WsaBuf\<close> refers to.\<close>

record IoContext =
  op_type :: OpType
  buf_at :: place
  buf_len :: DWORD
  Buffer :: "BYTE list"

abbreviation (input) BufferLength :: DWORD where "BufferLength \<equiv> 4096"

definition IoContext_ctor :: "place \<Rightarrow> OpType \<Rightarrow> IoContext" where
  "IoContext_ctor this ty = \<lparr>op_type = ty, buf_at = this, buf_len = BufferLength, Buffer = replicate 4096 0\<rparr>"

record Connection =
  Sock :: HANDLE
  RecvOp :: IoContext
  SendOp :: IoContext

definition new_Connection :: "nat \<Rightarrow> HANDLE \<Rightarrow> Connection" where
  "new_Connection a s = \<lparr>Sock = s, RecvOp = IoContext_ctor (RecvOpOf a) Recv, SendOp = IoContext_ctor (SendOpOf a) Send\<rparr>"

section \<open>The state of the program\<close>

text \<open>A request the system works on, a completion in the queue of the port, and where a thread is.\<close>

record request =
  conn :: nat
  req_ov :: place
  req_at :: place
  req_len :: DWORD

record packet =
  key :: nat
  bytes :: DWORD
  ok :: bool
  ov :: place

text \<open>A worker waits with its variable \<open>key\<close> as the last packet has left it.\<close>

datatype thread = Waiting nat | Handling packet | Finished

datatype mainloc = Accepting | Associating nat | Receiving nat | Unwinding nat

datatype fate = Alive | Terminated | UndefinedBehaviour

record iocp =
  heap :: "nat \<Rightarrow> Connection option"
  fresh :: nat
  requests :: "request list"
  packets :: "packet list"
  workers :: "thread list"
  main_at :: mainloc
  closed :: "HANDLE list"
  fate :: fate

text \<open>An operation on connections ends normally, by an exception, or has undefined behaviour.\<close>

datatype result = Done iocp | Threw iocp | Undefined

definition ShutdownKey :: nat where
  "ShutdownKey = 0"

text \<open>
  \<open>op = IoContext{...}\<close> copies the members of a temporary, the pointer to its buffer included.
  \<open>PostSend\<close> then sets the pointer, \<open>PostRecv\<close> does not.
\<close>

definition PostRecv :: "bool \<Rightarrow> nat \<Rightarrow> iocp \<Rightarrow> result" where
  "PostRecv started a s = (case heap s a of None \<Rightarrow> Undefined | Some c \<Rightarrow>
     let p = IoContext_ctor Temporary Recv;
         s' = s\<lparr>heap := (heap s)(a \<mapsto> c\<lparr>RecvOp := p\<rparr>)\<rparr>
     in if started
        then Done (s'\<lparr>requests := requests s' @ [\<lparr>conn = a, req_ov = RecvOpOf a, req_at = buf_at p, req_len = buf_len p\<rparr>]\<rparr>)
        else Threw s')"

definition PostSend :: "bool \<Rightarrow> nat \<Rightarrow> DWORD \<Rightarrow> iocp \<Rightarrow> result" where
  "PostSend started a n s = (case heap s a of None \<Rightarrow> Undefined | Some c \<Rightarrow>
     if BufferLength < n then Undefined else
     let p = (IoContext_ctor Temporary Send)\<lparr>buf_len := n\<rparr>;
         p = p\<lparr>Buffer := overwrite 0 (take (unat n) (Buffer (RecvOp c))) (Buffer p)\<rparr>;
         p = p\<lparr>buf_at := SendOpOf a\<rparr>;
         s' = s\<lparr>heap := (heap s)(a \<mapsto> c\<lparr>SendOp := p\<rparr>)\<rparr>
     in if started
        then Done (s'\<lparr>requests := requests s' @ [\<lparr>conn = a, req_ov = SendOpOf a, req_at = buf_at p, req_len = buf_len p\<rparr>]\<rparr>)
        else Threw s')"

text \<open>The destructor of a connection closes its socket.\<close>

definition delete_Connection :: "nat \<Rightarrow> iocp \<Rightarrow> result" where
  "delete_Connection a s = (case heap s a of None \<Rightarrow> Undefined | Some c \<Rightarrow>
     Done (s\<lparr>heap := (heap s)(a := None),
       closed := (if Sock c = InvalidHandleValue then closed s else closed s @ [Sock c])\<rparr>))"

definition io_at :: "place \<Rightarrow> iocp \<Rightarrow> IoContext option" where
  "io_at p s = (case p of
      RecvOpOf a \<Rightarrow> map_option RecvOp (heap s a)
    | SendOpOf a \<Rightarrow> map_option SendOp (heap s a)
    | Temporary \<Rightarrow> None)"

text \<open>What a worker does with a packet; \<open>started\<close> says whether the next request can be started.\<close>

definition handle_packet :: "bool \<Rightarrow> packet \<Rightarrow> iocp \<Rightarrow> result" where
  "handle_packet started p s =
     (if \<not> ok p \<or> bytes p = 0 then delete_Connection (key p) s
      else case io_at (ov p) s of None \<Rightarrow> Undefined | Some io \<Rightarrow>
        (case op_type io of
           Recv \<Rightarrow> PostSend started (key p) (bytes p) s
         | Send \<Rightarrow> PostRecv started (key p) s
         | Accept \<Rightarrow> Done s))"

text \<open>An exception that leaves a worker ends the process.\<close>

definition worker_after :: "nat \<Rightarrow> nat \<Rightarrow> iocp \<Rightarrow> result \<Rightarrow> iocp" where
  "worker_after i k s r = (case r of
      Done s' \<Rightarrow> s'\<lparr>workers := (workers s')[i := Waiting k]\<rparr>
    | Threw s' \<Rightarrow> s'\<lparr>fate := Terminated\<rparr>
    | Undefined \<Rightarrow> s\<lparr>fate := UndefinedBehaviour\<rparr>)"

text \<open>An exception in the accept loop makes \<open>main\<close> wait for its workers, with the connection still allocated.\<close>

definition main_after :: "nat \<Rightarrow> iocp \<Rightarrow> result \<Rightarrow> iocp" where
  "main_after a s r = (case r of
      Done s' \<Rightarrow> s'\<lparr>main_at := Accepting\<rparr>
    | Threw s' \<Rightarrow> s'\<lparr>main_at := Unwinding a\<rparr>
    | Undefined \<Rightarrow> s\<lparr>fate := UndefinedBehaviour\<rparr>)"

text \<open>
  What the system writes for a receive.  A write of data through a pointer to an object that no longer exists
  is undefined behaviour: it changes whatever is now at that place of the stack, or the heap.
\<close>

definition deliver :: "place \<Rightarrow> BYTE list \<Rightarrow> iocp \<Rightarrow> iocp" where
  "deliver p bs s = (if bs = [] then s else case p of
      RecvOpOf a \<Rightarrow> (case heap s a of None \<Rightarrow> s\<lparr>fate := UndefinedBehaviour\<rparr>
        | Some c \<Rightarrow> s\<lparr>heap := (heap s)(a \<mapsto> c\<lparr>RecvOp := (RecvOp c)\<lparr>Buffer := overwrite 0 bs (Buffer (RecvOp c))\<rparr>\<rparr>)\<rparr>)
    | SendOpOf a \<Rightarrow> (case heap s a of None \<Rightarrow> s\<lparr>fate := UndefinedBehaviour\<rparr>
        | Some c \<Rightarrow> s\<lparr>heap := (heap s)(a \<mapsto> c\<lparr>SendOp := (SendOp c)\<lparr>Buffer := overwrite 0 bs (Buffer (SendOp c))\<rparr>\<rparr>)\<rparr>)
    | Temporary \<Rightarrow> s\<lparr>fate := UndefinedBehaviour\<rparr>)"

definition is_recv :: "request \<Rightarrow> bool" where
  "is_recv r = (case req_ov r of RecvOpOf _ \<Rightarrow> True | _ \<Rightarrow> False)"

section \<open>The threads\<close>

text \<open>The \<open>i\<close>-th request ends, with \<open>n\<close> bytes, of which the system has written \<open>bs\<close>.\<close>

definition complete :: "nat \<Rightarrow> DWORD \<Rightarrow> BYTE list \<Rightarrow> bool \<Rightarrow> iocp \<Rightarrow> iocp" where
  "complete i n bs b s = (let r = requests s ! i in
     (deliver (req_at r) bs s)\<lparr>requests := take i (requests s) @ drop (Suc i) (requests s),
       packets := packets s @ [\<lparr>key = conn r, bytes = n, ok = b, ov = req_ov r\<rparr>]\<rparr>)"

text \<open>
  \<open>GetQueuedCompletionStatus\<close> that fails without a packet leaves \<open>key\<close> as it was: the worker ends if that is
  the initial value, and deletes the connection of its last packet otherwise.  With \<open>port_ok\<close> this does not
  happen: the wait has no time limit, so it fails only for a port that is closed or no port.
\<close>

inductive iocp_step :: "bool \<Rightarrow> iocp \<Rightarrow> iocp \<Rightarrow> bool" for port_ok where
  completes: "fate s = Alive \<Longrightarrow> i < length (requests s) \<Longrightarrow> n \<le> req_len (requests s ! i) \<Longrightarrow>
    length bs = (if is_recv (requests s ! i) then unat n else 0) \<Longrightarrow> iocp_step port_ok s (complete i n bs b s)"
| dequeues: "fate s = Alive \<Longrightarrow> i < length (workers s) \<Longrightarrow> workers s ! i = Waiting k \<Longrightarrow> packets s = p # ps \<Longrightarrow>
    iocp_step port_ok s (s\<lparr>packets := ps, workers := (workers s)[i := (if key p = ShutdownKey then Finished else Handling p)]\<rparr>)"
| wait_fails: "\<not> port_ok \<Longrightarrow> fate s = Alive \<Longrightarrow> i < length (workers s) \<Longrightarrow> workers s ! i = Waiting k \<Longrightarrow>
    iocp_step port_ok s (if k = ShutdownKey then s\<lparr>workers := (workers s)[i := Finished]\<rparr>
      else worker_after i k s (delete_Connection k s))"
| handles: "fate s = Alive \<Longrightarrow> i < length (workers s) \<Longrightarrow> workers s ! i = Handling p \<Longrightarrow>
    iocp_step port_ok s (worker_after i (key p) s (handle_packet started p s))"
| accept_fails: "fate s = Alive \<Longrightarrow> main_at s = Accepting \<Longrightarrow> iocp_step port_ok s s"
| accepts: "fate s = Alive \<Longrightarrow> main_at s = Accepting \<Longrightarrow> sock \<noteq> InvalidHandleValue \<Longrightarrow> a = fresh s \<Longrightarrow>
    iocp_step port_ok s (s\<lparr>heap := (heap s)(a \<mapsto> new_Connection a sock), fresh := Suc a, main_at := Associating a\<rparr>)"
| associates: "fate s = Alive \<Longrightarrow> main_at s = Associating a \<Longrightarrow>
    iocp_step port_ok s (s\<lparr>main_at := (if associated then Receiving a else Unwinding a)\<rparr>)"
| main_receives: "fate s = Alive \<Longrightarrow> main_at s = Receiving a \<Longrightarrow>
    iocp_step port_ok s (main_after a s (PostRecv started a s))"

definition iocp_start :: "nat \<Rightarrow> iocp" where
  "iocp_start n = \<lparr>heap = Map.empty, fresh = 1, requests = [], packets = [], workers = replicate n (Waiting ShutdownKey),
     main_at = Accepting, closed = [], fate = Alive\<rparr>"

inductive_cases iocp_stepE: "iocp_step port_ok s s'"

section \<open>Who holds a connection\<close>

text \<open>
  A connection is held by the request or the packet that names it, by the worker that handles its packet or
  by the main thread.  \<open>holders\<close> counts them all.
\<close>

fun held :: "thread \<Rightarrow> nat multiset" where
  "held (Handling p) = {#key p#}"
| "held (Waiting k) = {#}"
| "held Finished = {#}"

fun main_held :: "mainloc \<Rightarrow> nat multiset" where
  "main_held Accepting = {#}"
| "main_held (Associating a) = {#a#}"
| "main_held (Receiving a) = {#a#}"
| "main_held (Unwinding a) = {#a#}"

definition holders :: "iocp \<Rightarrow> nat multiset" where
  "holders s = image_mset conn (mset (requests s)) + image_mset key (mset (packets s)) +
     sum_list (map held (workers s)) + main_held (main_at s)"

definition request_ok :: "request \<Rightarrow> bool" where
  "request_ok r \<longleftrightarrow> conn r \<noteq> 0 \<and> req_len r \<le> BufferLength \<and>
     (req_ov r = RecvOpOf (conn r) \<and> req_at r = Temporary \<or> req_ov r = SendOpOf (conn r) \<and> req_at r = SendOpOf (conn r))"

definition packet_ok :: "packet \<Rightarrow> bool" where
  "packet_ok p \<longleftrightarrow> key p \<noteq> 0 \<and> bytes p \<le> BufferLength \<and> (ov p = RecvOpOf (key p) \<or> ov p = SendOpOf (key p))"

definition thread_ok :: "thread \<Rightarrow> bool" where
  "thread_ok t \<longleftrightarrow> (case t of Handling p \<Rightarrow> packet_ok p | _ \<Rightarrow> True)"

definition conn_ok :: "Connection \<Rightarrow> bool" where
  "conn_ok c \<longleftrightarrow> op_type (RecvOp c) = Recv \<and> op_type (SendOp c) = Send \<and>
     Buffer (RecvOp c) = replicate 4096 0 \<and> Buffer (SendOp c) = replicate 4096 0"

definition iocp_inv :: "iocp \<Rightarrow> bool" where
  "iocp_inv s \<longleftrightarrow> holders s = mset_set (dom (heap s)) \<and> finite (dom (heap s)) \<and> dom (heap s) \<subseteq> {1..<fresh s} \<and> 0 < fresh s \<and>
     list_all request_ok (requests s) \<and> list_all packet_ok (packets s) \<and> list_all thread_ok (workers s) \<and>
     (\<forall>a c. heap s a = Some c \<longrightarrow> conn_ok c) \<and> fate s \<noteq> UndefinedBehaviour"

lemma held_update:
  "i < length ts \<Longrightarrow> sum_list (map held (ts[i := w])) + held (ts ! i) = sum_list (map held ts) + held w"
  by (induction ts arbitrary: i) (auto simp: ac_simps split: nat.splits)

lemma held_member: "i < length ts \<Longrightarrow> held (ts ! i) \<subseteq># sum_list (map held ts)"
  by (induction ts arbitrary: i) (auto simp: nth_Cons subset_mset.add_increasing split: nat.splits)

lemma remove_nth_mset:
  assumes "i < length xs" shows "mset xs = add_mset (xs ! i) (mset (take i xs @ drop (Suc i) xs))"
  using arg_cong[OF id_take_nth_drop[OF assms], of mset] by simp

lemma list_all_update: "list_all P xs \<Longrightarrow> P x \<Longrightarrow> list_all P (xs[i := x])"
  using set_update_subset_insert[of xs i x] by (auto simp: list_all_iff)

lemma list_all_remove_nth: "list_all P xs \<Longrightarrow> list_all P (take i xs @ drop (Suc i) xs)"
  by (auto simp: list_all_iff dest: in_set_takeD in_set_dropD)

lemma holder_live: "iocp_inv s \<Longrightarrow> a \<in># holders s \<Longrightarrow> \<exists>c. heap s a = Some c \<and> conn_ok c"
  by (auto simp: iocp_inv_def)

lemma deliver_nothing [simp]: "deliver p [] s = s"
  by (simp add: deliver_def)

lemma zeros_over_zeros: "k \<le> n \<Longrightarrow> overwrite 0 (take k (replicate n 0)) (replicate n 0) = replicate n 0"
  by (simp add: overwrite_def min_def replicate_add[symmetric])

text \<open>\<open>PostRecv\<close> and \<open>PostSend\<close> on a connection whose buffers hold zeros: a request more, or an exception.\<close>

definition posts :: "nat \<Rightarrow> iocp \<Rightarrow> result \<Rightarrow> bool" where
  "posts a s r \<longleftrightarrow> (\<exists>c. conn_ok c \<and>
     (r = Threw (s\<lparr>heap := (heap s)(a \<mapsto> c)\<rparr>) \<or>
      (\<exists>q. conn q = a \<and> (a \<noteq> 0 \<longrightarrow> request_ok q) \<and>
         r = Done (s\<lparr>heap := (heap s)(a \<mapsto> c), requests := requests s @ [q]\<rparr>))))"

lemma postsI:
  assumes "r = (if b then Done (s\<lparr>heap := (heap s)(a \<mapsto> c), requests := requests s @ [q]\<rparr>) else Threw (s\<lparr>heap := (heap s)(a \<mapsto> c)\<rparr>))"
    "conn_ok c" "a \<noteq> 0 \<longrightarrow> request_ok q" "conn q = a"
  shows "posts a s r"
  using assms unfolding posts_def by (cases b) (simp, blast, simp, blast)

lemma PostRecv_posts:
  assumes "heap s a = Some c" "conn_ok c"
  shows "posts a s (PostRecv started a s)"
proof -
  let ?c = "c\<lparr>RecvOp := IoContext_ctor Temporary Recv\<rparr>"
  let ?q = "\<lparr>conn = a, req_ov = RecvOpOf a, req_at = Temporary, req_len = BufferLength\<rparr>"
  have "PostRecv started a s = (if started then Done (s\<lparr>heap := (heap s)(a \<mapsto> ?c), requests := requests s @ [?q]\<rparr>)
      else Threw (s\<lparr>heap := (heap s)(a \<mapsto> ?c)\<rparr>))"
    using assms(1) by (simp add: PostRecv_def Let_def IoContext_ctor_def)
  moreover have "conn_ok ?c" using assms(2) by (simp add: conn_ok_def IoContext_ctor_def)
  moreover have "a \<noteq> 0 \<longrightarrow> request_ok ?q" by (simp add: request_ok_def)
  ultimately show ?thesis by (rule postsI) simp
qed

lemma PostSend_posts:
  assumes "heap s a = Some c" "conn_ok c" "n \<le> BufferLength"
  shows "posts a s (PostSend started a n s)"
proof -
  let ?p = "\<lparr>op_type = Send, buf_at = SendOpOf a, buf_len = n, Buffer = replicate 4096 0\<rparr>"
  let ?c = "c\<lparr>SendOp := ?p\<rparr>"
  let ?q = "\<lparr>conn = a, req_ov = SendOpOf a, req_at = SendOpOf a, req_len = n\<rparr>"
  have "unat n \<le> 4096" using assms(3) by (simp add: word_le_nat_alt)
  then have z: "overwrite 0 (take (unat n) (Buffer (RecvOp c))) (replicate 4096 0) = replicate 4096 0"
    using assms(2) zeros_over_zeros by (simp add: conn_ok_def)
  have "PostSend started a n s = (if started then Done (s\<lparr>heap := (heap s)(a \<mapsto> ?c), requests := requests s @ [?q]\<rparr>)
      else Threw (s\<lparr>heap := (heap s)(a \<mapsto> ?c)\<rparr>))"
    using assms by (simp add: PostSend_def Let_def IoContext_ctor_def z linorder_not_less[symmetric])
  moreover have "conn_ok ?c" using assms(2) by (simp add: conn_ok_def)
  moreover have "a \<noteq> 0 \<longrightarrow> request_ok ?q" using assms(3) by (simp add: request_ok_def)
  ultimately show ?thesis by (rule postsI) simp
qed

text \<open>So a worker either posts a request for the connection of its packet or deletes it.\<close>

lemma handle_packet_cases:
  assumes "heap s (key p) = Some c" "conn_ok c" "packet_ok p"
  shows "posts (key p) s (handle_packet started p s) \<or>
    (\<exists>cl. handle_packet started p s = Done (s\<lparr>heap := (heap s)(key p := None), closed := cl\<rparr>))"
proof (cases "\<not> ok p \<or> bytes p = 0")
  case True
  have "handle_packet started p s = Done (s\<lparr>heap := (heap s)(key p := None),
      closed := (if Sock c = InvalidHandleValue then closed s else closed s @ [Sock c])\<rparr>)"
    using True assms(1) by (simp add: handle_packet_def delete_Connection_def split del: if_split)
  then show ?thesis by blast
next
  case False
  then show ?thesis
    using assms PostRecv_posts[OF assms(1,2)] PostSend_posts[OF assms(1,2), of "bytes p"]
    by (auto simp: handle_packet_def packet_ok_def io_at_def conn_ok_def)
qed

section \<open>The invariant\<close>

lemma iocp_inv_start: "iocp_inv (iocp_start n)"
proof -
  have "sum_list (map held (replicate n (Waiting ShutdownKey))) = {#}" by (induction n) auto
  then show ?thesis by (auto simp: iocp_inv_def iocp_start_def holders_def thread_ok_def list_all_iff)
qed

text \<open>A part of the state that holds the connection \<open>a\<close> posts a request for it, or throws.\<close>

lemma inv_posted:
  assumes "iocp_inv s" "heap s a \<noteq> None" "conn_ok c" "conn q = a" "a \<noteq> 0 \<longrightarrow> request_ok q"
    "s' = s\<lparr>heap := (heap s)(a \<mapsto> c), requests := requests s @ [q]\<rparr>"
    "main_held m + sum_list (map held ts) + {#a#} = main_held (main_at s) + sum_list (map held (workers s))"
    "list_all thread_ok ts"
  shows "iocp_inv (s'\<lparr>workers := ts, main_at := m\<rparr>)"
proof -
  have a: "a \<in> dom (heap s)" using assms(2) by blast
  then have "insert a (dom (heap s)) = dom (heap s)" "a \<noteq> 0" using assms(1) by (auto simp: iocp_inv_def)
  moreover have "holders (s'\<lparr>workers := ts, main_at := m\<rparr>) = holders s"
    using assms(4,6,7) by (simp add: holders_def ac_simps)
  ultimately show ?thesis using assms by (auto simp: iocp_inv_def)
qed

lemma inv_threw:
  assumes "iocp_inv s" "heap s a \<noteq> None" "conn_ok c"
  shows "iocp_inv (s\<lparr>heap := (heap s)(a \<mapsto> c)\<rparr>)"
proof -
  have "insert a (dom (heap s)) = dom (heap s)" using assms(2) by blast
  then show ?thesis using assms by (auto simp: iocp_inv_def holders_def)
qed

lemma inv_worker:
  assumes inv: "iocp_inv s" and i: "i < length (workers s)" "workers s ! i = Handling p"
  shows "iocp_inv (worker_after i (key p) s (handle_packet started p s))"
proof -
  let ?ts = "(workers s)[i := Waiting (key p)]"
  have upd: "sum_list (map held ?ts) + {#key p#} = sum_list (map held (workers s))"
    using held_update[OF i(1), of "Waiting (key p)"] i(2) by simp
  have "thread_ok (workers s ! i)" using inv i(1) by (auto simp: iocp_inv_def list_all_length)
  then have p: "packet_ok p" by (simp add: thread_ok_def i(2))
  have ts: "list_all thread_ok ?ts" using inv by (auto simp: iocp_inv_def thread_ok_def intro: list_all_update)
  have "key p \<in># holders s" using upd by (simp add: holders_def flip: upd)
  then obtain c where c: "heap s (key p) = Some c" "conn_ok c" using holder_live[OF inv] by blast
  then have live: "heap s (key p) \<noteq> None" by simp
  from handle_packet_cases[OF c p] consider "posts (key p) s (handle_packet started p s)"
    | cl where "handle_packet started p s = Done (s\<lparr>heap := (heap s)(key p := None), closed := cl\<rparr>)" by blast
  then show ?thesis
  proof cases
    case 1
    then obtain c where c: "conn_ok c" and r: "handle_packet started p s = Threw (s\<lparr>heap := (heap s)(key p \<mapsto> c)\<rparr>) \<or>
        (\<exists>q. conn q = key p \<and> (key p \<noteq> 0 \<longrightarrow> request_ok q) \<and>
           handle_packet started p s = Done (s\<lparr>heap := (heap s)(key p \<mapsto> c), requests := requests s @ [q]\<rparr>))"
      unfolding posts_def by blast
    from r show ?thesis
    proof (elim disjE exE conjE)
      assume "handle_packet started p s = Threw (s\<lparr>heap := (heap s)(key p \<mapsto> c)\<rparr>)"
      then show ?thesis using inv_threw[OF inv live c] by (simp add: worker_after_def iocp_inv_def holders_def)
    next
      fix q assume q: "conn q = key p" "key p \<noteq> 0 \<longrightarrow> request_ok q"
        "handle_packet started p s = Done (s\<lparr>heap := (heap s)(key p \<mapsto> c), requests := requests s @ [q]\<rparr>)"
      have "iocp_inv (s\<lparr>heap := (heap s)(key p \<mapsto> c), requests := requests s @ [q]\<rparr>\<lparr>workers := ?ts, main_at := main_at s\<rparr>)"
        by (rule inv_posted[OF inv live c q(1,2) refl _ ts]) (simp add: upd[symmetric])
      then show ?thesis by (simp add: worker_after_def q(3))
    qed
  next
    case 2
    have f: "finite (dom (heap s))" "key p \<in> dom (heap s)" using inv c by (auto simp: iocp_inv_def)
    have "mset_set (dom (heap s)) = add_mset (key p) (mset_set (dom (heap s) - {key p}))"
      using f by (rule mset_set.remove)
    moreover have "holders s = mset_set (dom (heap s))" using inv by (simp add: iocp_inv_def)
    ultimately have "image_mset conn (mset (requests s)) + image_mset key (mset (packets s)) + sum_list (map held ?ts) +
        main_held (main_at s) = mset_set (dom (heap s) - {key p})"
      by (simp add: holders_def flip: upd)
    then show ?thesis using inv ts 2 by (auto simp: worker_after_def iocp_inv_def holders_def)
  qed
qed

lemma inv_completes:
  assumes inv: "iocp_inv s" and i: "i < length (requests s)" and n: "n \<le> req_len (requests s ! i)"
  shows "iocp_inv (s\<lparr>requests := take i (requests s) @ drop (Suc i) (requests s),
      packets := packets s @ [\<lparr>key = conn (requests s ! i), bytes = n, ok = b, ov = req_ov (requests s ! i)\<rparr>]\<rparr>)"
proof -
  let ?r = "requests s ! i"
  let ?rs = "take i (requests s) @ drop (Suc i) (requests s)"
  have "request_ok ?r" using inv i by (auto simp: iocp_inv_def list_all_length)
  then have "packet_ok \<lparr>key = conn ?r, bytes = n, ok = b, ov = req_ov ?r\<rparr>"
    using n by (auto simp: request_ok_def packet_ok_def intro: order_trans)
  moreover have "list_all request_ok ?rs" using inv by (intro list_all_remove_nth) (simp add: iocp_inv_def)
  moreover have "holders s = add_mset (conn ?r) (image_mset conn (mset ?rs)) + image_mset key (mset (packets s)) +
      sum_list (map held (workers s)) + main_held (main_at s)"
    unfolding holders_def remove_nth_mset[OF i] by simp
  ultimately show ?thesis using inv by (auto simp: iocp_inv_def holders_def)
qed

lemma inv_dequeues:
  assumes inv: "iocp_inv s" and i: "i < length (workers s)" "workers s ! i = Waiting k" and p: "packets s = p # ps"
  shows "iocp_inv (s\<lparr>packets := ps, workers := (workers s)[i := (if key p = ShutdownKey then Finished else Handling p)]\<rparr>)"
proof -
  have ok: "packet_ok p" using inv p by (simp add: iocp_inv_def)
  then have k: "key p \<noteq> ShutdownKey" by (simp add: packet_ok_def ShutdownKey_def)
  have "sum_list (map held ((workers s)[i := Handling p])) = add_mset (key p) (sum_list (map held (workers s)))"
    using held_update[OF i(1), of "Handling p"] i(2) by simp
  moreover have "list_all thread_ok ((workers s)[i := Handling p])"
    using inv ok by (intro list_all_update) (auto simp: iocp_inv_def thread_ok_def)
  ultimately show ?thesis using inv p k by (auto simp: iocp_inv_def holders_def)
qed

lemma inv_accepts:
  assumes inv: "iocp_inv s" and m: "main_at s = Accepting"
  shows "iocp_inv (s\<lparr>heap := (heap s)(fresh s \<mapsto> new_Connection (fresh s) sock), fresh := Suc (fresh s),
      main_at := Associating (fresh s)\<rparr>)"
proof -
  have fin: "finite (dom (heap s))" and sub: "dom (heap s) \<subseteq> {1..<fresh s}" and pos: "0 < fresh s"
    using inv by (auto simp: iocp_inv_def)
  then have "fresh s \<notin> dom (heap s)" by auto
  then have "mset_set (insert (fresh s) (dom (heap s))) = add_mset (fresh s) (mset_set (dom (heap s)))"
    using fin by simp
  moreover have "conn_ok (new_Connection (fresh s) sock)" by (simp add: conn_ok_def new_Connection_def IoContext_ctor_def)
  moreover have "insert (fresh s) (dom (heap s)) \<subseteq> {1..<Suc (fresh s)}"
    using sub pos by (auto intro: less_SucI)
  ultimately show ?thesis using inv m by (simp add: iocp_inv_def holders_def)
qed

lemma inv_main_receives:
  assumes inv: "iocp_inv s" and m: "main_at s = Receiving a"
  shows "iocp_inv (main_after a s (PostRecv started a s))"
proof -
  have "a \<in># holders s" by (simp add: holders_def m)
  then obtain c where c: "heap s a = Some c" "conn_ok c" using holder_live[OF inv] by blast
  then have live: "heap s a \<noteq> None" by simp
  obtain c where c: "conn_ok c" and r: "PostRecv started a s = Threw (s\<lparr>heap := (heap s)(a \<mapsto> c)\<rparr>) \<or>
      (\<exists>q. conn q = a \<and> (a \<noteq> 0 \<longrightarrow> request_ok q) \<and>
         PostRecv started a s = Done (s\<lparr>heap := (heap s)(a \<mapsto> c), requests := requests s @ [q]\<rparr>))"
    using PostRecv_posts[OF c, of started] unfolding posts_def by blast
  from r show ?thesis
  proof (elim disjE exE conjE)
    assume "PostRecv started a s = Threw (s\<lparr>heap := (heap s)(a \<mapsto> c)\<rparr>)"
    then show ?thesis using inv_threw[OF inv live c] by (simp add: main_after_def iocp_inv_def holders_def m)
  next
    fix q assume q: "conn q = a" "a \<noteq> 0 \<longrightarrow> request_ok q"
      "PostRecv started a s = Done (s\<lparr>heap := (heap s)(a \<mapsto> c), requests := requests s @ [q]\<rparr>)"
    have "iocp_inv (s\<lparr>heap := (heap s)(a \<mapsto> c), requests := requests s @ [q]\<rparr>\<lparr>workers := workers s, main_at := Accepting\<rparr>)"
      by (rule inv_posted[OF inv live c q(1,2) refl]) (use inv in \<open>simp_all add: m iocp_inv_def\<close>)
    then show ?thesis by (simp add: main_after_def q(3))
  qed
qed

text \<open>Data of a receive go through a pointer to a temporary that is gone.\<close>

lemma complete_receive:
  assumes "iocp_inv s" "i < length (requests s)" "is_recv (requests s ! i)" "bs \<noteq> []"
  shows "fate (complete i n bs b s) = UndefinedBehaviour"
proof -
  have "request_ok (requests s ! i)" using assms(1,2) by (auto simp: iocp_inv_def list_all_length)
  then have "req_at (requests s ! i) = Temporary" using assms(3) by (auto simp: request_ok_def is_recv_def split: place.splits)
  then show ?thesis using assms(4) by (simp add: complete_def deliver_def Let_def)
qed

text \<open>A step with a working port keeps the invariant, or it delivers data of a receive.\<close>

lemma iocp_inv_step:
  assumes "iocp_step True s s'" and inv: "iocp_inv s"
  shows "iocp_inv s' \<or> (\<exists>i n bs b. s' = complete i n bs b s \<and> i < length (requests s) \<and> is_recv (requests s ! i) \<and> bs \<noteq> [])"
  using assms(1)
proof cases
  case (completes i n bs b)
  show ?thesis
  proof (cases "bs = []")
    case True
    then have "iocp_inv (complete i n bs b s)"
      using inv_completes[OF inv completes(3,4), of b] by (simp add: complete_def Let_def)
    then show ?thesis using completes(1) by simp
  next
    case False
    then have "is_recv (requests s ! i)" using completes(5) by (cases "is_recv (requests s ! i)") auto
    then show ?thesis using completes False by blast
  qed
next
  case (dequeues i k p ps)
  then show ?thesis using inv_dequeues[OF inv] by simp
next
  case (handles i p started)
  then show ?thesis using inv_worker[OF inv] by simp
next
  case (accepts sock a)
  then show ?thesis using inv_accepts[OF inv] by simp
next
  case (associates a b)
  then show ?thesis using inv by (auto simp: iocp_inv_def holders_def)
next
  case (main_receives a started)
  then show ?thesis using inv_main_receives[OF inv] by simp
qed (use inv in simp_all)

lemma iocp_reachable: "(iocp_step True)\<^sup>*\<^sup>* (iocp_start n) s \<Longrightarrow> iocp_inv s \<or> fate s = UndefinedBehaviour"
proof (induction rule: rtranclp_induct)
  case base
  show ?case using iocp_inv_start by blast
next
  case (step y z)
  have "fate y = Alive" using step(2) by (cases rule: iocp_step.cases) auto
  then have y: "iocp_inv y" using step(3) by auto
  from iocp_inv_step[OF step(2) y] show ?case using complete_receive[OF y] by blast
qed

section \<open>Properties\<close>

text \<open>
  Runs for the witnesses: a client is accepted and the receive for it started; then it disconnects, and a
  worker deletes its connection; or it sends data.
\<close>

definition after_accept :: iocp where
  "after_accept = (let s = iocp_start 1 in s\<lparr>heap := (heap s)(1 \<mapsto> new_Connection 1 5), fresh := Suc 1, main_at := Associating 1\<rparr>)"

definition after_receive :: iocp where
  "after_receive = main_after 1 (after_accept\<lparr>main_at := Receiving 1\<rparr>) (PostRecv True 1 (after_accept\<lparr>main_at := Receiving 1\<rparr>))"

definition goodbye :: packet where
  "goodbye = \<lparr>key = 1, bytes = 0, ok = True, ov = RecvOpOf 1\<rparr>"

definition after_dequeue :: iocp where
  "after_dequeue = after_receive\<lparr>requests := [], workers := [Handling goodbye]\<rparr>"

definition after_disconnect :: iocp where
  "after_disconnect = worker_after 0 1 after_dequeue (handle_packet True goodbye after_dequeue)"

lemmas run_defs = after_accept_def after_receive_def after_dequeue_def after_disconnect_def goodbye_def iocp_start_def main_after_def
  PostRecv_def IoContext_ctor_def new_Connection_def Let_def worker_after_def handle_packet_def delete_Connection_def ShutdownKey_def

lemma reach_after_receive: "(iocp_step port_ok)\<^sup>*\<^sup>* (iocp_start 1) after_receive"
proof -
  have "iocp_step port_ok (iocp_start 1) after_accept"
    using iocp_step.accepts[of "iocp_start 1" 5 1] by (simp add: run_defs InvalidHandleValue_def)
  moreover have "iocp_step port_ok after_accept (after_accept\<lparr>main_at := Receiving 1\<rparr>)"
    using iocp_step.associates[of after_accept 1 port_ok True] by (simp add: run_defs)
  moreover have "iocp_step port_ok (after_accept\<lparr>main_at := Receiving 1\<rparr>) after_receive"
    unfolding after_receive_def by (rule iocp_step.main_receives) (simp_all add: run_defs)
  ultimately show ?thesis by (meson rtranclp.rtrancl_into_rtrancl rtranclp.rtrancl_refl)
qed

lemma reach_after_disconnect: "(iocp_step port_ok)\<^sup>*\<^sup>* (iocp_start 1) after_disconnect"
proof -
  let ?s = "after_receive\<lparr>requests := [], packets := [goodbye]\<rparr>"
  have "iocp_step port_ok after_receive ?s"
    using iocp_step.completes[of after_receive 0 0 "[]" port_ok True] by (simp add: run_defs complete_def)
  moreover have "iocp_step port_ok ?s after_dequeue"
    using iocp_step.dequeues[of ?s 0 0 goodbye "[]" port_ok] by (simp add: run_defs)
  moreover have "iocp_step port_ok after_dequeue after_disconnect"
    using iocp_step.handles[of after_dequeue 0 goodbye port_ok True] by (simp add: run_defs)
  ultimately show ?thesis using reach_after_receive by (meson rtranclp.rtrancl_into_rtrancl)
qed

text \<open>
  C21: In every interleaving of the main thread, the workers and the system, while the waits on the port do
  not fail and until the first data arrive, each connection on the heap is held exactly once, by a
  pending request, a queued packet, a worker or the main thread, and nothing else is held: no thread uses
  a deleted connection or deletes one twice.  The first data that arrive for any client are undefined
  behaviour, since \<open>PostRecv\<close> has given the system the buffer of a temporary that is gone, and nothing else
  is.  A wait that fails without a packet deletes the connection of the worker's last packet again.
\<close>

theorem connections_held_once:
  "(\<forall>s. (iocp_step True)\<^sup>*\<^sup>* (iocp_start n) s \<longrightarrow>
      (fate s \<noteq> UndefinedBehaviour \<longrightarrow> holders s = mset_set (dom (heap s)) \<and>
        (\<forall>i k bs b. i < length (requests s) \<and> is_recv (requests s ! i) \<and> bs \<noteq> [] \<longrightarrow>
           fate (complete i k bs b s) = UndefinedBehaviour)) \<and>
      (\<forall>s'. iocp_step True s s' \<and> fate s' = UndefinedBehaviour \<longrightarrow>
        (\<exists>i k bs b. s' = complete i k bs b s \<and> i < length (requests s) \<and> is_recv (requests s ! i) \<and> bs \<noteq> []))) \<and>
   (\<exists>s. (iocp_step False)\<^sup>*\<^sup>* (iocp_start 1) s \<and> fate s = UndefinedBehaviour \<and> closed s = [5] \<and> requests s = [])"
proof (intro conjI allI impI)
  fix s assume s: "(iocp_step True)\<^sup>*\<^sup>* (iocp_start n) s"
  show "holders s = mset_set (dom (heap s))" if "fate s \<noteq> UndefinedBehaviour"
    using iocp_reachable[OF s] that by (auto simp: iocp_inv_def)
  show "fate (complete i k bs b s) = UndefinedBehaviour"
    if "fate s \<noteq> UndefinedBehaviour" "i < length (requests s) \<and> is_recv (requests s ! i) \<and> bs \<noteq> []" for i k bs b
    using iocp_reachable[OF s] that complete_receive by blast
  show "\<exists>i k bs b. s' = complete i k bs b s \<and> i < length (requests s) \<and> is_recv (requests s ! i) \<and> bs \<noteq> []"
    if s': "iocp_step True s s' \<and> fate s' = UndefinedBehaviour" for s'
  proof -
    have "fate s = Alive" using s'[THEN conjunct1] by (cases rule: iocp_step.cases) auto
    then have "iocp_inv s" using iocp_reachable[OF s] by simp
    from iocp_inv_step[OF s'[THEN conjunct1] this] show ?thesis using s' by (auto simp: iocp_inv_def)
  qed
next
  let ?s = "worker_after 0 1 after_disconnect (delete_Connection 1 after_disconnect)"
  have "iocp_step False after_disconnect ?s"
    using iocp_step.wait_fails[of False after_disconnect 0 1] by (simp add: run_defs)
  with reach_after_disconnect have "(iocp_step False)\<^sup>*\<^sup>* (iocp_start 1) ?s" by (rule rtranclp.rtrancl_into_rtrancl)
  moreover have "fate ?s = UndefinedBehaviour \<and> closed ?s = [5] \<and> requests ?s = []"
    by (simp add: run_defs InvalidHandleValue_def)
  ultimately show "\<exists>s. (iocp_step False)\<^sup>*\<^sup>* (iocp_start 1) s \<and> fate s = UndefinedBehaviour \<and> closed s = [5] \<and> requests s = []"
    by blast
qed

theorem connections_held_once_witness:
  "holders after_receive = mset_set {1} \<and> fate (complete 0 2 [104, 105] True after_receive) = UndefinedBehaviour \<and>
   holders after_disconnect = {#} \<and> closed after_disconnect = [5]"
proof -
  have r: "fate after_receive = Alive" "dom (heap after_receive) = {1}" "requests after_receive \<noteq> []"
    "is_recv (requests after_receive ! 0)" by (simp_all add: run_defs is_recv_def)
  have d: "fate after_disconnect = Alive" "dom (heap after_disconnect) = {}" "closed after_disconnect = [5]"
    by (simp_all add: run_defs InvalidHandleValue_def)
  note p = connections_held_once[of 1, THEN conjunct1, THEN spec, THEN mp, THEN conjunct1, THEN mp]
  note p1 = p[OF reach_after_receive] and p2 = p[OF reach_after_disconnect]
  have "holders after_receive = mset_set {1}" using p1[THEN conjunct1] r(1,2) by simp
  moreover have "fate (complete 0 2 [104, 105] True after_receive) = UndefinedBehaviour"
    using p1[THEN conjunct2, THEN spec, of 0] r by simp
  moreover have "holders after_disconnect = {#}" using p2[THEN conjunct1] d by simp
  ultimately show ?thesis using d(3) by blast
qed

text \<open>A worker whose next request cannot be started ends the process, and so takes every other client with it.\<close>

lemma worker_throw_terminates:
  assumes "heap s (key p) = Some c" "packet_ok p" "ok p" "bytes p \<noteq> 0" "conn_ok c"
  shows "fate (worker_after i (key p) s (handle_packet False p s)) = Terminated"
proof -
  have "\<not> BufferLength < bytes p" using assms(2) by (auto simp: packet_ok_def)
  then show ?thesis using assms
    by (auto simp: handle_packet_def io_at_def conn_ok_def PostRecv_def PostSend_def packet_ok_def worker_after_def Let_def)
qed

end
