(* ===== verification/Strings.thy ===== *)
theory Strings
  imports Raii
begin

text \<open>
  Strings: HardDriveInfo/Util.cpp, which splits and replaces, converts between encodings and reports
  errors, and StringCasing/main.cpp, which changes case.
\<close>

section \<open>Searching\<close>

text \<open>\<open>basic_string::find\<close>: the first position at or behind \<open>pos\<close> where \<open>d\<close> occurs in \<open>s\<close>; \<open>None\<close> is \<open>npos\<close>.\<close>

definition occurs_at :: "'a list \<Rightarrow> 'a list \<Rightarrow> nat \<Rightarrow> bool" where
  "occurs_at s d i \<longleftrightarrow> i + length d \<le> length s \<and> take (length d) (drop i s) = d"

definition find_from :: "'a list \<Rightarrow> 'a list \<Rightarrow> nat \<Rightarrow> nat option" where
  "find_from s d pos = List.find (occurs_at s d) [pos..<Suc (length s - length d)]"

datatype string_error = OutOfRange

text \<open>\<open>substr(pos)\<close> throws when \<open>pos\<close> is behind the end.\<close>

definition substr :: "'a list \<Rightarrow> nat \<Rightarrow> string_error + 'a list" where
  "substr s pos = (if length s < pos then Inl OutOfRange else Inr (drop pos s))"

section \<open>Splitting\<close>

text \<open>
  The loop of \<open>TokeniseString\<close>; \<open>None\<close> is a loop that does not end.  The position is one in the whole
  string, but it is used to search the rest of the string.
\<close>

partial_function (option) tokenise_loop ::
  "'a list \<Rightarrow> 'a list \<Rightarrow> nat \<Rightarrow> 'a list \<Rightarrow> 'a list list \<Rightarrow> (string_error + 'a list list) option" where
  "tokenise_loop s d pos intermediate results = (case find_from intermediate d pos of
       None \<Rightarrow> Some (Inr results)
     | Some p \<Rightarrow> (case substr s (p + length d) of
         Inl e \<Rightarrow> Some (Inl e)
       | Inr rest \<Rightarrow> tokenise_loop s d (p + length d) rest
           (if find_from rest d (p + length d) = None then results @ [take p s, rest] else results @ [take p s])))"

definition TokeniseString :: "'a list \<Rightarrow> 'a list \<Rightarrow> (string_error + 'a list list) option" where
  "TokeniseString s d = (if find_from s d 0 = None then Some (Inr [s]) else tokenise_loop s d 0 s [])"

text \<open>The loop over all tokens but the last.\<close>

fun join_tokens :: "'a list \<Rightarrow> 'a list list \<Rightarrow> 'a list" where
  "join_tokens w [] = []"
| "join_tokens w [t] = t"
| "join_tokens w (t # u # ts) = t @ w @ join_tokens w (u # ts)"

definition Replace :: "'a list \<Rightarrow> 'a list \<Rightarrow> 'a list \<Rightarrow> (string_error + 'a list) option" where
  "Replace s d w = (case TokeniseString s d of
       None \<Rightarrow> None
     | Some (Inl e) \<Rightarrow> Some (Inl e)
     | Some (Inr results) \<Rightarrow> Some (Inr (if results = [] then s else join_tokens w results)))"

section \<open>Calls of the system\<close>

datatype strcall =
    WideCharToMultiByte wstring nat
  | MultiByteToWideChar "BYTE list" nat
  | LCMapStringEx bool wstring nat
  | GetLastError
  | FormatMessage DWORD
  | LocalAlloc nat
  | LocalFree HANDLE

datatype strerr = RuntimeError "BYTE list" DWORD

type_synonym 'a strio = "(unit, strcall, strerr, 'a) io"

text \<open>Each conversion asks for the length first and then fills a string of zeros of that length.\<close>

definition filled :: "nat \<Rightarrow> 'a::zero list \<Rightarrow> 'a list" where
  "filled n xs = overwrite 0 (take n xs) (replicate n 0)"

definition length_of :: "resp \<Rightarrow> nat" where
  "length_of r = nat (sint (ucast (rv r) :: DWORD))"

definition ConvertWStringToString :: "wstring \<Rightarrow> BYTE list strio" where
  "ConvertWStringToString s = (if s = [] then ret [] else
     bnd (call (WideCharToMultiByte s 0)) (\<lambda>n.
     bnd (call (WideCharToMultiByte s (length_of n))) (\<lambda>r. ret (filled (length_of n) (buf r)))))"

definition ConvertStringToWString :: "BYTE list \<Rightarrow> wstring strio" where
  "ConvertStringToWString s = (if s = [] then ret [] else
     bnd (call (MultiByteToWideChar s 0)) (\<lambda>n.
     bnd (call (MultiByteToWideChar s (length_of n))) (\<lambda>r. ret (filled (length_of n) (wide_of (buf r))))))"

text \<open>\<open>RuntimeError msg hr\<close> stands for the text that \<open>CheckHr\<close> builds of the two.\<close>

definition CheckHr :: "HRESULT \<Rightarrow> BYTE list \<Rightarrow> unit strio" where
  "CheckHr hr msg = (if FAILED hr then throw (RuntimeError msg hr) else ret ())"

definition CheckHr_lazy :: "HRESULT \<Rightarrow> BYTE list strio \<Rightarrow> unit strio" where
  "CheckHr_lazy hr lambda = (if FAILED hr then bnd lambda (\<lambda>msg. throw (RuntimeError msg hr)) else ret ())"

text \<open>The message is read although \<open>FormatMessage\<close> may have failed and left the pointer to it unset.\<close>

definition PrintLastError :: "wstring \<Rightarrow> unit strio" where
  "PrintLastError function_name =
     bnd (call GetLastError) (\<lambda>e.
     bnd (call (FormatMessage (ucast (rv e)))) (\<lambda>m. if rv m = 0 then fault else
     bnd (call (LocalAlloc ((length (cstr (wide_of (buf m))) + length (cstr function_name) + 40) * 2))) (\<lambda>d.
     andthen (do_call (LocalFree (out m))) (do_call (LocalFree (rv d))))))"

definition ChangeCase :: "wstring \<Rightarrow> bool \<Rightarrow> wstring strio" where
  "ChangeCase source upper =
     bnd (call (LCMapStringEx upper source 0)) (\<lambda>n.
     if ucast (rv n) = (0 :: DWORD) then bnd (call GetLastError) (\<lambda>e. throw (RuntimeError [] (ucast (rv e)))) else
     bnd (call (LCMapStringEx upper source (length_of n))) (\<lambda>r.
     if ucast (rv r) = (0 :: DWORD) then bnd (call GetLastError) (\<lambda>e. throw (RuntimeError [] (ucast (rv e)))) else
     ret (filled (length_of n) (wide_of (buf r)))))"

definition ToUpper :: "wstring \<Rightarrow> wstring strio" where
  "ToUpper s = ChangeCase s True"

definition ToLower :: "wstring \<Rightarrow> wstring strio" where
  "ToLower s = ChangeCase s False"

definition casing_main :: "int strio" where
  "casing_main = try_catch (andthen (ToLower (wstr ''HAHAHAHAH'')) (ret 0)) (\<lambda>_. ret 0)"

section \<open>A reference for splitting\<close>

lemma find_from_Some: "find_from s d pos = Some p \<Longrightarrow> pos \<le> p \<and> p + length d \<le> length s \<and> take (length d) (drop p s) = d"
  by (auto simp: find_from_def find_Some_iff occurs_at_def simp del: upt_Suc)

lemma find_from_None: "find_from s d pos = None \<longleftrightarrow> (\<forall>i \<ge> pos. \<not> occurs_at s d i)"
  by (auto simp: find_from_def find_None_iff occurs_at_def simp del: upt_Suc)

lemma find_from_later: "find_from s d pos = None \<Longrightarrow> pos \<le> q \<Longrightarrow> find_from s d q = None"
  by (simp add: find_from_None)

text \<open>The pieces of \<open>s\<close> between the occurrences of \<open>d\<close>, from left to right.\<close>

function split_on :: "'a list \<Rightarrow> 'a list \<Rightarrow> 'a list list" where
  "split_on s d = (if d = [] then [s] else case find_from s d 0 of
       None \<Rightarrow> [s]
     | Some p \<Rightarrow> take p s # split_on (drop (p + length d) s) d)"
  by pat_completeness auto
termination
  by (relation "measure (\<lambda>(s, d). length s)") (auto dest!: find_from_Some simp: neq_Nil_conv)

declare split_on.simps [simp del]

lemma split_on_not_Nil [simp]: "split_on s d \<noteq> []"
  by (subst split_on.simps) (auto split: option.split)

text \<open>The pieces and the delimiters give the string back.\<close>

lemma join_Cons: "ts \<noteq> [] \<Longrightarrow> join_tokens w (t # ts) = t @ w @ join_tokens w ts"
  by (cases ts) auto

lemma join_split: "join_tokens d (split_on s d) = s"
proof (induction s d rule: split_on.induct)
  case (1 s d)
  show ?case
  proof (cases "d = [] \<or> find_from s d 0 = None")
    case False
    then obtain p where p: "d \<noteq> []" "find_from s d 0 = Some p" by auto
    have "s = take p s @ take (length d) (drop p s) @ drop (p + length d) s"
      by (metis append_take_drop_id drop_drop add.commute)
    then show ?thesis using 1 p find_from_Some[OF p(2)] by (subst split_on.simps) (simp add: join_Cons)
  qed (subst split_on.simps, auto)
qed

section \<open>The splitting of the program\<close>

text \<open>Two steps of the loop cannot be at the same position, and no step is behind the end.\<close>

lemma tokenise_loop_ends:
  assumes "d \<noteq> []" "length intermediate \<le> length s"
  shows "\<exists>r. tokenise_loop s d pos intermediate results = Some (Inr r)"
  using assms(2)
proof (induction "length s - pos" arbitrary: pos intermediate results rule: less_induct)
  case less
  show ?case
  proof (cases "find_from intermediate d pos")
    case None
    then show ?thesis by (subst tokenise_loop.simps) simp
  next
    case (Some p)
    let ?q = "p + length d"
    have q: "pos \<le> p" "?q \<le> length intermediate" using find_from_Some[OF Some] by auto
    then have "length s - ?q < length s - pos" using assms(1) less.prems by (auto simp: neq_Nil_conv)
    moreover have "\<not> length s < ?q" using q less.prems by simp
    ultimately show ?thesis using less.hyps[of ?q "drop ?q s"]
      by (subst tokenise_loop.simps) (simp add: Some substr_def)
  qed
qed

lemma tokenise_one:
  assumes "d \<noteq> []" "find_from s d 0 = Some p" "find_from (drop (p + length d) s) d 0 = None"
  shows "TokeniseString s d = Some (Inr [take p s, drop (p + length d) s])"
proof -
  let ?q = "p + length d"
  have "\<not> length s < ?q" using find_from_Some[OF assms(2)] by simp
  moreover have "find_from (drop ?q s) d ?q = None" by (rule find_from_later[OF assms(3)]) simp
  ultimately show ?thesis using assms
    by (simp add: TokeniseString_def) (simp add: tokenise_loop.simps[of s] substr_def)
qed

lemma split_on_two:
  assumes "d \<noteq> []" "length (split_on s d) \<le> 2"
  shows "TokeniseString s d = Some (Inr (split_on s d))"
proof (cases "find_from s d 0")
  case None
  then show ?thesis by (simp add: TokeniseString_def split_on.simps)
next
  case (Some p)
  let ?t = "drop (p + length d) s"
  have s: "split_on s d = take p s # split_on ?t d" using assms(1) Some by (subst split_on.simps) simp
  then have "length (split_on ?t d) \<le> 1" using assms(2) by simp
  then have "find_from ?t d 0 = None" using assms(1)
    by (subst (asm) split_on.simps) (auto split: option.splits)
  then show ?thesis using tokenise_one[OF assms(1) Some] s assms(1) by (simp add: split_on.simps[of ?t])
qed

text \<open>An empty delimiter is found again and again at the same place.\<close>

lemma find_empty: "find_from s [] 0 = Some 0"
  by (auto simp: find_from_def find_Some_iff occurs_at_def simp del: upt_Suc intro!: exI[of _ 0])

lemma tokenise_loop_not_empty:
  assumes "tokenise_loop s d pos intermediate results = Some r"
  shows "\<not> (d = [] \<and> pos = 0 \<and> intermediate = s)"
proof (rule tokenise_loop.raw_induct[where P = "\<lambda>s d pos intermediate results r. \<not> (d = [] \<and> pos = 0 \<and> intermediate = s)", OF _ assms])
  fix f s d pos intermediate results r
  assume ih: "\<And>s d pos intermediate results r. f s d pos intermediate results = Some r \<Longrightarrow> \<not> (d = [] \<and> pos = 0 \<and> intermediate = s)"
    and body: "(case find_from intermediate d pos of
       None \<Rightarrow> Some (Inr results)
     | Some p \<Rightarrow> (case substr s (p + length d) of
         Inl e \<Rightarrow> Some (Inl e)
       | Inr rest \<Rightarrow> f s d (p + length d) rest
           (if find_from rest d (p + length d) = None then results @ [take p s, rest] else results @ [take p s]))) = Some r"
  show "\<not> (d = [] \<and> pos = 0 \<and> intermediate = s)"
    using body ih[of s "[]" 0 s _ r] by (auto simp: find_empty substr_def)
qed

lemma tokenise_empty_never: "TokeniseString s [] = None"
  using tokenise_loop_not_empty[of s "[]" 0 s "[]"]
  by (cases "tokenise_loop s [] 0 s []") (auto simp: TokeniseString_def find_empty)

section \<open>Properties\<close>

text \<open>
  C22: For a delimiter that is not empty, splitting always ends without an exception; with at most one
  delimiter in the string it gives the pieces of the reference, and replacing puts the replacement
  between them.  An empty delimiter keeps the loop going for ever.
\<close>

theorem tokenise_is_split:
  "(d \<noteq> [] \<longrightarrow> (\<exists>ts. TokeniseString s d = Some (Inr ts))) \<and>
   (d \<noteq> [] \<and> length (split_on s d) \<le> 2 \<longrightarrow> TokeniseString s d = Some (Inr (split_on s d)) \<and>
      Replace s d w = Some (Inr (join_tokens w (split_on s d)))) \<and>
   (d = [] \<longrightarrow> TokeniseString s d = None)"
proof (intro conjI impI)
  show "\<exists>ts. TokeniseString s d = Some (Inr ts)" if "d \<noteq> []"
    using tokenise_loop_ends[OF that order_refl, of s 0 "[]"] by (auto simp: TokeniseString_def)
  show "TokeniseString s d = None" if "d = []" using tokenise_empty_never that by simp
next
  assume a: "d \<noteq> [] \<and> length (split_on s d) \<le> 2"
  then show t: "TokeniseString s d = Some (Inr (split_on s d))" using split_on_two by blast
  then show "Replace s d w = Some (Inr (join_tokens w (split_on s d)))" by (simp add: Replace_def)
qed

theorem tokenise_is_split_witness:
  "TokeniseString ''key=value'' ''='' = Some (Inr [''key'', ''value'']) \<and>
   Replace ''key=value'' ''='' '': '' = Some (Inr ''key: value'')"
proof -
  have f: "find_from ''key=value'' ''='' 0 = Some 3" by code_simp
  have g: "find_from ''value'' ''='' 0 = None" by code_simp
  have "split_on ''key=value'' ''='' = [''key'', ''value'']"
    using f g by (simp add: split_on.simps[of "''key=value''"] split_on.simps[of "''value''"])
  then show ?thesis using tokenise_is_split[of "''=''" "''key=value''" "'': ''"] by simp
qed

text \<open>
  With two delimiters the second is not found: the position in the whole string is used in the rest,
  and a replacement leaves it as it was.
\<close>

lemma second_delimiter_missed:
  "TokeniseString ''a,b,c'' '','' = Some (Inr [''a'', ''b,c'']) \<and> split_on ''a,b,c'' '','' = [''a'', ''b'', ''c'']"
proof -
  have f: "find_from ''a,b,c'' '','' 0 = Some 1" "find_from ''b,c'' '','' 2 = None" "find_from ''b,c'' '','' 0 = Some 1"
    "find_from ''c'' '','' 0 = None" by code_simp+
  have "split_on ''a,b,c'' '','' = [''a'', ''b'', ''c'']"
    using f by (simp add: split_on.simps[of "''a,b,c''"] split_on.simps[of "''b,c''"] split_on.simps[of "''c''"])
  moreover have "TokeniseString ''a,b,c'' '','' = Some (Inr [''a'', ''b,c''])"
    using f by (simp add: TokeniseString_def tokenise_loop.simps[of "''a,b,c''"] substr_def numeral_2_eq_2)
  ultimately show ?thesis by blast
qed

text \<open>The empty string, of which the system cannot change the case, makes \<open>ToLower\<close> throw.\<close>

lemma empty_case_throws:
  assumes "\<And>h u. rv (os h (LCMapStringEx u [] 0)) = 0"
  shows "\<exists>e h'. ToLower [] os s h = (Exn e, s, h')"
  using assms by (simp add: ToLower_def ChangeCase_def io_simps)

text \<open>What the system converts is returned as it is, when its two answers agree on the length.\<close>

lemma ChangeCase_result:
  assumes "\<And>h n. os h (LCMapStringEx u s n) = \<lparr>rv = of_nat (length t), out = 0, buf = b, outs = [], rows = []\<rparr>"
    "wide_of b = t" "t \<noteq> []" "length t < 2 ^ 31"
  shows "\<exists>h'. ChangeCase s u os x h = (Val t, x, h')"
proof -
  have n: "unat (of_nat (length t) :: DWORD) = length t" using assms(4) by (intro unat_less_imp_eq_of_nat) simp
  have i: "nat (sint (of_nat (length t) :: DWORD)) = length t"
    using assms(4) by (simp add: signed_of_nat signed_take_bit_int_eq_self)
  have z: "(of_nat (length t) :: DWORD) \<noteq> 0" using n assms(3) by (metis length_0_conv unsigned_0)
  have u: "ucast (of_nat (length t) :: 64 word) = (of_nat (length t) :: DWORD)"
    using assms(4) by (simp add: unsigned_of_nat take_bit_nat_eq_self)
  show ?thesis using assms by (simp add: ChangeCase_def io_simps length_of_def filled_def overwrite_def u z i)
qed

end
