(* ===== verification/Waits.thy ===== *)
theory Waits
  imports Raii
begin

text \<open>
  Waiting: WaitableTimers/main.cpp, a timer and a thread that runs functions queued to it, and
  WaitOnObjects/main.cpp, three ways to wait on several handles and to continue with the one that was
  signalled.
\<close>

section \<open>System calls\<close>

datatype waitcall =
    CreateWaitableTimerW bool
  | SetWaitableTimer HANDLE "64 word" DWORD
  | CreateEvent_call bool bool
  | SetEvent HANDLE
  | WaitForSingleObject HANDLE
  | WaitForMultipleObjects "HANDLE list" bool
  | WaitForMultipleObjectsEx "HANDLE list" bool DWORD bool
  | CloseHandle HANDLE
  | GetLastError
  | FormatMessageA DWORD
  | LocalFree HANDLE
  | Print string

datatype waiterr = Win32Error DWORD | RuntimeError

type_synonym 'a wio = "(unit, waitcall, waiterr, 'a) io"

abbreviation (input) WaitObject0 :: DWORD where "WaitObject0 \<equiv> 0"
abbreviation (input) WaitAbandoned0 :: DWORD where "WaitAbandoned0 \<equiv> 0x80"
abbreviation (input) WaitTimeout :: DWORD where "WaitTimeout \<equiv> 258"
abbreviation (input) WaitFailed :: DWORD where "WaitFailed \<equiv> 0xFFFFFFFF"
abbreviation (input) Infinite :: DWORD where "Infinite \<equiv> 0xFFFFFFFF"

definition dword_of_resp :: "resp \<Rightarrow> DWORD" where
  "dword_of_resp r = ucast (rv r)"

section \<open>WaitableTimers: errors and handles\<close>

definition TranslateError :: "DWORD \<Rightarrow> unit wio" where
  "TranslateError code = bnd (call (FormatMessageA code)) (\<lambda>r. whenM (out r \<noteq> 0) (do_call (LocalFree (out r))))"

definition throw_last_error :: "'a wio" where
  "throw_last_error = bnd (call GetLastError) (\<lambda>e.
     andthen (TranslateError (dword_of_resp e)) (throw (Win32Error (dword_of_resp e))))"

text \<open>A \<open>HandleUniquePtr\<close> and the scope it lives in.\<close>

definition with_handle :: "waitcall \<Rightarrow> (HANDLE \<Rightarrow> 'a wio) \<Rightarrow> 'a wio" where
  "with_handle c m = bnd (call c) (\<lambda>r. if rv r = 0 then throw_last_error
     else finally_do (m (rv r)) (whenM (rv r \<noteq> 0) (do_call (CloseHandle (rv r)))))"

definition with_timer :: "bool \<Rightarrow> (HANDLE \<Rightarrow> 'a wio) \<Rightarrow> 'a wio" where
  "with_timer manualReset m = with_handle (CreateWaitableTimerW manualReset) m"

definition with_event :: "bool \<Rightarrow> bool \<Rightarrow> (HANDLE \<Rightarrow> 'a wio) \<Rightarrow> 'a wio" where
  "with_event manualReset initialState m = with_handle (CreateEvent_call manualReset initialState) m"

definition BasicExample_Run :: "unit wio" where
  "BasicExample_Run = with_timer False (\<lambda>timer.
     bnd (call (SetWaitableTimer timer (- 1000) 0)) (\<lambda>r. if rv r = 0 then throw_last_error else
     bnd (call (WaitForSingleObject timer)) (\<lambda>w. let waitResult = dword_of_resp w in
       if waitResult = WaitAbandoned0 \<or> waitResult = WaitTimeout \<or> waitResult = WaitFailed
       then throw RuntimeError else do_call (Print ''Success!''))))"

definition MillisToHundredNanoIntervals :: "64 word \<Rightarrow> 64 word" where
  "MillisToHundredNanoIntervals ms = ms * 10000"

definition SetTimer :: "HANDLE \<Rightarrow> 64 word \<Rightarrow> 64 word \<Rightarrow> unit wio" where
  "SetTimer timer start period =
     bnd (call (SetWaitableTimer timer (- MillisToHundredNanoIntervals start) (ucast period)))
       (\<lambda>r. if rv r = 0 then throw_last_error else ret ())"

section \<open>WaitableTimers: the thread that runs queued functions\<close>

text \<open>
  \<open>queue\<close> holds the functions that are queued to the thread, \<open>executed\<close> those it has run and deleted,
  \<open>lost\<close> those that \<open>QueueUserAPC\<close>, whose result is not checked, has not queued: nobody runs or deletes them.
  The worker is in its alertable wait or has ended; main schedules three functions, one per tick of the timer.
\<close>

datatype worker = AlertableWait | Ended

datatype mainloc = Scheduling nat | Joining | Destroying | JoiningAgain | Done | Terminated

record apc =
  queue :: "nat list"
  executed :: "nat list"
  lost :: "nat list"
  exit_event :: bool
  worker :: worker
  at :: mainloc

text \<open>A thread that has ended accepts no function; for one that has not, \<open>accepted\<close> says whether the call works.\<close>

definition Schedule :: "bool \<Rightarrow> nat \<Rightarrow> apc \<Rightarrow> apc" where
  "Schedule accepted f s =
     (if worker s = AlertableWait \<and> accepted then s\<lparr>queue := queue s @ [f]\<rparr> else s\<lparr>lost := lost s @ [f]\<rparr>)"

text \<open>The result of \<open>SetEvent\<close> is not checked either.\<close>

definition SignalToExit :: "bool \<Rightarrow> apc \<Rightarrow> apc" where
  "SignalToExit set_ok s = (if set_ok then s\<lparr>exit_event := True\<rparr> else s)"

definition ExecuteAPC2 :: "apc \<Rightarrow> apc" where
  "ExecuteAPC2 s = (case queue s of [] \<Rightarrow> s | f # fs \<Rightarrow> s\<lparr>queue := fs, executed := executed s @ [f]\<rparr>)"

text \<open>
  \<open>set_ok\<close> says whether \<open>SetEvent\<close> works, and \<open>may_fail\<close> whether the other calls may fail: the timer, the allocation
  and the waits.  A wait that finds both the event and a queued function may end for either; a wait that fails
  ends the worker.  An exception in \<open>Run\<close> leaves it by the destructor of the worker, and one in that
  destructor ends the process.
\<close>

inductive apc_step :: "bool \<Rightarrow> bool \<Rightarrow> apc \<Rightarrow> apc \<Rightarrow> bool" for set_ok may_fail where
  ticks: "at s = Scheduling i \<Longrightarrow> i < 3 \<Longrightarrow> accepted \<or> may_fail \<Longrightarrow>
    apc_step set_ok may_fail s ((Schedule accepted i s)\<lparr>at := Scheduling (Suc i)\<rparr>)"
| timer_fails: "may_fail \<Longrightarrow> at s = Scheduling i \<Longrightarrow> i < 3 \<Longrightarrow> apc_step set_ok may_fail s (s\<lparr>at := Destroying\<rparr>)"
| signals: "at s = Scheduling 3 \<Longrightarrow> apc_step set_ok may_fail s ((SignalToExit set_ok s)\<lparr>at := Joining\<rparr>)"
| joins: "at s = Joining \<Longrightarrow> worker s = Ended \<Longrightarrow> apc_step set_ok may_fail s (s\<lparr>at := Destroying\<rparr>)"
| join_fails: "may_fail \<Longrightarrow> at s = Joining \<Longrightarrow> apc_step set_ok may_fail s (s\<lparr>at := Destroying\<rparr>)"
| destroys: "at s = Destroying \<Longrightarrow> apc_step set_ok may_fail s ((SignalToExit set_ok s)\<lparr>at := JoiningAgain\<rparr>)"
| joins_again: "at s = JoiningAgain \<Longrightarrow> worker s = Ended \<Longrightarrow> apc_step set_ok may_fail s (s\<lparr>at := Done\<rparr>)"
| terminates: "may_fail \<Longrightarrow> at s = JoiningAgain \<Longrightarrow> apc_step set_ok may_fail s (s\<lparr>at := Terminated\<rparr>)"
| runs: "at s \<noteq> Terminated \<Longrightarrow> worker s = AlertableWait \<Longrightarrow> queue s \<noteq> [] \<Longrightarrow> apc_step set_ok may_fail s (ExecuteAPC2 s)"
| exits: "at s \<noteq> Terminated \<Longrightarrow> worker s = AlertableWait \<Longrightarrow> exit_event s \<Longrightarrow>
    apc_step set_ok may_fail s (s\<lparr>worker := Ended, exit_event := False\<rparr>)"
| wait_fails: "may_fail \<Longrightarrow> at s \<noteq> Terminated \<Longrightarrow> worker s = AlertableWait \<Longrightarrow> apc_step set_ok may_fail s (s\<lparr>worker := Ended\<rparr>)"

definition apc_start :: apc where
  "apc_start = \<lparr>queue = [], executed = [], lost = [], exit_event = False, worker = AlertableWait, at = Scheduling 0\<rparr>"

section \<open>WaitOnObjects\<close>

text \<open>The fold \<open>(... or ...)\<close> over the alternatives: the first for which the test holds.\<close>

fun first_of :: "(nat \<Rightarrow> bool) \<Rightarrow> nat list \<Rightarrow> nat option" where
  "first_of p [] = None"
| "first_of p (i # is) = (if p i then Some i else first_of p is)"

text \<open>A: the alternative of the variant that is returned; the test compares an index with itself.\<close>

definition A_WaitOn :: "HANDLE list \<Rightarrow> nat wio" where
  "A_WaitOn handles = bnd (call (WaitForMultipleObjects handles False)) (\<lambda>_.
     ret (case first_of (\<lambda>i. i = i) [0..<length handles] of None \<Rightarrow> 0 | Some i \<Rightarrow> i))"

definition check_wait :: "nat \<Rightarrow> DWORD \<Rightarrow> 'a wio \<Rightarrow> 'a wio" where
  "check_wait n result m = (if result = WaitFailed then throw RuntimeError
     else if WaitAbandoned0 \<le> result \<and> result < WaitAbandoned0 + of_nat n then throw RuntimeError else m)"

text \<open>B: an event is made for the awaitables without a handle, and the one that fired is invoked.\<close>

definition B_WaitOn :: "DWORD \<Rightarrow> bool \<Rightarrow> bool \<Rightarrow> (HANDLE \<times> unit wio) list \<Rightarrow> unit wio" where
  "B_WaitOn wait waitAll alertable awaitables =
     bnd (if list_all (\<lambda>a. fst a \<noteq> 0) awaitables then ret 0
          else bnd (call (CreateEvent_call False False)) (\<lambda>r. ret (rv r))) (\<lambda>dummy.
     finally_do
       (let handles = map (\<lambda>a. if fst a \<noteq> 0 then fst a else dummy) awaitables in
        bnd (call (WaitForMultipleObjectsEx handles waitAll wait alertable)) (\<lambda>r.
        check_wait (length awaitables) (dword_of_resp r)
          (case first_of (\<lambda>i. dword_of_resp r = of_nat i) [0..<length awaitables] of
             None \<Rightarrow> ret () | Some i \<Rightarrow> snd (awaitables ! i))))
       (whenM (dummy \<noteq> 0) (do_call (CloseHandle dummy))))"

text \<open>C: the alternative of the variant and the handle in it; a variant starts as its first alternative.\<close>

definition C_WaitOn :: "DWORD \<Rightarrow> bool \<Rightarrow> bool \<Rightarrow> HANDLE list \<Rightarrow> (nat \<times> HANDLE) wio" where
  "C_WaitOn wait waitAll alertable handles =
     bnd (call (WaitForMultipleObjectsEx handles waitAll wait alertable)) (\<lambda>r.
     check_wait (length handles) (dword_of_resp r)
       (ret (case first_of (\<lambda>i. of_nat i = dword_of_resp r) [0..<length handles] of
          None \<Rightarrow> (0, 0) | Some i \<Rightarrow> (i, handles ! i))))"

definition create_event :: "HANDLE wio" where
  "create_event = bnd (call (CreateEvent_call False False)) (\<lambda>r. ret (rv r))"

definition A_Run :: "unit wio" where
  "A_Run = bnd create_event (\<lambda>a. bnd create_event (\<lambda>b.
     andthen (bnd (A_WaitOn [a, b]) (\<lambda>_. ret ())) (bnd (A_WaitOn [0]) (\<lambda>_. ret ()))))"

definition B_Run :: "unit wio" where
  "B_Run = bnd create_event (\<lambda>a. bnd create_event (\<lambda>b.
     andthen (do_call (SetEvent b))
     (andthen (do_call (Print ''This is an integer.''))
     (B_WaitOn Infinite False False [(a, do_call (Print ''A'')), (b, do_call (Print ''B''))]))))"

definition C_Run :: "unit wio" where
  "C_Run = bnd create_event (\<lambda>a. bnd create_event (\<lambda>b.
     andthen (do_call (SetEvent b))
     (bnd (C_WaitOn Infinite False False [a, b]) (\<lambda>(i, _).
       if i = 0 then do_call (Print ''A'') else do_call (Print ''B'')))))"

definition wait_main :: "int wio" where
  "wait_main = andthen C_Run (ret 0)"

section \<open>The queued functions\<close>

inductive_cases apc_stepE: "apc_step set_ok may_fail s s'"

fun scheduled :: "mainloc \<Rightarrow> nat option" where
  "scheduled (Scheduling i) = Some i"
| "scheduled Joining = Some 3"
| "scheduled _ = None"

text \<open>\<open>n\<close> functions have been made, and each is where it should be.\<close>

definition placed :: "nat \<Rightarrow> apc \<Rightarrow> bool" where
  "placed n s \<longleftrightarrow> mset (executed s @ queue s @ lost s) = mset [0..<n] \<and> sorted (executed s @ queue s)"

definition apc_inv :: "bool \<Rightarrow> bool \<Rightarrow> apc \<Rightarrow> bool" where
  "apc_inv set_ok may_fail s \<longleftrightarrow>
     (\<exists>n \<le> 3. placed n s \<and> (scheduled (at s) = None \<or> scheduled (at s) = Some n)) \<and>
     (\<not> may_fail \<longrightarrow> lost s = [] \<and> (\<forall>i. at s = Scheduling i \<longrightarrow> worker s = AlertableWait \<and> \<not> exit_event s)) \<and>
     (set_ok \<longrightarrow> at s = Joining \<or> at s = JoiningAgain \<longrightarrow> exit_event s \<or> worker s = Ended) \<and>
     (at s = Done \<longrightarrow> worker s = Ended)"

lemma apc_inv_start: "apc_inv set_ok may_fail apc_start"
  by (simp add: apc_inv_def apc_start_def placed_def)

lemma placed_Schedule:
  assumes "placed n s"
  shows "placed (Suc n) (Schedule accepted n s)"
proof -
  have "mset (executed s @ queue s @ lost s) = mset [0..<n]" using assms unfolding placed_def by blast
  from mset_eq_setD[OF this] have "set (executed s @ queue s) \<subseteq> {0..<n}" by auto
  then show ?thesis using assms by (auto simp: placed_def Schedule_def sorted_append)
qed

lemma placed_simps [simp]: "placed n (s\<lparr>at := l\<rparr>) = placed n s" "placed n (s\<lparr>worker := w\<rparr>) = placed n s"
  "placed n (s\<lparr>worker := w, exit_event := e\<rparr>) = placed n s" "placed n (SignalToExit b s) = placed n s"
  "placed n (ExecuteAPC2 s) = placed n s"
  by (simp_all add: placed_def SignalToExit_def ExecuteAPC2_def split: list.split)

lemma Schedule_simps [simp]: "at (Schedule a f s) = at s" "worker (Schedule a f s) = worker s" "exit_event (Schedule a f s) = exit_event s"
  by (simp_all add: Schedule_def)

lemma SignalToExit_simps [simp]: "at (SignalToExit b s) = at s" "worker (SignalToExit b s) = worker s"
  "lost (SignalToExit b s) = lost s" "queue (SignalToExit b s) = queue s" "exit_event (SignalToExit b s) = (b \<or> exit_event s)"
  by (simp_all add: SignalToExit_def)

lemma ExecuteAPC2_simps [simp]: "at (ExecuteAPC2 s) = at s" "worker (ExecuteAPC2 s) = worker s"
  "lost (ExecuteAPC2 s) = lost s" "exit_event (ExecuteAPC2 s) = exit_event s"
  by (simp_all add: ExecuteAPC2_def split: list.split)

lemma apc_inv_step:
  assumes "apc_step set_ok may_fail s s'" and inv: "apc_inv set_ok may_fail s"
  shows "apc_inv set_ok may_fail s'"
  using assms(1)
proof cases
  case (ticks i accepted)
  then have "placed i s" using inv by (auto simp: apc_inv_def)
  from placed_Schedule[OF this] have "\<exists>n \<le> 3. placed n s' \<and> (scheduled (at s') = None \<or> scheduled (at s') = Some n)"
    using ticks by (intro exI[of _ "Suc i"]) simp
  moreover have "\<not> may_fail \<Longrightarrow> lost s' = []" using ticks inv by (auto simp: apc_inv_def Schedule_def)
  ultimately show ?thesis using inv ticks by (simp add: apc_inv_def)
next
  case (timer_fails i)
  then show ?thesis using inv by (auto simp: apc_inv_def intro!: exI[of _ i])
qed (use inv in \<open>auto simp: apc_inv_def\<close>)

lemma apc_reachable_inv: "(apc_step set_ok may_fail)\<^sup>*\<^sup>* apc_start s \<Longrightarrow> apc_inv set_ok may_fail s"
  by (induction rule: rtranclp_induct) (auto intro: apc_inv_start apc_inv_step)

fun main_rank :: "mainloc \<Rightarrow> nat" where
  "main_rank (Scheduling i) = 10 - i"
| "main_rank Joining = 5"
| "main_rank Destroying = 4"
| "main_rank JoiningAgain = 3"
| "main_rank Done = 0"
| "main_rank Terminated = 0"

definition apc_work :: "apc \<Rightarrow> nat" where
  "apc_work s = 3 * main_rank (at s) + length (queue s) + (if worker s = AlertableWait then 1 else 0)"

lemma apc_work_decreases: "apc_step set_ok may_fail s s' \<Longrightarrow> apc_work s' < apc_work s"
  by (induction rule: apc_step.induct)
    (auto simp: apc_work_def Schedule_def ExecuteAPC2_def split: list.split)

text \<open>Progress that does not rest on a failing call.\<close>

lemma apc_progress:
  assumes inv: "apc_inv True may_fail s" and "at s \<noteq> Done" "at s \<noteq> Terminated"
  shows "\<exists>s'. apc_step True False s s'"
proof (cases "at s")
  case (Scheduling i)
  then have "i \<le> 3" using inv by (auto simp: apc_inv_def)
  then have "i < 3 \<or> i = 3" by linarith
  then show ?thesis using apc_step.ticks[OF Scheduling, of True] apc_step.signals[of s] Scheduling by blast
next
  case Joining
  then show ?thesis using inv apc_step.joins[of s] apc_step.exits[of s] by (cases "worker s") (fastforce simp: apc_inv_def)+
next
  case Destroying
  then show ?thesis using apc_step.destroys[of s] by blast
next
  case JoiningAgain
  then show ?thesis using inv apc_step.joins_again[of s] apc_step.exits[of s] by (cases "worker s") (fastforce simp: apc_inv_def)+
qed (use assms in simp_all)

section \<open>Who is invoked\<close>

lemma finally_ret [simp]: "finally_do m (ret ()) = m"
  by (auto simp: finally_do_def ret_def fun_eq_iff split: prod.split outcome.split)

lemma first_of_equal: "i \<in> set is \<Longrightarrow> (\<And>j. j \<in> set is \<Longrightarrow> p j \<longleftrightarrow> j = i) \<Longrightarrow> first_of p is = Some i"
  by (induction "is") auto

lemma small_index:
  assumes "i < n" "n \<le> 64" "w = of_nat i"
  shows "(w :: DWORD) \<noteq> WaitFailed" "\<not> WaitAbandoned0 \<le> w" "j < n \<Longrightarrow> w = of_nat j \<longleftrightarrow> j = i"
proof -
  have u: "unat (of_nat k :: DWORD) = k" if "k < n" for k using assms(2) that by (intro unat_less_imp_eq_of_nat) simp
  have "unat w < 64" using u[OF assms(1)] assms by simp
  then have "unat w \<noteq> unat WaitFailed" "\<not> unat WaitAbandoned0 \<le> unat w" by simp_all
  then show "w \<noteq> WaitFailed" "\<not> WaitAbandoned0 \<le> w" by (blast, simp only: word_le_nat_alt not_False_eq_True)
  show "w = of_nat j \<longleftrightarrow> j = i" if "j < n" using u[OF that] u[OF assms(1)] assms(3) by metis
qed

text \<open>
  B invokes, and C returns, the awaitable whose index the wait gives; A returns its first alternative
  whatever was signalled.
\<close>

lemma wait_dispatch:
  assumes "i < length aws" "length aws \<le> 64" "list_all (\<lambda>a. fst a \<noteq> 0) aws"
    "dword_of_resp (os h (WaitForMultipleObjectsEx (map fst aws) waitAll wait alertable)) = of_nat i"
  defines "h' \<equiv> h @ [(WaitForMultipleObjectsEx (map fst aws) waitAll wait alertable,
      os h (WaitForMultipleObjectsEx (map fst aws) waitAll wait alertable))]"
  shows "B_WaitOn wait waitAll alertable aws os s h = snd (aws ! i) os s h' \<and>
    C_WaitOn wait waitAll alertable (map fst aws) os s h = (Val (i, fst (aws ! i)), s, h') \<and>
    outcome_of (A_WaitOn (map fst aws) os s h) = Val 0"
proof -
  let ?w = "WaitForMultipleObjectsEx (map fst aws) waitAll wait alertable"
  note w = small_index[OF assms(1,2,4)]
  have m: "map (\<lambda>a. if fst a \<noteq> 0 then fst a else 0) aws = map fst aws"
    using assms(3) by (simp add: list_all_iff)
  have f1: "first_of (\<lambda>j. dword_of_resp (os h ?w) = of_nat j) [0..<length aws] = Some i"
    by (rule first_of_equal) (use assms(1) w(3) in simp_all)
  moreover have "(\<lambda>j. of_nat j = dword_of_resp (os h ?w)) = (\<lambda>j. dword_of_resp (os h ?w) = of_nat j)"
    by (auto simp: fun_eq_iff)
  ultimately have f: "first_of (\<lambda>j. dword_of_resp (os h ?w) = of_nat j) [0..<length aws] = Some i"
    "first_of (\<lambda>j. of_nat j = dword_of_resp (os h ?w)) [0..<length aws] = Some i" by simp_all
  have z: "first_of (\<lambda>i. True) [0..<length aws] = Some 0"
    using assms(1) by (cases aws) (simp_all add: upt_rec[of 0])
  have c: "check_wait (length aws) (dword_of_resp (os h ?w)) m = m" for m :: "'x wio"
    using w(1,2) by (simp add: check_wait_def)
  have "B_WaitOn wait waitAll alertable aws os s h = snd (aws ! i) os s h'"
    using assms(3) by (simp add: B_WaitOn_def m whenM_def bnd_ret bnd_call_apply c f h'_def)
  moreover have "C_WaitOn wait waitAll alertable (map fst aws) os s h = (Val (i, fst (aws ! i)), s, h')"
    using assms(1) by (simp add: C_WaitOn_def bnd_call_apply c f h'_def ret_apply)
  moreover have "outcome_of (A_WaitOn (map fst aws) os s h) = Val 0"
    by (simp add: A_WaitOn_def bnd_call_apply ret_apply z)
  ultimately show ?thesis by blast
qed

section \<open>Handles\<close>

definition wait_opens :: "waitcall \<Rightarrow> resp \<Rightarrow> HANDLE option" where
  "wait_opens c r = (case c of
      CreateWaitableTimerW b \<Rightarrow> if rv r = 0 then None else Some (rv r)
    | CreateEvent_call b b' \<Rightarrow> if rv r = 0 then None else Some (rv r)
    | _ \<Rightarrow> None)"

definition wait_closes :: "waitcall \<Rightarrow> HANDLE option" where
  "wait_closes c = (case c of CloseHandle x \<Rightarrow> Some x | _ \<Rightarrow> None)"

interpretation wt: handle_api wait_opens wait_closes
  by unfold_locales (auto simp: wait_opens_def wait_closes_def split: waitcall.splits)

lemma wait_classes [simp]:
  "wait_closes (CreateWaitableTimerW b) = None" "wait_closes (CreateEvent_call b b') = None"
  "wait_closes (CloseHandle x) = Some x"
  "wait_opens (CreateWaitableTimerW b) r = (if rv r = 0 then None else Some (rv r))"
  "wait_opens (CreateEvent_call b b') r = (if rv r = 0 then None else Some (rv r))"
  by (simp_all add: wait_opens_def wait_closes_def)

lemma wait_neutral [neutral_intro]:
  "wt.neutral (call GetLastError)" "wt.neutral (call (FormatMessageA e))" "wt.neutral (call (LocalFree p))"
  "wt.neutral (call (SetWaitableTimer t d q))" "wt.neutral (call (WaitForSingleObject t))" "wt.neutral (call (Print x))"
  by (rule wt.neutral_call; simp add: wait_opens_def wait_closes_def)+

lemma neutral_throw_last [neutral_intro]: "wt.neutral throw_last_error"
  unfolding throw_last_error_def TranslateError_def by (intro neutral_intro)

lemma neutral_with_timer:
  assumes "\<And>t. wt.neutral (m t)"
  shows "wt.neutral (with_timer b m)"
  unfolding with_timer_def with_handle_def
  by (rule wt.neutral_unique_if) (auto intro: assms neutral_throw_last simp: whenM_def wt.owns_do_close)

text \<open>The basic example closes its timer on every path; the examples of WaitOnObjects never close their events.\<close>

lemma BasicExample_closes: "wt.neutral BasicExample_Run"
  unfolding BasicExample_Run_def Let_def by (intro neutral_with_timer neutral_intro)

lemma C_Run_leaks: "\<exists>h. C_Run (\<lambda>_ _. ok_resp) () [] = (Val (), (), h) \<and> wt.live h = Some {#1, 1#}"
  by (simp add: C_Run_def create_event_def C_WaitOn_def check_wait_def dword_of_resp_def io_simps wt.live_def
      wait_opens_def wait_closes_def word_le_nat_alt)

section \<open>Properties\<close>

text \<open>A run in which nothing fails and the worker leaves its wait for the event although three functions are queued.\<close>

definition unlucky_exit :: apc where
  "unlucky_exit = \<lparr>queue = [0, 1, 2], executed = [], lost = [], exit_event = True, worker = Ended, at = Done\<rparr>"

lemma reach_unlucky_exit: "(apc_step True False)\<^sup>*\<^sup>* apc_start unlucky_exit"
proof -
  let ?s = "\<lambda>q e w a. \<lparr>queue = q, executed = [], lost = [], exit_event = e, worker = w, at = a\<rparr>"
  let ?step = "apc_step True False"
  have "?step apc_start (?s [0] False AlertableWait (Scheduling 1))"
    using apc_step.ticks[of apc_start 0 True False True] by (simp add: apc_start_def Schedule_def)
  moreover have "?step (?s [0] False AlertableWait (Scheduling 1)) (?s [0, 1] False AlertableWait (Scheduling 2))"
    using apc_step.ticks[of "?s [0] False AlertableWait (Scheduling 1)" 1 True False True] by (simp add: Schedule_def numeral_2_eq_2)
  moreover have "?step (?s [0, 1] False AlertableWait (Scheduling 2)) (?s [0, 1, 2] False AlertableWait (Scheduling 3))"
    using apc_step.ticks[of "?s [0, 1] False AlertableWait (Scheduling 2)" 2 True False True] by (simp add: Schedule_def numeral_3_eq_3)
  moreover have "?step (?s [0, 1, 2] False AlertableWait (Scheduling 3)) (?s [0, 1, 2] True AlertableWait Joining)"
    using apc_step.signals[of "?s [0, 1, 2] False AlertableWait (Scheduling 3)" True False] by (simp add: SignalToExit_def)
  moreover have "?step (?s [0, 1, 2] True AlertableWait Joining) (?s [0, 1, 2] False Ended Joining)"
    using apc_step.exits[of "?s [0, 1, 2] True AlertableWait Joining" True False] by simp
  moreover have "?step (?s [0, 1, 2] False Ended Joining) (?s [0, 1, 2] False Ended Destroying)"
    using apc_step.joins[of "?s [0, 1, 2] False Ended Joining" True False] by simp
  moreover have "?step (?s [0, 1, 2] False Ended Destroying) (?s [0, 1, 2] True Ended JoiningAgain)"
    using apc_step.destroys[of "?s [0, 1, 2] False Ended Destroying" True False] by (simp add: SignalToExit_def)
  moreover have "?step (?s [0, 1, 2] True Ended JoiningAgain) unlucky_exit"
    using apc_step.joins_again[of "?s [0, 1, 2] True Ended JoiningAgain" True False] by (simp add: unlucky_exit_def)
  ultimately show ?thesis by (meson rtranclp.rtrancl_into_rtrancl rtranclp.rtrancl_refl)
qed

text \<open>
  C23: Each of the functions that main makes is queued to the thread, has been run by it, or was not accepted,
  exactly one of these; those that are queued are run in the order they were made, and all are queued
  when no call fails.  Every step uses up work, so the program ends, and while \<open>SetEvent\<close> works some thread can
  always go on, without a call that fails, until main is done, or terminated by a wait in the destructor that
  fails; when main is done the worker has ended.  But also in a run in which nothing fails the worker may
  leave its wait for the event with all three functions queued, which then are never run.
\<close>

theorem apc_in_order_and_ends:
  "(\<forall>s. (apc_step set_ok may_fail)\<^sup>*\<^sup>* apc_start s \<longrightarrow>
      (\<exists>n \<le> 3. mset (executed s @ queue s @ lost s) = mset [0..<n] \<and> sorted (executed s @ queue s)) \<and>
      (\<not> may_fail \<longrightarrow> lost s = []) \<and>
      (set_ok \<longrightarrow> at s = Done \<or> at s = Terminated \<or> (\<exists>s'. apc_step set_ok False s s')) \<and>
      (\<forall>s'. apc_step set_ok may_fail s s' \<longrightarrow> apc_work s' < apc_work s) \<and>
      (at s = Done \<longrightarrow> worker s = Ended)) \<and>
   (\<exists>s. (apc_step True False)\<^sup>*\<^sup>* apc_start s \<and> at s = Done \<and> executed s = [] \<and> queue s = [0, 1, 2])"
proof (intro conjI allI impI)
  fix s assume "(apc_step set_ok may_fail)\<^sup>*\<^sup>* apc_start s"
  note inv = apc_reachable_inv[OF this]
  show "\<exists>n \<le> 3. mset (executed s @ queue s @ lost s) = mset [0..<n] \<and> sorted (executed s @ queue s)"
    using inv unfolding apc_inv_def placed_def by blast
  show "lost s = []" if "\<not> may_fail" using inv that by (simp add: apc_inv_def)
  show "at s = Done \<or> at s = Terminated \<or> (\<exists>s'. apc_step set_ok False s s')" if set_ok
    using apc_progress[of may_fail s] inv that by auto
  show "worker s = Ended" if "at s = Done" using inv that by (simp add: apc_inv_def)
next
  show "\<exists>s. (apc_step True False)\<^sup>*\<^sup>* apc_start s \<and> at s = Done \<and> executed s = [] \<and> queue s = [0, 1, 2]"
    using reach_unlucky_exit by (intro exI[of _ unlucky_exit]) (simp add: unlucky_exit_def)
qed (rule apc_work_decreases)

theorem apc_in_order_and_ends_witness:
  "(apc_step True False)\<^sup>*\<^sup>* apc_start unlucky_exit \<and> at unlucky_exit = Done \<and> worker unlucky_exit = Ended \<and>
   lost unlucky_exit = [] \<and>
   (\<exists>n \<le> 3. mset (executed unlucky_exit @ queue unlucky_exit @ lost unlucky_exit) = mset [0..<n] \<and>
      sorted (executed unlucky_exit @ queue unlucky_exit))"
proof -
  have "at unlucky_exit = Done" by (simp add: unlucky_exit_def)
  with apc_in_order_and_ends[of True False, THEN conjunct1, THEN spec, THEN mp, OF reach_unlucky_exit] reach_unlucky_exit
  show ?thesis by blast
qed

end
