(* ===== verification/Layout.thy ===== *)
theory Layout
  imports Win32_Prelude "HOL-Library.Log_Nat"
begin

text \<open>
  layout-demo/main.cpp: two layouts of child windows, one by anchors and one by weights in a column, and
  the program that shows them.  A C++ \<open>int\<close> is an integer together with the check that each result fits;
  a \<open>float\<close> is a rational number and each operation on it is rounded to 24 significant bits.
\<close>

section \<open>Arithmetic\<close>

definition fits :: "int \<Rightarrow> bool" where
  "fits n \<longleftrightarrow> - (2 ^ 31) \<le> n \<and> n < 2 ^ 31"

text \<open>The overflow of a signed integer is undefined behaviour.\<close>

definition in_range :: "int list \<Rightarrow> ('s, 'c, 'e, 'a) io \<Rightarrow> ('s, 'c, 'e, 'a) io" where
  "in_range ns m = (if list_all fits ns then m else fault)"

definition nearest_even :: "rat \<Rightarrow> int" where
  "nearest_even x = (let n = \<lfloor>x\<rfloor>; d = x - of_int n in
     if d < 1 / 2 then n else if 1 / 2 < d then n + 1 else if even n then n else n + 1)"

text \<open>The exponent of the leading bit; \<open>two_to\<close> is a power of two.\<close>

definition two_to :: "int \<Rightarrow> rat" where
  "two_to e = (if 0 \<le> e then 2 ^ nat e else 1 / 2 ^ nat (- e))"

definition exponent :: "rat \<Rightarrow> int" where
  "exponent x = (let (p, q) = quotient_of \<bar>x\<bar>; k = int (floorlog 2 (nat p)) - int (floorlog 2 (nat q)) in
     if two_to k \<le> \<bar>x\<bar> then k else k - 1)"

definition fl :: "rat \<Rightarrow> rat" where
  "fl x = (if x = 0 then 0 else let u = two_to (exponent x - 23) in of_int (nearest_even (x / u)) * u)"

definition trunc_float :: "rat \<Rightarrow> int" where
  "trunc_float x = (if 0 \<le> x then \<lfloor>x\<rfloor> else \<lceil>x\<rceil>)"

section \<open>System calls\<close>

datatype msg = WM_SIZE int int | WM_CLOSE | WM_DESTROY | Other

datatype wincall =
    LoadCursorW
  | RegisterClassExW string
  | CreateWindowExW string string int int int int HANDLE
  | SendMessageW HANDLE string
  | GetClientRect HANDLE
  | MoveWindow HANDLE int int int int
  | InvalidateRect HANDLE
  | DestroyWindow HANDLE
  | PostQuitMessage
  | DefWindowProcW HANDLE
  | ShowWindow HANDLE int
  | UpdateWindow HANDLE
  | GetMessageW
  | TranslateMessage
  | DispatchMessageW

abbreviation (input) CW_USEDEFAULT :: int where "CW_USEDEFAULT \<equiv> - (2 ^ 31)"

section \<open>Anchors\<close>

type_synonym Anchor = DWORD

abbreviation (input) Anchor_None :: Anchor where "Anchor_None \<equiv> 0"
abbreviation (input) Anchor_Left :: Anchor where "Anchor_Left \<equiv> 1"
abbreviation (input) Anchor_Top :: Anchor where "Anchor_Top \<equiv> 2"
abbreviation (input) Anchor_Right :: Anchor where "Anchor_Right \<equiv> 4"
abbreviation (input) Anchor_Bottom :: Anchor where "Anchor_Bottom \<equiv> 8"

definition HasFlag :: "Anchor \<Rightarrow> Anchor \<Rightarrow> bool" where
  "HasFlag v f \<longleftrightarrow> and v f \<noteq> 0"

record RECT =
  left :: int
  top :: int
  right :: int
  bottom :: int

record AnchorItem =
  item_hwnd :: HANDLE
  initialRect :: RECT
  anchors :: Anchor

record AnchorLayout =
  initialWidth :: int
  initialHeight :: int
  anchor_items :: "AnchorItem list"

record LayoutItem =
  box_hwnd :: HANDLE
  weight :: rat
  fixedSize :: int

record VBox =
  spacing :: int
  margin :: int
  box_items :: "LayoutItem list"

text \<open>The two globals, \<open>g_anchor\<close> and \<open>g_vbox\<close>.\<close>

record globals =
  g_anchor :: AnchorLayout
  g_vbox :: VBox

type_synonym 'a lio = "(globals, wincall, unit, 'a) io"

definition Anchor_Add :: "HANDLE \<Rightarrow> int \<Rightarrow> int \<Rightarrow> int \<Rightarrow> int \<Rightarrow> Anchor \<Rightarrow> unit lio" where
  "Anchor_Add hwnd x y w h a = in_range [x + w, y + h] (modify (\<lambda>g. g\<lparr>g_anchor := (g_anchor g)\<lparr>anchor_items :=
     anchor_items (g_anchor g) @ [\<lparr>item_hwnd = hwnd, initialRect = \<lparr>left = x, top = y, right = x + w, bottom = y + h\<rparr>, anchors = a\<rparr>]\<rparr>\<rparr>))"

definition place_item :: "int \<Rightarrow> int \<Rightarrow> AnchorItem \<Rightarrow> unit lio" where
  "place_item dw dh item = (let r = initialRect item; x = left r; y = top r; w = right r - left r; h = bottom r - top r;
     l = HasFlag (anchors item) Anchor_Left; t = HasFlag (anchors item) Anchor_Top;
     rt = HasFlag (anchors item) Anchor_Right; b = HasFlag (anchors item) Anchor_Bottom;
     w' = (if l \<and> rt then w + dw else w); x' = (if rt \<and> \<not> l then x + dw else x);
     h' = (if t \<and> b then h + dh else h); y' = (if b \<and> \<not> t then y + dh else y)
     in in_range [w, h, w', x', h', y'] (do_call (MoveWindow (item_hwnd item) x' y' (max w' 0) (max h' 0))))"

fun place_items :: "int \<Rightarrow> int \<Rightarrow> AnchorItem list \<Rightarrow> unit lio" where
  "place_items dw dh [] = ret ()"
| "place_items dw dh (i # is) = andthen (place_item dw dh i) (place_items dw dh is)"

definition Anchor_Apply :: "int \<Rightarrow> int \<Rightarrow> unit lio" where
  "Anchor_Apply newWidth newHeight = bnd (gets g_anchor) (\<lambda>a.
     in_range [newWidth - initialWidth a, newHeight - initialHeight a]
       (place_items (newWidth - initialWidth a) (newHeight - initialHeight a) (anchor_items a)))"

section \<open>The column\<close>

text \<open>The sums over the items: the weights, and the sizes of those without a weight.\<close>

fun totals :: "LayoutItem list \<Rightarrow> rat \<Rightarrow> int \<Rightarrow> (rat \<times> int) lio" where
  "totals [] totalWeight fixedTotal = ret (totalWeight, fixedTotal)"
| "totals (i # is) totalWeight fixedTotal =
     (if weight i = 0 then in_range [fixedTotal + fixedSize i] (totals is totalWeight (fixedTotal + fixedSize i))
      else totals is (fl (totalWeight + weight i)) fixedTotal)"

definition item_height :: "int \<Rightarrow> rat \<Rightarrow> LayoutItem \<Rightarrow> int" where
  "item_height flexible totalWeight i = (if 0 < weight i \<and> 0 < totalWeight
     then trunc_float (fl (fl (fl (of_int flexible) * weight i) / totalWeight)) else fixedSize i)"

fun stack_items :: "(LayoutItem \<Rightarrow> int) \<Rightarrow> int \<Rightarrow> int \<Rightarrow> int \<Rightarrow> int \<Rightarrow> LayoutItem list \<Rightarrow> unit lio" where
  "stack_items height gap x w cy [] = ret ()"
| "stack_items height gap x w cy (i # is) =
     in_range [height i, height i + gap, cy + (height i + gap)]
       (andthen (do_call (MoveWindow (box_hwnd i) x cy (max 0 w) (max 0 (height i))))
         (stack_items height gap x w (cy + (height i + gap)) is))"

definition VBox_Apply :: "int \<Rightarrow> int \<Rightarrow> int \<Rightarrow> int \<Rightarrow> unit lio" where
  "VBox_Apply x y w h = bnd (gets g_vbox) (\<lambda>b. if box_items b = [] then ret () else
     let n = int (length (box_items b)) - 1; m2 = margin b * 2; fixed = m2 + spacing b * n in
     in_range [m2, spacing b * n, fixed] (bnd (totals (box_items b) 0 fixed) (\<lambda>(totalWeight, fixedTotal).
     let flexible = max 0 (h - fixedTotal) in
     in_range [h - fixedTotal, y + margin b, x + margin b, w - m2]
       (stack_items (item_height flexible totalWeight) (spacing b) (x + margin b) (w - m2) (y + margin b) (box_items b)))))"

section \<open>The program\<close>

definition CreateLabel :: "HANDLE \<Rightarrow> string \<Rightarrow> int \<Rightarrow> int \<Rightarrow> int \<Rightarrow> int \<Rightarrow> HANDLE lio" where
  "CreateLabel parent txt x y w h = bnd (call (CreateWindowExW ''STATIC'' txt x y w h parent)) (\<lambda>r. ret (rv r))"

definition CreatePushButton :: "HANDLE \<Rightarrow> string \<Rightarrow> int \<Rightarrow> int \<Rightarrow> int \<Rightarrow> int \<Rightarrow> HANDLE lio" where
  "CreatePushButton parent txt x y w h = bnd (call (CreateWindowExW ''BUTTON'' txt x y w h parent)) (\<lambda>r. ret (rv r))"

text \<open>\<open>wsprintfW\<close> of the number of a line.\<close>

fun decimal :: "nat \<Rightarrow> string" where
  "decimal n = (if n < 10 then [char_of (48 + n)] else decimal (n div 10) @ [char_of (48 + n mod 10)])"

fun add_strings :: "HANDLE \<Rightarrow> nat list \<Rightarrow> unit lio" where
  "add_strings lb [] = ret ()"
| "add_strings lb (i # is) = andthen (do_call (SendMessageW lb (''Item '' @ decimal i))) (add_strings lb is)"

definition CreateListbox :: "HANDLE \<Rightarrow> int \<Rightarrow> int \<Rightarrow> int \<Rightarrow> int \<Rightarrow> HANDLE lio" where
  "CreateListbox parent x y w h = bnd (call (CreateWindowExW ''LISTBOX'' [] x y w h parent)) (\<lambda>lb.
     andthen (add_strings (rv lb) [1..<21]) (ret (rv lb)))"

definition AnchorWndProc :: "HANDLE \<Rightarrow> msg \<Rightarrow> unit lio" where
  "AnchorWndProc hwnd m = (case m of
      WM_SIZE w h \<Rightarrow> andthen (Anchor_Apply w h) (do_call (InvalidateRect hwnd))
    | WM_CLOSE \<Rightarrow> do_call (DestroyWindow hwnd)
    | WM_DESTROY \<Rightarrow> do_call PostQuitMessage
    | Other \<Rightarrow> do_call (DefWindowProcW hwnd))"

definition BoxWndProc :: "HANDLE \<Rightarrow> msg \<Rightarrow> unit lio" where
  "BoxWndProc hwnd m = (case m of
      WM_SIZE w h \<Rightarrow> andthen (VBox_Apply 0 0 w h) (do_call (InvalidateRect hwnd))
    | WM_CLOSE \<Rightarrow> do_call (DestroyWindow hwnd)
    | WM_DESTROY \<Rightarrow> do_call PostQuitMessage
    | Other \<Rightarrow> do_call (DefWindowProcW hwnd))"

text \<open>
  The local \<open>rc\<close>, of which \<open>right\<close> and \<open>bottom\<close> are read: not initialised at first, and left as it is by a call of
  \<open>GetClientRect\<close> that fails, whose result is not checked.  \<open>rv\<close> of the answer is the result, \<open>out\<close> and the first of
  \<open>outs\<close> are the fields.
\<close>

type_synonym rc = "(int \<times> int) option"

definition rect_of :: "resp \<Rightarrow> int \<times> int" where
  "rect_of r = (sint (ucast (out r) :: DWORD), sint (ucast (case outs r of [] \<Rightarrow> 0 | y # _ \<Rightarrow> y) :: DWORD))"

definition client_rect :: "HANDLE \<Rightarrow> rc \<Rightarrow> rc lio" where
  "client_rect hwnd rc = bnd (call (GetClientRect hwnd)) (\<lambda>r. ret (if rv r = 0 then rc else Some (rect_of r)))"

definition read_rc :: "rc \<Rightarrow> (int \<times> int) lio" where
  "read_rc rc = (case rc of None \<Rightarrow> fault | Some x \<Rightarrow> ret x)"

definition anchor_controls :: "HANDLE \<Rightarrow> int \<Rightarrow> int \<Rightarrow> unit lio" where
  "anchor_controls hAnchor cw ch =
     andthen (modify (\<lambda>g. g\<lparr>g_anchor := (g_anchor g)\<lparr>initialWidth := cw, initialHeight := ch\<rparr>\<rparr>))
     (bnd (CreateLabel hAnchor ''Anchored: Top|Left (stays put)'' 10 10 250 20) (\<lambda>a.
     andthen (Anchor_Add a 10 10 250 20 (or Anchor_Top Anchor_Left))
     (in_range [cw - 20, ch - 85] (bnd (CreateListbox hAnchor 10 35 (cw - 20) (ch - 85)) (\<lambda>b.
     andthen (Anchor_Add b 10 35 (cw - 20) (ch - 85) (or (or (or Anchor_Top Anchor_Left) Anchor_Right) Anchor_Bottom))
     (in_range [cw - 120, ch - 40] (bnd (CreatePushButton hAnchor ''Bottom-Right'' (cw - 120) (ch - 40) 110 30) (\<lambda>c.
     andthen (Anchor_Add c (cw - 120) (ch - 40) 110 30 (or Anchor_Bottom Anchor_Right))
     (bnd (CreatePushButton hAnchor ''Bottom-Left'' 10 (ch - 40) 110 30) (\<lambda>d.
     Anchor_Add d 10 (ch - 40) 110 30 (or Anchor_Bottom Anchor_Left)))))))))))"

definition setup_anchor :: "(HANDLE \<times> rc) lio" where
  "setup_anchor =
     bnd (call (CreateWindowExW ''AnchorLayoutDemo'' ''Anchor Layout Demo'' CW_USEDEFAULT CW_USEDEFAULT 520 420 0)) (\<lambda>w.
     bnd (client_rect (rv w) None) (\<lambda>rc. bnd (read_rc rc) (\<lambda>(cw, ch).
       andthen (anchor_controls (rv w) cw ch) (ret (rv w, rc)))))"

text \<open>The dash in the label is written as a hyphen.\<close>

definition box_controls :: "HANDLE \<Rightarrow> int \<Rightarrow> int \<Rightarrow> HANDLE lio" where
  "box_controls hBox cw ch =
     bnd (CreateLabel hBox ''Box Layout - controls stack vertically'' 0 0 100 20) (\<lambda>a.
     bnd (CreateListbox hBox 0 0 100 100) (\<lambda>b.
     bnd (CreatePushButton hBox ''Fixed Button 1'' 0 0 100 30) (\<lambda>c.
     bnd (CreatePushButton hBox ''Fixed Button 2'' 0 0 100 30) (\<lambda>d.
     andthen (modify (\<lambda>g. g\<lparr>g_vbox := \<lparr>spacing = 5, margin = 10, box_items =
       [\<lparr>box_hwnd = a, weight = 0, fixedSize = 20\<rparr>, \<lparr>box_hwnd = b, weight = 1, fixedSize = 0\<rparr>,
        \<lparr>box_hwnd = c, weight = 0, fixedSize = 30\<rparr>, \<lparr>box_hwnd = d, weight = 0, fixedSize = 30\<rparr>]\<rparr>\<rparr>))
     (andthen (VBox_Apply 0 0 cw ch) (ret hBox))))))"

definition setup_box :: "rc \<Rightarrow> HANDLE lio" where
  "setup_box rc =
     bnd (call (CreateWindowExW ''BoxLayoutDemo'' ''Box Layout Demo'' CW_USEDEFAULT CW_USEDEFAULT 520 420 0)) (\<lambda>w.
     bnd (client_rect (rv w) rc) (\<lambda>rc. bnd (read_rc rc) (\<lambda>(cw, ch). box_controls (rv w) cw ch)))"

text \<open>
  What the dispatch of a message makes the system call: the handle of the window, the message and, for a
  size, the low and the high word of \<open>lParam\<close>.
\<close>

definition dispatched :: "resp \<Rightarrow> HANDLE \<times> msg" where
  "dispatched r = (case outs r of
      [hwnd, m, l] \<Rightarrow> (hwnd, if m = 5 then WM_SIZE (uint (ucast l :: WORD)) (uint (ucast (drop_bit 16 l) :: WORD))
        else if m = 16 then WM_CLOSE else if m = 2 then WM_DESTROY else Other)
    | _ \<Rightarrow> (0, Other))"

fun message_loop :: "nat \<Rightarrow> HANDLE \<Rightarrow> HANDLE \<Rightarrow> int lio" where
  "message_loop 0 hAnchor hBox = running"
| "message_loop (Suc fuel) hAnchor hBox = bnd (call GetMessageW) (\<lambda>r.
     if sint (ucast (rv r) :: DWORD) \<le> 0 then ret (sint (ucast (out r) :: DWORD)) else
     andthen (do_call TranslateMessage)
     (bnd (call DispatchMessageW) (\<lambda>d. let (hwnd, m) = dispatched d in
       andthen (if hwnd = hAnchor then AnchorWndProc hwnd m else if hwnd = hBox then BoxWndProc hwnd m else ret ())
         (message_loop fuel hAnchor hBox))))"

definition show_windows :: "nat \<Rightarrow> int \<Rightarrow> HANDLE \<Rightarrow> HANDLE \<Rightarrow> int lio" where
  "show_windows fuel nCmdShow hAnchor hBox =
     andthen (do_call (ShowWindow hAnchor nCmdShow)) (andthen (do_call (UpdateWindow hAnchor))
     (andthen (do_call (ShowWindow hBox nCmdShow)) (andthen (do_call (UpdateWindow hBox))
     (message_loop fuel hAnchor hBox))))"

definition wWinMain :: "nat \<Rightarrow> int \<Rightarrow> int lio" where
  "wWinMain fuel nCmdShow =
     andthen (do_call LoadCursorW) (andthen (do_call (RegisterClassExW ''AnchorLayoutDemo''))
     (andthen (do_call LoadCursorW) (andthen (do_call (RegisterClassExW ''BoxLayoutDemo''))
     (bnd setup_anchor (\<lambda>(hAnchor, rc). bnd (setup_box rc) (show_windows fuel nCmdShow hAnchor))))))"

section \<open>Whole numbers in a float\<close>

lemma nearest_even_of_int [simp]: "nearest_even (of_int n) = n"
  by (simp add: nearest_even_def)

lemma exponent_of_int:
  assumes "\<bar>n\<bar> < 2 ^ 24"
  shows "exponent (of_int n) \<le> 23"
proof -
  have "nat \<bar>n\<bar> < 2 ^ 24" using assms by simp
  then have "floorlog 2 (nat \<bar>n\<bar>) \<le> 24" by (intro floorlog_leI) auto
  moreover have "quotient_of \<bar>of_int n\<bar> = (\<bar>n\<bar>, 1)" 
    by (metis of_int_abs quotient_of_int Rat.of_int_def)
  moreover have "floorlog 2 (nat 1) = 1" by code_simp
  ultimately show ?thesis by (auto simp: exponent_def Let_def)
qed

text \<open>A whole number below 2 to the 24th is a float.\<close>

lemma fl_of_int:
  assumes "\<bar>n\<bar> < 2 ^ 24"
  shows "fl (of_int n) = of_int n"
proof (cases "n = 0")
  case False
  define m where "m = nat (23 - exponent (of_int n))"
  have u: "two_to (exponent (of_int n) - 23) = 1 / 2 ^ m"
    using exponent_of_int[OF assms] by (cases "exponent (of_int n) = 23") (simp_all add: two_to_def m_def)
  have "of_int n / (1 / 2 ^ m :: rat) = of_int (n * 2 ^ m)" by simp
  then have "nearest_even (of_int n / (1 / 2 ^ m)) = n * 2 ^ m" by (metis nearest_even_of_int)
  then show ?thesis using False by (simp add: fl_def Let_def u)
qed (simp add: fl_def)

section \<open>The layouts of the program\<close>

text \<open>The items that the set-up makes, for a window whose client area was \<open>cw\<close> by \<open>ch\<close> at first.\<close>

definition demo_anchor :: "int \<Rightarrow> int \<Rightarrow> HANDLE \<Rightarrow> HANDLE \<Rightarrow> HANDLE \<Rightarrow> HANDLE \<Rightarrow> AnchorLayout" where
  "demo_anchor cw ch a b c d = \<lparr>initialWidth = cw, initialHeight = ch, anchor_items =
     [\<lparr>item_hwnd = a, initialRect = \<lparr>left = 10, top = 10, right = 260, bottom = 30\<rparr>, anchors = 3\<rparr>,
      \<lparr>item_hwnd = b, initialRect = \<lparr>left = 10, top = 35, right = cw - 10, bottom = ch - 50\<rparr>, anchors = 15\<rparr>,
      \<lparr>item_hwnd = c, initialRect = \<lparr>left = cw - 120, top = ch - 40, right = cw - 10, bottom = ch - 10\<rparr>, anchors = 12\<rparr>,
      \<lparr>item_hwnd = d, initialRect = \<lparr>left = 10, top = ch - 40, right = 120, bottom = ch - 10\<rparr>, anchors = 9\<rparr>]\<rparr>"

definition demo_box :: "HANDLE \<Rightarrow> HANDLE \<Rightarrow> HANDLE \<Rightarrow> HANDLE \<Rightarrow> VBox" where
  "demo_box a b c d = \<lparr>spacing = 5, margin = 10, box_items =
     [\<lparr>box_hwnd = a, weight = 0, fixedSize = 20\<rparr>, \<lparr>box_hwnd = b, weight = 1, fixedSize = 0\<rparr>,
      \<lparr>box_hwnd = c, weight = 0, fixedSize = 30\<rparr>, \<lparr>box_hwnd = d, weight = 0, fixedSize = 30\<rparr>]\<rparr>"

text \<open>Sizes of windows fit 16 bits.\<close>

definition size_ok :: "int \<Rightarrow> bool" where
  "size_ok n \<longleftrightarrow> 0 \<le> n \<and> n < 2 ^ 16"

lemma anchor_flags [simp]:
  "HasFlag 3 1" "HasFlag 3 2" "\<not> HasFlag 3 4" "\<not> HasFlag 3 8" "HasFlag 15 1" "HasFlag 15 2" "HasFlag 15 4" "HasFlag 15 8"
  "\<not> HasFlag 12 1" "\<not> HasFlag 12 2" "HasFlag 12 4" "HasFlag 12 8" "HasFlag 9 1" "\<not> HasFlag 9 2" "\<not> HasFlag 9 4" "HasFlag 9 8"
  by (simp_all add: HasFlag_def)

lemma Anchor_Apply_demo:
  assumes "g_anchor g = demo_anchor cw ch a b c d" "size_ok cw" "size_ok ch" "size_ok w" "size_ok h"
  shows "\<exists>k. Anchor_Apply w h os g hist = (Val (), g, hist @ k) \<and> calls k =
    [MoveWindow a 10 10 250 20, MoveWindow b 10 35 (max (w - 20) 0) (max (h - 85) 0),
     MoveWindow c (w - 120) (h - 40) 110 30, MoveWindow d 10 (h - 40) 110 30]"
  using assms
  by (simp add: Anchor_Apply_def demo_anchor_def place_item_def in_range_def fits_def size_ok_def Let_def io_simps algebra_simps)

lemma flexible_exact:
  assumes "\<bar>n\<bar> < 2 ^ 24"
  shows "trunc_float (fl (fl (fl (of_int n) * 1) / 1)) = n"
  using assms by (simp add: fl_of_int trunc_float_def)

lemma fl_1: "fl 1 = 1"
  using fl_of_int[of 1] by simp

lemma VBox_Apply_demo:
  assumes "g_vbox g = demo_box a b c d" "size_ok w" "size_ok h"
  shows "\<exists>k. VBox_Apply 0 0 w h os g hist = (Val (), g, hist @ k) \<and> calls k =
    [MoveWindow a 10 10 (max 0 (w - 20)) 20, MoveWindow b 10 35 (max 0 (w - 20)) (max 0 (h - 115)),
     MoveWindow c 10 (40 + max 0 (h - 115)) (max 0 (w - 20)) 30,
     MoveWindow d 10 (75 + max 0 (h - 115)) (max 0 (w - 20)) 30]"
proof -
  have "trunc_float (fl (fl (fl (of_int (max 0 (h - 115))) * 1) / 1)) = max 0 (h - 115)"
    using assms(3) by (intro flexible_exact) (auto simp: size_ok_def max_def)
  then show ?thesis using assms
    by (simp add: VBox_Apply_def demo_box_def item_height_def in_range_def fits_def size_ok_def Let_def io_simps fl_1 algebra_simps)
qed

section \<open>The whole program\<close>

declare decimal.simps [simp del]

lemma add_strings_run: "add_strings lb is os g hist = (Val (), g, history_of (add_strings lb is os g hist))"
proof (induction "is" arbitrary: hist)
  case (Cons i "is")
  show ?case using Cons.IH[of "hist @ [(SendMessageW lb (''Item '' @ decimal i), os hist (SendMessageW lb (''Item '' @ decimal i)))]"]
    by (simp add: io_simps)
qed (simp add: io_simps)

lemma bnd_add_strings: "bnd (add_strings lb is) f os g hist = f () os g (history_of (add_strings lb is os g hist))"
  by (subst bnd_def, subst add_strings_run) simp

lemma bnd_CreateListbox: "bnd (CreateListbox p x y w h) f os g hist =
   f (rv (os hist (CreateWindowExW ''LISTBOX'' [] x y w h p))) os g (history_of (CreateListbox p x y w h os g hist))"
  by (simp add: CreateListbox_def io_simps bnd_add_strings)

text \<open>
  Where the program places controls: the specification of the two layouts for a client area of \<open>w\<close> by \<open>h\<close>,
  as positions and sizes.
\<close>

definition anchor_places :: "int \<Rightarrow> int \<Rightarrow> (int \<times> int \<times> int \<times> int) list" where
  "anchor_places w h = [(10, 10, 250, 20), (10, 35, max (w - 20) 0, max (h - 85) 0), (w - 120, h - 40, 110, 30), (10, h - 40, 110, 30)]"

definition box_places :: "int \<Rightarrow> int \<Rightarrow> (int \<times> int \<times> int \<times> int) list" where
  "box_places w h = (let l = max 0 (h - 115); wd = max 0 (w - 20) in
     [(10, 10, wd, 20), (10, 35, wd, l), (10, 40 + l, wd, 30), (10, 75 + l, wd, 30)])"

text \<open>
  What of a run the layouts are about: the two windows, the answers of \<open>GetClientRect\<close>, the sizes that the system sends
  and the places that are given to controls.
\<close>

datatype seen = Made string HANDLE | Rect "(int \<times> int) option" | Sized HANDLE int int | Placed "int \<times> int \<times> int \<times> int"

definition answered :: "resp \<Rightarrow> (int \<times> int) option" where
  "answered r = (if rv r = 0 then None else Some (rect_of r))"

definition seen_in :: "wincall \<times> resp \<Rightarrow> seen list" where
  "seen_in = (\<lambda>(c, r). case c of
      CreateWindowExW cls txt x y w h p \<Rightarrow> if cls = ''STATIC'' \<or> cls = ''LISTBOX'' \<or> cls = ''BUTTON'' then [] else [Made cls (rv r)]
    | GetClientRect w \<Rightarrow> [Rect (answered r)]
    | DispatchMessageW \<Rightarrow> (case dispatched r of (w, m) \<Rightarrow> case m of WM_SIZE x y \<Rightarrow> [Sized w x y] | _ \<Rightarrow> [])
    | MoveWindow w x y cx cy \<Rightarrow> [Placed (x, y, cx, cy)]
    | _ \<Rightarrow> [])"

definition observed :: "wincall history \<Rightarrow> seen list" where
  "observed h = concat (map seen_in h)"

lemma observed_append [simp]: "observed (h @ k) = observed h @ observed k"
  by (simp add: observed_def)

lemma observed_simps [simp]: "observed [] = []" "observed (e # h) = seen_in e @ observed h"
  by (simp_all add: observed_def)

lemma seen_in_simps [simp]:
  "seen_in (CreateWindowExW cls txt x y w h p, r) = (if cls = ''STATIC'' \<or> cls = ''LISTBOX'' \<or> cls = ''BUTTON'' then [] else [Made cls (rv r)])"
  "seen_in (GetClientRect a, r) = [Rect (answered r)]"
  "seen_in (MoveWindow a x y w h, r) = [Placed (x, y, w, h)]" "seen_in (SendMessageW a s, r) = []" "seen_in (InvalidateRect a, r) = []"
  "seen_in (DestroyWindow a, r) = []" "seen_in (PostQuitMessage, r) = []" "seen_in (DefWindowProcW a, r) = []"
  "seen_in (ShowWindow a n, r) = []" "seen_in (UpdateWindow a, r) = []" "seen_in (GetMessageW, r) = []" "seen_in (TranslateMessage, r) = []"
  "seen_in (LoadCursorW, r) = []" "seen_in (RegisterClassExW s, r) = []"
  by (simp_all add: seen_in_def)

lemma observed_moves:
  "calls k = map (\<lambda>(a, p). MoveWindow a (fst p) (fst (snd p)) (fst (snd (snd p))) (snd (snd (snd p)))) as \<Longrightarrow> observed k = map (Placed \<circ> snd) as"
  by (induction "as" arbitrary: k) auto

lemma emits_observed:
  assumes "emits (\<lambda>c. \<forall>r. seen_in (c, r) = []) m"
  shows "observed (history_of (m os g hist)) = observed hist"
proof -
  obtain k where k: "history_of (m os g hist) = hist @ k" "list_all (\<lambda>e. \<forall>r. seen_in (fst e, r) = []) k"
    using assms unfolding emits_def by blast
  from k(2) have "observed k = []" by (induction k) auto
  with k(1) show ?thesis by simp
qed

lemma add_strings_unseen: "emits (\<lambda>c. \<forall>r. seen_in (c, r) = []) (add_strings lb is)"
  by (induction "is") (auto intro!: emits_intro)

lemma CreateListbox_unseen [simp]: "observed (history_of (CreateListbox p x y w h os g hist)) = observed hist"
  by (rule emits_observed) (auto simp: CreateListbox_def intro!: emits_intro add_strings_unseen)

text \<open>The sizes that the system gives.\<close>

definition sizes_fit :: "wincall os \<Rightarrow> bool" where
  "sizes_fit os \<longleftrightarrow> (\<forall>h w. rv (os h (GetClientRect w)) \<noteq> 0 \<longrightarrow>
     (case rect_of (os h (GetClientRect w)) of (x, y) \<Rightarrow> size_ok x \<and> size_ok y))"

definition sizes_ok :: "wincall os \<Rightarrow> bool" where
  "sizes_ok os \<longleftrightarrow> sizes_fit os \<and> (\<forall>h w. rv (os h (GetClientRect w)) \<noteq> 0)"

definition start :: globals where
  "start = \<lparr>g_anchor = \<lparr>initialWidth = 0, initialHeight = 0, anchor_items = []\<rparr>,
     g_vbox = \<lparr>spacing = 0, margin = 0, box_items = []\<rparr>\<rparr>"

lemma start_empty: "anchor_items (g_anchor start) = []"
  by (simp add: start_def)

definition anchored :: "globals \<Rightarrow> bool" where
  "anchored g \<longleftrightarrow> (\<exists>cw ch a b c d. size_ok cw \<and> size_ok ch \<and> g_anchor g = demo_anchor cw ch a b c d)"

definition boxed :: "globals \<Rightarrow> bool" where
  "boxed g \<longleftrightarrow> (\<exists>a b c d. g_vbox g = demo_box a b c d)"

lemma Anchor_Add_run:
  "fits (x + w) \<Longrightarrow> fits (y + h) \<Longrightarrow> bnd (Anchor_Add hwnd x y w h a) f os g hist =
     f () os (g\<lparr>g_anchor := (g_anchor g)\<lparr>anchor_items := anchor_items (g_anchor g) @
       [\<lparr>item_hwnd = hwnd, initialRect = \<lparr>left = x, top = y, right = x + w, bottom = y + h\<rparr>, anchors = a\<rparr>]\<rparr>\<rparr>) hist"
  by (simp add: Anchor_Add_def in_range_def io_simps)

definition rc_ok :: "rc \<Rightarrow> bool" where
  "rc_ok rc = (case rc of None \<Rightarrow> True | Some (cw, ch) \<Rightarrow> size_ok cw \<and> size_ok ch)"

lemma client_rect_run:
  "sizes_fit os \<Longrightarrow> rc_ok rc \<Longrightarrow> \<exists>rc'. bnd (client_rect w rc) f os g hist = f rc' os g (hist @ [(GetClientRect w, os hist (GetClientRect w))]) \<and>
     rc_ok rc' \<and> (rc' = None \<longleftrightarrow> rc = None \<and> rv (os hist (GetClientRect w)) = 0)"
  by (auto simp: client_rect_def io_simps sizes_fit_def rc_ok_def)

lemma anchor_controls_run:
  assumes "size_ok cw" "size_ok ch" "anchor_items (g_anchor g) = []"
  shows "\<exists>g' h'. anchor_controls w cw ch os g hist = (Val (), g', h') \<and> anchored g' \<and> observed h' = observed hist"
proof -
  have f: "fits (cw - 20)" "fits (ch - 85)" "fits (cw - 10)" "fits (ch - 50)" "fits (cw - 120)" "fits (ch - 40)"
    "fits (ch - 10)" "fits 260" "fits 30" "fits 120"
    using assms(1,2) by (auto simp: size_ok_def fits_def)
  obtain iw ih where g: "g_anchor g = \<lparr>initialWidth = iw, initialHeight = ih, anchor_items = []\<rparr>"
    using assms(3) by (cases "g_anchor g") simp
  show ?thesis
    using assms(1,2) f g
    by (simp add: anchor_controls_def CreateLabel_def CreatePushButton_def io_simps bnd_CreateListbox Anchor_Add_run Let_def in_range_def
        anchored_def demo_anchor_def) (simp add: Anchor_Add_def in_range_def modify_def)
qed

lemma VBox_Apply_run:
  assumes "boxed g" "size_ok w" "size_ok h"
  shows "\<exists>k. VBox_Apply 0 0 w h os g hist = (Val (), g, hist @ k) \<and> observed k = map Placed (box_places w h)"
proof -
  obtain a b c d where "g_vbox g = demo_box a b c d" using assms(1) by (auto simp: boxed_def)
  from VBox_Apply_demo[OF this assms(2,3), of os hist] obtain k where
    k: "VBox_Apply 0 0 w h os g hist = (Val (), g, hist @ k)" "calls k =
      [MoveWindow a 10 10 (max 0 (w - 20)) 20, MoveWindow b 10 35 (max 0 (w - 20)) (max 0 (h - 115)),
       MoveWindow c 10 (40 + max 0 (h - 115)) (max 0 (w - 20)) 30, MoveWindow d 10 (75 + max 0 (h - 115)) (max 0 (w - 20)) 30]"
    by (elim exE conjE)
  have "observed k = map (Placed \<circ> snd) (zip [a, b, c, d] (box_places w h))"
    by (rule observed_moves) (simp add: k(2) box_places_def Let_def)
  with k(1) show ?thesis by (intro exI[of _ k]) (simp add: box_places_def Let_def)
qed

lemma Anchor_Apply_run:
  assumes "anchored g" "size_ok w" "size_ok h"
  shows "\<exists>k. Anchor_Apply w h os g hist = (Val (), g, hist @ k) \<and> observed k = map Placed (anchor_places w h)"
proof -
  obtain cw ch a b c d where "g_anchor g = demo_anchor cw ch a b c d" "size_ok cw" "size_ok ch"
    using assms(1) by (auto simp: anchored_def)
  from Anchor_Apply_demo[OF this assms(2,3), of os hist] obtain k where
    k: "Anchor_Apply w h os g hist = (Val (), g, hist @ k)" "calls k =
      [MoveWindow a 10 10 250 20, MoveWindow b 10 35 (max (w - 20) 0) (max (h - 85) 0),
       MoveWindow c (w - 120) (h - 40) 110 30, MoveWindow d 10 (h - 40) 110 30]"
    by (elim exE conjE)
  have "observed k = map (Placed \<circ> snd) (zip [a, b, c, d] (anchor_places w h))"
    by (rule observed_moves) (simp add: k(2) anchor_places_def)
  with k(1) show ?thesis by (intro exI[of _ k]) (simp add: anchor_places_def)
qed

lemma box_controls_run:
  assumes "size_ok cw" "size_ok ch" "anchored g"
  shows "\<exists>g' h'. box_controls w cw ch os g hist = (Val w, g', h') \<and> anchored g' \<and> boxed g' \<and>
    observed h' = observed hist @ map Placed (box_places cw ch)"
proof -
  let ?v = "\<lambda>a b c d. \<lparr>spacing = 5, margin = 10, box_items =
       [\<lparr>box_hwnd = a, weight = 0, fixedSize = 20\<rparr>, \<lparr>box_hwnd = b, weight = 1, fixedSize = 0\<rparr>,
        \<lparr>box_hwnd = c, weight = 0, fixedSize = 30\<rparr>, \<lparr>box_hwnd = d, weight = 0, fixedSize = 30\<rparr>]\<rparr>"
  obtain h1 a b c d where 1: "box_controls w cw ch os g hist = bnd (VBox_Apply 0 0 cw ch) (\<lambda>_. ret w) os (g\<lparr>g_vbox := ?v a b c d\<rparr>) h1"
    "observed h1 = observed hist"
    by (simp add: box_controls_def CreateLabel_def CreatePushButton_def io_simps bnd_CreateListbox)
  have "boxed (g\<lparr>g_vbox := ?v a b c d\<rparr>)" by (simp add: boxed_def demo_box_def)
  moreover have "anchored (g\<lparr>g_vbox := ?v a b c d\<rparr>)" using assms(3) by (simp add: anchored_def)
  ultimately show ?thesis using VBox_Apply_run[OF _ assms(1,2), of _ os h1] 1 by (fastforce simp: bnd_def ret_def)
qed

text \<open>What a window procedure does in a set-up program: it returns, and leaves the layouts as they are.\<close>

lemma word_size_ok: "size_ok (uint (w :: WORD))"
  using uint_lt2p[of w] by (simp add: size_ok_def)

definition msg_ok :: "msg \<Rightarrow> bool" where
  "msg_ok m = (case m of WM_SIZE w h \<Rightarrow> size_ok w \<and> size_ok h | _ \<Rightarrow> True)"

lemma dispatched_ok: "dispatched r = (w, m) \<Longrightarrow> msg_ok m"
  by (auto simp: dispatched_def msg_ok_def word_size_ok split: list.splits if_splits)

definition places_of :: "(int \<Rightarrow> int \<Rightarrow> (int \<times> int \<times> int \<times> int) list) \<Rightarrow> msg \<Rightarrow> seen list" where
  "places_of places m = (case m of WM_SIZE w h \<Rightarrow> map Placed (places w h) | _ \<Rightarrow> [])"

lemma AnchorWndProc_run:
  assumes "anchored g" "msg_ok m"
  shows "\<exists>k. AnchorWndProc w m os g hist = (Val (), g, hist @ k) \<and> observed k = places_of anchor_places m"
proof (cases m)
  case (WM_SIZE x y)
  with assms obtain k where k: "Anchor_Apply x y os g hist = (Val (), g, hist @ k)" "observed k = map Placed (anchor_places x y)"
    using Anchor_Apply_run[OF assms(1), of x y os hist] by (auto simp: msg_ok_def)
  then show ?thesis using WM_SIZE
    by (intro exI[of _ "k @ [(InvalidateRect w, os (hist @ k) (InvalidateRect w))]"])
      (simp add: AnchorWndProc_def places_of_def andthen_def bnd_def do_call_def call_apply ret_apply)
qed (auto simp: AnchorWndProc_def io_simps places_of_def)

lemma BoxWndProc_run:
  assumes "boxed g" "msg_ok m"
  shows "\<exists>k. BoxWndProc w m os g hist = (Val (), g, hist @ k) \<and> observed k = places_of box_places m"
proof (cases m)
  case (WM_SIZE x y)
  with assms obtain k where k: "VBox_Apply 0 0 x y os g hist = (Val (), g, hist @ k)" "observed k = map Placed (box_places x y)"
    using VBox_Apply_run[OF assms(1), of x y os hist] by (auto simp: msg_ok_def)
  then show ?thesis using WM_SIZE
    by (intro exI[of _ "k @ [(InvalidateRect w, os (hist @ k) (InvalidateRect w))]"])
      (simp add: BoxWndProc_def places_of_def andthen_def bnd_def do_call_def call_apply ret_apply)
qed (auto simp: BoxWndProc_def io_simps places_of_def)

text \<open>What the message loop shows, for the messages that are dispatched: each size, and what it places.\<close>

definition reaction :: "HANDLE \<Rightarrow> HANDLE \<Rightarrow> HANDLE \<times> msg \<Rightarrow> seen list" where
  "reaction a b = (\<lambda>(hwnd, m). (case m of WM_SIZE x y \<Rightarrow> [Sized hwnd x y] | _ \<Rightarrow> []) @
     (if hwnd = a then places_of anchor_places m else if hwnd = b then places_of box_places m else []))"

lemma message_loop_run:
  assumes "anchored g" "boxed g"
  shows "\<exists>oc k ms. message_loop fuel a b os g hist = (oc, g, hist @ k) \<and> oc \<noteq> Fault \<and> observed k = concat (map (reaction a b) ms)"
proof (induction fuel arbitrary: hist)
  case (Suc fuel)
  let ?e1 = "(GetMessageW, os hist GetMessageW)"
  let ?e2 = "(TranslateMessage, os (hist @ [?e1]) TranslateMessage)"
  let ?d = "os (hist @ [?e1, ?e2]) DispatchMessageW"
  let ?h = "hist @ [?e1, ?e2, (DispatchMessageW, ?d)]"
  obtain hwnd m where d: "dispatched ?d = (hwnd, m)" by (cases "dispatched ?d")
  let ?p = "if hwnd = a then AnchorWndProc hwnd m else if hwnd = b then BoxWndProc hwnd m else ret ()"
  have "\<exists>k. ?p os g ?h = (Val (), g, ?h @ k) \<and>
      observed k = (if hwnd = a then places_of anchor_places m else if hwnd = b then places_of box_places m else [])"
    using AnchorWndProc_run[OF assms(1) dispatched_ok[OF d], of hwnd os ?h] BoxWndProc_run[OF assms(2) dispatched_ok[OF d], of hwnd os ?h]
    by (auto simp: ret_apply)
  then obtain k where k: "?p os g ?h = (Val (), g, ?h @ k)"
    "observed k = (if hwnd = a then places_of anchor_places m else if hwnd = b then places_of box_places m else [])" by blast
  obtain oc k' ms where l: "message_loop fuel a b os g (?h @ k) = (oc, g, (?h @ k) @ k')" "oc \<noteq> Fault"
    "observed k' = concat (map (reaction a b) ms)" using Suc.IH by blast
  show ?case
  proof (cases "sint (ucast (rv (os hist GetMessageW)) :: DWORD) \<le> 0")
    case True
    then show ?thesis by (intro exI[of _ "[?e1]"] exI[of _ "[]"] exI) (auto simp: bnd_call_apply ret_apply)
  next
    case False
    then have "message_loop (Suc fuel) a b os g hist = (oc, g, hist @ ([?e1, ?e2, (DispatchMessageW, ?d)] @ k @ k'))"
      using k(1) l(1) d by (simp add: bnd_call_apply andthen_def do_call_def bnd_bnd bnd_ret bnd_def[of ?p])
    moreover have "observed ([?e1, ?e2, (DispatchMessageW, ?d)] @ k @ k') = concat (map (reaction a b) ((hwnd, m) # ms))"
      using k(2) l(3) d by (simp add: reaction_def seen_in_def split: msg.split)
    ultimately show ?thesis using l(2) by blast
  qed
qed (auto simp: running_apply intro!: exI[of _ "[]"])

text \<open>The set-up of the two windows.\<close>

lemma setup_anchor_run:
  assumes "sizes_fit os" "anchor_items (g_anchor g) = []"
  shows "\<exists>a r oc g' h'. setup_anchor os g hist = (oc, g', h') \<and> observed h' = observed hist @ [Made ''AnchorLayoutDemo'' a, Rect r] \<and>
    (case r of None \<Rightarrow> oc = Fault | Some x \<Rightarrow> oc = Val (a, Some x) \<and> rc_ok (Some x) \<and> anchored g') \<and> (\<exists>h0. r = answered (os h0 (GetClientRect a)))"
proof -
  let ?c = "CreateWindowExW ''AnchorLayoutDemo'' ''Anchor Layout Demo'' CW_USEDEFAULT CW_USEDEFAULT 520 420 0"
  let ?w = "os hist ?c"
  let ?r = "os (hist @ [(?c, ?w)]) (GetClientRect (rv ?w))"
  let ?h = "hist @ [(?c, ?w), (GetClientRect (rv ?w), ?r)]"
  show ?thesis
  proof (cases "rv ?r = 0")
    case True
    then show ?thesis by (intro exI[of _ "rv ?w"] exI[of _ None]) (auto simp: answered_def setup_anchor_def client_rect_def read_rc_def io_simps)
  next
    case False
    obtain cw ch where x: "rect_of ?r = (cw, ch)" by (cases "rect_of ?r")
    then have s: "size_ok cw" "size_ok ch" using assms(1) False by (fastforce simp: sizes_fit_def)+
    have "answered ?r = Some (cw, ch)" using False x by (simp add: answered_def)
    then have ex: "\<exists>h0. Some (cw, ch) = answered (os h0 (GetClientRect (rv ?w)))" by metis
    from anchor_controls_run[OF s assms(2), of "rv ?w" os ?h] False x s ex show ?thesis
      by (intro exI[of _ "rv ?w"] exI[of _ "Some (cw, ch)"])
        (auto simp: answered_def setup_anchor_def client_rect_def read_rc_def io_simps rc_ok_def andthen_def bnd_def)
  qed
qed

lemma setup_box_run:
  assumes "sizes_fit os" "rc_ok (Some x)" "anchored g"
  shows "\<exists>b r g' h'. setup_box (Some x) os g hist = (Val b, g', h') \<and> anchored g' \<and> boxed g' \<and> observed h' =
    observed hist @ [Made ''BoxLayoutDemo'' b, Rect r] @ map Placed (case_prod box_places (case r of None \<Rightarrow> x | Some y \<Rightarrow> y))"
proof -
  let ?c = "CreateWindowExW ''BoxLayoutDemo'' ''Box Layout Demo'' CW_USEDEFAULT CW_USEDEFAULT 520 420 0"
  let ?w = "os hist ?c"
  let ?r = "os (hist @ [(?c, ?w)]) (GetClientRect (rv ?w))"
  let ?h = "hist @ [(?c, ?w), (GetClientRect (rv ?w), ?r)]"
  let ?o = "answered ?r"
  obtain cw ch where y: "(case ?o of None \<Rightarrow> x | Some y \<Rightarrow> y) = (cw, ch)" by (cases "case ?o of None \<Rightarrow> x | Some y \<Rightarrow> y")
  then have s: "size_ok cw" "size_ok ch" using assms(1,2) by (fastforce simp: answered_def sizes_fit_def rc_ok_def split: if_splits)+
  from y have "setup_box (Some x) os g hist = box_controls (rv ?w) cw ch os g ?h"
    by (auto simp: answered_def setup_box_def client_rect_def read_rc_def io_simps split: if_splits)
  with box_controls_run[OF s assms(3), of "rv ?w" os ?h] y show ?thesis
    by (intro exI[of _ "rv ?w"] exI[of _ ?o]) (auto split: if_splits)
qed

lemma setup_run:
  assumes "sizes_ok os" "bnd setup_anchor (\<lambda>(_, rc). setup_box rc) os start hist = (oc, g, hist')"
  shows "anchored g \<and> boxed g"
proof -
  have "sizes_fit os" using assms(1) by (simp add: sizes_ok_def)
  obtain a r oc1 g1 h1 where 1: "setup_anchor os start hist = (oc1, g1, h1)"
    "observed h1 = observed hist @ [Made ''AnchorLayoutDemo'' a, Rect r]"
    "case r of None \<Rightarrow> oc1 = Fault | Some x \<Rightarrow> oc1 = Val (a, Some x) \<and> rc_ok (Some x) \<and> anchored g1" "r \<noteq> None"
    using assms(1) setup_anchor_run[OF \<open>sizes_fit os\<close> start_empty, of hist] by (auto simp: sizes_ok_def answered_def)
  then obtain x where x: "setup_anchor os start hist = (Val (a, Some x), g1, h1)" "rc_ok (Some x)" "anchored g1"
    using assms(1) by (cases r) auto
  with setup_box_run[OF \<open>sizes_fit os\<close> x(2,3), of h1] assms(2) show ?thesis by (auto simp: bnd_def)
qed

section \<open>Properties\<close>

text \<open>
  C24: When the sizes that \<open>GetClientRect\<close> gives fit 16 bits, as those of messages do, the program has undefined
  behaviour exactly when its first \<open>GetClientRect\<close> fails, as when the window could not be made: it then reads the
  rectangle uninitialised.  Otherwise no computation of the layouts overflows, and what the program does to its controls
  is determined: the column is placed for the size of its window, or of the first window when the second \<open>GetClientRect\<close>
  fails; then each size that is sent to a window places its four controls by that size alone, and no other
  message places any.
\<close>

theorem layout_run:
  assumes "sizes_fit os"
  shows "\<exists>a r oc g h. wWinMain fuel nCmdShow os start [] = (oc, g, h) \<and> (oc = Fault \<longleftrightarrow> r = None) \<and>
    (\<exists>h0. r = answered (os h0 (GetClientRect a))) \<and>
    (case r of None \<Rightarrow> observed h = [Made ''AnchorLayoutDemo'' a, Rect None] | Some x \<Rightarrow>
      (\<exists>b r' ms. observed h = [Made ''AnchorLayoutDemo'' a, Rect (Some x), Made ''BoxLayoutDemo'' b, Rect r'] @
        map Placed (case_prod box_places (case r' of None \<Rightarrow> x | Some y \<Rightarrow> y)) @ concat (map (reaction a b) ms)))"
proof -
  have "\<exists>hist. wWinMain fuel nCmdShow os start [] =
      bnd setup_anchor (\<lambda>(a, rc). bnd (setup_box rc) (show_windows fuel nCmdShow a)) os start hist \<and> observed hist = []"
    by (simp add: wWinMain_def andthen_def do_call_def bnd_bnd bnd_ret bnd_call_apply) (intro exI conjI, rule refl, simp)
  then obtain hist where 0: "wWinMain fuel nCmdShow os start [] =
      bnd setup_anchor (\<lambda>(a, rc). bnd (setup_box rc) (show_windows fuel nCmdShow a)) os start hist" "observed hist = []" by blast
  obtain a r oc1 g1 h1 where 1: "setup_anchor os start hist = (oc1, g1, h1)"
    "observed h1 = observed hist @ [Made ''AnchorLayoutDemo'' a, Rect r]"
    "case r of None \<Rightarrow> oc1 = Fault | Some x \<Rightarrow> oc1 = Val (a, Some x) \<and> rc_ok (Some x) \<and> anchored g1"
    "\<exists>h0. r = answered (os h0 (GetClientRect a))"
    using setup_anchor_run[OF assms start_empty, of hist] by blast
  show ?thesis
  proof (cases r)
    case None
    then show ?thesis using 0 1 by (intro exI[of _ a] exI[of _ None]) (auto simp: bnd_def)
  next
    case (Some x)
    then have x: "oc1 = Val (a, Some x)" "rc_ok (Some x)" "anchored g1" using 1(3) by auto
    obtain b r' g2 h2 where 2: "setup_box (Some x) os g1 h1 = (Val b, g2, h2)" "anchored g2" "boxed g2" "observed h2 =
      observed h1 @ [Made ''BoxLayoutDemo'' b, Rect r'] @ map Placed (case_prod box_places (case r' of None \<Rightarrow> x | Some y \<Rightarrow> y))"
      using setup_box_run[OF assms x(2,3), of h1] by blast
    have "\<exists>h3. show_windows fuel nCmdShow a b os g2 h2 = message_loop fuel a b os g2 h3 \<and> observed h3 = observed h2"
      by (simp add: show_windows_def andthen_def do_call_def bnd_bnd bnd_ret bnd_call_apply) (intro exI conjI, rule refl, simp)
    then obtain h3 where 3: "show_windows fuel nCmdShow a b os g2 h2 = message_loop fuel a b os g2 h3" "observed h3 = observed h2" by blast
    obtain oc k ms where 4: "message_loop fuel a b os g2 h3 = (oc, g2, h3 @ k)" "oc \<noteq> Fault" "observed k = concat (map (reaction a b) ms)"
      using message_loop_run[OF 2(2,3)] by blast
    have "wWinMain fuel nCmdShow os start [] = (oc, g2, h3 @ k)" using 0 1(1) x(1) 2(1) 3(1) 4(1) by (simp add: bnd_def)
    then show ?thesis using 4(2,3) 3(2) 2(4) 1(2,4) 0(2) Some by (intro exI[of _ a] exI[of _ r]) auto
  qed
qed

definition quiet_os :: "wincall os" where
  "quiet_os h c = (case c of
      GetMessageW \<Rightarrow> if length h < 70 then ok_resp else fail_resp
    | GetClientRect w \<Rightarrow> \<lparr>rv = 1, out = 504, buf = [], outs = [381], rows = []\<rparr>
    | DispatchMessageW \<Rightarrow> \<lparr>rv = 0, out = 0, buf = [], outs = [1, 5, 0x01000200], rows = []\<rparr>
    | _ \<Rightarrow> ok_resp)"

lemma quiet_os_sizes: "sizes_ok quiet_os"
  by (simp add: sizes_ok_def sizes_fit_def rect_of_def quiet_os_def size_ok_def)

theorem layout_run_witness:
  "outcome_of (wWinMain 9 1 quiet_os start []) \<noteq> Fault \<and>
   (\<exists>a b r' ms. observed (history_of (wWinMain 9 1 quiet_os start [])) =
     [Made ''AnchorLayoutDemo'' a, Rect (Some (504, 381)), Made ''BoxLayoutDemo'' b, Rect r'] @
     map Placed (case_prod box_places (case r' of None \<Rightarrow> (504, 381) | Some y \<Rightarrow> y)) @ concat (map (reaction a b) ms))"
proof -
  have fit: "sizes_fit quiet_os" using quiet_os_sizes by (simp add: sizes_ok_def)
  have q: "answered (quiet_os h0 (GetClientRect a)) = Some (504, 381)" for h0 a
    by (simp add: quiet_os_def answered_def rect_of_def)
  from layout_run[OF fit, of 9 1] show ?thesis by (auto simp: q outcome_of_def history_of_def)
qed

text \<open>
  C25: When the program has made its windows, a new size places the controls by that size alone, whatever
  the size before: the anchored ones keep their distances from the edges they are anchored to, and those
  of the column follow one another with a gap of 5 and end 10 above the bottom edge, when there is
  room for them.
\<close>

theorem resize_places_controls:
  assumes "sizes_ok os" "size_ok w" "size_ok h"
    "bnd setup_anchor (\<lambda>(_, rc). setup_box rc) os start hist = (oc, g, hist')"
  shows "(\<exists>a b c d k. AnchorWndProc hwnd (WM_SIZE w h) os g hist' = (Val (), g, hist' @ k) \<and> calls k =
      [MoveWindow a 10 10 250 20, MoveWindow b 10 35 (max (w - 20) 0) (max (h - 85) 0),
       MoveWindow c (w - 120) (h - 40) 110 30, MoveWindow d 10 (h - 40) 110 30, InvalidateRect hwnd]) \<and>
    (\<exists>a b c d k. let l = max 0 (h - 115) in
      BoxWndProc hwnd (WM_SIZE w h) os g hist' = (Val (), g, hist' @ k) \<and> calls k =
      [MoveWindow a 10 10 (max 0 (w - 20)) 20, MoveWindow b 10 35 (max 0 (w - 20)) l,
       MoveWindow c 10 (35 + l + 5) (max 0 (w - 20)) 30, MoveWindow d 10 (35 + l + 5 + 30 + 5) (max 0 (w - 20)) 30,
       InvalidateRect hwnd] \<and> (115 \<le> h \<longrightarrow> 35 + l + 5 + 30 + 5 + 30 + 10 = h))"
proof -
  have inv: "anchored g" "boxed g" using setup_run[OF assms(1,4)] by simp_all
  obtain cw ch a b c d where a: "g_anchor g = demo_anchor cw ch a b c d" "size_ok cw" "size_ok ch"
    using inv(1) by (auto simp: anchored_def)
  obtain k where "Anchor_Apply w h os g hist' = (Val (), g, hist' @ k)" "calls k =
    [MoveWindow a 10 10 250 20, MoveWindow b 10 35 (max (w - 20) 0) (max (h - 85) 0),
     MoveWindow c (w - 120) (h - 40) 110 30, MoveWindow d 10 (h - 40) 110 30]"
    using Anchor_Apply_demo[OF a assms(2,3), of os hist'] by (elim exE conjE)
  moreover obtain a b c d where b: "g_vbox g = demo_box a b c d" using inv(2) by (auto simp: boxed_def)
  moreover obtain k where "VBox_Apply 0 0 w h os g hist' = (Val (), g, hist' @ k)" "calls k =
    [MoveWindow a 10 10 (max 0 (w - 20)) 20, MoveWindow b 10 35 (max 0 (w - 20)) (max 0 (h - 115)),
     MoveWindow c 10 (40 + max 0 (h - 115)) (max 0 (w - 20)) 30,
     MoveWindow d 10 (75 + max 0 (h - 115)) (max 0 (w - 20)) 30]"
    using VBox_Apply_demo[OF b assms(2,3), of os hist'] by (elim exE conjE)
  ultimately show ?thesis
    by (auto simp: AnchorWndProc_def BoxWndProc_def andthen_def bnd_def do_call_def call_def ret_def Let_def)
qed

definition after_setup :: "(unit, HANDLE) outcome \<times> globals \<times> wincall history" where
  "after_setup = bnd setup_anchor (\<lambda>(_, rc). setup_box rc) quiet_os start []"

theorem resize_places_controls_witness:
  "\<exists>a b c d k. AnchorWndProc 1 (WM_SIZE 800 600) quiet_os (state_of after_setup) (history_of after_setup) =
      (Val (), state_of after_setup, history_of after_setup @ k) \<and> calls k =
      [MoveWindow a 10 10 250 20, MoveWindow b 10 35 780 515, MoveWindow c 680 560 110 30, MoveWindow d 10 560 110 30,
       InvalidateRect 1]"
proof -
  have "bnd setup_anchor (\<lambda>(_, rc). setup_box rc) quiet_os start [] =
      (outcome_of after_setup, state_of after_setup, history_of after_setup)"
    by (simp add: after_setup_def outcome_of_def state_of_def history_of_def)
  from resize_places_controls[OF quiet_os_sizes _ _ this, of 800 600 1] show ?thesis by (simp add: size_ok_def)
qed

end
