(* ===== verification/Sspi.thy ===== *)
theory Sspi
  imports Raii
begin

text \<open>
  OldSspiSample and OldSspiSampleServer: a client and a server that authenticate each other with the
  security support provider, over messages with a length in front, and exchange one encrypted message.
  The functions for messages and bytes are the same in both programs.  \<open>exit\<close> ends the process; the
  texts that are printed are left out, but for the hex dump, which is a function here.
\<close>

section \<open>System calls\<close>

datatype sspicall =
    WSAStartup
  | WSACleanup
  | inet_addr
  | gethostbyname
  | socket_call
  | connect_call HANDLE
  | bind_call HANDLE
  | listen_call HANDLE
  | accept_call HANDLE
  | shutdown_call HANDLE
  | closesocket HANDLE
  | Send HANDLE "BYTE list"
  | Recv HANDLE int
  | GetLastError
  | malloc nat
  | free_call HANDLE
  | QuerySecurityPackageInfo
  | FreeContextBuffer HANDLE
  | AcquireCredentialsHandle
  | InitializeSecurityContext "BYTE list option"
  | AcceptSecurityContext bool "BYTE list"
  | CompleteAuthToken "BYTE list"
  | QueryContextAttributes nat
  | ImpersonateSecurityContext
  | RevertSecurityContext
  | GetUserName nat
  | EncryptMessage nat "BYTE list"
  | DecryptMessage "BYTE list" "BYTE list"
  | VerifySignature "BYTE list" "BYTE list"
  | DeleteSecurityContext
  | FreeCredentialHandle string

text \<open>The globals of the server; the client has none that its functions read.\<close>

record srv =
  g_pInBuf :: HANDLE
  g_pOutBuf :: HANDLE
  g_cbMaxMessage :: DWORD

type_synonym ('s, 'a) sspi = "('s, sspicall, unit, 'a) io"

definition SEC_SUCCESS :: "DWORD \<Rightarrow> bool" where
  "SEC_SUCCESS ss \<longleftrightarrow> 0 \<le> sint ss"

abbreviation (input) SEC_I_CONTINUE_NEEDED :: DWORD where "SEC_I_CONTINUE_NEEDED \<equiv> 0x90312"
abbreviation (input) SEC_I_COMPLETE_NEEDED :: DWORD where "SEC_I_COMPLETE_NEEDED \<equiv> 0x90313"
abbreviation (input) SEC_I_COMPLETE_AND_CONTINUE :: DWORD where "SEC_I_COMPLETE_AND_CONTINUE \<equiv> 0x90314"
abbreviation (input) cbMaxMessage :: nat where "cbMaxMessage \<equiv> 12000"
abbreviation (input) BIG_BUFF :: nat where "BIG_BUFF \<equiv> 2048"

section \<open>Bytes and messages\<close>

text \<open>\<open>send\<close> may take only a part of what it is given; the pointer moves on by what it has taken.\<close>

fun SendBytes :: "nat \<Rightarrow> HANDLE \<Rightarrow> BYTE list \<Rightarrow> ('s, bool) sspi" where
  "SendBytes 0 s bs = running"
| "SendBytes (Suc fuel) s bs = (if bs = [] then ret True else
     bnd (call (Send s bs)) (\<lambda>r. let cbSent = int_of r in
     if cbSent = - 1 then andthen (do_call GetLastError) (ret False)
     else if cbSent < 0 \<or> int (length bs) < cbSent then fault
     else SendBytes fuel s (drop (nat cbSent) bs)))"

text \<open>
  The loop of \<open>ReceiveBytes\<close>: \<open>dest\<close> is the memory behind \<open>pBuf\<close>, \<open>off\<close> what is received so far and
  \<open>cbRemaining\<close> what is wanted.  A write behind the end of \<open>dest\<close> is undefined.
\<close>

fun ReceiveBytes_loop :: "nat \<Rightarrow> HANDLE \<Rightarrow> BYTE list \<Rightarrow> nat \<Rightarrow> int \<Rightarrow> ('s, (BYTE list \<times> nat) option) sspi" where
  "ReceiveBytes_loop 0 s dest off cbRemaining = running"
| "ReceiveBytes_loop (Suc fuel) s dest off cbRemaining = (if cbRemaining = 0 then ret (Some (dest, off)) else
     bnd (call (Recv s cbRemaining)) (\<lambda>r. let cbRead = int_of r in
     if cbRead = 0 then ret (Some (dest, off))
     else if cbRead = - 1 then andthen (do_call GetLastError) (ret None)
     else if cbRead < 0 \<or> int (length dest) < int off + cbRead then fault
     else ReceiveBytes_loop fuel s (overwrite off (take (nat cbRead) (buf r)) dest) (off + nat cbRead) (cbRemaining - cbRead)))"

definition ReceiveBytes :: "nat \<Rightarrow> HANDLE \<Rightarrow> BYTE list \<Rightarrow> DWORD \<Rightarrow> ('s, (BYTE list \<times> nat) option) sspi" where
  "ReceiveBytes fuel s dest cbBuf = ReceiveBytes_loop fuel s dest 0 (sint cbBuf)"

definition SendMsg :: "nat \<Rightarrow> HANDLE \<Rightarrow> BYTE list \<Rightarrow> ('s, bool) sspi" where
  "SendMsg fuel s bs = (if bs = [] then ret True else
     bnd (SendBytes fuel s (bytes_of (of_nat (length bs)))) (\<lambda>sent.
     if \<not> sent then ret False else SendBytes fuel s bs))"

text \<open>The size of the memory, \<open>cbBuf\<close>, is not looked at: the length is the one that was received.\<close>

definition ReceiveMsg :: "nat \<Rightarrow> HANDLE \<Rightarrow> BYTE list \<Rightarrow> ('s, (BYTE list \<times> nat) option) sspi" where
  "ReceiveMsg fuel s dest = bnd (ReceiveBytes fuel s (replicate 4 0) 4) (\<lambda>r. case r of None \<Rightarrow> ret None | Some (b, n) \<Rightarrow>
     if n \<noteq> 4 then ret None else
     let cbData = dword_of b in bnd (ReceiveBytes fuel s dest cbData) (\<lambda>r. case r of None \<Rightarrow> ret None | Some (d, m) \<Rightarrow>
       if m \<noteq> unat cbData then ret None else ret (Some (d, m))))"

section \<open>The hex dump\<close>

definition rgbDigits :: "nat \<Rightarrow> char" where
  "rgbDigits n = ''0123456789abcdef'' ! n"

fun hex_digits :: "nat \<Rightarrow> string" where
  "hex_digits n = (if n < 16 then [rgbDigits n] else hex_digits (n div 16) @ [rgbDigits (n mod 16)])"

declare hex_digits.simps [simp del]

text \<open>The index has at least four digits; only its first six characters stay.\<close>

definition hex_index :: "nat \<Rightarrow> string" where
  "hex_index n = take 6 (replicate (4 - length (hex_digits n)) CHR ''0'' @ hex_digits n @ ''  '')"

definition hex_pair :: "nat \<Rightarrow> BYTE \<Rightarrow> string" where
  "hex_pair i b = [rgbDigits (unat b div 16), rgbDigits (unat b mod 16), if i = 7 then CHR '':'' else CHR '' '']"

definition shown :: "BYTE \<Rightarrow> char" where
  "shown b = (if unat b < 32 \<or> 126 < unat b then CHR ''.'' else char_of (unat b))"

definition rgbLine :: "nat \<Rightarrow> BYTE list \<Rightarrow> string" where
  "rgbLine index bs = hex_index index @ concat (map (\<lambda>(i, b). hex_pair i b) (enumerate 0 bs)) @
     replicate (3 * (16 - length bs)) CHR '' '' @ '' '' @ map shown bs"

fun PrintHexDump :: "nat \<Rightarrow> BYTE list \<Rightarrow> string list" where
  "PrintHexDump index [] = []"
| "PrintHexDump index (b # bs) = rgbLine index (take 16 (b # bs)) # PrintHexDump (index + length (take 16 (b # bs))) (drop 16 (b # bs))"

text \<open>A line has 71 characters and the terminator at most, so it fits into its array of 100.\<close>

lemma length_hex_pairs: "length (concat (map (\<lambda>(i, b). hex_pair i b) (enumerate n bs))) = 3 * length bs"
  by (induction bs arbitrary: n) (auto simp: hex_pair_def)

lemma length_rgbLine: "length bs \<le> 16 \<Longrightarrow> length (rgbLine index bs) \<le> 71"
  by (simp add: rgbLine_def hex_index_def length_hex_pairs)

lemma PrintHexDump_fits: "line \<in> set (PrintHexDump index bs) \<Longrightarrow> length line \<le> 71"
  by (induction index bs rule: PrintHexDump.induct) (auto intro: length_rgbLine simp del: take_Suc_Cons)

section \<open>Tokens\<close>

text \<open>
  The end of both context functions: the token is completed when the status asks for it, and then the
  status of that completion decides whether the exchange is done.
\<close>

definition finish_token :: "DWORD \<Rightarrow> BYTE list \<Rightarrow> ('s, (BYTE list \<times> bool) option) sspi" where
  "finish_token ss token =
     (let finished = (\<lambda>ss. \<not> (ss = SEC_I_CONTINUE_NEEDED \<or> ss = SEC_I_COMPLETE_AND_CONTINUE)) in
      if ss = SEC_I_COMPLETE_NEEDED \<or> ss = SEC_I_COMPLETE_AND_CONTINUE
      then bnd (call (CompleteAuthToken token)) (\<lambda>c.
        if \<not> SEC_SUCCESS (status_of c) then ret None else ret (Some (buf c, finished (status_of c))))
      else ret (Some (token, finished ss)))"

text \<open>\<open>MyHandleError\<close> ends the client.\<close>

definition MyHandleError :: "('s, 'a) sspi" where
  "MyHandleError = halt 1"

definition GenClientContext :: "BYTE list option \<Rightarrow> ('s, (BYTE list \<times> bool) option) sspi" where
  "GenClientContext pIn =
     andthen (if pIn = None then bnd (call AcquireCredentialsHandle) (\<lambda>r.
                if \<not> SEC_SUCCESS (status_of r) then MyHandleError else ret ()) else ret ())
     (bnd (call (InitializeSecurityContext pIn)) (\<lambda>r.
        if \<not> SEC_SUCCESS (status_of r) then MyHandleError else finish_token (status_of r) (buf r)))"

definition GenServerContext :: "BYTE list \<Rightarrow> bool \<Rightarrow> ('s, (BYTE list \<times> bool) option) sspi" where
  "GenServerContext pIn fNewConversation =
     bnd (call (AcceptSecurityContext fNewConversation pIn)) (\<lambda>r.
        if \<not> SEC_SUCCESS (status_of r) then ret None else finish_token (status_of r) (buf r))"

section \<open>The client\<close>

fun client_handshake :: "nat \<Rightarrow> HANDLE \<Rightarrow> bool \<Rightarrow> ('s, unit) sspi" where
  "client_handshake 0 s fDone = running"
| "client_handshake (Suc fuel) s fDone = (if fDone then ret () else
     bnd (ReceiveMsg fuel s (replicate cbMaxMessage 0)) (\<lambda>m. case m of None \<Rightarrow> MyHandleError | Some (d, n) \<Rightarrow>
     bnd (GenClientContext (Some (take n d))) (\<lambda>t. case t of None \<Rightarrow> MyHandleError | Some (token, fDone) \<Rightarrow>
     bnd (SendMsg fuel s token) (\<lambda>sent. if \<not> sent then MyHandleError else client_handshake fuel s fDone))))"

definition client_DoAuthentication :: "nat \<Rightarrow> HANDLE \<Rightarrow> ('s, bool) sspi" where
  "client_DoAuthentication fuel s =
     bnd (call (malloc cbMaxMessage)) (\<lambda>i. if rv i = 0 then MyHandleError else
     bnd (call (malloc cbMaxMessage)) (\<lambda>p. if rv p = 0 then MyHandleError else
     bnd (GenClientContext None) (\<lambda>t. case t of None \<Rightarrow> ret False | Some (token, fDone) \<Rightarrow>
     bnd (SendMsg fuel s token) (\<lambda>sent. if \<not> sent then MyHandleError else
     andthen (client_handshake fuel s fDone)
     (andthen (do_call (free_call (rv i))) (andthen (do_call (free_call (rv p))) (ret True)))))))"

definition ConnectAuthSocket :: "nat \<Rightarrow> ('s, HANDLE) sspi" where
  "ConnectAuthSocket fuel =
     bnd (call inet_addr) (\<lambda>a.
     andthen (if ucast (rv a) = (0xFFFFFFFF :: DWORD) then bnd (call gethostbyname) (\<lambda>h. if rv h = 0 then MyHandleError else ret ()) else ret ())
     (bnd (call socket_call) (\<lambda>s. if rv s = InvalidHandleValue then MyHandleError else
      bnd (call (connect_call (rv s))) (\<lambda>c. if int_of c \<noteq> 0 then andthen (do_call (closesocket (rv s))) MyHandleError else
      bnd (client_DoAuthentication fuel (rv s)) (\<lambda>authenticated.
        if \<not> authenticated then andthen (do_call (closesocket (rv s))) MyHandleError else ret (rv s))))))"

text \<open>
  \<open>data\<close> is the memory of the message and \<open>cbMessage\<close> its length.  The sizes are 32-bit words, and what
  lies behind the end of the memory, or was not received, is undefined.
\<close>

definition DecryptThis :: "BYTE list \<Rightarrow> DWORD \<Rightarrow> ('s, BYTE list) sspi" where
  "DecryptThis data cbMessage = (if unat cbMessage < 4 then fault else
     let SigBufferSize = dword_of (take 4 data); n = cbMessage - SigBufferSize - 4; k = 4 + unat SigBufferSize in
     if length data < k + unat n then fault else
     bnd (call (DecryptMessage (take (unat SigBufferSize) (drop 4 data)) (take (unat n) (drop k data)))) (\<lambda>r. ret (buf r)))"

definition VerifyThis :: "BYTE list \<Rightarrow> DWORD \<Rightarrow> DWORD \<Rightarrow> ('s, BYTE list) sspi" where
  "VerifyThis data cbMessage cbMaxSignature =
     (let n = cbMessage - cbMaxSignature; k = unat cbMaxSignature in
      if length data < k + unat n then fault else
      bnd (call (VerifySignature (take k data) (take (unat n) (drop k data)))) (\<lambda>r. ret (take (unat n) (drop k data))))"

text \<open>\<open>hCred\<close> of \<open>main\<close> is a variable of its own, which nothing initialises, and not the global of that name.\<close>

definition client_main :: "nat \<Rightarrow> ('s, int) sspi" where
  "client_main fuel =
     bnd (call WSAStartup) (\<lambda>w. if int_of w \<noteq> 0 then MyHandleError else
     bnd (ConnectAuthSocket fuel) (\<lambda>s.
     bnd (call (QueryContextAttributes 12)) (\<lambda>q. if \<not> SEC_SUCCESS (status_of q) then MyHandleError else
     bnd (call (QueryContextAttributes 0)) (\<lambda>z. if \<not> SEC_SUCCESS (status_of z) then MyHandleError else
     bnd (ReceiveBytes fuel s (replicate BIG_BUFF 0) (of_nat BIG_BUFF)) (\<lambda>m. case m of None \<Rightarrow> MyHandleError | Some (d, n) \<Rightarrow>
     if n = 0 then MyHandleError else
     bnd (DecryptThis d (of_nat n)) (\<lambda>_.
     andthen (do_call DeleteSecurityContext) (andthen (do_call (FreeCredentialHandle ''local''))
     (andthen (do_call (shutdown_call s)) (andthen (do_call (closesocket s))
     (bnd (call WSACleanup) (\<lambda>c. if int_of c = - 1 then MyHandleError else halt 0)))))))))))"

section \<open>The server\<close>

definition cleanup :: "(srv, 'a) sspi" where
  "cleanup = bnd (gets g_pInBuf) (\<lambda>i. andthen (whenM (i \<noteq> 0) (do_call (free_call i)))
     (bnd (gets g_pOutBuf) (\<lambda>p. andthen (whenM (p \<noteq> 0) (do_call (free_call p)))
     (andthen (do_call WSACleanup) (halt 0)))))"

fun server_handshake :: "nat \<Rightarrow> HANDLE \<Rightarrow> bool \<Rightarrow> (srv, bool) sspi" where
  "server_handshake 0 s fNewConversation = running"
| "server_handshake (Suc fuel) s fNewConversation =
     bnd (gets g_cbMaxMessage) (\<lambda>n.
     bnd (ReceiveMsg fuel s (replicate (unat n) 0)) (\<lambda>m. case m of None \<Rightarrow> ret False | Some (d, k) \<Rightarrow>
     bnd (GenServerContext (take k d) fNewConversation) (\<lambda>t. case t of None \<Rightarrow> ret False | Some (token, finished) \<Rightarrow>
     bnd (SendMsg fuel s token) (\<lambda>sent. if \<not> sent then ret False
       else if finished then ret True else server_handshake fuel s False))))"

definition server_DoAuthentication :: "nat \<Rightarrow> HANDLE \<Rightarrow> (srv, bool) sspi" where
  "server_DoAuthentication fuel s = bnd (call AcquireCredentialsHandle) (\<lambda>r.
     if \<not> SEC_SUCCESS (status_of r) then ret False else server_handshake fuel s True)"

definition AcceptAuthSocket :: "nat \<Rightarrow> (srv, HANDLE option) sspi" where
  "AcceptAuthSocket fuel =
     bnd (call socket_call) (\<lambda>l. if rv l = InvalidHandleValue then andthen (do_call GetLastError) (ret None) else
     bnd (call (bind_call (rv l))) (\<lambda>b. if int_of b = - 1 then andthen (do_call GetLastError) (ret None) else
     bnd (call (listen_call (rv l))) (\<lambda>n. if int_of n = - 1 then andthen (do_call GetLastError) (ret None) else
     bnd (call (accept_call (rv l))) (\<lambda>c. if rv c = InvalidHandleValue then andthen (do_call GetLastError) (ret None) else
     andthen (do_call (closesocket (rv l)))
     (bnd (server_DoAuthentication fuel (rv c)) (\<lambda>authenticated. ret (if authenticated then Some (rv c) else None)))))))"

text \<open>
  The output is the size of the trailer, the trailer and the encrypted data.  \<open>EncryptMessage\<close> leaves the
  trailer in \<open>buf\<close>, and writes the encrypted data, which \<open>rows\<close> holds, over the message.
\<close>

definition encrypted :: "BYTE list \<Rightarrow> resp \<Rightarrow> BYTE list" where
  "encrypted message r = overwrite 0 (take (length message) (concat (rows r))) message"

definition EncryptThis :: "BYTE list \<Rightarrow> DWORD \<Rightarrow> ('s, HANDLE \<times> BYTE list option) sspi" where
  "EncryptThis message cbSecurityTrailer =
     bnd (call (malloc (unat (cbSecurityTrailer + of_nat (length message)) + 4))) (\<lambda>p. if rv p = 0 then fault else
     bnd (call (EncryptMessage (unat cbSecurityTrailer) message)) (\<lambda>r.
     if \<not> SEC_SUCCESS (status_of r) then ret (rv p, None)
     else ret (rv p, Some (bytes_of (of_nat (length (buf r))) @ buf r @ encrypted message r))))"

definition server_greeting :: "BYTE list" where
  "server_greeting = map of_char ''This is your server speaking''"

text \<open>
  \<open>GetUserName\<close> counts wide characters, \<open>malloc\<close> bytes: the name that the second call writes has two bytes
  for each character that it reports.
\<close>

definition serve_client :: "nat \<Rightarrow> HANDLE \<Rightarrow> (srv, unit) sspi" where
  "serve_client fuel s =
     bnd (call (QueryContextAttributes 0)) (\<lambda>q. if \<not> SEC_SUCCESS (status_of q) then halt 1 else
     bnd (call (QueryContextAttributes 12)) (\<lambda>n. if \<not> SEC_SUCCESS (status_of n) then halt 1 else
     andthen (do_call (FreeContextBuffer (out n)))
     (bnd (call ImpersonateSecurityContext) (\<lambda>i. if \<not> SEC_SUCCESS (status_of i) then cleanup else
      bnd (call (GetUserName 0)) (\<lambda>u.
      bnd (call (malloc (unat (out u)))) (\<lambda>p. if rv p = 0 then cleanup else
      bnd (call (GetUserName (unat (out u)))) (\<lambda>g. if int_of g = 0 then cleanup else
      if unat (out u) < 2 * unat (out g) then fault else
      bnd (call RevertSecurityContext) (\<lambda>v. if \<not> SEC_SUCCESS (status_of v) then cleanup else
      bnd (EncryptThis server_greeting (ucast (out q))) (\<lambda>(d, e).
      bnd (SendBytes fuel s (case e of None \<Rightarrow> [] | Some bs \<Rightarrow> bs)) (\<lambda>sent. if \<not> sent then cleanup else
      andthen (whenM (s \<noteq> 0) (andthen (do_call DeleteSecurityContext) (andthen (do_call (FreeCredentialHandle ''global''))
        (andthen (do_call (shutdown_call s)) (do_call (closesocket s))))))
      (andthen (do_call (free_call (rv p))) (do_call (free_call d)))))))))))))"

fun serve_clients :: "nat \<Rightarrow> nat \<Rightarrow> (srv, unit) sspi" where
  "serve_clients 0 fuel = running"
| "serve_clients (Suc n) fuel = bnd (AcceptAuthSocket fuel) (\<lambda>c. case c of None \<Rightarrow> cleanup | Some s \<Rightarrow>
     andthen (serve_client fuel s) (serve_clients n fuel))"

definition server_main :: "nat \<Rightarrow> nat \<Rightarrow> (srv, unit) sspi" where
  "server_main n fuel =
     bnd (call WSAStartup) (\<lambda>w. andthen (whenM (int_of w \<noteq> 0) cleanup)
     (bnd (call QuerySecurityPackageInfo) (\<lambda>q. andthen (whenM (\<not> SEC_SUCCESS (status_of q)) cleanup)
     (andthen (modify (\<lambda>g. g\<lparr>g_cbMaxMessage := ucast (out q)\<rparr>))
     (andthen (do_call (FreeContextBuffer (out q)))
     (bnd (gets g_cbMaxMessage) (\<lambda>m.
      bnd (call (malloc (unat m))) (\<lambda>i. andthen (modify (\<lambda>g. g\<lparr>g_pInBuf := rv i\<rparr>))
      (bnd (call (malloc (unat m))) (\<lambda>p. andthen (modify (\<lambda>g. g\<lparr>g_pOutBuf := rv p\<rparr>))
      (andthen (whenM (rv i = 0 \<or> rv p = 0) cleanup) (serve_clients n fuel))))))))))))"

section \<open>What goes over the connection\<close>

text \<open>The bytes that a history has handed to a socket, and how many it has taken from one.\<close>

fun sent_bytes :: "HANDLE \<Rightarrow> sspicall history \<Rightarrow> BYTE list" where
  "sent_bytes s [] = []"
| "sent_bytes s ((Send s' bs, r) # h) = (if s' = s \<and> int_of r \<noteq> - 1 then take (nat (int_of r)) bs @ sent_bytes s h else sent_bytes s h)"
| "sent_bytes s ((c, r) # h) = sent_bytes s h"

fun received_count :: "HANDLE \<Rightarrow> sspicall history \<Rightarrow> nat" where
  "received_count s [] = 0"
| "received_count s ((Recv s' n, r) # h) = (if s' = s \<and> int_of r \<noteq> - 1 then nat (int_of r) + received_count s h else received_count s h)"
| "received_count s ((c, r) # h) = received_count s h"

lemma sent_bytes_append [simp]: "sent_bytes s (g @ h) = sent_bytes s g @ sent_bytes s h"
  by (induction s g rule: sent_bytes.induct) auto

lemma received_count_append [simp]: "received_count s (g @ h) = received_count s g + received_count s h"
  by (induction s g rule: received_count.induct) auto

text \<open>
  A connection on which \<open>data\<close> arrives: \<open>recv\<close> gives at least one byte and at most what is asked for, of
  what has not been received yet.
\<close>

definition delivers :: "sspicall os \<Rightarrow> HANDLE \<Rightarrow> BYTE list \<Rightarrow> bool" where
  "delivers os s data \<longleftrightarrow> (\<forall>h n. let rest = drop (received_count s h) data; r = os h (Recv s n) in
     0 < n \<longrightarrow> rest \<noteq> [] \<longrightarrow>
     1 \<le> int_of r \<and> int_of r \<le> n \<and> nat (int_of r) \<le> length rest \<and> take (nat (int_of r)) (buf r) = take (nat (int_of r)) rest)"

lemma deliversD:
  assumes "delivers os s data" "drop (received_count s h) data \<noteq> []" "0 < n"
  obtains k where "int_of (os h (Recv s n)) = int k" "1 \<le> k" "int k \<le> n" "k \<le> length (drop (received_count s h) data)"
    "take k (buf (os h (Recv s n))) = take k (drop (received_count s h) data)"
proof -
  let ?r = "os h (Recv s n)"
  have "1 \<le> int_of ?r \<and> int_of ?r \<le> n \<and> nat (int_of ?r) \<le> length (drop (received_count s h) data) \<and>
      take (nat (int_of ?r)) (buf ?r) = take (nat (int_of ?r)) (drop (received_count s h) data)"
    using assms by (simp add: delivers_def Let_def)
  then show thesis by (intro that[of "nat (int_of ?r)"]) auto
qed

lemma SendBytes_sends:
  "SendBytes fuel s bs os st h = (Val True, st', h') \<Longrightarrow> \<exists>g. h' = h @ g \<and> sent_bytes s g = bs"
proof (induction fuel arbitrary: bs h)
  case 0
  then show ?case by (simp add: io_simps)
next
  case (Suc fuel)
  show ?case
  proof (cases "bs = []")
    case True
    then show ?thesis using Suc.prems by (simp add: io_simps)
  next
    case False
    let ?r = "os h (Send s bs)"
    let ?h = "h @ [(Send s bs, ?r)]"
    have ok: "int_of ?r \<noteq> - 1" "\<not> (int_of ?r < 0 \<or> int (length bs) < int_of ?r)"
      "SendBytes fuel s (drop (nat (int_of ?r)) bs) os st ?h = (Val True, st', h')"
      using Suc.prems False by (auto simp: bnd_call_apply Let_def if_apply fault_apply andthen_def do_call_def bnd_bnd bnd_ret ret_apply split: if_splits)
    obtain g where g: "h' = ?h @ g" "sent_bytes s g = drop (nat (int_of ?r)) bs" using Suc.IH[OF ok(3)] by blast
    then have "sent_bytes s ((Send s bs, ?r) # g) = bs" using ok(1) by simp
    with g(1) show ?thesis by (intro exI[of _ "(Send s bs, ?r) # g"]) simp
  qed
qed


lemma ReceiveBytes_gets:
  assumes d: "delivers os s data"
  shows "n \<le> length data - received_count s h \<Longrightarrow> off + n \<le> length dest \<Longrightarrow> n < fuel \<Longrightarrow>
    \<exists>g. ReceiveBytes_loop fuel s dest off (int n) os st h =
        (Val (Some (overwrite off (take n (drop (received_count s h) data)) dest, off + n)), st, h @ g) \<and> received_count s g = n"
proof (induction fuel arbitrary: n h off dest)
  case (Suc fuel)
  show ?case
  proof (cases "n = 0")
    case True
    then show ?thesis by (simp add: io_simps)
  next
    case False
    let ?rest = "drop (received_count s h) data"
    let ?r = "os h (Recv s (int n))"
    have "?rest \<noteq> []" using False Suc.prems(1) by auto
    then obtain k where k: "int_of ?r = int k" "1 \<le> k" "int k \<le> int n" "k \<le> length ?rest" "take k (buf ?r) = take k ?rest"
      using deliversD[OF d, of h "int n"] False by auto
    let ?h = "h @ [(Recv s (int n), ?r)]"
    let ?d = "overwrite off (take k ?rest) dest"
    have len: "length (take k ?rest) = k" using k(4) by simp
    have h: "received_count s ?h = received_count s h + k" using k(1) by simp
    have ld: "length ?d = length dest" using Suc.prems(2) k(3) len by simp
    have "\<exists>g. ReceiveBytes_loop fuel s ?d (off + k) (int (n - k)) os st ?h =
        (Val (Some (overwrite (off + k) (take (n - k) (drop (received_count s ?h) data)) ?d, off + k + (n - k))), st, ?h @ g) \<and>
        received_count s g = n - k"
      using Suc.prems k ld by (intro Suc.IH) (auto simp: h)
    then obtain g where g: "ReceiveBytes_loop fuel s ?d (off + k) (int (n - k)) os st ?h =
        (Val (Some (overwrite (off + k) (take (n - k) (drop (received_count s ?h) data)) ?d, off + k + (n - k))), st, ?h @ g)"
      "received_count s g = n - k" by blast
    have "overwrite (off + k) (take (n - k) (drop (received_count s ?h) data)) ?d = overwrite off (take n ?rest) dest"
    proof -
      have t: "take k ?rest @ take (n - k) (drop k ?rest) = take n ?rest"
        using k(3) by (metis le_add_diff_inverse of_nat_le_iff take_add)
      have "overwrite (off + length (take k ?rest)) (take (n - k) (drop k ?rest)) ?d =
          overwrite off (take k ?rest @ take (n - k) (drop k ?rest)) dest"
        using Suc.prems(1,2) k(3,4) by (intro overwrite_append) auto
      then show ?thesis unfolding t len h by (simp add: add.commute)
    qed
    moreover have "ReceiveBytes_loop (Suc fuel) s dest off (int n) os st h =
        ReceiveBytes_loop fuel s ?d (off + k) (int (n - k)) os st ?h"
      using False k Suc.prems(2) by (simp add: bnd_call_apply Let_def of_nat_diff)
    ultimately show ?thesis using g k by (intro exI[of _ "(Recv s (int n), ?r) # g"]) simp
  qed
qed simp


text \<open>Memory that is too small for what arrives.\<close>

lemma ReceiveBytes_overflow:
  assumes d: "delivers os s data"
  shows "n \<le> length data - received_count s h \<Longrightarrow> length dest < off + n \<Longrightarrow> off \<le> length dest \<Longrightarrow> int n \<le> want \<Longrightarrow> n < fuel \<Longrightarrow>
    outcome_of (ReceiveBytes_loop fuel s dest off want os st h) = Fault"
proof (induction fuel arbitrary: n want h off dest)
  case (Suc fuel)
  let ?r = "os h (Recv s want)"
  have n: "0 < n" using Suc.prems(2,3) by simp
  then have "drop (received_count s h) data \<noteq> []" "0 < want" using Suc.prems(1,4) by auto
  then obtain k where k: "int_of ?r = int k" "1 \<le> k" "int k \<le> want" "k \<le> length (drop (received_count s h) data)"
    using deliversD[OF d, of h want] by auto
  show ?case
  proof (cases "length dest < off + k")
    case True
    then show ?thesis using \<open>0 < want\<close> k by (simp add: bnd_call_apply Let_def fault_apply)
  next
    case False
    let ?d = "overwrite off (take k (buf ?r)) dest"
    have kn: "k < n" using False Suc.prems(2) by simp
    have ld: "length ?d \<le> length dest" "off + k \<le> length ?d" if "k \<le> length (buf ?r)"
      using False that by (simp_all add: overwrite_def)
    have kb: "k \<le> length (buf ?r)"
    proof -
      have "take k (buf ?r) = take k (drop (received_count s h) data)"
        using deliversD[OF d \<open>drop (received_count s h) data \<noteq> []\<close> \<open>0 < want\<close>] k(1) by (metis of_nat_eq_iff)
      then have "length (take k (buf ?r)) = k" using k(4) by simp
      then show ?thesis by simp
    qed
    have "outcome_of (ReceiveBytes_loop fuel s ?d (off + k) (want - int k) os st (h @ [(Recv s want, ?r)])) = Fault"
      using Suc.prems k kn ld[OF kb] by (intro Suc.IH[of "n - k"]) auto
    then show ?thesis using \<open>0 < want\<close> k False by (simp add: bnd_call_apply Let_def)
  qed
qed simp


text \<open>A connection whose other end closes it after \<open>data\<close>.\<close>

definition closed_after :: "sspicall os \<Rightarrow> HANDLE \<Rightarrow> BYTE list \<Rightarrow> bool" where
  "closed_after os s data \<longleftrightarrow> (\<forall>h n. length data \<le> received_count s h \<longrightarrow> int_of (os h (Recv s n)) = 0)"

lemma closed_afterD: "closed_after os s data \<Longrightarrow> length data \<le> received_count s h \<Longrightarrow> int_of (os h (Recv s n)) = 0"
  by (simp add: closed_after_def)

lemma ReceiveBytes_until_close:
  assumes d: "delivers os s data" and c: "closed_after os s data"
  shows "n = length data - received_count s h \<Longrightarrow> off + n \<le> length dest \<Longrightarrow> int n < want \<Longrightarrow> n < fuel \<Longrightarrow>
    \<exists>g. ReceiveBytes_loop fuel s dest off want os st h =
        (Val (Some (overwrite off (drop (received_count s h) data) dest, off + n)), st, h @ g)"
proof (induction fuel arbitrary: n h off dest want)
  case (Suc fuel)
  let ?r = "os h (Recv s want)"
  show ?case
  proof (cases "n = 0")
    case True
    then have "int_of ?r = 0" using Suc.prems(1) by (intro closed_afterD[OF c]) simp
    then show ?thesis using True Suc.prems(1,3) by (simp add: bnd_call_apply Let_def ret_apply)
  next
    case False
    let ?rest = "drop (received_count s h) data"
    have ne: "?rest \<noteq> []" "0 < want" using False Suc.prems(1,3) by auto
    obtain k where k: "int_of ?r = int k" "1 \<le> k" "int k \<le> want" "k \<le> length ?rest" "take k (buf ?r) = take k ?rest"
      by (rule deliversD[OF d ne])
    let ?h = "h @ [(Recv s want, ?r)]"
    let ?d = "overwrite off (take k ?rest) dest"
    have len: "length (take k ?rest) = k" using k(4) by simp
    have h: "received_count s ?h = received_count s h + k" using k(1) by simp
    have kn: "k \<le> n" using k(4) Suc.prems(1) by simp
    then have ld: "length ?d = length dest" using Suc.prems(2) len by simp
    have "\<exists>g. ReceiveBytes_loop fuel s ?d (off + k) (want - int k) os st ?h =
        (Val (Some (overwrite (off + k) (drop (received_count s ?h) data) ?d, off + k + (n - k))), st, ?h @ g)"
      using Suc.prems k(1,2,4) kn ld by (intro Suc.IH) auto
    then obtain g where g: "ReceiveBytes_loop fuel s ?d (off + k) (want - int k) os st ?h =
        (Val (Some (overwrite (off + k) (drop (received_count s ?h) data) ?d, off + k + (n - k))), st, ?h @ g)" by blast
    have "overwrite (off + k) (drop (received_count s ?h) data) ?d = overwrite off ?rest dest"
    proof -
      have "overwrite (off + length (take k ?rest)) (drop k ?rest) ?d = overwrite off (take k ?rest @ drop k ?rest) dest"
        using Suc.prems(1,2) k(4) by (intro overwrite_append) auto
      then show ?thesis unfolding len h append_take_drop_id by (simp add: add.commute)
    qed
    moreover have "ReceiveBytes_loop (Suc fuel) s dest off want os st h =
        ReceiveBytes_loop fuel s ?d (off + k) (want - int k) os st ?h"
      using \<open>0 < want\<close> k kn Suc.prems(2) by (simp add: bnd_call_apply Let_def)
    ultimately show ?thesis using g kn by (intro exI[of _ "(Recv s want, ?r) # g"]) simp
  qed
qed simp

section \<open>Messages arrive\<close>


section \<open>A message that is too long\<close>

text \<open>
  A peer that announces a longer message than the memory holds, and sends it, makes \<open>ReceiveMsg\<close> write
  behind the end of the memory: its parameter \<open>cbBuf\<close> is never compared with the length.
\<close>

theorem long_message_overflows:
  assumes "delivers os s (bytes_of w @ msg)" "length msg = unat w" "unat w < 2 ^ 31" "length dest < unat w"
    and "4 < fuel" "unat w < fuel"
  shows "outcome_of (ReceiveMsg fuel s dest os st []) = Fault"
proof -
  let ?data = "bytes_of w @ msg"
  obtain g where g: "ReceiveBytes_loop fuel s (replicate 4 0) 0 (int 4) os st [] =
      (Val (Some (overwrite 0 (take 4 ?data) (replicate 4 0), 4)), st, g)" and c: "received_count s g = 4"
    using ReceiveBytes_gets[OF assms(1), of 4 "[]" 0 "replicate 4 0" fuel st] assms(5) by auto
  have "overwrite 0 (take 4 ?data) (replicate 4 0) = bytes_of w" by (simp add: overwrite_def)
  then have r1: "ReceiveBytes fuel s (replicate 4 0) 4 os st [] = (Val (Some (bytes_of w, 4)), st, g)"
    using g by (simp add: ReceiveBytes_def)
  have r2: "outcome_of (ReceiveBytes fuel s dest w os st g) = Fault"
    unfolding ReceiveBytes_def using assms c
    by (intro ReceiveBytes_overflow[OF assms(1), of "unat w"]) (simp_all add: sint_small)
  show ?thesis
    unfolding ReceiveMsg_def by (subst bnd_Val, rule r1) (simp add: Let_def outcome_bnd_Fault r2)
qed

lemma EncryptThis_block:
  assumes "EncryptThis msg cb os st h = (Val (p, Some block), st1, h @ [e, (EncryptMessage (unat cb) msg, r)])"
  shows "block = bytes_of (of_nat (length (buf r))) @ buf r @ encrypted msg r"
  using assms by (auto simp: EncryptThis_def bnd_call_apply if_apply ret_apply fault_apply Let_def split: if_splits)

text \<open>The name of the client does not fit when both calls of \<open>GetUserName\<close> report the same size.\<close>

lemma name_overflows:
  assumes "\<And>h n. out (os h (GetUserName n)) = k" "0 < k"
  shows "outcome_of (serve_client fuel s os st h) \<noteq> Val ()"
proof -
  have "unat k < 2 * unat k" using assms(2) by (simp add: unat_gt_0)
  then show ?thesis
    by (simp add: serve_client_def cleanup_def bnd_call_apply bnd_gets_apply if_apply andthen_def do_call_def whenM_def bnd_bnd
      bnd_ret bnd_if assms(1) halt_apply fault_apply Let_def)
qed

lemma length_encrypted [simp]: "length (encrypted msg r) = length msg"
  by (simp add: encrypted_def)

lemma DecryptThis_block:
  assumes "\<And>h. buf (os h (DecryptMessage trailer data)) = msg"
    and "length (bytes_of (of_nat (length trailer)) @ trailer @ data) < BIG_BUFF"
  shows "outcome_of (DecryptThis (overwrite 0 (bytes_of (of_nat (length trailer)) @ trailer @ data) (replicate BIG_BUFF 0))
    (of_nat (length (bytes_of (of_nat (length trailer)) @ trailer @ data))) os st h) = Val msg"
proof -
  let ?t = "of_nat (length trailer) :: DWORD"
  let ?b = "bytes_of ?t @ trailer @ data"
  let ?d = "overwrite 0 ?b (replicate BIG_BUFF 0)"
  have small: "length trailer < 2 ^ LENGTH(32)" "length ?b < 2 ^ LENGTH(32)" "length data < 2 ^ LENGTH(32)" using assms(2) by simp_all
  note u = this[THEN unat_less_imp_eq_of_nat]
  have diff: "(of_nat (length ?b) :: DWORD) - ?t - 4 = of_nat (length data)" by simp
  have parts: "take 4 ?d = bytes_of ?t" "take (length trailer) (drop 4 ?d) = trailer"
      "take (length data) (drop (4 + length trailer) ?d) = data" "length ?d = BIG_BUFF"
    using assms(2) by (auto simp: overwrite_def)
  show ?thesis
    unfolding DecryptThis_def Let_def parts dword_of_bytes_of diff u using assms(2) parts
    by (simp add: bnd_call_apply ret_apply if_apply assms(1))
qed

section \<open>A greeting is read\<close>

text \<open>
  The greeting that the server encrypts and sends before it closes the connection is what the client
  decrypts: the trailer and the data are found in the bytes again, for every security package whose
  \<open>DecryptMessage\<close> undoes its \<open>EncryptMessage\<close> and that keeps the block within the client's memory.
\<close>

theorem greeting_is_read:
  assumes enc: "EncryptThis msg cb os st h = (Val (p, Some block), st1, h @ [e, (EncryptMessage (unat cb) msg, r)])"
    and sent: "SendBytes fuel s block os st2 h2 = (Val True, st3, h2 @ g)"
    and del: "delivers os' c (sent_bytes s g)" "closed_after os' c (sent_bytes s g)"
    and len: "length block < BIG_BUFF" "length block < fuel'"
    and ssp: "\<And>h. buf (os' h (DecryptMessage (buf r) (encrypted msg r))) = msg"
  shows "outcome_of (bnd (ReceiveBytes fuel' c (replicate BIG_BUFF 0) (of_nat BIG_BUFF))
      (\<lambda>m. case m of None \<Rightarrow> MyHandleError | Some (d, n) \<Rightarrow> if n = 0 then MyHandleError else DecryptThis d (of_nat n)) os' st' []) = Val msg"
proof -
  have b: "block = bytes_of (of_nat (length (buf r))) @ buf r @ encrypted msg r" by (rule EncryptThis_block[OF enc])
  have "sent_bytes s g = block" using SendBytes_sends[OF sent] by auto
  with del have d: "delivers os' c block" "closed_after os' c block" by simp_all
  obtain g' where "ReceiveBytes_loop fuel' c (replicate BIG_BUFF 0) 0 (int BIG_BUFF) os' st' [] =
      (Val (Some (overwrite 0 block (replicate BIG_BUFF 0), length block)), st', g')"
    using ReceiveBytes_until_close[OF d, of "length block" "[]" 0 "replicate BIG_BUFF 0" "int BIG_BUFF" fuel' st'] len by auto
  then have r: "ReceiveBytes fuel' c (replicate BIG_BUFF 0) (of_nat BIG_BUFF) os' st' [] =
      (Val (Some (overwrite 0 block (replicate BIG_BUFF 0), length block)), st', g')"
    by (simp add: ReceiveBytes_def)
  have ne: "length block \<noteq> 0" unfolding b by simp
  have dec: "outcome_of (DecryptThis (overwrite 0 block (replicate BIG_BUFF 0)) (of_nat (length block)) os' st' g') = Val msg"
    using ssp len(1) unfolding b by (rule DecryptThis_block)
  show ?thesis by (subst bnd_Val, rule r) (use ne dec in simp)
qed


section \<open>Authentication\<close>

text \<open>What transfers bytes leaves the other calls alone.\<close>

definition transfers :: "sspicall \<Rightarrow> bool" where
  "transfers c \<longleftrightarrow> (case c of Send s bs \<Rightarrow> True | Recv s n \<Rightarrow> True | GetLastError \<Rightarrow> True | _ \<Rightarrow> False)"

lemma transfers_simps [simp]: "transfers (Send s bs)" "transfers (Recv s n)" "transfers GetLastError"
  by (simp_all add: transfers_def)
















text \<open>The status that is lost.\<close>

lemma complete_and_continue_ends:
  assumes "status_of (os h (AcceptSecurityContext new bs)) = SEC_I_COMPLETE_AND_CONTINUE"
    and "\<And>h token. status_of (os h (CompleteAuthToken token)) = 0"
  shows "\<exists>token h'. GenServerContext bs new os st h = (Val (Some (token, True)), st, h')"
  using assms by (auto simp: GenServerContext_def finish_token_def Let_def bnd_call_apply if_apply ret_apply SEC_SUCCESS_def)


section \<open>Runs\<close>

text \<open>A connection that carries one byte at a time, and a package that does not encrypt.\<close>

definition one_byte :: "BYTE list \<Rightarrow> sspicall os" where
  "one_byte data h c = (case c of
     Send s bs \<Rightarrow> ok_resp
   | Recv s n \<Rightarrow> (case drop (received_count s h) data of [] \<Rightarrow> fail_resp | b # bs \<Rightarrow> ok_resp\<lparr>buf := [b]\<rparr>)
   | EncryptMessage n bs \<Rightarrow> fail_resp\<lparr>buf := [7], rows := [bs]\<rparr>
   | DecryptMessage tr bs \<Rightarrow> fail_resp\<lparr>buf := bs\<rparr>
   | socket_call \<Rightarrow> fail_resp\<lparr>rv := 5\<rparr>
   | accept_call s \<Rightarrow> fail_resp\<lparr>rv := 6\<rparr>
   | malloc n \<Rightarrow> fail_resp\<lparr>rv := 4096\<rparr>
   | _ \<Rightarrow> fail_resp)"

lemma int_of_one [simp]: "int_of ok_resp = 1"
  by (simp add: int_of_def)

lemma int_of_one_buf [simp]: "int_of (ok_resp\<lparr>buf := b\<rparr>) = 1"
  by (simp add: int_of_def)

lemma one_byte_delivers: "delivers (one_byte data) s data"
  by (auto simp: delivers_def one_byte_def Let_def int_of_def neq_Nil_conv dest: arg_cong[of _ _ length] split: list.splits)

lemma one_byte_closes: "closed_after (one_byte data) s data"
  by (auto simp: closed_after_def one_byte_def int_of_def)

lemma one_byte_sends:
  "length bs < fuel \<Longrightarrow> \<exists>g. SendBytes fuel s bs (one_byte data) st h = (Val True, st, h @ g)"
proof (induction bs arbitrary: fuel h)
  case Nil
  then show ?case by (cases fuel) (auto simp: ret_apply)
next
  case (Cons b bs)
  then obtain n where n: "fuel = Suc n" "length bs < n" by (cases fuel) auto
  from Cons.IH[OF n(2)] show ?case unfolding n
    by (simp add: bnd_call_apply Let_def one_byte_def) (metis append.assoc append_Cons append_Nil)
qed


theorem long_message_overflows_witness:
  "outcome_of (ReceiveMsg 20 3 [0, 0, 0] (one_byte (bytes_of 4 @ [1, 2, 3, 4])) () []) = Fault"
  by (rule long_message_overflows[where msg = "[1, 2, 3, 4]" and w = 4]) (simp_all add: one_byte_delivers)

theorem greeting_is_read_witness:
  "outcome_of (bnd (ReceiveBytes 50 6 (replicate BIG_BUFF 0) (of_nat BIG_BUFF))
      (\<lambda>m. case m of None \<Rightarrow> MyHandleError | Some (d, n) \<Rightarrow> if n = 0 then MyHandleError else DecryptThis d (of_nat n))
      (one_byte (bytes_of 1 @ [7] @ server_greeting)) () []) = Val server_greeting"
proof -
  let ?block = "bytes_of 1 @ [7] @ server_greeting"
  let ?e = "one_byte [] [] (malloc (unat (16 + of_nat (length server_greeting) :: DWORD) + 4))"
  let ?r = "one_byte [] [(malloc (unat (16 + of_nat (length server_greeting) :: DWORD) + 4), ?e)] (EncryptMessage (unat (16 :: DWORD)) server_greeting)"
  have same: "encrypted server_greeting ?r = server_greeting" by (simp add: encrypted_def one_byte_def overwrite_def)
  have e: "EncryptThis server_greeting 16 (one_byte []) () [] = (Val (4096, Some ?block), (),
      [] @ [(malloc (unat (16 + of_nat (length server_greeting) :: DWORD) + 4), ?e), (EncryptMessage (unat (16 :: DWORD)) server_greeting, ?r)])"
    using same by (simp add: EncryptThis_def bnd_call_apply if_apply ret_apply one_byte_def status_of_def SEC_SUCCESS_def)
  obtain g where g: "SendBytes 50 6 ?block (one_byte []) () [] = (Val True, (), [] @ g)"
    using one_byte_sends[of ?block 50 6 "[]" "()" "[]"] by (auto simp: server_greeting_def)
  then have "sent_bytes 6 g = ?block" using SendBytes_sends[OF g] by auto
  then show ?thesis
    using greeting_is_read[OF e g, where os' = "one_byte ?block" and c = 6 and fuel' = 50 and st' = "()"]
      one_byte_delivers one_byte_closes same
    by (simp add: server_greeting_def one_byte_def[of _ _ "DecryptMessage _ _"])
qed


end
