(* ===== verification/Tls.thy ===== *)
theory Tls
  imports Raii
begin

text \<open>
  SecureSocket/main.cpp: a TLS client.  Ciphertext is collected in \<open>incoming\<close>, a packet is decrypted in
  place, and \<open>tls_read\<close> hands the plaintext out piece by piece.  The debug build is modelled: a failed
  \<open>assert\<close> aborts.  \<open>sizes\<close> is indeterminate until the security package has filled it in.
\<close>

section \<open>System calls\<close>

datatype tlscall =
    WSAStartup
  | WSACleanup
  | socket_call
  | WSAConnectByNameW HANDLE
  | closesocket HANDLE
  | shutdown_call HANDLE
  | AcquireCredentialsHandleW
  | InitializeSecurityContext "BYTE list option"
  | ApplyControlToken
  | Send HANDLE "BYTE list"
  | Recv HANDLE nat
  | FreeContextBuffer
  | DeleteSecurityContext
  | FreeCredentialsHandle
  | QueryContextAttributes
  | EncryptMessage "BYTE list"
  | DecryptMessage "BYTE list"
  | open_file string
  | write_file "BYTE list"

abbreviation (input) TLS_MAX_PACKET_SIZE :: nat where "TLS_MAX_PACKET_SIZE \<equiv> 16896"

abbreviation (input) SEC_E_OK :: DWORD where "SEC_E_OK \<equiv> 0"
abbreviation (input) SEC_I_CONTINUE_NEEDED :: DWORD where "SEC_I_CONTINUE_NEEDED \<equiv> 0x90312"
abbreviation (input) SEC_I_CONTEXT_EXPIRED :: DWORD where "SEC_I_CONTEXT_EXPIRED \<equiv> 0x90317"
abbreviation (input) SEC_I_INCOMPLETE_CREDENTIALS :: DWORD where "SEC_I_INCOMPLETE_CREDENTIALS \<equiv> 0x90320"
abbreviation (input) SEC_I_RENEGOTIATE :: DWORD where "SEC_I_RENEGOTIATE \<equiv> 0x90321"
abbreviation (input) SEC_E_INCOMPLETE_MESSAGE :: DWORD where "SEC_E_INCOMPLETE_MESSAGE \<equiv> 0x80090318"

abbreviation (input) SECBUFFER_DATA :: "64 word" where "SECBUFFER_DATA \<equiv> 1"
abbreviation (input) SECBUFFER_EXTRA :: "64 word" where "SECBUFFER_EXTRA \<equiv> 5"
abbreviation (input) SECBUFFER_STREAM_TRAILER :: "64 word" where "SECBUFFER_STREAM_TRAILER \<equiv> 6"
abbreviation (input) SECBUFFER_STREAM_HEADER :: "64 word" where "SECBUFFER_STREAM_HEADER \<equiv> 7"

section \<open>The socket\<close>

record stream_sizes =
  cbHeader :: DWORD
  cbTrailer :: DWORD
  cbMaximumMessage :: DWORD
  cBuffers :: DWORD

record tls_socket =
  sock :: HANDLE
  sizes :: "stream_sizes option"
  received :: nat
  used :: nat
  available :: nat
  decrypted :: "nat option"
  incoming :: "BYTE list"

type_synonym 'a tio = "(tls_socket, tlscall, unit, 'a) io"

definition abort_call :: "'a tio" where
  "abort_call = halt 3"

text \<open>\<open>s->incoming\<close> moved down by \<open>n\<close>, of which \<open>k\<close> bytes are kept.\<close>

definition move_down :: "nat \<Rightarrow> nat \<Rightarrow> BYTE list \<Rightarrow> BYTE list" where
  "move_down n k bs = overwrite 0 (take k (drop n bs)) bs"

text \<open>The three loops that send all of a buffer; \<open>False\<close> when \<open>send\<close> gives no more than 0.\<close>

fun send_all :: "nat \<Rightarrow> BYTE list \<Rightarrow> bool tio" where
  "send_all 0 bs = running"
| "send_all (Suc fuel) bs = (if bs = [] then ret True else
     bnd (gets sock) (\<lambda>s. bnd (call (Send s bs)) (\<lambda>r. let d = int_of r in
     if d \<le> 0 then ret False
     else if int (length bs) < d then fault
     else send_all fuel (drop (nat d) bs))))"

text \<open>\<open>recv\<close> into the rest of \<open>incoming\<close>.\<close>

definition receive_more :: "int tio" where
  "receive_more = bnd (gets (\<lambda>s. s)) (\<lambda>s.
     bnd (call (Recv (sock s) (TLS_MAX_PACKET_SIZE - received s))) (\<lambda>r. let n = int_of r in
     if n \<le> 0 then ret n
     else if int (TLS_MAX_PACKET_SIZE - received s) < n then fault
     else andthen (modify (\<lambda>s. s\<lparr>incoming := overwrite (received s) (take (nat n) (buf r)) (incoming s), received := received s + nat n\<rparr>))
       (ret n)))"

section \<open>Connecting\<close>

text \<open>
  What is left of the input after a token was taken: the bytes of an extra buffer, whose number is the
  only element of \<open>outs\<close>, and nothing when there is none.
\<close>

definition keep_extra :: "64 word list \<Rightarrow> unit tio" where
  "keep_extra extras = bnd (gets (\<lambda>s. s)) (\<lambda>s. case extras of
     [] \<Rightarrow> modify (\<lambda>s. s\<lparr>received := 0\<rparr>)
   | e # es \<Rightarrow> if received s < unat e then fault
       else modify (\<lambda>s. s\<lparr>incoming := move_down (received s - unat e) (unat e) (incoming s), received := unat e\<rparr>))"

text \<open>The handshake; \<open>None\<close> is the return in the middle of the loop, which skips everything behind it.\<close>

fun handshake :: "nat \<Rightarrow> bool \<Rightarrow> int option tio" where
  "handshake 0 context = running"
| "handshake (Suc fuel) context =
     bnd (gets (\<lambda>s. s)) (\<lambda>s.
     bnd (call (InitializeSecurityContext (if context then Some (take (received s) (incoming s)) else None))) (\<lambda>r.
     andthen (keep_extra (if context then outs r else []))
     (let sec = status_of r;
          more_data = bnd (gets received) (\<lambda>n. if n = TLS_MAX_PACKET_SIZE then ret (Some (- 1)) else
            bnd receive_more (\<lambda>d. if d = 0 then ret None else if d < 0 then ret (Some (- 1)) else handshake fuel True)) in
      if sec = SEC_E_OK then (if buf r = [] then ret (Some 0) else
        bnd (call (Send (sock s) (buf r))) (\<lambda>d. ret (Some (if int_of d < 0 then 1 else 0))))
      else if sec = SEC_I_INCOMPLETE_CREDENTIALS then ret (Some (- 1))
      else if sec = SEC_I_CONTINUE_NEEDED then bnd (send_all fuel (buf r)) (\<lambda>ok.
        andthen (do_call FreeContextBuffer) (if \<not> ok then ret (Some (- 1)) else more_data))
      else if sec \<noteq> SEC_E_INCOMPLETE_MESSAGE then ret (Some (- 1))
      else more_data)))"

definition query_sizes :: "unit tio" where
  "query_sizes = bnd (call QueryContextAttributes) (\<lambda>q. case outs q of
     [h, t, m, n] \<Rightarrow> modify (\<lambda>s. s\<lparr>sizes := Some \<lparr>cbHeader = ucast h, cbTrailer = ucast t, cbMaximumMessage = ucast m, cBuffers = ucast n\<rparr>\<rparr>)
   | _ \<Rightarrow> ret ())"

definition close_socket :: "unit tio" where
  "close_socket = bnd (gets sock) (\<lambda>s. andthen (do_call (closesocket s)) (do_call WSACleanup))"

definition tls_connect :: "nat \<Rightarrow> int tio" where
  "tls_connect fuel =
     bnd (call WSAStartup) (\<lambda>w. if int_of w \<noteq> 0 then ret (- 1) else
     bnd (call socket_call) (\<lambda>c. andthen (modify (\<lambda>s. s\<lparr>sock := rv c\<rparr>))
     (if rv c = InvalidHandleValue then andthen (do_call WSACleanup) (ret (- 1)) else
     bnd (call (WSAConnectByNameW (rv c))) (\<lambda>b. if int_of b = 0 then andthen close_socket (ret (- 1)) else
     bnd (call AcquireCredentialsHandleW) (\<lambda>a. if status_of a \<noteq> SEC_E_OK then andthen close_socket (ret (- 1)) else
     andthen (modify (\<lambda>s. s\<lparr>received := 0, used := 0, available := 0, decrypted := None\<rparr>))
     (bnd (handshake fuel False) (\<lambda>res. case res of
        None \<Rightarrow> ret 0
      | Some n \<Rightarrow> if n \<noteq> 0
          then andthen (do_call DeleteSecurityContext) (andthen (do_call FreeCredentialsHandle) (andthen close_socket (ret n)))
          else andthen query_sizes (ret 0))))))))"

section \<open>Disconnecting\<close>

definition tls_disconnect :: "nat \<Rightarrow> unit tio" where
  "tls_disconnect fuel = bnd (gets sock) (\<lambda>s.
     andthen (do_call ApplyControlToken)
     (bnd (call (InitializeSecurityContext None)) (\<lambda>r.
      andthen (whenM (status_of r = SEC_E_OK) (bnd (send_all fuel (buf r)) (\<lambda>_. do_call FreeContextBuffer)))
      (andthen (do_call (shutdown_call s))
      (andthen (do_call DeleteSecurityContext)
      (andthen (do_call FreeCredentialsHandle) close_socket))))))"

section \<open>Writing\<close>

text \<open>
  \<open>buf\<close> of \<open>EncryptMessage\<close> is what the package leaves in \<open>wbuffer\<close>, and \<open>outs\<close> are the sizes of header, data
  and trailer.  The sum in the assertion is taken in 32 bits.
\<close>

definition send_record :: "nat \<Rightarrow> BYTE list \<Rightarrow> bool tio" where
  "send_record fuel data = bnd (call (EncryptMessage data)) (\<lambda>r.
     if status_of r \<noteq> SEC_E_OK then ret False else
     let tot = unat (sum_list (map (ucast :: _ \<Rightarrow> DWORD) (outs r))) in
     if TLS_MAX_PACKET_SIZE < tot then fault
     else send_all fuel (take tot (buf r)))"

fun tls_write :: "nat \<Rightarrow> BYTE list \<Rightarrow> int tio" where
  "tls_write 0 bs = running"
| "tls_write (Suc fuel) bs = (if bs = [] then ret 0 else
     bnd (gets sizes) (\<lambda>z. case z of None \<Rightarrow> fault | Some z \<Rightarrow>
     let use = min (length bs) (unat (cbMaximumMessage z)) in
     if TLS_MAX_PACKET_SIZE < unat (cbHeader z + cbMaximumMessage z + cbTrailer z) then abort_call
     else if TLS_MAX_PACKET_SIZE < unat (cbHeader z) + use then fault
     else bnd (send_record fuel (take use bs)) (\<lambda>ok. if \<not> ok then ret (- 1) else tls_write fuel (drop use bs))))"

section \<open>Reading\<close>

text \<open>What \<open>tls_read\<close> does after an attempt to decrypt: go on, return a value, or receive more.\<close>

datatype attempt = Again | Return int | Need

text \<open>
  \<open>buf\<close> of \<open>DecryptMessage\<close> is the input as it was decrypted in place, and \<open>outs\<close> the types of the four
  buffers, the offset and the size of the data, and the size of the fourth buffer.
\<close>

definition decrypted_packet :: "resp \<Rightarrow> nat \<Rightarrow> attempt tio" where
  "decrypted_packet r n = (case outs r of
     [t0, t1, t2, t3, off, len, extra] \<Rightarrow>
       if t0 \<noteq> SECBUFFER_STREAM_HEADER \<or> t1 \<noteq> SECBUFFER_DATA \<or> t2 \<noteq> SECBUFFER_STREAM_TRAILER then abort_call
       else let e = (if t3 = SECBUFFER_EXTRA then unat extra else 0) in
       if n < e then fault else
       andthen (modify (\<lambda>s. s\<lparr>incoming := overwrite 0 (take n (buf r)) (incoming s),
         decrypted := Some (unat off), available := unat len, used := n - e\<rparr>)) (ret Again)
   | _ \<Rightarrow> fault)"

text \<open>A new session ticket, which TLS 1.3 reports as a renegotiation; its type is in the sixth byte.\<close>

definition session_ticket :: "resp \<Rightarrow> nat \<Rightarrow> attempt tio" where
  "session_ticket r n = (case outs r of
     [t0, t1, t2, t3, off, len, extra] \<Rightarrow>
       if t3 \<noteq> SECBUFFER_EXTRA then abort_call
       else if n < unat extra then fault
       else let ticket = drop (n - unat extra) (take n (buf r)) in
       if length ticket \<le> 5 then fault
       else if ticket ! 5 \<noteq> 4 then abort_call
       else bnd (call (InitializeSecurityContext (Some ticket))) (\<lambda>i. case outs i of
           [] \<Rightarrow> abort_call
         | e # es \<Rightarrow> if n < unat e then fault else
             andthen (modify (\<lambda>s. s\<lparr>incoming := move_down (n - unat e) (unat e) (overwrite 0 (take n (buf r)) (incoming s)),
               used := n - unat e, received := unat e\<rparr>)) (ret Again))
   | _ \<Rightarrow> fault)"

definition try_decrypt :: "int \<Rightarrow> attempt tio" where
  "try_decrypt result = bnd (gets (\<lambda>s. s)) (\<lambda>s. case sizes s of None \<Rightarrow> fault | Some z \<Rightarrow>
     if cBuffers z \<noteq> 4 then abort_call else
     bnd (call (DecryptMessage (take (received s) (incoming s)))) (\<lambda>r. let sec = status_of r in
       if sec = SEC_E_OK then decrypted_packet r (received s)
       else if sec = SEC_I_CONTEXT_EXPIRED then andthen (modify (\<lambda>s. s\<lparr>received := 0\<rparr>)) (ret (Return result))
       else if sec = SEC_I_RENEGOTIATE then session_ticket r (received s)
       else if sec \<noteq> SEC_E_INCOMPLETE_MESSAGE then ret (Return (- 1))
       else ret Need))"

text \<open>
  \<open>use\<close> bytes of the plaintext are handed out; when it is used up, the packet is removed from the front.
\<close>

definition take_plain :: "nat \<Rightarrow> nat \<Rightarrow> BYTE list tio" where
  "take_plain p use = bnd (gets (\<lambda>s. s)) (\<lambda>s.
     if length (incoming s) < p + use then fault
     else if use = available s then
       (if received s < used s then fault else
        andthen (modify (\<lambda>s. s\<lparr>incoming := move_down (used s) (received s - used s) (incoming s),
          received := received s - used s, used := 0, available := 0, decrypted := None\<rparr>))
        (ret (take use (drop p (incoming s)))))
     else andthen (modify (\<lambda>s. s\<lparr>available := available s - use, decrypted := Some (p + use)\<rparr>))
       (ret (take use (drop p (incoming s)))))"

text \<open>\<open>acc\<close> is what has been copied to the caller's buffer; the value is what is returned, with the copied bytes.\<close>

fun tls_read_loop :: "nat \<Rightarrow> nat \<Rightarrow> BYTE list \<Rightarrow> (int \<times> BYTE list) tio" where
  "tls_read_loop 0 sz acc = running"
| "tls_read_loop (Suc fuel) sz acc = (if sz = 0 then ret (int (length acc), acc) else
     bnd (gets (\<lambda>s. s)) (\<lambda>s. case decrypted s of
       Some p \<Rightarrow> let use = min sz (available s) in
         bnd (take_plain p use) (\<lambda>bs. tls_read_loop fuel (sz - use) (acc @ bs))
     | None \<Rightarrow> bnd (if received s \<noteq> 0 then try_decrypt (int (length acc)) else ret Need) (\<lambda>a. case a of
         Again \<Rightarrow> tls_read_loop fuel sz acc
       | Return n \<Rightarrow> ret (n, acc)
       | Need \<Rightarrow> if acc \<noteq> [] then ret (int (length acc), acc)
           else if received s = TLS_MAX_PACKET_SIZE then ret (- 1, acc)
           else bnd receive_more (\<lambda>d. if d = 0 then ret (0, acc) else if d < 0 then ret (- 1, acc)
             else tls_read_loop fuel sz acc))))"

definition tls_read :: "nat \<Rightarrow> nat \<Rightarrow> (int \<times> BYTE list) tio" where
  "tls_read fuel sz = tls_read_loop fuel sz []"

section \<open>The program\<close>

definition request :: "BYTE list" where
  "request = map of_char (''GET / HTTP/1.1'' @ [CHR 0x0D, CHR 0x0A] @ ''Host: www.google.com'' @ [CHR 0x0D, CHR 0x0A] @
     ''Connection: close'' @ [CHR 0x0D, CHR 0x0A, CHR 0x0D, CHR 0x0A])"

abbreviation (input) buf_size :: nat where "buf_size \<equiv> 65536"

text \<open>
  The file is open in text mode: a line feed is written as carriage return and line feed.  \<open>myfile << buf\<close> writes up to
  the first zero byte, and reads on when there is none.  \<open>good\<close> is the state of the stream, which nothing looks at: a
  stream that could not be opened, or whose last write failed, takes no more.
\<close>

definition text_mode :: "BYTE list \<Rightarrow> BYTE list" where
  "text_mode bs = concat (map (\<lambda>b. if b = 10 then [13, 10] else [b]) bs)"

definition write_text :: "bool \<Rightarrow> BYTE list \<Rightarrow> bool tio" where
  "write_text good bs = (if buf_size \<le> length bs \<and> 0 \<notin> set bs then fault
     else let txt = takeWhile (\<lambda>b. b \<noteq> 0) bs in
     if \<not> good \<or> txt = [] then ret good else bnd (call (write_file (text_mode txt))) (\<lambda>r. ret (rv r \<noteq> 0)))"

fun read_response :: "nat \<Rightarrow> nat \<Rightarrow> bool \<Rightarrow> unit tio" where
  "read_response 0 fuel good = running"
| "read_response (Suc n) fuel good = bnd (tls_read fuel buf_size) (\<lambda>(r, bs).
     if r \<le> 0 then ret () else bnd (write_text good bs) (read_response n fuel))"

definition tls_main :: "nat \<Rightarrow> nat \<Rightarrow> int tio" where
  "tls_main n fuel = bnd (tls_connect fuel) (\<lambda>c. if c \<noteq> 0 then ret (- 1) else
     bnd (tls_write fuel request) (\<lambda>w. if w \<noteq> 0 then andthen (tls_disconnect fuel) (ret (- 1)) else
     bnd (call (open_file ''response.txt'')) (\<lambda>f.
     andthen (read_response n fuel (rv f \<noteq> 0)) (andthen (tls_disconnect fuel) (ret 0)))))"

end
