(* ===== verification/TlsStream.thy ===== *)
theory TlsStream
  imports Tls
begin

text \<open>
  What \<open>Tls\<close> promises: reads are reads of the stream of plaintexts, written text is read again, and two faults
  of the handshake.  The connection and the security package are assumed as documented: bytes arrive in order,
  in pieces of any size, and a packet is decrypted in place as soon as all of it is there.
\<close>

section \<open>The peer\<close>

text \<open>How many bytes have been received, and how many packets decrypted.\<close>

fun received_count :: "HANDLE \<Rightarrow> tlscall history \<Rightarrow> nat" where
  "received_count s [] = 0"
| "received_count s ((Recv s' n, r) # h) = (if s' = s then nat (int_of r) else 0) + received_count s h"
| "received_count s ((c, r) # h) = received_count s h"

fun opened :: "tlscall history \<Rightarrow> nat" where
  "opened [] = 0"
| "opened ((DecryptMessage bs, r) # h) = (if status_of r = SEC_E_OK then 1 else 0) + opened h"
| "opened ((c, r) # h) = opened h"

lemma tls_received_append [simp]: "received_count s (g @ h) = received_count s g + received_count s h"
  by (induction s g rule: received_count.induct) auto

lemma opened_append [simp]: "opened (g @ h) = opened g + opened h"
  by (induction g rule: opened.induct) auto

text \<open>A connection on which \<open>data\<close> arrives, in pieces of any size, and that is closed afterwards.\<close>

definition delivers :: "tlscall os \<Rightarrow> HANDLE \<Rightarrow> BYTE list \<Rightarrow> bool" where
  "delivers os s data \<longleftrightarrow> (\<forall>h n. let rest = drop (received_count s h) data; r = os h (Recv s n) in
     (rest = [] \<longrightarrow> int_of r = 0) \<and>
     (0 < n \<longrightarrow> rest \<noteq> [] \<longrightarrow>
       1 \<le> int_of r \<and> nat (int_of r) \<le> n \<and> nat (int_of r) \<le> length rest \<and> take (nat (int_of r)) (buf r) = take (nat (int_of r)) rest))"

lemma delivers_more:
  assumes "delivers os s data" "drop (received_count s h) data \<noteq> []" "0 < n"
  obtains k where "int_of (os h (Recv s n)) = int k" "1 \<le> k" "k \<le> n" "k \<le> length (drop (received_count s h) data)"
    "take k (buf (os h (Recv s n))) = take k (drop (received_count s h) data)"
proof -
  let ?r = "os h (Recv s n)"
  have "1 \<le> int_of ?r \<and> nat (int_of ?r) \<le> n \<and> nat (int_of ?r) \<le> length (drop (received_count s h) data) \<and>
      take (nat (int_of ?r)) (buf ?r) = take (nat (int_of ?r)) (drop (received_count s h) data)"
    using assms by (simp add: delivers_def Let_def)
  then show thesis by (intro that[of "nat (int_of ?r)"]) auto
qed

lemma delivers_end: "delivers os s data \<Longrightarrow> drop (received_count s h) data = [] \<Longrightarrow> int_of (os h (Recv s n)) = 0"
  unfolding delivers_def Let_def by blast

text \<open>
  \<open>ps\<close> are the packets of the connection, each with its plaintext.  The security package decrypts the next
  packet in place as soon as all of it is there, and asks for more until then.
\<close>

type_synonym packets = "(BYTE list \<times> BYTE list) list"

definition decrypts_ok :: "BYTE list \<Rightarrow> BYTE list \<Rightarrow> BYTE list \<Rightarrow> resp \<Rightarrow> bool" where
  "decrypts_ok wire plain bs r \<longleftrightarrow> status_of r = SEC_E_OK \<and>
     outs r = [SECBUFFER_STREAM_HEADER, SECBUFFER_DATA, SECBUFFER_STREAM_TRAILER, (if wire = bs then 0 else SECBUFFER_EXTRA),
       out r, of_nat (length plain), of_nat (length bs - length wire)] \<and>
     unat (out r) + length plain \<le> length wire \<and> length (buf r) = length bs \<and>
     take (length plain) (drop (unat (out r)) (buf r)) = plain \<and> drop (length wire) (buf r) = drop (length wire) bs"

definition decrypts :: "tlscall os \<Rightarrow> packets \<Rightarrow> bool" where
  "decrypts os ps \<longleftrightarrow> (\<forall>h wire plain more'. opened h < length ps \<longrightarrow> ps ! opened h = (wire, plain) \<longrightarrow>
     length (wire @ more') \<le> TLS_MAX_PACKET_SIZE \<longrightarrow> decrypts_ok wire plain (wire @ more') (os h (DecryptMessage (wire @ more')))) \<and>
   (\<forall>h bs rest. opened h < length ps \<longrightarrow> fst (ps ! opened h) = bs @ rest \<longrightarrow> rest \<noteq> [] \<longrightarrow>
     status_of (os h (DecryptMessage bs)) = SEC_E_INCOMPLETE_MESSAGE)"

definition packets_ok :: "packets \<Rightarrow> bool" where
  "packets_ok ps \<longleftrightarrow> (\<forall>(w, p) \<in> set ps. w \<noteq> [] \<and> length w \<le> TLS_MAX_PACKET_SIZE)"

definition wire_of :: "packets \<Rightarrow> BYTE list" where
  "wire_of ps = concat (map fst ps)"

definition plain_of :: "packets \<Rightarrow> BYTE list" where
  "plain_of ps = concat (map snd ps)"

text \<open>
  The state of a socket between two reads: what it holds and what has yet to arrive are the packets that
  have not been opened, behind the rest of the one that has; \<open>pending\<close> is the plaintext of all of it.
\<close>

definition tls_state :: "HANDLE \<Rightarrow> BYTE list \<Rightarrow> packets \<Rightarrow> tls_socket \<Rightarrow> tlscall history \<Rightarrow> BYTE list \<Rightarrow> bool" where
  "tls_state k data ps s h pending \<longleftrightarrow>
     sock s = k \<and> length (incoming s) = TLS_MAX_PACKET_SIZE \<and> received s \<le> TLS_MAX_PACKET_SIZE \<and>
     (\<exists>z. sizes s = Some z \<and> cBuffers z = 4) \<and>
     (case decrypted s of
        None \<Rightarrow> take (received s) (incoming s) @ drop (received_count k h) data = wire_of (drop (opened h) ps) \<and>
          pending = plain_of (drop (opened h) ps)
      | Some p \<Rightarrow> p + available s \<le> used s \<and> used s \<le> received s \<and>
          take (received s - used s) (drop (used s) (incoming s)) @ drop (received_count k h) data = wire_of (drop (opened h) ps) \<and>
          pending = take (available s) (drop p (incoming s)) @ plain_of (drop (opened h) ps))"

text \<open>The plaintext that can be had without receiving, and the steps that are left.\<close>

definition held :: "tls_socket \<Rightarrow> nat" where
  "held s = (case decrypted s of None \<Rightarrow> received s | Some p \<Rightarrow> available s + (received s - used s))"

definition steps_left :: "BYTE list \<Rightarrow> packets \<Rightarrow> tls_socket \<Rightarrow> tlscall history \<Rightarrow> nat" where
  "steps_left data ps s h = (length data - received_count (sock s) h) + 2 * (length ps - opened h) + (if decrypted s = None then 0 else 1)"

lemma move_down_take: "n + k \<le> length bs \<Longrightarrow> take k (move_down n k bs) = take k (drop n bs)"
  by (simp add: move_down_def overwrite_def)

lemma length_move_down [simp]: "n + k \<le> length bs \<Longrightarrow> length (move_down n k bs) = length bs"
  by (simp add: move_down_def)

text \<open>One hand-out of plaintext.\<close>

lemma take_plain_step:
  assumes "tls_state k data ps s h pending" "decrypted s = Some p" "use \<le> available s"
  shows "\<exists>s'. take_plain p use os s h = (Val (take use pending), s', h) \<and> tls_state k data ps s' h (drop use pending) \<and>
    use + held s' = held s \<and> steps_left data ps s' h \<le> steps_left data ps s h \<and>
    (use = available s \<longrightarrow> steps_left data ps s' h < steps_left data ps s h)"
proof -
  have b: "p + available s \<le> used s" "used s \<le> received s" "received s \<le> length (incoming s)"
    "pending = take (available s) (drop p (incoming s)) @ plain_of (drop (opened h) ps)"
    using assms(1,2) by (auto simp: tls_state_def)
  have "available s \<le> length (incoming s) - p" using b(1-3) by linarith
  then have handed: "take use pending = take use (drop p (incoming s))" using b(4) assms(3) by (simp add: min_def)
  show ?thesis
  proof (cases "use = available s")
    case True
    let ?s = "s\<lparr>incoming := move_down (used s) (received s - used s) (incoming s), received := received s - used s,
      used := 0, available := 0, decrypted := None\<rparr>"
    have "take_plain p use os s h = (Val (take use pending), ?s, h)"
      using b True unfolding handed by (simp add: take_plain_def io_simps andthen_def)
    moreover have "tls_state k data ps ?s h (drop use pending)"
      using assms(1,2) b True by (auto simp: tls_state_def move_down_take)
    ultimately show ?thesis using True assms(2) b by (intro exI[of _ ?s]) (simp add: held_def steps_left_def)
  next
    case False
    let ?s = "s\<lparr>available := available s - use, decrypted := Some (p + use)\<rparr>"
    have "take_plain p use os s h = (Val (take use pending), ?s, h)"
      using b False assms(3) unfolding handed by (simp add: take_plain_def io_simps andthen_def)
    moreover have "tls_state k data ps ?s h (drop use pending)"
      using assms b False by (auto simp: tls_state_def drop_take add.commute)
    ultimately show ?thesis using False assms b by (intro exI[of _ ?s]) (simp add: held_def steps_left_def)
  qed
qed


lemma wire_of_Cons: "k < length ps \<Longrightarrow> wire_of (drop k ps) = fst (ps ! k) @ wire_of (drop (Suc k) ps)"
  by (simp add: wire_of_def Cons_nth_drop_Suc[symmetric])

lemma plain_of_Cons: "k < length ps \<Longrightarrow> plain_of (drop k ps) = snd (ps ! k) @ plain_of (drop (Suc k) ps)"
  by (simp add: plain_of_def Cons_nth_drop_Suc[symmetric])

lemma packet_bounds:
  assumes "packets_ok ps" "k < length ps"
  shows "fst (ps ! k) \<noteq> [] \<and> length (fst (ps ! k)) \<le> TLS_MAX_PACKET_SIZE"
proof -
  have "ps ! k \<in> set ps" using assms(2) by simp
  from bspec[OF assms(1)[unfolded packets_ok_def] this] show ?thesis by (simp add: split_beta)
qed

lemma decrypted_packet_ok:
  assumes "decrypts_ok wire plain bs r" "bs = wire @ rest" "length bs < 2 ^ 32"
  shows "decrypted_packet r (length bs) os s h = (Val Again, s\<lparr>incoming := overwrite 0 (buf r) (incoming s),
    decrypted := Some (unat (out r)), available := length plain, used := length wire\<rparr>, h)"
proof -
  have l: "length plain \<le> length wire" "length (buf r) = length bs" using assms(1) by (simp_all add: decrypts_ok_def)
  have "unat (of_nat (length plain) :: 64 word) = length plain" "unat (of_nat (length rest) :: 64 word) = length rest"
    using assms(2,3) l by (simp_all add: unat_less_imp_eq_of_nat)
  then show ?thesis
    using assms l by (simp add: decrypts_ok_def decrypted_packet_def Let_def io_simps andthen_def)
qed

text \<open>An attempt to decrypt: either the next packet is opened, or the next packet has not arrived yet.\<close>

lemma try_decrypt_step:
  assumes law: "decrypts os ps" "packets_ok ps" and inv: "tls_state k data ps s h pending" "decrypted s = None" "received s \<noteq> 0"
  shows "(\<exists>s' g. try_decrypt n os s h = (Val Again, s', h @ g) \<and> tls_state k data ps s' (h @ g) pending \<and> held s' \<le> held s \<and>
      steps_left data ps s' (h @ g) < steps_left data ps s h) \<or>
    (\<exists>g. try_decrypt n os s h = (Val Need, s, h @ g) \<and> tls_state k data ps s (h @ g) pending \<and>
      steps_left data ps s (h @ g) = steps_left data ps s h \<and>
      received s < TLS_MAX_PACKET_SIZE \<and> drop (received_count k (h @ g)) data \<noteq> [])"
proof -
  let ?bs = "take (received s) (incoming s)" and ?rest = "drop (received_count k h) data" and ?o = "opened h"
  have st: "sock s = k" "length (incoming s) = TLS_MAX_PACKET_SIZE" "received s \<le> TLS_MAX_PACKET_SIZE"
    "?bs @ ?rest = wire_of (drop ?o ps)" "pending = plain_of (drop ?o ps)"
    using inv by (simp_all add: tls_state_def)
  obtain z where z: "sizes s = Some z" "cBuffers z = 4" using inv by (auto simp: tls_state_def)
  have ne: "?bs \<noteq> []" using inv(3) st(2) by auto
  have o: "?o < length ps"
  proof (rule ccontr)
    assume "\<not> ?o < length ps"
    then have "wire_of (drop ?o ps) = []" by (simp add: wire_of_def)
    with st(4) ne show False by simp
  qed
  obtain w p where wp: "ps ! ?o = (w, p)" by (cases "ps ! ?o")
  have w: "w \<noteq> []" "length w \<le> TLS_MAX_PACKET_SIZE" using packet_bounds[OF law(2) o] wp by simp_all
  have split: "?bs @ ?rest = w @ wire_of (drop (Suc ?o) ps)" using st(4) wire_of_Cons[OF o] wp by simp
  let ?c = "DecryptMessage ?bs"
  let ?r = "os h ?c" and ?g = "[(DecryptMessage ?bs, os h (DecryptMessage ?bs))]"
  have lbs: "length ?bs = received s" using st(2,3) by simp
  have run: "try_decrypt n os s h = (let sec = status_of ?r in
       if sec = SEC_E_OK then decrypted_packet ?r (received s)
       else if sec = SEC_I_CONTEXT_EXPIRED then andthen (modify (\<lambda>s. s\<lparr>received := 0\<rparr>)) (ret (Return n))
       else if sec = SEC_I_RENEGOTIATE then session_ticket ?r (received s)
       else if sec \<noteq> SEC_E_INCOMPLETE_MESSAGE then ret (Return (- 1))
       else ret Need) os s (h @ ?g)"
    using z by (simp add: try_decrypt_def bnd_gets_apply bnd_call_apply)
  show ?thesis
  proof (cases "length w \<le> length ?bs")
    case True
    define tail where "tail = drop (length w) ?bs"
    have bs: "?bs = w @ tail" and tl: "tail @ ?rest = wire_of (drop (Suc ?o) ps)"
      using append_split_longer[OF split True] unfolding tail_def by simp_all
    have ok: "decrypts_ok w p ?bs ?r"
      using law(1) o wp bs lbs st(3) unfolding decrypts_def by metis
    let ?s = "s\<lparr>incoming := overwrite 0 (buf ?r) (incoming s), decrypted := Some (unat (out ?r)), available := length p, used := length w\<rparr>"
    have "try_decrypt n os s h = (Val Again, ?s, h @ ?g)"
      using decrypted_packet_ok[OF ok bs] ok lbs st(3) unfolding run by (simp add: decrypts_ok_def)
    moreover have "tls_state k data ps ?s (h @ ?g) pending"
    proof -
      have lb: "length (buf ?r) = received s" using ok lbs by (simp add: decrypts_ok_def)
      have "take (received s - length w) (drop (length w) (overwrite 0 (buf ?r) (incoming s))) = tail"
        using lb True lbs ok by (simp add: overwrite_def tail_def decrypts_ok_def)
      moreover have "take (length p) (drop (unat (out ?r)) (overwrite 0 (buf ?r) (incoming s))) = p"
      proof -
        have "unat (out ?r) + length p \<le> length (buf ?r)" using ok True by (simp add: decrypts_ok_def)
        then show ?thesis using ok by (simp add: overwrite_def decrypts_ok_def)
      qed
      ultimately show ?thesis
        using st ok z lb True lbs tl plain_of_Cons[OF o] wp by (simp add: tls_state_def decrypts_ok_def)
    qed
    moreover have "held ?s \<le> held s"
    proof -
      have "length p \<le> length w" using ok by (simp add: decrypts_ok_def)
      moreover have "held ?s = length p + (received s - length w)" "held s = received s" using inv(2) by (simp_all add: held_def)
      ultimately show ?thesis using True lbs by linarith
    qed
    moreover have "steps_left data ps ?s (h @ ?g) < steps_left data ps s h"
      using ok inv(2) o by (simp add: steps_left_def decrypts_ok_def)
    ultimately show ?thesis by blast
  next
    case False
    have pre: "w = ?bs @ drop (length ?bs) w" "drop (length ?bs) w \<noteq> []" and rne: "?rest \<noteq> []"
      using append_split_shorter[OF split False[unfolded not_le]] by blast+
    have sec: "status_of ?r = SEC_E_INCOMPLETE_MESSAGE"
      using law(1) o wp pre unfolding decrypts_def by (metis fst_conv)
    have "try_decrypt n os s h = (Val Need, s, h @ ?g)" unfolding run using sec by (simp add: ret_apply)
    moreover have "tls_state k data ps s (h @ ?g) pending" using inv sec by (simp add: tls_state_def)
    moreover have "steps_left data ps s (h @ ?g) = steps_left data ps s h" using sec by (simp add: steps_left_def)
    moreover have "received s < TLS_MAX_PACKET_SIZE" using False w(2) lbs by linarith
    moreover have "drop (received_count k (h @ ?g)) data \<noteq> []" using rne by simp
    ultimately show ?thesis by blast
  qed
qed

text \<open>A receive, of bytes that are still to come.\<close>

lemma receive_step:
  assumes law: "delivers os k data" and inv: "tls_state k data ps s h pending" "decrypted s = None"
    and room: "received s < TLS_MAX_PACKET_SIZE" "drop (received_count k h) data \<noteq> []"
  shows "\<exists>d s' g. receive_more os s h = (Val d, s', h @ g) \<and> 0 < d \<and> tls_state k data ps s' (h @ g) pending \<and>
    steps_left data ps s' (h @ g) < steps_left data ps s h"
proof -
  let ?rest = "drop (received_count k h) data" and ?c = "Recv k (TLS_MAX_PACKET_SIZE - received s)"
  have st: "sock s = k" "length (incoming s) = TLS_MAX_PACKET_SIZE"
    "take (received s) (incoming s) @ ?rest = wire_of (drop (opened h) ps)" "pending = plain_of (drop (opened h) ps)"
    using inv by (simp_all add: tls_state_def)
  obtain z where z: "sizes s = Some z" "cBuffers z = 4" using inv by (auto simp: tls_state_def)
  obtain n where n: "int_of (os h ?c) = int n" "1 \<le> n" "n \<le> TLS_MAX_PACKET_SIZE - received s" "n \<le> length ?rest"
    "take n (buf (os h ?c)) = take n ?rest"
    using delivers_more[OF law room(2), of "TLS_MAX_PACKET_SIZE - received s"] room(1) by auto
  let ?s = "s\<lparr>incoming := overwrite (received s) (take n ?rest) (incoming s), received := received s + n\<rparr>"
  have "int (received s) + int n \<le> int TLS_MAX_PACKET_SIZE" using n(3) room(1) by linarith
  then have "receive_more os s h = (Val (int n), ?s, h @ [(?c, os h ?c)])"
    using n(1,2,3,5) room(1) by (simp add: receive_more_def st(1) bnd_gets_apply bnd_call_apply Let_def if_apply andthen_def bnd_modify_apply ret_apply)
  moreover have "tls_state k data ps ?s (h @ [(?c, os h ?c)]) pending"
  proof -
    have len: "length (take n ?rest) = n" using n(4) by simp
    have "take (received s + n) (overwrite (received s) (take n ?rest) (incoming s)) = take (received s) (incoming s) @ take n ?rest"
      using st(2) room(1) n(3) len by (simp add: overwrite_def)
    then have "take (received s + n) (overwrite (received s) (take n ?rest) (incoming s)) @ drop (received_count k h + n) data =
        wire_of (drop (opened h) ps)"
      using st(3) by (metis append.assoc append_take_drop_id drop_drop add.commute)
    then show ?thesis using st z n len inv(2) room(1) by (simp add: tls_state_def)
  qed
  moreover have "steps_left data ps ?s (h @ [(?c, os h ?c)]) < steps_left data ps s h"
    using n st(1) inv(2) by (simp add: steps_left_def)
  ultimately show ?thesis using n(2) by (intro exI[of _ "int n"] exI[of _ ?s] exI[of _ "[(?c, os h ?c)]"]) simp
qed


text \<open>
  A read of up to \<open>sz\<close> bytes.  It gives the plaintext that comes next and leaves the rest pending, gives
  nothing only at the end, and never more than the ciphertext it can hold.
\<close>

definition reads :: "tlscall os \<Rightarrow> HANDLE \<Rightarrow> BYTE list \<Rightarrow> packets \<Rightarrow> nat \<Rightarrow> BYTE list \<Rightarrow> tls_socket \<Rightarrow> tlscall history \<Rightarrow> BYTE list \<Rightarrow> nat \<Rightarrow> bool" where
  "reads os k data ps sz acc s h pending fuel \<longleftrightarrow> (\<exists>bs pending' s' g.
     tls_read_loop fuel sz acc os s h = (Val (int (length (acc @ bs)), acc @ bs), s', h @ g) \<and> pending = bs @ pending' \<and>
     length bs \<le> sz \<and> tls_state k data ps s' (h @ g) pending' \<and> (acc @ bs = [] \<longrightarrow> sz = 0 \<or> pending = []) \<and>
     steps_left data ps s' (h @ g) \<le> steps_left data ps s h \<and>
     length bs \<le> (if acc = [] then TLS_MAX_PACKET_SIZE else held s))"

lemma read_done:
  assumes "tls_state k data ps s h pending" "acc = [] \<longrightarrow> sz = 0 \<or> pending = []"
    and "tls_read_loop fuel sz acc os s h = (Val (int (length acc), acc), s, h @ g)" "tls_state k data ps s (h @ g) pending"
    and "steps_left data ps s (h @ g) \<le> steps_left data ps s h"
  shows "reads os k data ps sz acc s h pending fuel"
  unfolding reads_def using assms by (intro exI[of _ "[]"] exI[of _ pending] exI[of _ s] exI[of _ g]) simp

lemma read_on:
  assumes "reads os k data ps sz' (acc @ x) s1 (h @ g) pending1 fuel"
    and "tls_read_loop fuel' sz acc os s h = tls_read_loop fuel sz' (acc @ x) os s1 (h @ g)"
    and "pending = x @ pending1" "sz' + length x = sz"
    and "steps_left data ps s1 (h @ g) \<le> steps_left data ps s h"
    and "length x + held s1 \<le> held s \<or> x = [] \<and> acc = []" "length x \<le> TLS_MAX_PACKET_SIZE" "held s \<le> TLS_MAX_PACKET_SIZE"
  shows "reads os k data ps sz acc s h pending fuel'"
proof -
  obtain bs pending' s' g' where r: "tls_read_loop fuel sz' (acc @ x) os s1 (h @ g) = (Val (int (length ((acc @ x) @ bs)), (acc @ x) @ bs), s', (h @ g) @ g')"
    "pending1 = bs @ pending'" "length bs \<le> sz'" "tls_state k data ps s' ((h @ g) @ g') pending'"
    "(acc @ x) @ bs = [] \<longrightarrow> sz' = 0 \<or> pending1 = []" "steps_left data ps s' ((h @ g) @ g') \<le> steps_left data ps s1 (h @ g)"
    "length bs \<le> (if acc @ x = [] then TLS_MAX_PACKET_SIZE else held s1)"
    using assms(1) unfolding reads_def by blast
  have "length (x @ bs) \<le> (if acc = [] then TLS_MAX_PACKET_SIZE else held s)"
    using r(7) assms(6-8) by (auto split: if_splits)
  then show ?thesis
    unfolding reads_def using r assms(2-5)
    by (intro exI[of _ "x @ bs"] exI[of _ pending'] exI[of _ s'] exI[of _ "g @ g'"]) auto
qed

lemma held_le: "tls_state k data ps s h pending \<Longrightarrow> held s \<le> TLS_MAX_PACKET_SIZE"
  by (auto simp: tls_state_def held_def split: option.splits)

lemma wire_of_Nil: "packets_ok ps \<Longrightarrow> wire_of (drop k ps) = [] \<Longrightarrow> drop k ps = []"
  using packet_bounds[of ps k] wire_of_Cons[of k ps] by (cases "k < length ps") auto

lemma tls_state_same:
  "received_count k (h @ g) = received_count k h \<Longrightarrow> opened (h @ g) = opened h \<Longrightarrow>
   tls_state k data ps s (h @ g) pending = tls_state k data ps s h pending"
  by (simp only: tls_state_def)

text \<open>A receive behind the end.\<close>

lemma receive_end:
  assumes "delivers os k data" "tls_state k data ps s h pending" "drop (received_count k h) data = []"
  shows "\<exists>g. receive_more os s h = (Val 0, s, h @ g) \<and> tls_state k data ps s (h @ g) pending \<and>
    steps_left data ps s (h @ g) = steps_left data ps s h"
proof -
  let ?c = "Recv k (TLS_MAX_PACKET_SIZE - received s)"
  have s: "sock s = k" using assms(2) by (simp add: tls_state_def)
  have z: "int_of (os h ?c) = 0" by (rule delivers_end[OF assms(1,3)])
  have "receive_more os s h = (Val 0, s, h @ [(?c, os h ?c)])"
    using z by (simp add: receive_more_def s bnd_gets_apply bnd_call_apply Let_def ret_apply)
  moreover have "tls_state k data ps s (h @ [(?c, os h ?c)]) pending"
    using assms(2) z by (subst tls_state_same) simp_all
  ultimately show ?thesis using z s by (intro exI[of _ "[(?c, os h ?c)]"]) (simp add: steps_left_def)
qed

declare tls_read_loop.simps(2) [simp del]

lemma read_loop_reads:
  assumes law: "delivers os k data" "decrypts os ps" "packets_ok ps"
  shows "tls_state k data ps s h pending \<Longrightarrow> steps_left data ps s h + 2 \<le> fuel \<or> sz = 0 \<and> 0 < fuel \<Longrightarrow>
    reads os k data ps sz acc s h pending fuel"
proof (induction fuel arbitrary: sz acc s h pending)
  case (Suc fuel)
  note inv = Suc.prems(1)
  show ?case
  proof (cases "sz = 0")
    case True
    then show ?thesis using inv by (intro read_done[where g = "[]"]) (simp_all add: tls_read_loop.simps ret_apply)
  next
    case False
    then have fuel: "steps_left data ps s h + 1 \<le> fuel" using Suc.prems(2) by simp
    show ?thesis
    proof (cases "decrypted s")
      case (Some p)
      define use where "use = min sz (available s)"
      have use: "use \<le> available s" "use \<le> sz" "use = available s \<or> use = sz" by (auto simp: use_def)
      obtain s' where s': "take_plain p use os s h = (Val (take use pending), s', h)" "tls_state k data ps s' h (drop use pending)"
        "use + held s' = held s" "steps_left data ps s' h \<le> steps_left data ps s h"
        "use = available s \<longrightarrow> steps_left data ps s' h < steps_left data ps s h"
        using take_plain_step[OF inv Some use(1), of os] by blast
      have avail: "available s \<le> length pending" using inv Some by (auto simp: tls_state_def)
      have len: "length (take use pending) = use" using avail use(1) by simp
      have "reads os k data ps (sz - use) (acc @ take use pending) s' (h @ []) (drop use pending) fuel"
        using s'(5) fuel use(3) Suc.IH[OF s'(2), of "sz - use" "acc @ take use pending"] by auto
      moreover have "tls_read_loop (Suc fuel) sz acc os s h = tls_read_loop fuel (sz - use) (acc @ take use pending) os s' (h @ [])"
        unfolding tls_read_loop.simps using False Some s'(1) by (simp add: bnd_gets_apply Let_def use_def bnd_def[of "take_plain _ _"])
      ultimately show ?thesis
      proof (rule read_on)
        show "pending = take use pending @ drop use pending" by simp
        show "sz - use + length (take use pending) = sz" using len use(2) by simp
        show "steps_left data ps s' (h @ []) \<le> steps_left data ps s h" using s'(4) by simp
        show "length (take use pending) + held s' \<le> held s \<or> take use pending = [] \<and> acc = []" using s'(3) len by simp
        show "held s \<le> TLS_MAX_PACKET_SIZE" by (rule held_le[OF inv])
        then show "length (take use pending) \<le> TLS_MAX_PACKET_SIZE" using s'(3) len by simp
      qed
    next
      case None
      have again: ?thesis if a: "reads os k data ps sz acc s1 (h @ g) pending fuel"
          "tls_read_loop (Suc fuel) sz acc os s h = tls_read_loop fuel sz acc os s1 (h @ g)"
          "steps_left data ps s1 (h @ g) \<le> steps_left data ps s h" "held s1 \<le> held s \<or> acc = []" for s1 g
      proof (rule read_on)
        show "reads os k data ps sz (acc @ []) s1 (h @ g) pending fuel" using a(1) by simp
        show "tls_read_loop (Suc fuel) sz acc os s h = tls_read_loop fuel sz (acc @ []) os s1 (h @ g)" using a(2) by (simp only: append_Nil2)
        show "held s \<le> TLS_MAX_PACKET_SIZE" by (rule held_le[OF inv])
      qed (use a(3,4) in simp_all)
      have unfold: "tls_read_loop (Suc fuel) sz acc os s h =
          bnd (if received s \<noteq> 0 then try_decrypt (int (length acc)) else ret Need) (\<lambda>a. case a of
            Again \<Rightarrow> tls_read_loop fuel sz acc
          | Return n \<Rightarrow> ret (n, acc)
          | Need \<Rightarrow> if acc \<noteq> [] then ret (int (length acc), acc)
              else if received s = TLS_MAX_PACKET_SIZE then ret (- 1, acc)
              else bnd receive_more (\<lambda>d. if d = 0 then ret (0, acc) else if d < 0 then ret (- 1, acc)
                else tls_read_loop fuel sz acc)) os s h"
        unfolding tls_read_loop.simps using False None by (simp add: bnd_gets_apply)
      have after_need: ?thesis
        if n: "(if received s \<noteq> 0 then try_decrypt (int (length acc)) else ret Need) os s h = (Val Need, s, h @ g)"
          "tls_state k data ps s (h @ g) pending" "steps_left data ps s (h @ g) = steps_left data ps s h"
          "received s < TLS_MAX_PACKET_SIZE" "drop (received_count k (h @ g)) data = [] \<longrightarrow> pending = []" for g
      proof -
        have need: "bnd (if received s \<noteq> 0 then try_decrypt (int (length acc)) else ret Need) f os s h = f Need os s (h @ g)" for f
          by (rule bnd_Val) (rule n(1))
        show ?thesis
        proof (cases "acc = []")
        case acc: False
        then have "tls_read_loop (Suc fuel) sz acc os s h = (Val (int (length acc), acc), s, h @ g)"
          unfolding unfold need by (simp add: ret_apply)
        then show ?thesis using inv n acc by (intro read_done[where g = g]) simp_all
      next
        case acc: True
        have recv: "tls_read_loop (Suc fuel) sz acc os s h = bnd receive_more (\<lambda>d. if d = 0 then ret (0, acc)
            else if d < 0 then ret (- 1, acc) else tls_read_loop fuel sz acc) os s (h @ g)"
          using n(4) acc unfolding unfold need by simp
        show ?thesis
        proof (cases "drop (received_count k (h @ g)) data = []")
          case True
          obtain g' where g': "receive_more os s (h @ g) = (Val 0, s, (h @ g) @ g')" "tls_state k data ps s ((h @ g) @ g') pending"
            "steps_left data ps s ((h @ g) @ g') = steps_left data ps s (h @ g)"
            using receive_end[OF law(1) n(2) True] by blast
          then show ?thesis using inv n True acc recv
            by (intro read_done[where g = "g @ g'"]) (simp_all add: bnd_def[of receive_more] ret_apply)
        next
          case False
          obtain d s1 g1 where r: "receive_more os s (h @ g) = (Val d, s1, (h @ g) @ g1)" "0 < d"
            "tls_state k data ps s1 ((h @ g) @ g1) pending" "steps_left data ps s1 ((h @ g) @ g1) < steps_left data ps s (h @ g)"
            using receive_step[OF law(1) n(2) None n(4) False] by blast
          have "reads os k data ps sz acc s1 ((h @ g) @ g1) pending fuel"
            using r(4) n(3) fuel by (intro Suc.IH[OF r(3)]) auto
          then show ?thesis using r n(3) acc recv
            by (intro again[of s1 "g @ g1"]) (simp_all add: bnd_def[of receive_more])
        qed
        qed
      qed
      show ?thesis
      proof (cases "received s = 0")
        case True
        have "drop (received_count k h) data = [] \<longrightarrow> pending = []"
          using inv None True wire_of_Nil[OF law(3), of "opened h"] by (auto simp: tls_state_def plain_of_def)
        then show ?thesis using inv True by (intro after_need[of "[]"]) (simp_all add: ret_apply)
      next
        case nz: False
        from try_decrypt_step[OF law(2,3) inv None nz, of "int (length acc)"] show ?thesis
        proof (elim disjE exE conjE)
          fix s1 g
          assume r: "try_decrypt (int (length acc)) os s h = (Val Again, s1, h @ g)" "tls_state k data ps s1 (h @ g) pending"
            "held s1 \<le> held s" "steps_left data ps s1 (h @ g) < steps_left data ps s h"
          have "reads os k data ps sz acc s1 (h @ g) pending fuel"
            using r(4) fuel by (intro Suc.IH[OF r(2)]) auto
          then show ?thesis using r nz unfold by (intro again[of s1 g]) (simp_all add: bnd_def[of "try_decrypt _"])
        next
          fix g
          assume r: "try_decrypt (int (length acc)) os s h = (Val Need, s, h @ g)" "tls_state k data ps s (h @ g) pending"
            "steps_left data ps s (h @ g) = steps_left data ps s h" "received s < TLS_MAX_PACKET_SIZE" "drop (received_count k (h @ g)) data \<noteq> []"
          then show ?thesis using nz by (intro after_need[of g]) simp_all
        qed
      qed
    qed
  qed
qed simp


text \<open>
  C28: \<open>tls_read\<close> is a read of the stream of plaintexts.  However the packets are cut into pieces on the way
  and however small the caller's buffer is, it returns the bytes that come next, at most the ciphertext it can
  hold, and leaves the others pending; it returns none only when the buffer is empty or nothing is to come.
\<close>

theorem tls_read_refines:
  assumes "delivers os k data" "decrypts os ps" "packets_ok ps"
    and "tls_state k data ps s h pending" "steps_left data ps s h + 2 \<le> fuel"
  shows "\<exists>bs pending' s' g. tls_read fuel sz os s h = (Val (int (length bs), bs), s', h @ g) \<and> pending = bs @ pending' \<and>
    tls_state k data ps s' (h @ g) pending' \<and> steps_left data ps s' (h @ g) \<le> steps_left data ps s h \<and>
    length bs \<le> min sz TLS_MAX_PACKET_SIZE \<and> (bs = [] \<longrightarrow> sz = 0 \<or> pending = [])"
proof -
  have "reads os k data ps sz [] s h pending fuel"
    by (rule read_loop_reads[OF assms(1-4)]) (use assms(5) in simp)
  then obtain bs pending' s' g where "tls_read_loop fuel sz [] os s h = (Val (int (length ([] @ bs)), [] @ bs), s', h @ g)"
    "pending = bs @ pending'" "length bs \<le> sz" "tls_state k data ps s' (h @ g) pending'" "[] @ bs = [] \<longrightarrow> sz = 0 \<or> pending = []"
    "steps_left data ps s' (h @ g) \<le> steps_left data ps s h" "length bs \<le> TLS_MAX_PACKET_SIZE"
    unfolding reads_def by auto
  then show ?thesis unfolding tls_read_def
    by (intro exI[of _ bs] exI[of _ pending'] exI[of _ s'] exI[of _ g]) simp
qed

section \<open>The response\<close>

text \<open>What has been written to the file.\<close>

fun written :: "tlscall history \<Rightarrow> BYTE list" where
  "written [] = []"
| "written ((write_file bs, r) # h) = bs @ written h"
| "written ((c, r) # h) = written h"

lemma written_append [simp]: "written (g @ h) = written g @ written h"
  by (induction g rule: written.induct) auto

definition no_write :: "tlscall \<Rightarrow> bool" where
  "no_write c \<longleftrightarrow> (case c of write_file bs \<Rightarrow> False | _ \<Rightarrow> True)"

lemma no_write_written: "list_all (\<lambda>x. no_write (fst x)) g \<Longrightarrow> written g = []"
  by (induction g rule: written.induct) (auto simp: no_write_def)

lemma no_write_simps [simp]: "no_write (Send s bs)" "no_write (Recv s n)" "no_write (DecryptMessage bs)" "no_write (InitializeSecurityContext i)"
  by (simp_all add: no_write_def)

lemma receive_more_no_write: "emits no_write receive_more"
  by (auto simp: receive_more_def Let_def intro!: emits_intro)

lemma try_decrypt_no_write: "emits no_write (try_decrypt n)"
  by (auto simp: try_decrypt_def decrypted_packet_def session_ticket_def abort_call_def Let_def intro!: emits_intro split: list.splits)

lemma take_plain_no_write: "emits no_write (take_plain p use)"
  by (auto simp: take_plain_def intro!: emits_intro)

lemma tls_read_loop_no_write: "emits no_write (tls_read_loop fuel sz acc)"
proof (induction fuel arbitrary: sz acc)
  case (Suc fuel)
  then show ?case unfolding tls_read_loop.simps
    by (auto simp: Let_def intro!: emits_intro receive_more_no_write try_decrypt_no_write take_plain_no_write split: attempt.splits)
qed simp

lemma text_mode_append [simp]: "text_mode (a @ b) = text_mode a @ text_mode b"
  by (simp add: text_mode_def)

text \<open>A disk that takes every write.\<close>

definition writes_ok :: "tlscall os \<Rightarrow> bool" where
  "writes_ok os \<longleftrightarrow> (\<forall>h bs. rv (os h (write_file bs)) \<noteq> 0)"

lemma response_read:
  assumes law: "delivers os k data" "decrypts os ps" "packets_ok ps" and disk: "writes_ok os"
  shows "tls_state k data ps s h pending \<Longrightarrow> steps_left data ps s h + 2 \<le> fuel \<Longrightarrow> 0 \<notin> set pending \<Longrightarrow> length pending < n \<Longrightarrow>
    \<exists>s' g. read_response n fuel True os s h = (Val (), s', h @ g) \<and> written g = text_mode pending"
proof (induction n arbitrary: s h pending)
  case (Suc n)
  obtain bs pending' s1 g where r: "tls_read fuel buf_size os s h = (Val (int (length bs), bs), s1, h @ g)" "pending = bs @ pending'"
    "tls_state k data ps s1 (h @ g) pending'" "steps_left data ps s1 (h @ g) \<le> steps_left data ps s h"
    "length bs \<le> min buf_size TLS_MAX_PACKET_SIZE" "bs = [] \<longrightarrow> buf_size = 0 \<or> pending = []"
    using tls_read_refines[OF law Suc.prems(1,2), of buf_size] by blast
  have w: "written g = []"
    using emitsD[OF tls_read_loop_no_write] no_write_written r(1) unfolding tls_read_def by (metis same_append_eq)
  show ?case
  proof (cases "bs = []")
    case True
    then show ?thesis using r w by (simp add: bnd_def[of "tls_read _ _"] ret_apply text_mode_def)
  next
    case False
    let ?c = "write_file (text_mode bs)" and ?h = "h @ g"
    have tw: "takeWhile (\<lambda>b. b \<noteq> 0) bs = bs" using Suc.prems(3) r(2) by (auto simp: takeWhile_eq_all_conv)
    have wt: "write_text True bs = bnd (call ?c) (\<lambda>r. ret (rv r \<noteq> 0))" unfolding write_text_def tw using r(5) False by simp
    have lp: "length pending' < n" using Suc.prems(4) r(2) False by (cases bs) auto
    have st: "tls_state k data ps s1 (?h @ [(?c, os ?h ?c)]) pending'"
      using r(3) by (subst tls_state_same) simp_all
    have "\<exists>s' g'. read_response n fuel True os s1 (?h @ [(?c, os ?h ?c)]) = (Val (), s', (?h @ [(?c, os ?h ?c)]) @ g') \<and> written g' = text_mode pending'"
      using st Suc.prems r lp by (intro Suc.IH) (auto simp: steps_left_def)
    then obtain s' g' where "read_response n fuel True os s1 (?h @ [(?c, os ?h ?c)]) = (Val (), s', (?h @ [(?c, os ?h ?c)]) @ g')" "written g' = text_mode pending'"
      by blast
    moreover have "read_response (Suc n) fuel True os s h = read_response n fuel True os s1 (?h @ [(?c, os ?h ?c)])"
      using r(1) False wt disk by (simp add: bnd_def[of "tls_read _ _"] bnd_bnd bnd_call_apply bnd_ret writes_ok_def)
    ultimately show ?thesis using r(2) w by (intro exI[of _ s'] exI[of _ "g @ [(?c, os ?h ?c)] @ g'"]) simp
  qed
qed simp

section \<open>Writing and reading\<close>

fun sent_bytes :: "HANDLE \<Rightarrow> tlscall history \<Rightarrow> BYTE list" where
  "sent_bytes s [] = []"
| "sent_bytes s ((Send s' bs, r) # h) = (if s' = s then take (nat (int_of r)) bs else []) @ sent_bytes s h"
| "sent_bytes s ((c, r) # h) = sent_bytes s h"

text \<open>The packets that were made, as they are on the wire, each with its plaintext.\<close>

fun sent_packets :: "tlscall history \<Rightarrow> packets" where
  "sent_packets [] = []"
| "sent_packets ((EncryptMessage bs, r) # h) =
     (take (unat (sum_list (map (ucast :: _ \<Rightarrow> DWORD) (outs r)))) (buf r), bs) # sent_packets h"
| "sent_packets ((c, r) # h) = sent_packets h"

lemma tls_sent_append [simp]: "sent_bytes s (g @ h) = sent_bytes s g @ sent_bytes s h"
  by (induction s g rule: sent_bytes.induct) auto

lemma sent_packets_append [simp]: "sent_packets (g @ h) = sent_packets g @ sent_packets h"
  by (induction g rule: sent_packets.induct) auto

lemma send_all_sends:
  "send_all fuel bs os s h = (Val True, s', h') \<Longrightarrow> \<exists>g. h' = h @ g \<and> sent_bytes (sock s) g = bs \<and> sent_packets g = [] \<and> s' = s"
proof (induction fuel arbitrary: bs h)
  case (Suc fuel)
  show ?case
  proof (cases "bs = []")
    case True
    then show ?thesis using Suc.prems by (simp add: ret_apply)
  next
    case False
    let ?c = "Send (sock s) bs"
    have ok: "send_all fuel (drop (nat (int_of (os h ?c))) bs) os s (h @ [(?c, os h ?c)]) = (Val True, s', h')"
      using Suc.prems False by (simp add: bnd_gets_apply bnd_call_apply Let_def if_apply fault_apply ret_apply split: if_splits)
    obtain g where "h' = (h @ [(?c, os h ?c)]) @ g" "sent_bytes (sock s) g = drop (nat (int_of (os h ?c))) bs" "sent_packets g = []" "s' = s"
      using Suc.IH[OF ok] by blast
    then show ?thesis by (intro exI[of _ "[(?c, os h ?c)] @ g"]) simp
  qed
qed (simp add: running_apply)

lemma send_record_sends:
  assumes "send_record fuel d os s h = (Val True, s', h')"
  shows "\<exists>g. h' = h @ g \<and> sent_bytes (sock s) g = wire_of (sent_packets g) \<and> map snd (sent_packets g) = [d] \<and> s' = s"
proof -
  let ?r = "os h (EncryptMessage d)"
  let ?w = "take (unat (sum_list (map (ucast :: _ \<Rightarrow> DWORD) (outs ?r)))) (buf ?r)"
  have "send_all fuel ?w os s (h @ [(EncryptMessage d, ?r)]) = (Val True, s', h')"
    using assms by (simp add: send_record_def bnd_call_apply Let_def if_apply fault_apply ret_apply split: if_splits)
  from send_all_sends[OF this] obtain g where "h' = (h @ [(EncryptMessage d, ?r)]) @ g" "sent_bytes (sock s) g = ?w" "sent_packets g = []" "s' = s"
    by blast
  then show ?thesis by (intro exI[of _ "[(EncryptMessage d, ?r)] @ g"]) (simp add: wire_of_def)
qed

lemma tls_write_sends:
  "tls_write fuel bs os s h = (Val 0, s', h') \<Longrightarrow>
   \<exists>g. h' = h @ g \<and> sent_bytes (sock s) g = wire_of (sent_packets g) \<and> plain_of (sent_packets g) = bs \<and> s' = s"
proof (induction fuel arbitrary: bs h)
  case (Suc fuel)
  show ?case
  proof (cases "bs = []")
    case True
    then show ?thesis using Suc.prems by (simp add: ret_apply wire_of_def plain_of_def)
  next
    case False
    obtain z where z: "sizes s = Some z"
      using Suc.prems False by (cases "sizes s") (auto simp: bnd_gets_apply fault_apply)
    let ?use = "min (length bs) (unat (cbMaximumMessage z))"
    obtain oc s1 h1 where r: "send_record fuel (take ?use bs) os s h = (oc, s1, h1)" by (cases "send_record fuel (take ?use bs) os s h")
    have run: "bnd (send_record fuel (take ?use bs)) (\<lambda>ok. if \<not> ok then ret (- 1) else tls_write fuel (drop ?use bs)) os s h = (Val 0, s', h')"
      using Suc.prems False z by (simp add: bnd_gets_apply Let_def if_apply fault_apply abort_call_def halt_apply split: if_splits)
    then have "oc = Val True" "tls_write fuel (drop ?use bs) os s1 h1 = (Val 0, s', h')"
      using r by (cases oc; auto simp: bnd_def[of "send_record _ _"] ret_apply split: if_splits)+
    moreover from send_record_sends r this(1) obtain g where g: "h1 = h @ g" "sent_bytes (sock s) g = wire_of (sent_packets g)"
      "map snd (sent_packets g) = [take ?use bs]" "s1 = s" by blast
    ultimately obtain g2 where "h' = h1 @ g2" "sent_bytes (sock s) g2 = wire_of (sent_packets g2)" "plain_of (sent_packets g2) = drop ?use bs" "s' = s"
      using Suc.IH[of "drop ?use bs" h1] by auto
    with g show ?thesis by (intro exI[of _ "g @ g2"]) (simp add: wire_of_def plain_of_def)
  qed
qed (simp add: running_apply)


text \<open>A socket just connected, on which nothing has been read.\<close>

definition connected :: "HANDLE \<Rightarrow> tls_socket \<Rightarrow> bool" where
  "connected k s \<longleftrightarrow> sock s = k \<and> received s = 0 \<and> decrypted s = None \<and> length (incoming s) = TLS_MAX_PACKET_SIZE \<and>
     (\<exists>z. sizes s = Some z \<and> cBuffers z = 4)"

text \<open>
  C29: What \<open>tls_write\<close> sends in packets of at most \<open>cbMaximumMessage\<close> bytes, the loop of \<open>main\<close> at the other
  end reads and writes to its file, for a security package that decrypts what was encrypted, a text without a zero byte,
  at which \<open>myfile << buf\<close> would stop, and a disk that takes every write: the file has the text with each
  line feed as carriage return and line feed, for it is open in text mode.
\<close>

theorem tls_round_trip:
  assumes "tls_write fuel text os s h = (Val 0, s1, h @ g)"
    and "delivers os' k (sent_bytes (sock s) g)" "decrypts os' (sent_packets g)" "packets_ok (sent_packets g)" "writes_ok os'"
    and "connected k s'" "0 \<notin> set text" "length text < n" "length (sent_bytes (sock s) g) + 2 * length (sent_packets g) + 2 \<le> fuel'"
  shows "\<exists>s2 g'. read_response n fuel' True os' s' [] = (Val (), s2, g') \<and> written g' = text_mode text"
proof -
  have sent: "sent_bytes (sock s) g = wire_of (sent_packets g)" "plain_of (sent_packets g) = text"
    using tls_write_sends[OF assms(1)] by auto
  have "tls_state k (sent_bytes (sock s) g) (sent_packets g) s' [] text"
    using assms(6) sent by (simp add: connected_def tls_state_def)
  from response_read[OF assms(2-5) this _ assms(7,8), of fuel'] assms(6,9) show ?thesis
    by (auto simp: steps_left_def connected_def)
qed

section \<open>Faults of the handshake\<close>

lemma receive_more_grows: "emits (\<lambda>_. True) receive_more"
  by (auto simp: receive_more_def Let_def intro!: emits_intro)

lemma send_all_grows: "emits (\<lambda>_. True) (send_all fuel bs)"
  by (induction fuel arbitrary: bs) (auto simp: Let_def intro!: emits_intro)

lemma handshake_grows: "emits (\<lambda>_. True) (handshake fuel context)"
proof (induction fuel arbitrary: "context")
  case (Suc fuel)
  then show ?case
    by (auto simp: Let_def keep_extra_def intro!: emits_intro receive_more_grows send_all_grows split: list.splits)
qed simp

lemma first_call:
  assumes "\<And>r. emits (\<lambda>_. True) (f r)"
  shows "\<exists>g. history_of (bnd (call c) f os s h) = h @ (c, os h c) # g"
  using assms[of "os h c"] unfolding emits_def bnd_call_apply by (metis append.assoc append_Cons append_Nil)

text \<open>
  A handshake message that arrives in two pieces is lost: when the security package has asked for more, the
  first piece is thrown away, and only the second one is presented to it next.
\<close>

theorem split_handshake_lost:
  assumes "r1 = os h (InitializeSecurityContext (Some first))" "first = take (received s) (incoming s)"
    and "status_of r1 = SEC_E_INCOMPLETE_MESSAGE" "outs r1 = []"
    and "r2 = os (h @ [(InitializeSecurityContext (Some first), r1)]) (Recv (sock s) TLS_MAX_PACKET_SIZE)"
    and "int_of r2 = int (length second)" "buf r2 = second" "second \<noteq> []"
    and "length second \<le> TLS_MAX_PACKET_SIZE" "length (incoming s) = TLS_MAX_PACKET_SIZE"
  shows "\<exists>r3 g. history_of (handshake (Suc (Suc fuel)) True os s h) =
    h @ [(InitializeSecurityContext (Some first), r1), (Recv (sock s) TLS_MAX_PACKET_SIZE, r2), (InitializeSecurityContext (Some second), r3)] @ g"
proof -
  let ?h = "h @ [(InitializeSecurityContext (Some first), r1), (Recv (sock s) TLS_MAX_PACKET_SIZE, r2)]"
  let ?s = "s\<lparr>incoming := overwrite 0 second (incoming s), received := length second\<rparr>"
  have "handshake (Suc (Suc fuel)) True os s h = handshake (Suc fuel) True os ?s ?h"
    using assms(3,4,6-9)
    by (subst handshake.simps(2))
      (simp add: bnd_gets_apply bnd_call_apply assms(1)[symmetric] assms(2)[symmetric] assms(5)[symmetric] keep_extra_def andthen_def
        bnd_modify_apply bnd_bnd receive_more_def Let_def if_apply bnd_if bnd_ret del: handshake.simps)
  moreover have "\<exists>r3 g. history_of (handshake (Suc fuel) True os ?s ?h) = ?h @ (InitializeSecurityContext (Some second), r3) # g"
  proof -
    have snd: "take (received ?s) (incoming ?s) = second" using assms(9) by (simp add: overwrite_def)
    show ?thesis unfolding handshake.simps
      by (subst bnd_gets_apply, unfold if_True snd, rule exI, rule first_call)
        (auto simp: Let_def keep_extra_def intro!: emits_intro receive_more_grows send_all_grows handshake_grows split: list.splits)
  qed
  ultimately show ?thesis by auto
qed

lemma send_all_whole:
  assumes "\<And>h. int_of (os h (Send (sock s) bs)) = int (length bs)" "1 < fuel"
  shows "\<exists>g. send_all fuel bs os s h = (Val True, s, h @ g)"
proof -
  obtain n where n: "fuel = Suc (Suc n)" using assms(2) by (metis less_imp_Suc_add plus_1_eq_Suc add_Suc)
  show ?thesis
    by (cases "bs = []") (use assms(1) in \<open>auto simp: n bnd_gets_apply bnd_call_apply Let_def ret_apply if_apply\<close>)
qed

lemma handshake_closed:
  assumes "\<And>h i. status_of (os h (InitializeSecurityContext i)) = SEC_I_CONTINUE_NEEDED"
    and "\<And>h h' i k. int_of (os h (Send k (buf (os h' (InitializeSecurityContext i))))) = int (length (buf (os h' (InitializeSecurityContext i))))"
    and "\<And>h k n. int_of (os h (Recv k n)) = 0" "2 < fuel"
  shows "\<exists>s' g. handshake fuel False os s h = (Val None, s', h @ g) \<and> sizes s' = sizes s"
proof -
  obtain n where n: "fuel = Suc n" "1 < n" using assms(4) by (cases fuel) auto
  let ?c = "InitializeSecurityContext None"
  let ?s = "s\<lparr>received := 0\<rparr>" and ?h = "h @ [(?c, os h ?c)]"
  obtain g where g: "send_all n (buf (os h ?c)) os ?s ?h = (Val True, ?s, ?h @ g)"
    using send_all_whole[of os ?s "buf (os h ?c)" n ?h] assms(2) n(2) by auto
  show ?thesis unfolding n(1) handshake.simps
    using g assms(1,3)
    by (simp add: bnd_gets_apply bnd_call_apply keep_extra_def andthen_def bnd_modify_apply bnd_bnd Let_def if_apply
      bnd_def[of "send_all _ _"] do_call_def bnd_ret receive_more_def bnd_if ret_apply)
qed

text \<open>
  When the server closes the connection during the handshake, \<open>tls_connect\<close> returns success; \<open>main\<close> goes on
  to \<open>tls_write\<close>, which reads the sizes that nobody has filled in.
\<close>

theorem early_disconnect_faults:
  assumes "\<And>h. int_of (os h WSAStartup) = 0" "\<And>h. rv (os h socket_call) \<noteq> InvalidHandleValue"
    and "\<And>h c. int_of (os h (WSAConnectByNameW c)) \<noteq> 0" "\<And>h. status_of (os h AcquireCredentialsHandleW) = SEC_E_OK"
    and "\<And>h i. status_of (os h (InitializeSecurityContext i)) = SEC_I_CONTINUE_NEEDED"
    and "\<And>h h' i k. int_of (os h (Send k (buf (os h' (InitializeSecurityContext i))))) = int (length (buf (os h' (InitializeSecurityContext i))))"
    and "\<And>h k n. int_of (os h (Recv k n)) = 0"
    and "sizes s = None" "2 < fuel"
  shows "outcome_of (tls_main n fuel os s h) = Fault"
proof -
  have connect: "\<exists>s' h'. tls_connect fuel os s h = (Val 0, s', h') \<and> sizes s' = None"
  proof -
    define h1 where "h1 = h @ [(WSAStartup, os h WSAStartup)]"
    define k where "k = rv (os h1 socket_call)"
    define h2 where "h2 = h1 @ [(socket_call, os h1 socket_call)]"
    define h3 where "h3 = h2 @ [(WSAConnectByNameW k, os h2 (WSAConnectByNameW k))]"
    define h4 where "h4 = h3 @ [(AcquireCredentialsHandleW, os h3 AcquireCredentialsHandleW)]"
    let ?s = "s\<lparr>sock := k, received := 0, used := 0, available := 0, decrypted := None\<rparr>"
    obtain s' g where r: "handshake fuel False os ?s h4 = (Val None, s', h4 @ g)" "sizes s' = sizes ?s"
      using handshake_closed[of os fuel ?s h4, OF assms(5) assms(6) assms(7) assms(9)] by blast
    have "k \<noteq> InvalidHandleValue" using assms(2) by (simp add: k_def)
    then have "tls_connect fuel os s h = (Val 0, s', h4 @ g)"
      using assms(1-4) r(1)
      by (simp add: tls_connect_def bnd_call_apply if_apply andthen_def bnd_modify_apply bnd_bnd bnd_def[of "handshake _ _"] ret_apply
        h1_def[symmetric] h2_def[symmetric] h3_def[symmetric] h4_def[symmetric] k_def[symmetric])
    then show ?thesis using r(2) assms(8) by simp
  qed
  then obtain s' h' where c: "tls_connect fuel os s h = (Val 0, s', h')" "sizes s' = None" by blast
  obtain n' where "fuel = Suc n'" using assms(9) by (cases fuel) auto
  then have "outcome_of (tls_write fuel request os s' h') = Fault"
    using c(2) by (simp add: request_def bnd_gets_apply fault_apply)
  then show ?thesis using c(1) by (simp add: tls_main_def bnd_def[of "tls_connect _"] outcome_bnd_Fault)
qed


section \<open>Runs\<close>

text \<open>
  A package that puts a byte in front and one behind and does not encrypt, over a connection that carries
  one byte at a time.
\<close>

definition frame :: "BYTE list \<Rightarrow> BYTE list \<times> BYTE list" where
  "frame p = (23 # p @ [0], p)"

definition open_frame :: "BYTE list \<times> BYTE list \<Rightarrow> BYTE list \<Rightarrow> resp" where
  "open_frame wp bs = (case wp of (w, p) \<Rightarrow> if take (length w) bs = w
     then fail_resp\<lparr>out := 1, buf := bs, outs := [SECBUFFER_STREAM_HEADER, SECBUFFER_DATA, SECBUFFER_STREAM_TRAILER,
       (if w = bs then 0 else SECBUFFER_EXTRA), 1, of_nat (length p), of_nat (length bs - length w)]\<rparr>
     else fail_resp\<lparr>rv := 0x80090318\<rparr>)"

definition framing :: "BYTE list \<Rightarrow> packets \<Rightarrow> tlscall os" where
  "framing data ps h c = (case c of
     Send s bs \<Rightarrow> ok_resp
   | write_file bs \<Rightarrow> ok_resp
   | Recv s n \<Rightarrow> (case drop (received_count s h) data of [] \<Rightarrow> fail_resp | b # bs \<Rightarrow> ok_resp\<lparr>buf := [b]\<rparr>)
   | EncryptMessage p \<Rightarrow> fail_resp\<lparr>buf := 23 # p @ [0], outs := [1, of_nat (length p), 1]\<rparr>
   | DecryptMessage bs \<Rightarrow> open_frame (ps ! opened h) bs
   | InitializeSecurityContext i \<Rightarrow> fail_resp\<lparr>rv := 0x80090318\<rparr>
   | _ \<Rightarrow> fail_resp)"

lemma int_of_ok [simp]: "int_of \<lparr>rv = 1, out = w, buf = b, outs = ws, rows = bs\<rparr> = 1" "int_of \<lparr>rv = 0, out = w, buf = b, outs = ws, rows = bs\<rparr> = 0"
  by (simp_all add: int_of_def)

lemma framing_delivers: "delivers (framing data ps) s data"
  by (auto simp: delivers_def framing_def Let_def neq_Nil_conv dest: arg_cong[of _ _ length] split: list.splits)

lemma framing_decrypts: "decrypts (framing data (map frame xs)) (map frame xs)"
  unfolding decrypts_def
proof (intro conjI allI impI)
  fix h wire plain more'
  assume "opened h < length (map frame xs)" "map frame xs ! opened h = (wire, plain)"
  then have "wire = 23 # plain @ [0]" "map frame xs ! opened h = (wire, plain)" by (auto simp: frame_def)
  then show "decrypts_ok wire plain (wire @ more') (framing data (map frame xs) h (DecryptMessage (wire @ more')))"
    by (simp add: decrypts_ok_def framing_def open_frame_def status_of_def)
next
  fix h bs rest
  assume "opened h < length (map frame xs)" "fst (map frame xs ! opened h) = bs @ rest" "rest \<noteq> []"
  then show "status_of (framing data (map frame xs) h (DecryptMessage bs)) = SEC_E_INCOMPLETE_MESSAGE"
    by (cases "map frame xs ! opened h") (auto simp: framing_def open_frame_def status_of_def)
qed

definition new_socket :: tls_socket where
  "new_socket = \<lparr>sock = 5, sizes = Some \<lparr>cbHeader = 1, cbTrailer = 1, cbMaximumMessage = 1, cBuffers = 4\<rparr>, received = 0, used = 0,
     available = 0, decrypted = None, incoming = replicate TLS_MAX_PACKET_SIZE 0\<rparr>"

lemma new_socket_connected: "connected 5 new_socket"
  by (simp add: connected_def new_socket_def)

lemma framing_Send: "framing d ps h (Send s bs) = ok_resp"
  by (simp add: framing_def)

lemma framing_send_all:
  "length bs < fuel \<Longrightarrow> \<exists>g. send_all fuel bs (framing d ps) s h = (Val True, s, h @ g) \<and> sent_packets g = []"
proof (induction bs arbitrary: fuel h)
  case Nil
  then show ?case by (cases fuel) (auto simp: ret_apply)
next
  case (Cons b bs)
  then obtain n where n: "fuel = Suc n" "length bs < n" by (cases fuel) auto
  let ?c = "Send (sock s) (b # bs)"
  obtain g where g: "send_all n bs (framing d ps) s (h @ [(?c, ok_resp)]) = (Val True, s, (h @ [(?c, ok_resp)]) @ g)" "sent_packets g = []"
    using Cons.IH[OF n(2)] by blast
  then show ?case unfolding n
    by (intro exI[of _ "[(?c, ok_resp)] @ g"]) (simp add: bnd_gets_apply bnd_call_apply Let_def framing_Send)
qed

lemma framing_record:
  assumes "3 < fuel"
  shows "\<exists>g. send_record fuel [b] (framing [] []) s h = (Val True, s, h @ g) \<and> sent_packets g = [frame [b]]"
proof -
  let ?r = "fail_resp\<lparr>buf := [23, b, 0], outs := [1, 1, 1]\<rparr>"
  obtain g where g: "send_all fuel [23, b, 0] (framing [] []) s (h @ [(EncryptMessage [b], ?r)]) = (Val True, s, (h @ [(EncryptMessage [b], ?r)]) @ g)"
    "sent_packets g = []" using framing_send_all[of "[23, b, 0]" fuel "[]" "[]" s "h @ [(EncryptMessage [b], ?r)]"] assms by auto
  have r: "framing [] [] h (EncryptMessage [b]) = ?r" by (simp add: framing_def)
  show ?thesis
    using g by (intro exI[of _ "[(EncryptMessage [b], ?r)] @ g"])
      (simp add: send_record_def bnd_call_apply r status_of_def Let_def frame_def)
qed

lemma framing_writes: "writes_ok (framing d ps)"
  by (simp add: writes_ok_def framing_def)

lemma framing_write:
  assumes "3 < n"
  shows "\<exists>g. tls_write (Suc (Suc (Suc n))) [72, 10] (framing [] []) new_socket h = (Val 0, new_socket, h @ g) \<and>
    sent_packets g = map frame [[72], [10]]"
proof -
  obtain g1 where g1: "send_record (Suc (Suc n)) [72] (framing [] []) new_socket h = (Val True, new_socket, h @ g1)"
    "sent_packets g1 = [frame [72]]" using framing_record[of "Suc (Suc n)"] assms by fastforce
  obtain g2 where g2: "send_record (Suc n) [10] (framing [] []) new_socket (h @ g1) = (Val True, new_socket, (h @ g1) @ g2)"
    "sent_packets g2 = [frame [10]]" using framing_record[of "Suc n"] assms by fastforce
  have z: "sizes new_socket = Some \<lparr>cbHeader = 1, cbTrailer = 1, cbMaximumMessage = 1, cBuffers = 4\<rparr>" by (simp add: new_socket_def)
  show ?thesis using g1 g2
    by (intro exI[of _ "g1 @ g2"]) (simp add: bnd_gets_apply z Let_def bnd_def[of "send_record _ _"] ret_apply)
qed

theorem tls_read_refines_witness:
  "\<exists>s' g. tls_read 12 1 (framing (wire_of (map frame [[72], [105]])) (map frame [[72], [105]])) new_socket [] = (Val (1, [72]), s', g)"
proof -
  let ?ps = "map frame [[72], [105]] :: packets"
  let ?os = "framing (wire_of ?ps) ?ps"
  have st: "tls_state 5 (wire_of ?ps) ?ps new_socket [] [72, 105]"
    by (simp add: tls_state_def new_socket_def plain_of_def frame_def)
  have ok: "packets_ok ?ps" by (simp add: packets_ok_def frame_def)
  have steps: "steps_left (wire_of ?ps) ?ps new_socket [] + 2 \<le> 12" by (simp add: steps_left_def new_socket_def wire_of_def frame_def)
  obtain bs pending' s' g where r: "tls_read 12 1 ?os new_socket [] = (Val (int (length bs), bs), s', [] @ g)"
    "[72, 105] = bs @ pending'" "length bs \<le> min 1 TLS_MAX_PACKET_SIZE" "bs = [] \<longrightarrow> (1 :: nat) = 0 \<or> ([72, 105] :: BYTE list) = []"
    using tls_read_refines[OF framing_delivers framing_decrypts ok st steps, of 1] by blast
  then have "bs = [72]" by (cases bs) auto
  with r(1) show ?thesis by auto
qed

theorem tls_round_trip_witness:
  "\<exists>s2 g'. read_response 3 20 True (framing (wire_of (map frame [[72], [10]])) (map frame [[72], [10]])) new_socket [] = (Val (), s2, g') \<and>
    written g' = [72, 13, 10]"
proof -
  let ?ps = "map frame [[72], [10]] :: packets"
  obtain g where w: "tls_write (Suc (Suc (Suc 6))) [72, 10] (framing [] []) new_socket [] = (Val 0, new_socket, [] @ g)" "sent_packets g = ?ps"
    using framing_write[of 6 "[]"] by auto
  have b: "sent_bytes (sock new_socket) g = wire_of ?ps" using tls_write_sends[OF w(1)] w(2) by auto
  have ok: "packets_ok ?ps" by (simp add: packets_ok_def frame_def)
  have m: "text_mode [72, 10] = [72, 13, 10]" by (simp add: text_mode_def)
  show ?thesis unfolding m[symmetric]
    by (rule tls_round_trip[OF w(1), unfolded b w(2), OF framing_delivers framing_decrypts ok framing_writes new_socket_connected])
      (simp_all add: wire_of_def frame_def)
qed

theorem split_handshake_lost_witness:
  "\<exists>r3 g. history_of (handshake 2 True (framing [9] []) (new_socket\<lparr>received := 1\<rparr>) []) =
    [(InitializeSecurityContext (Some [0]), fail_resp\<lparr>rv := 0x80090318\<rparr>), (Recv 5 TLS_MAX_PACKET_SIZE, ok_resp\<lparr>buf := [9]\<rparr>),
     (InitializeSecurityContext (Some [9]), r3)] @ g"
proof -
  have two: "Suc (Suc 0) = 2" by simp
  have "\<exists>r3 g. history_of (handshake (Suc (Suc 0)) True (framing [9] []) (new_socket\<lparr>received := 1\<rparr>) []) =
    [] @ [(InitializeSecurityContext (Some [0]), fail_resp\<lparr>rv := 0x80090318\<rparr>), (Recv (sock (new_socket\<lparr>received := 1\<rparr>)) TLS_MAX_PACKET_SIZE, ok_resp\<lparr>buf := [9]\<rparr>),
     (InitializeSecurityContext (Some [9]), r3)] @ g"
    by (rule split_handshake_lost) (simp_all add: framing_def status_of_def new_socket_def)
  then show ?thesis unfolding two by (simp add: new_socket_def)
qed

text \<open>A server that closes the connection after the first token.\<close>

definition closing :: "tlscall os" where
  "closing h c = (case c of
     socket_call \<Rightarrow> fail_resp\<lparr>rv := 5\<rparr>
   | WSAConnectByNameW s \<Rightarrow> ok_resp
   | InitializeSecurityContext i \<Rightarrow> fail_resp\<lparr>rv := 0x90312, buf := [1]\<rparr>
   | Send s bs \<Rightarrow> ok_resp
   | _ \<Rightarrow> fail_resp)"

theorem early_disconnect_faults_witness:
  "outcome_of (tls_main 1 3 closing (new_socket\<lparr>sizes := None\<rparr>) []) = Fault"
  by (rule early_disconnect_faults) (simp_all add: closing_def InvalidHandleValue_def status_of_def int_of_def)

end
