(* ===== verification/FileLock.thy ===== *)
theory FileLock
  imports Raii
begin

text \<open>
  FileLockMutex (filelockmutex-filesystemlock.ixx, filelockmutex.ixx): a mutex between processes that is a
  file, created by the process that locks and deleted when its handle is closed.  First the members of
  \<open>FileSystemLock\<close>, with \<open>fileHandle\<close> as the state (0 is null), and the program; then many processes that use such locks, beside
  other programs that use the same file, on a file system that answers as its documentation says.
\<close>

section \<open>FileSystemLock\<close>

datatype lockcall =
    CreateFileW wstring DWORD DWORD DWORD DWORD
  | CloseHandle HANDLE
  | GetLastError
  | GetModuleFileNameW nat
  | CreateProcessW wstring wstring
  | WaitForSingleObject HANDLE

datatype lockerr = Win32Error DWORD

type_synonym 'a lio = "(HANDLE, lockcall, lockerr, 'a) io"

abbreviation (input) InsufficientBuffer :: DWORD where "InsufficientBuffer \<equiv> 122"

text \<open>The arguments of \<open>CreateFileW\<close>: path, access, share mode, disposition, and flags with attributes.\<close>

abbreviation (input) GenericRead :: DWORD where "GenericRead \<equiv> 0x80000000"
abbreviation (input) ShareNone :: DWORD where "ShareNone \<equiv> 0"
abbreviation (input) CreateNew :: DWORD where "CreateNew \<equiv> 1"
abbreviation (input) CreateAlways :: DWORD where "CreateAlways \<equiv> 2"
abbreviation (input) OpenExisting :: DWORD where "OpenExisting \<equiv> 3"
abbreviation (input) OpenAlways :: DWORD where "OpenAlways \<equiv> 4"
abbreviation (input) Normal :: DWORD where "Normal \<equiv> 0x80"
abbreviation (input) DeleteOnClose :: DWORD where "DeleteOnClose \<equiv> 0x04000000"

definition VPath :: wstring where
  "VPath = wstr ''FileLock.lock''"

definition throw_last_error :: "'a lio" where
  "throw_last_error = bnd (call GetLastError) (\<lambda>e. throw (Win32Error (ucast (rv e))))"

definition IsLocked :: "HANDLE \<Rightarrow> bool" where
  "IsLocked fileHandle \<longleftrightarrow> fileHandle \<noteq> 0"

definition lock_file :: "unit lio" where
  "lock_file = bnd (gets IsLocked) (\<lambda>owned. if owned then ret () else
     bnd (call (CreateFileW VPath GenericRead ShareNone CreateNew (or Normal DeleteOnClose))) (\<lambda>r. if rv r = 0 \<or> rv r = InvalidHandleValue then throw_last_error
       else modify (\<lambda>_. rv r)))"

definition unlock_file :: "unit lio" where
  "unlock_file = bnd (gets (\<lambda>s. s)) (\<lambda>fileHandle. whenM (fileHandle \<noteq> 0)
     (andthen (modify (\<lambda>_. 0)) (do_call (CloseHandle fileHandle))))"

definition try_lock_file :: "bool lio" where
  "try_lock_file = try_catch (andthen lock_file (ret True)) (\<lambda>_. ret False)"

text \<open>The scope of a lock: the constructor, and the destructor of its handle.\<close>

definition with_lock :: "bool \<Rightarrow> 'a lio \<Rightarrow> 'a lio" where
  "with_lock acquire m = andthen (whenM acquire lock_file) (finally_do m unlock_file)"

section \<open>The program\<close>

text \<open>The buffer grows by a block until the path fits; \<open>sz\<close> is its size.\<close>

fun GetCurrentExecutablePath :: "nat \<Rightarrow> nat \<Rightarrow> wstring lio" where
  "GetCurrentExecutablePath 0 sz = running"
| "GetCurrentExecutablePath (Suc fuel) sz =
     bnd (call (GetModuleFileNameW (sz + 2048))) (\<lambda>r.
     if rv r = 0 then throw_last_error else
     bnd (call GetLastError) (\<lambda>e.
     if ucast (rv e) = InsufficientBuffer then GetCurrentExecutablePath fuel (sz + 2048)
     else ret (take (unat (rv r)) (wide_of (buf r)))))"

text \<open>The scope of a \<open>ProcessInformation\<close>, built in place by its caller.\<close>

definition close_process :: "HANDLE \<times> HANDLE \<Rightarrow> unit lio" where
  "close_process p = andthen (whenM (fst p \<noteq> 0) (do_call (CloseHandle (fst p)))) (whenM (snd p \<noteq> 0) (do_call (CloseHandle (snd p))))"

definition StartChildProcess :: "nat \<Rightarrow> (HANDLE \<times> HANDLE) lio" where
  "StartChildProcess fuel = bnd (GetCurrentExecutablePath fuel 0) (\<lambda>path.
     bnd (call (CreateProcessW path (wstr ''FileLockMutex.exe hello''))) (\<lambda>r.
     if rv r = 0 then throw_last_error
     else ret (case outs r of [hProcess, hThread] \<Rightarrow> (hProcess, hThread) | _ \<Rightarrow> (0, 0))))"

text \<open>The child's value is what it prints of its attempt.\<close>

definition ChildProcessMain :: "bool lio" where
  "ChildProcessMain = with_lock False try_lock_file"

definition ParentProcessMain :: "nat \<Rightarrow> int lio" where
  "ParentProcessMain fuel = with_lock True (bnd (StartChildProcess fuel) (\<lambda>p.
     finally_do (bnd (call (WaitForSingleObject (fst p))) (\<lambda>w.
       if (ucast (rv w) :: DWORD) \<noteq> 0 then throw_last_error else ret 0)) (close_process p)))"

definition lock_main :: "nat \<Rightarrow> nat \<Rightarrow> int lio" where
  "lock_main argc fuel = try_catch (if argc = 2 then andthen ChildProcessMain (ret 0) else ParentProcessMain fuel) (\<lambda>_. ret (- 1))"

section \<open>The file system\<close>

text \<open>
  What the documentation of \<open>CreateFileW\<close> and \<open>CloseHandle\<close> says of one file, whose path is \<open>VPath\<close>: who has it
  open, with which share mode, and whether it is to be deleted when the handle is closed.  A handle belongs to a process
  that uses the lock, \<open>Some p\<close>, or to another program, \<open>None\<close>.  \<open>pending\<close>: a handle that deletes has been closed.
\<close>

record opener =
  handle :: HANDLE
  opened_by :: "nat option"
  share :: DWORD
  deletes :: bool

datatype disk_file = Absent | Present (openers: "opener list") (pending: bool)

text \<open>
  A file that somebody has open without sharing cannot be opened.  \<open>CreateNew\<close> makes a new file, and fails when there is
  one; \<open>OpenExisting\<close> fails when there is none.  A file that does not exist is created (the directory can be written), and one that nobody has open can be opened.
  Every other answer is left free.
\<close>

definition must_fail :: "DWORD \<Rightarrow> disk_file \<Rightarrow> bool" where
  "must_fail disposition f = (case f of
      Absent \<Rightarrow> disposition = OpenExisting
    | Present os pend \<Rightarrow> disposition = CreateNew \<or> list_ex (\<lambda>u. share u = ShareNone) os)"

definition must_succeed :: "DWORD \<Rightarrow> disk_file \<Rightarrow> bool" where
  "must_succeed disposition f = (case f of
      Absent \<Rightarrow> disposition = CreateNew \<or> disposition = CreateAlways \<or> disposition = OpenAlways
    | Present os pend \<Rightarrow> os = [] \<and> (disposition = CreateAlways \<or> disposition = OpenExisting \<or> disposition = OpenAlways))"

definition opened :: "nat option \<Rightarrow> DWORD \<Rightarrow> DWORD \<Rightarrow> HANDLE \<Rightarrow> disk_file \<Rightarrow> disk_file" where
  "opened who sh flags x f = (let u = \<lparr>handle = x, opened_by = who, share = sh, deletes = and flags DeleteOnClose \<noteq> 0\<rparr> in
     case f of Absent \<Rightarrow> Present [u] False | Present os pend \<Rightarrow> Present (os @ [u]) pend)"

definition without :: "(opener \<Rightarrow> bool) \<Rightarrow> disk_file \<Rightarrow> disk_file" where
  "without P f = (case f of Absent \<Rightarrow> Absent | Present os pend \<Rightarrow>
     (let os' = filter (\<lambda>u. \<not> P u) os; pend' = (pend \<or> list_ex (\<lambda>u. P u \<and> deletes u) os) in
      if os' = [] \<and> pend' then Absent else Present os' pend'))"

text \<open>The answer to a call, and the file after it.\<close>

definition answer_ok :: "nat option \<Rightarrow> disk_file \<Rightarrow> lockcall \<Rightarrow> resp \<Rightarrow> disk_file \<Rightarrow> bool" where
  "answer_ok who f c r f' = (case c of
      CreateFileW path access sh disposition flags \<Rightarrow> if path \<noteq> VPath then f' = f else
        if rv r = InvalidHandleValue then \<not> must_succeed disposition f \<and> f' = f
        else rv r \<noteq> 0 \<and> \<not> must_fail disposition f \<and> f' = opened who sh flags (rv r) f
    | CloseHandle x \<Rightarrow> f' = without (\<lambda>u. opened_by u = who \<and> handle u = x) f
    | _ \<Rightarrow> f' = f)"

fun answers_ok :: "nat option \<Rightarrow> disk_file \<Rightarrow> lockcall history \<Rightarrow> disk_file \<Rightarrow> bool" where
  "answers_ok who f [] f' = (f' = f)"
| "answers_ok who f ((c, r) # h) f' = (\<exists>f1. answer_ok who f c r f1 \<and> answers_ok who f1 h f')"

section \<open>Many processes\<close>

text \<open>
  \<open>objs\<close> has the \<open>fileHandle\<close> of each process.  A step is an operation of a process, which calls the file system at most once,
  the end of a process, with which the system closes its handles, or a call of another program.
\<close>

record world =
  lockfile :: disk_file
  objs :: "nat \<Rightarrow> HANDLE"

datatype lockop = Lock | TryLock | Unlock

datatype result = Done | Failed | Answer bool

datatype event = Op nat lockop "(lockerr, result) outcome" | Ended nat | Outside lockcall resp

definition op_io :: "lockop \<Rightarrow> result lio" where
  "op_io o' = (case o' of
     Lock \<Rightarrow> try_catch (andthen lock_file (ret Done)) (\<lambda>_. ret Failed)
   | TryLock \<Rightarrow> bnd try_lock_file (\<lambda>b. ret (Answer b))
   | Unlock \<Rightarrow> andthen unlock_file (ret Done))"

inductive step :: "world \<Rightarrow> event \<Rightarrow> world \<Rightarrow> bool" where
  Op: "op_io o' os (objs w p) [] = (oc, x, h) \<Longrightarrow> answers_ok (Some p) (lockfile w) h f \<Longrightarrow>
    step w (Op p o' oc) (w\<lparr>lockfile := f, objs := (objs w)(p := x)\<rparr>)"
| Ended: "step w (Ended p) (w\<lparr>lockfile := without (\<lambda>u. opened_by u = Some p) (lockfile w), objs := (objs w)(p := 0)\<rparr>)"
| Outside: "answer_ok None (lockfile w) c r f \<Longrightarrow> step w (Outside c r) (w\<lparr>lockfile := f\<rparr>)"

text \<open>
  At first no process has the lock; the file may be there, left behind or in use by another program.  A file that is to be
  deleted and that nobody has open is not there any more.
\<close>

definition foreign :: "disk_file \<Rightarrow> bool" where
  "foreign f \<longleftrightarrow> (case f of Absent \<Rightarrow> True | Present us pend \<Rightarrow> list_all (\<lambda>u. opened_by u = None) us \<and> (us = [] \<longrightarrow> \<not> pend))"

inductive reach :: "world \<Rightarrow> bool" where
  start: "foreign f \<Longrightarrow> reach \<lparr>lockfile = f, objs = (\<lambda>_. 0)\<rparr>"
| step: "reach w \<Longrightarrow> step w e w' \<Longrightarrow> reach w'"

text \<open>
  The mutex it is meant to be: free, held by a process, or blocked by a file that is not of the lock.  An operation
  answers and changes the mutex as follows; other programs neither take the mutex from its holder nor give it away.
\<close>

datatype mutex = Free | Held nat | Blocked

fun mutex_of :: "disk_file \<Rightarrow> mutex" where
  "mutex_of Absent = Free"
| "mutex_of (Present [u] pend) = (case opened_by u of Some p \<Rightarrow> Held p | None \<Rightarrow> Blocked)"
| "mutex_of (Present _ pend) = Blocked"

fun mutex_step :: "mutex \<Rightarrow> event \<Rightarrow> mutex \<Rightarrow> bool" where
  "mutex_step m (Op p Lock oc) m' = (if m = Free \<or> m = Held p then oc = Val Done \<and> m' = Held p else oc = Val Failed \<and> m' = m)"
| "mutex_step m (Op p TryLock oc) m' =
     (if m = Free \<or> m = Held p then oc = Val (Answer True) \<and> m' = Held p else oc = Val (Answer False) \<and> m' = m)"
| "mutex_step m (Op p Unlock oc) m' = (oc = Val Done \<and> m' = (if m = Held p then Free else m))"
| "mutex_step m (Ended p) m' = (m' = (if m = Held p then Free else m))"
| "mutex_step m (Outside c r) m' = (\<forall>p. m = Held p \<longleftrightarrow> m' = Held p)"

text \<open>The invariant: the holder has the file to itself, or no process has it.\<close>

definition own :: "HANDLE \<Rightarrow> nat \<Rightarrow> opener" where
  "own x p = \<lparr>handle = x, opened_by = Some p, share = ShareNone, deletes = True\<rparr>"

definition holds :: "world \<Rightarrow> nat \<Rightarrow> bool" where
  "holds w p \<longleftrightarrow> objs w p \<noteq> 0 \<and> lockfile w = Present [own (objs w p) p] False \<and> (\<forall>q. q \<noteq> p \<longrightarrow> objs w q = 0)"

definition nobody :: "world \<Rightarrow> bool" where
  "nobody w \<longleftrightarrow> objs w = (\<lambda>_. 0) \<and> foreign (lockfile w)"

definition locked_ok :: "world \<Rightarrow> bool" where
  "locked_ok w \<longleftrightarrow> nobody w \<or> (\<exists>p. holds w p)"

lemma mutex_of_holds: "holds w p \<Longrightarrow> mutex_of (lockfile w) = Held p"
  by (simp add: holds_def own_def)

lemma mutex_of_nobody: "nobody w \<Longrightarrow> mutex_of (lockfile w) \<noteq> Held p"
  by (cases "lockfile w" rule: mutex_of.cases) (auto simp: nobody_def foreign_def)

text \<open>The operations, by the answer of the file system.\<close>

abbreviation (input) lock_call :: lockcall where
  "lock_call \<equiv> CreateFileW VPath GenericRead ShareNone CreateNew (or Normal DeleteOnClose)"

lemma lock_runs: "lock_file os s h = (if s \<noteq> 0 then (Val (), s, h) else
   let r = os h lock_call; h1 = h @ [(lock_call, r)] in
   if rv r = 0 \<or> rv r = InvalidHandleValue
   then (Exn (Win32Error (ucast (rv (os h1 GetLastError)))), 0, h1 @ [(GetLastError, os h1 GetLastError)])
   else (Val (), rv r, h1))"
  by (simp add: lock_file_def throw_last_error_def IsLocked_def Let_def io_simps)

lemma unlock_runs: "unlock_file os s h = (Val (), 0, if s = 0 then h else h @ [(CloseHandle s, os h (CloseHandle s))])"
  by (simp add: unlock_file_def whenM_def andthen_def do_call_def io_simps)

lemmas op_eval = op_io_def try_lock_file_def andthen_def bnd_def try_catch_def ret_def unlock_runs lock_runs Let_def

text \<open>An operation on a free, a held and a blocked mutex.\<close>

lemma op_free:
  assumes "op_io o' os 0 [] = (oc, x, h)" "answers_ok (Some p) Absent h f"
  shows "if o' = Unlock then oc = Val Done \<and> x = 0 \<and> f = Absent
    else oc = Val (if o' = Lock then Done else Answer True) \<and> x \<noteq> 0 \<and> f = Present [own x p] False"
  using assms
  by (cases o') (auto simp: op_eval answer_ok_def must_succeed_def must_fail_def opened_def own_def split: if_splits)

lemma op_own:
  assumes "op_io o' os x [] = (oc, x', h)" "x \<noteq> 0" "answers_ok (Some p) (Present [own x p] False) h f"
  shows "if o' = Unlock then oc = Val Done \<and> x' = 0 \<and> f = Absent
    else oc = Val (if o' = Lock then Done else Answer True) \<and> x' = x \<and> f = Present [own x p] False"
  using assms
  by (cases o') (auto simp: op_eval answer_ok_def without_def own_def)

lemma op_blocked:
  assumes "op_io o' os 0 [] = (oc, x, h)" "answers_ok (Some p) (Present us pend) h f"
  shows "oc = Val (case o' of Lock \<Rightarrow> Failed | TryLock \<Rightarrow> Answer False | Unlock \<Rightarrow> Done) \<and> x = 0 \<and> f = Present us pend"
  using assms
  by (cases o') (auto simp: op_eval answer_ok_def must_fail_def split: if_splits)

text \<open>What other programs and the end of a process can do.\<close>

lemma without_own: "without (\<lambda>u. opened_by u = None \<and> handle u = y) (Present [own x p] False) = Present [own x p] False"
  "without (\<lambda>u. opened_by u = Some q) (Present [own x p] False) = (if p = q then Absent else Present [own x p] False)"
  by (auto simp: without_def own_def)

lemma without_foreign: "foreign f \<Longrightarrow> foreign (without P f)"
  by (cases f) (auto simp: foreign_def without_def Let_def list_all_iff)

lemma ended_foreign: "foreign f \<Longrightarrow> without (\<lambda>u. opened_by u = Some p) f = f"
  by (cases f) (auto simp: foreign_def without_def Let_def list_all_iff list_ex_iff filter_id_conv)

lemma outside_own: "answer_ok None (Present [own x p] False) c r f \<Longrightarrow> f = Present [own x p] False"
  by (auto simp: answer_ok_def must_succeed_def must_fail_def own_def without_own[unfolded own_def] split: lockcall.splits if_splits)

lemma outside_foreign: "answer_ok None f c r f' \<Longrightarrow> foreign f \<Longrightarrow> foreign f'"
  by (auto simp: answer_ok_def without_foreign opened_def Let_def foreign_def[of "opened _ _ _ _ _"] foreign_def[of "Present _ _"]
    split: lockcall.splits if_splits disk_file.splits)

lemma op_step:
  assumes "locked_ok w" "op_io o' os (objs w p) [] = (oc, x, h)" "answers_ok (Some p) (lockfile w) h f"
  shows "mutex_step (mutex_of (lockfile w)) (Op p o' oc) (mutex_of f) \<and> locked_ok (w\<lparr>lockfile := f, objs := (objs w)(p := x)\<rparr>)"
proof -
  consider "nobody w" "lockfile w = Absent" | us pend where "nobody w" "lockfile w = Present us pend" | "holds w p"
    | q where "holds w q" "q \<noteq> p"
    using assms(1) by (cases "lockfile w") (auto simp: locked_ok_def)
  then show ?thesis
  proof cases
    case 1
    then have "objs w = (\<lambda>_. 0)" by (simp add: nobody_def)
    with 1 op_free[of o' os oc x h p f] assms(2,3) show ?thesis
      by (cases o') (auto simp: locked_ok_def nobody_def holds_def own_def foreign_def)
  next
    case 2
    then have z: "objs w = (\<lambda>_. 0)" by (simp add: nobody_def)
    with 2 op_blocked[of o' os oc x h p us pend f] assms(2,3)
    have r: "oc = Val (case o' of Lock \<Rightarrow> Failed | TryLock \<Rightarrow> Answer False | Unlock \<Rightarrow> Done)" "x = 0" "f = lockfile w" by simp_all
    have "mutex_of (lockfile w) \<noteq> Free" using 2(2) by (cases "lockfile w" rule: mutex_of.cases) (auto split: option.splits)
    then show ?thesis using r z mutex_of_nobody[OF 2(1)] 2(1) by (cases o') (auto simp: locked_ok_def nobody_def)
  next
    case 3
    then have "objs w p \<noteq> 0" "lockfile w = Present [own (objs w p) p] False" "\<forall>q. q \<noteq> p \<longrightarrow> objs w q = 0"
      by (simp_all add: holds_def)
    with op_own[of o' os "objs w p" oc x h p f] assms(2,3) mutex_of_holds[OF 3] show ?thesis
      by (cases o') (auto simp: locked_ok_def nobody_def holds_def own_def foreign_def)
  next
    case 4
    then have "objs w p = 0" "lockfile w = Present [own (objs w q) q] False" by (simp_all add: holds_def)
    with op_blocked[of o' os oc x h p] assms(2,3)
    have r: "oc = Val (case o' of Lock \<Rightarrow> Failed | TryLock \<Rightarrow> Answer False | Unlock \<Rightarrow> Done)" "x = 0" "f = lockfile w" by simp_all
    then have "w\<lparr>lockfile := f, objs := (objs w)(p := x)\<rparr> = w" using \<open>objs w p = 0\<close> by (simp add: fun_upd_idem)
    then show ?thesis using r mutex_of_holds[OF 4(1)] 4 assms(1) by (cases o') auto
  qed
qed

lemma step_mutex:
  assumes "step w e w'" "locked_ok w"
  shows "mutex_step (mutex_of (lockfile w)) e (mutex_of (lockfile w')) \<and> locked_ok w'"
  using assms
proof cases
  case (Op o' os p oc x h f)
  then show ?thesis using op_step[OF assms(2)] by simp
next
  case (Ended p)
  show ?thesis
  proof (cases "nobody w")
    case True
    then show ?thesis using Ended ended_foreign[of "lockfile w" p] mutex_of_nobody[OF True]
      by (auto simp: locked_ok_def nobody_def fun_upd_idem)
  next
    case False
    then obtain q where q: "holds w q" using assms(2) by (auto simp: locked_ok_def)
    then show ?thesis using Ended mutex_of_holds[OF q] without_own(2)[of p "objs w q" q]
      by (auto simp: locked_ok_def nobody_def holds_def foreign_def fun_eq_iff)
  qed
next
  case (Outside c r f)
  show ?thesis
  proof (cases "nobody w")
    case True
    then have "nobody w'" using Outside outside_foreign by (auto simp: nobody_def)
    then show ?thesis using mutex_of_nobody[OF True] mutex_of_nobody[OF \<open>nobody w'\<close>] Outside by (auto simp: locked_ok_def)
  next
    case False
    then obtain q where q: "holds w q" using assms(2) by (auto simp: locked_ok_def)
    then have "f = lockfile w" using Outside outside_own by (auto simp: holds_def)
    then have "w' = w" using Outside by simp
    then show ?thesis using assms(2) Outside by simp
  qed
qed

lemma reach_locked_ok: "reach w \<Longrightarrow> locked_ok w"
proof (induction rule: reach.induct)
  case (start f)
  then show ?case by (simp add: locked_ok_def nobody_def)
next
  case (step w e w')
  then show ?case using step_mutex by blast
qed

lemma locked_iff: "locked_ok w \<Longrightarrow> IsLocked (objs w p) \<longleftrightarrow> mutex_of (lockfile w) = Held p"
proof -
  assume "locked_ok w"
  then consider "nobody w" | q where "holds w q" by (auto simp: locked_ok_def)
  then show ?thesis
  proof cases
    case 1
    then show ?thesis using mutex_of_nobody[OF 1] by (simp add: IsLocked_def nobody_def)
  next
    case 2
    then show ?thesis using mutex_of_holds[OF 2] by (auto simp: IsLocked_def holds_def)
  qed
qed

text \<open>
  C30: Between any number of processes the lock is a mutex, on every file system that answers as documented and beside
  other programs that open, create or close the same file as they like.  In every world that can be reached a process has
  it locked exactly when it is the holder, and so at most one has; each operation answers and changes the holder as that
  of a mutex does; a lock that another process holds is refused, and so is one while a file is there that is not of the lock;
  \<open>unlock\<close> and the end of the holder free it, and no other program can take it or open its file meanwhile.
\<close>

theorem file_lock_is_mutex:
  assumes "reach w" "step w e w'"
  shows "(\<forall>p. IsLocked (objs w p) \<longleftrightarrow> mutex_of (lockfile w) = Held p) \<and>
    mutex_step (mutex_of (lockfile w)) e (mutex_of (lockfile w')) \<and>
    (\<forall>p c r. mutex_of (lockfile w) = Held p \<and> e = Outside c r \<longrightarrow> lockfile w' = lockfile w)"
proof -
  note ok = reach_locked_ok[OF assms(1)]
  have "lockfile w' = lockfile w" if held: "mutex_of (lockfile w) = Held p" and out: "e = Outside c r" for p c r
  proof -
    obtain q where "holds w q" using ok mutex_of_nobody[of w p] held by (auto simp: locked_ok_def)
    then show ?thesis using assms(2) out outside_own by (auto simp: holds_def elim!: step.cases)
  qed
  with step_mutex[OF assms(2) ok] locked_iff[OF ok] show ?thesis by blast
qed

text \<open>A file system that answers so: one process locks, and another one is refused.\<close>

definition granting :: "lockcall os" where
  "granting h c = fail_resp\<lparr>rv := 4\<rparr>"

definition refusing :: "lockcall os" where
  "refusing h c = fail_resp\<lparr>rv := (case c of GetLastError \<Rightarrow> 80 | _ \<Rightarrow> InvalidHandleValue)\<rparr>"

definition unlocked :: world where
  "unlocked = \<lparr>lockfile = Absent, objs = (\<lambda>_. 0)\<rparr>"

definition locked_by_1 :: world where
  "locked_by_1 = unlocked\<lparr>lockfile := Present [own 4 1] False, objs := (objs unlocked)(1 := 4)\<rparr>"

lemma lock_1: "step unlocked (Op 1 Lock (Val Done)) locked_by_1"
  unfolding locked_by_1_def
  by (rule step.Op[where os = granting]) (auto simp: op_eval unlocked_def granting_def InvalidHandleValue_def answer_ok_def must_fail_def opened_def own_def)

lemma try_2: "step locked_by_1 (Op 2 TryLock (Val (Answer False))) locked_by_1"
proof -
  have "step locked_by_1 (Op 2 TryLock (Val (Answer False))) (locked_by_1\<lparr>lockfile := lockfile locked_by_1, objs := (objs locked_by_1)(2 := 0)\<rparr>)"
    by (rule step.Op[where os = refusing]) (auto simp: op_eval locked_by_1_def unlocked_def refusing_def answer_ok_def must_succeed_def)
  moreover have "(objs locked_by_1)(2 := 0) = objs locked_by_1" by (auto simp: locked_by_1_def unlocked_def)
  ultimately show ?thesis by simp
qed

theorem file_lock_is_mutex_witness:
  "IsLocked (objs locked_by_1 1) \<and> \<not> IsLocked (objs locked_by_1 2) \<and>
   mutex_step (Held 1) (Op 2 TryLock (Val (Answer False))) (mutex_of (lockfile locked_by_1))"
proof -
  have "reach unlocked" unfolding unlocked_def by (rule reach.start) (simp add: foreign_def)
  then have r: "reach locked_by_1" using lock_1 by (rule reach.step)
  have "mutex_of (lockfile locked_by_1) = Held 1" by (simp add: locked_by_1_def own_def)
  with file_lock_is_mutex[OF r try_2] show ?thesis by simp
qed

text \<open>The two scopes of the program end with the lock free, but for the end of the process in a failed destructor.\<close>

lemma with_lock_frees:
  assumes "with_lock a m os s h = (oc, s', h')" "oc = Val x \<or> oc = Exn e \<and> s = 0"
  shows "s' = 0"
  using assms
  by (cases "whenM a lock_file os s h"; cases "m os (fst (snd (whenM a lock_file os s h))) (snd (snd (whenM a lock_file os s h)))")
    (auto simp: with_lock_def andthen_def bnd_def finally_do_def unlock_runs whenM_def lock_file_def throw_last_error_def IsLocked_def io_simps
      split: outcome.splits if_splits)

end
