(* ===== verification/ExecCmd.thy ===== *)
theory ExecCmd
  imports Strings
begin

text \<open>
  ExecuteCmd/main.cpp: a command is run with its standard handles redirected to pipes, its output is read and
  the serial number is taken out of it.  Characters above 127 are negative numbers for \<open>isspace\<close>, which is
  then undefined (\<open>None\<close>).
\<close>

section \<open>Strings\<close>

abbreviation (input) CR :: char where "CR \<equiv> CHR 0x0D"
abbreviation (input) LF :: char where "LF \<equiv> CHR 0x0A"

definition is_space :: "char \<Rightarrow> bool" where
  "is_space c \<longleftrightarrow> (of_char c :: nat) = 32 \<or> 9 \<le> (of_char c :: nat) \<and> (of_char c :: nat) \<le> 13"

fun LeftTrim :: "string \<Rightarrow> string option" where
  "LeftTrim [] = Some []"
| "LeftTrim (c # cs) = (if 128 \<le> (of_char c :: nat) then None else if is_space c then LeftTrim cs else Some (c # cs))"

definition RightTrim :: "string \<Rightarrow> string option" where
  "RightTrim s = map_option rev (LeftTrim (rev s))"

definition Trim :: "string \<Rightarrow> string option" where
  "Trim s = Option.bind (LeftTrim s) RightTrim"

text \<open>\<open>Split\<close>; \<open>None\<close> is a loop that does not end.\<close>

partial_function (option) split_loop :: "'a list \<Rightarrow> 'a list \<Rightarrow> 'a list list \<Rightarrow> 'a list list option" where
  "split_loop d intermediate results = (case find_from intermediate d 0 of
       None \<Rightarrow> Some results
     | Some p \<Rightarrow> let rest = drop (p + length d) intermediate in
         split_loop d rest (if find_from rest d 0 = None then results @ [take p intermediate, rest] else results @ [take p intermediate]))"

definition Split :: "'a list \<Rightarrow> 'a list \<Rightarrow> 'a list list option" where
  "Split s d = (if find_from s d 0 = None then Some [s] else split_loop d s [])"

text \<open>The token behind the one that begins with the heading.\<close>

fun next_token :: "bool \<Rightarrow> string list \<Rightarrow> string" where
  "next_token nextLine [] = []"
| "next_token nextLine (t # ts) = (if nextLine then t else next_token (take 12 t = ''SerialNumber'') ts)"

definition Parse :: "string \<Rightarrow> string option" where
  "Parse cmd = Option.bind (Split cmd [CR, CR, LF]) (\<lambda>tokens.
     let serialNumber = next_token False tokens in
     Trim (if 2 < length serialNumber then butlast (butlast serialNumber) else serialNumber))"

section \<open>Processes and pipes\<close>

definition chars_of :: "BYTE list \<Rightarrow> string" where
  "chars_of bytes = map (\<lambda>b. char_of (unat b)) bytes"

datatype execcall =
    GetLastError
  | FormatMessageW DWORD
  | LocalFree HANDLE
  | MessageBox
  | GetStdHandle
  | CreatePipe
  | SetHandleInformation HANDLE
  | CreateProcess string string HANDLE HANDLE
  | ReadFile HANDLE nat
  | CloseHandle HANDLE

type_synonym 'a eio = "(unit, execcall, unit, 'a) io"

abbreviation (input) BUFSIZE :: nat where "BUFSIZE \<equiv> 4096"

definition ErrorExit :: "'a eio" where
  "ErrorExit = bnd (call GetLastError) (\<lambda>e. bnd (call (FormatMessageW (ucast (rv e)))) (\<lambda>m.
     andthen (whenM (rv m \<noteq> 0) (do_call (LocalFree (out m)))) (andthen (do_call MessageBox) (halt 1))))"

fun ReadFromPipe_loop :: "nat \<Rightarrow> HANDLE \<Rightarrow> BYTE list \<Rightarrow> BYTE list eio" where
  "ReadFromPipe_loop 0 rd result = running"
| "ReadFromPipe_loop (Suc fuel) rd result = bnd (call (ReadFile rd BUFSIZE)) (\<lambda>r.
     if rv r = 0 \<or> out r = 0 then ret result
     else ReadFromPipe_loop fuel rd (result @ take (unat (out r)) (buf r)))"

definition ReadFromPipe :: "nat \<Rightarrow> HANDLE \<Rightarrow> BYTE list eio" where
  "ReadFromPipe fuel rd = andthen (do_call GetStdHandle) (ReadFromPipe_loop fuel rd [])"

text \<open>The pair of handles that a call gives.\<close>

definition pair_of :: "resp \<Rightarrow> HANDLE \<times> HANDLE" where
  "pair_of r = (case outs r of [a, b] \<Rightarrow> (a, b) | _ \<Rightarrow> (0, 0))"

definition CreateChildProcess :: "string \<Rightarrow> string \<Rightarrow> HANDLE \<Rightarrow> HANDLE \<Rightarrow> (HANDLE \<times> HANDLE) eio" where
  "CreateChildProcess path cmdline out_wr in_rd =
     bnd (call (CreateProcess path cmdline out_wr in_rd)) (\<lambda>r.
     if rv r = 0 then ErrorExit else
     andthen (do_call (CloseHandle out_wr)) (andthen (do_call (CloseHandle in_rd)) (ret (pair_of r))))"

text \<open>The scope of a \<open>HandleUniquePtr\<close>.\<close>

definition with_ptr :: "HANDLE \<Rightarrow> 'a eio \<Rightarrow> 'a eio" where
  "with_ptr h m = finally_do m (whenM (h \<noteq> 0) (do_call (CloseHandle h)))"

definition cmd_exe :: string where
  "cmd_exe = [CHR ''C'', CHR '':'', CHR 0x5C] @ ''Windows'' @ [CHR 0x5C] @ ''System32'' @ [CHR 0x5C] @ ''cmd.exe''"

definition Exec :: "nat \<Rightarrow> string \<Rightarrow> string eio" where
  "Exec fuel cmd = andthen (if cmd = [] then ErrorExit else ret ())
     (bnd (call CreatePipe) (\<lambda>po. if rv po = 0 then ErrorExit else
      let (out_rd, out_wr) = pair_of po in
      bnd (call (SetHandleInformation out_rd)) (\<lambda>so. if rv so = 0 then ErrorExit else
      with_ptr out_rd
      (bnd (call CreatePipe) (\<lambda>pin. if rv pin = 0 then ErrorExit else
       let (in_rd, in_wr) = pair_of pin in
       bnd (call (SetHandleInformation in_wr)) (\<lambda>si. if rv si = 0 then ErrorExit else
       with_ptr in_wr
       (bnd (CreateChildProcess cmd_exe cmd out_wr in_rd) (\<lambda>(hProcess, hThread).
        with_ptr hProcess (with_ptr hThread
          (bnd (ReadFromPipe fuel out_rd) (\<lambda>output.
           case Parse (chars_of output) of None \<Rightarrow> fault | Some s \<Rightarrow> ret s)))))))))))"

definition GetBiosCommand :: string where
  "GetBiosCommand = cmd_exe @ '' /c wmic bios get serialnumber''"

text \<open>The value is the number that is printed.\<close>

definition exec_main :: "nat \<Rightarrow> string eio" where
  "exec_main fuel = Exec fuel GetBiosCommand"

section \<open>Splitting\<close>

lemma split_loop_on:
  "d \<noteq> [] \<Longrightarrow> find_from s d 0 \<noteq> None \<Longrightarrow> split_loop d s results = Some (results @ split_on s d)"
proof (induction s arbitrary: results rule: length_induct)
  case (1 s)
  then obtain p where p: "find_from s d 0 = Some p" by auto
  let ?t = "drop (p + length d) s"
  have s: "split_on s d = take p s # split_on ?t d" using 1(2) p by (subst split_on.simps) simp
  have "length ?t < length s" using find_from_Some[OF p] 1(2) by (cases d) auto
  show ?case
  proof (cases "find_from ?t d 0")
    case None
    then have "split_on ?t d = [?t]" by (subst split_on.simps) simp
    moreover have "split_loop d ?t (results @ [take p s, ?t]) = Some (results @ [take p s, ?t])"
      using None by (subst split_loop.simps) simp
    ultimately show ?thesis using p s None by (subst split_loop.simps) (simp add: Let_def)
  next
    case (Some q)
    have "split_loop d ?t (results @ [take p s]) = Some ((results @ [take p s]) @ split_on ?t d)"
      using 1(1) \<open>length ?t < length s\<close> 1(2) Some by auto
    then show ?thesis using p s Some by (subst split_loop.simps) (simp add: Let_def)
  qed
qed

text \<open>
  C31: For every delimiter that is not empty, \<open>Split\<close> ends and gives the pieces between its occurrences.
\<close>

theorem Split_is_split: "d \<noteq> [] \<Longrightarrow> Split s d = Some (split_on s d)"
  using split_loop_on[of d s "[]"] by (cases "find_from s d 0") (auto simp: Split_def split_on.simps[of s])

section \<open>The serial number\<close>

lemma find_from_first:
  assumes "x \<notin> set xs"
  shows "find_from (xs @ (x # d) @ rest) (x # d) 0 = Some (length xs)"
proof -
  let ?s = "xs @ (x # d) @ rest"
  have "\<not> occurs_at ?s (x # d) j" if "j < length xs" for j
  proof
    assume "occurs_at ?s (x # d) j"
    then have "take (length (x # d)) (drop j ?s) ! 0 = x" by (simp add: occurs_at_def)
    then have "xs ! j = x" using that by (simp add: nth_append)
    then show False using that assms by auto
  qed
  moreover have "occurs_at ?s (x # d) (length xs)" by (simp add: occurs_at_def)
  ultimately show ?thesis
    by (auto simp: find_from_def find_Some_iff nth_append simp del: upt_Suc intro!: exI[of _ "length xs"])
qed

lemma find_from_absent: "x \<notin> set xs \<Longrightarrow> find_from xs (x # d) 0 = None"
  by (auto simp: find_from_None occurs_at_def) (metis in_set_dropD list.set_intros(1) take_Suc_Cons in_set_takeD)

lemma split_on_Cons: "x \<notin> set xs \<Longrightarrow> split_on (xs @ (x # d) @ rest) (x # d) = xs # split_on rest (x # d)"
  by (subst split_on.simps) (simp add: find_from_first[simplified])

lemma split_on_single: "x \<notin> set xs \<Longrightarrow> split_on xs (x # d) = [xs]"
  by (subst split_on.simps) (simp add: find_from_absent)

lemma LeftTrim_id: "s \<noteq> [] \<Longrightarrow> \<not> is_space (hd s) \<Longrightarrow> (of_char (hd s) :: nat) < 128 \<Longrightarrow> LeftTrim s = Some s"
  by (cases s) auto

definition plain_serial :: "string \<Rightarrow> bool" where
  "plain_serial s \<longleftrightarrow> s \<noteq> [] \<and> CR \<notin> set s \<and> \<not> is_space (hd s) \<and> \<not> is_space (last s) \<and> list_all (\<lambda>c. (of_char c :: nat) < 128) s"

lemma Trim_id: "plain_serial s \<Longrightarrow> Trim s = Some s"
  by (simp add: plain_serial_def Trim_def RightTrim_def LeftTrim_id hd_rev list_all_iff)

text \<open>What \<open>wmic\<close> writes: the heading, and the number with \<open>pad\<close> behind it.\<close>

definition wmic_output :: "string \<Rightarrow> string \<Rightarrow> string" where
  "wmic_output s pad = ''SerialNumber  '' @ [CR, CR, LF] @ (s @ pad) @ [CR, CR, LF] @ [CR, CR, LF]"

lemma Parse_token:
  assumes "CR \<notin> set s" "CR \<notin> set pad"
  shows "Parse (wmic_output s pad) = Trim (if 2 < length (s @ pad) then butlast (butlast (s @ pad)) else s @ pad)"
proof -
  let ?d = "[CR, CR, LF]"
  have "split_on (wmic_output s pad) ?d = ''SerialNumber  '' # split_on ((s @ pad) @ ?d @ ?d) ?d"
    unfolding wmic_output_def by (rule split_on_Cons) simp
  also have "split_on ((s @ pad) @ ?d @ ?d) ?d = (s @ pad) # split_on ?d ?d"
    using assms by (intro split_on_Cons) simp
  also have "split_on ?d ?d = [] # split_on [] ?d"
    using split_on_Cons[of CR "[]" "[CR, LF]" "[]"] by simp
  finally show ?thesis by (simp add: Parse_def Split_is_split)
qed


text \<open>
  The comment in \<open>ReadFromPipe\<close> gives the output with one space behind the number; then the last character of
  the number is cut off.
\<close>

lemma one_space_cuts_number: "CR \<notin> set (s @ [c]) \<Longrightarrow> plain_serial s \<Longrightarrow> Parse (wmic_output (s @ [c]) '' '') = Some s"
  using Trim_id[of s] by (subst Parse_token) (auto simp: butlast_append plain_serial_def)

section \<open>What is read is what is parsed\<close>

fun bytes_read :: "execcall history \<Rightarrow> BYTE list" where
  "bytes_read [] = []"
| "bytes_read ((ReadFile rd n, r) # h) = (if rv r = 0 then [] else take (unat (out r)) (buf r)) @ bytes_read h"
| "bytes_read ((c, r) # h) = bytes_read h"

lemma bytes_read_append [simp]: "bytes_read (g @ h) = bytes_read g @ bytes_read h"
  by (induction g rule: bytes_read.induct) auto

lemma ReadFromPipe_reads:
  "ReadFromPipe_loop fuel rd result os st h = (Val bs, st', h') \<Longrightarrow> \<exists>g. h' = h @ g \<and> bs = result @ bytes_read g"
proof (induction fuel arbitrary: result h)
  case (Suc fuel)
  let ?c = "ReadFile rd BUFSIZE"
  show ?case
  proof (cases "rv (os h ?c) = 0 \<or> out (os h ?c) = 0")
    case True
    then show ?thesis using Suc.prems by (auto simp: bnd_call_apply ret_apply)
  next
    case False
    then have "ReadFromPipe_loop fuel rd (result @ take (unat (out (os h ?c))) (buf (os h ?c))) os st (h @ [(?c, os h ?c)]) = (Val bs, st', h')"
      using Suc.prems by (simp add: bnd_call_apply)
    from Suc.IH[OF this] False show ?thesis by auto
  qed
qed (simp add: running_apply)

text \<open>\<open>parses m\<close>: when \<open>m\<close> returns, its value is what \<open>Parse\<close> makes of the bytes it has read.\<close>

definition parses :: "string eio \<Rightarrow> bool" where
  "parses m \<longleftrightarrow> (\<forall>os s h x s' h'. m os s h = (Val x, s', h') \<longrightarrow> (\<exists>g. h' = h @ g \<and> Parse (chars_of (bytes_read g)) = Some x))"

definition no_read :: "execcall \<Rightarrow> bool" where
  "no_read c \<longleftrightarrow> (case c of ReadFile rd n \<Rightarrow> False | _ \<Rightarrow> True)"

lemma no_read_bytes: "list_all (\<lambda>x. no_read (fst x)) g \<Longrightarrow> bytes_read g = []"
  by (induction g rule: bytes_read.induct) (auto simp: no_read_def)

lemma parses_bnd: "emits no_read m \<Longrightarrow> (\<And>a. parses (f a)) \<Longrightarrow> parses (bnd m f)"
proof -
  assume m: "emits no_read m" and f: "\<And>a. parses (f a)"
  show "parses (bnd m f)" unfolding parses_def
  proof (intro allI impI)
    fix os s h x s' h'
    assume r: "bnd m f os s h = (Val x, s', h')"
    obtain oc s1 h1 where m1: "m os s h = (oc, s1, h1)" by (cases "m os s h")
    obtain a where oc: "oc = Val a" using r m1 by (cases oc) (auto simp: bnd_def)
    obtain g1 where g1: "h1 = h @ g1" "list_all (\<lambda>x. no_read (fst x)) g1" using emitsD[OF m m1] .
    have "f a os s1 h1 = (Val x, s', h')" using r m1 oc by (simp add: bnd_def)
    then obtain g2 where "h' = h1 @ g2" "Parse (chars_of (bytes_read g2)) = Some x" using f unfolding parses_def by blast
    then show "\<exists>g. h' = h @ g \<and> Parse (chars_of (bytes_read g)) = Some x" using g1 no_read_bytes[OF g1(2)] by auto
  qed
qed

lemma parses_andthen: "emits no_read m \<Longrightarrow> parses k \<Longrightarrow> parses (andthen m k)"
  unfolding andthen_def by (rule parses_bnd)

lemma parses_if: "(b \<Longrightarrow> parses m) \<Longrightarrow> (\<not> b \<Longrightarrow> parses k) \<Longrightarrow> parses (if b then m else k)"
  by simp

lemma parses_halt: "parses (halt n)"
  by (simp add: parses_def halt_apply)

lemma no_read_simps [simp]: "no_read GetLastError" "no_read (FormatMessageW w)" "no_read (LocalFree h)" "no_read MessageBox" "no_read GetStdHandle"
  "no_read CreatePipe" "no_read (SetHandleInformation h)" "no_read (CreateProcess p c a b)" "no_read (CloseHandle h)"
  by (simp_all add: no_read_def)

lemma ErrorExit_no_read: "emits no_read ErrorExit"
  by (auto simp: ErrorExit_def intro!: emits_intro)

lemma parses_ErrorExit: "parses ErrorExit"
  unfolding ErrorExit_def by (auto intro!: parses_bnd parses_andthen parses_halt emits_intro)

lemma parses_with_ptr:
  assumes "parses m"
  shows "parses (with_ptr p m)"
  unfolding parses_def
proof (intro allI impI)
  fix os s h x s' h'
  assume r: "with_ptr p m os s h = (Val x, s', h')"
  let ?k = "whenM (p \<noteq> 0) (do_call (CloseHandle p)) :: unit eio"
  have k: "emits no_read ?k" by (auto intro!: emits_intro)
  obtain oc s1 h1 where m1: "m os s h = (oc, s1, h1)" by (cases "m os s h")
  obtain oc2 s2 h2 where k2: "?k os s1 h1 = (oc2, s2, h2)" by (cases "?k os s1 h1")
  have "oc = Val x" "h' = h2"
    using r m1 k2 by (cases oc; cases oc2; auto simp: with_ptr_def finally_do_def)+
  moreover obtain g2 where "h2 = h1 @ g2" "list_all (\<lambda>x. no_read (fst x)) g2" using emitsD[OF k k2] .
  moreover obtain g1 where "h1 = h @ g1" "Parse (chars_of (bytes_read g1)) = Some x"
    using assms m1 \<open>oc = Val x\<close> unfolding parses_def by blast
  ultimately show "\<exists>g. h' = h @ g \<and> Parse (chars_of (bytes_read g)) = Some x" using no_read_bytes[of g2] by auto
qed

lemma parses_output: "parses (bnd (ReadFromPipe fuel rd) (\<lambda>output. case Parse (chars_of output) of None \<Rightarrow> fault | Some s \<Rightarrow> ret s))"
  unfolding parses_def
proof (intro allI impI)
  fix os s h x s' h'
  assume r: "bnd (ReadFromPipe fuel rd) (\<lambda>output. case Parse (chars_of output) of None \<Rightarrow> fault | Some s \<Rightarrow> ret s) os s h = (Val x, s', h')"
  obtain oc s1 h1 where m1: "ReadFromPipe_loop fuel rd [] os s (h @ [(GetStdHandle, os h GetStdHandle)]) = (oc, s1, h1)"
    by (cases "ReadFromPipe_loop fuel rd [] os s (h @ [(GetStdHandle, os h GetStdHandle)])")
  have m: "ReadFromPipe fuel rd os s h = (oc, s1, h1)"
    using m1 by (simp add: ReadFromPipe_def andthen_def do_call_def bnd_bnd bnd_call_apply bnd_ret)
  obtain bs where "oc = Val bs" using r m by (cases oc) (auto simp: bnd_def)
  moreover have "h' = h1 \<and> Parse (chars_of bs) = Some x"
    using r m calculation by (auto simp: bnd_def ret_apply fault_apply split: option.splits)
  ultimately show "\<exists>g. h' = h @ g \<and> Parse (chars_of (bytes_read g)) = Some x"
    using ReadFromPipe_reads[of fuel rd "[]" os s _ bs s1 h1] m1 by fastforce
qed

lemma Exec_parses: "parses (Exec fuel cmd)"
  unfolding Exec_def Let_def case_prod_beta
  by (intro parses_andthen parses_bnd parses_if parses_ErrorExit parses_with_ptr parses_output)
    (auto simp: CreateChildProcess_def intro!: emits_intro ErrorExit_no_read)

text \<open>
  When the program ends with a result and the child has written a serial number as \<open>wmic\<close> does, with
  two spaces behind it, the result is that number, however the pipe cuts the output into pieces.
\<close>

theorem serial_is_reported:
  assumes "exec_main fuel os st h = (Val x, st', h @ g)" "chars_of (bytes_read g) = wmic_output s ''  ''" "plain_serial s"
  shows "x = s"
proof -
  have "Parse (chars_of (bytes_read g)) = Some x"
    using Exec_parses assms(1) unfolding exec_main_def parses_def by (metis same_append_eq)
  moreover have "Parse (wmic_output s ''  '') = Some s"
    using assms(3) Trim_id[OF assms(3)] by (subst Parse_token) (auto simp: plain_serial_def butlast_append neq_Nil_conv)
  ultimately show ?thesis using assms(2) by simp
qed

theorem Split_is_split_witness: "Split ''a, b, c'' '', '' = Some [''a'', ''b'', ''c'']"
proof -
  have "split_on ''a, b, c'' '', '' = [''a'', ''b'', ''c'']"
    using split_on_Cons[of "CHR '',''" "''a''" "'' ''" "''b, c''"] split_on_Cons[of "CHR '',''" "''b''" "'' ''" "''c''"]
      split_on_single[of "CHR '',''" "''c''" "'' ''"] by simp
  then show ?thesis using Split_is_split[of "'', ''" "''a, b, c''"] by simp
qed

text \<open>A child that writes its output at once and ends.\<close>

definition wmic :: "BYTE list \<Rightarrow> execcall os" where
  "wmic bs h c = (case c of
     ReadFile rd n \<Rightarrow> if bytes_read h = [] then ok_resp\<lparr>out := of_nat (length bs), buf := bs\<rparr> else fail_resp
   | CreatePipe \<Rightarrow> ok_resp\<lparr>outs := [4, 8]\<rparr>
   | CreateProcess p cl a b \<Rightarrow> ok_resp\<lparr>outs := [12, 16]\<rparr>
   | _ \<Rightarrow> ok_resp)"

lemma wmic_runs:
  assumes "bs \<noteq> []" "length bs < 2 ^ 32" "Parse (chars_of bs) = Some x"
  shows "\<exists>g. exec_main 3 (wmic bs) () [] = (Val x, (), [] @ g) \<and> bytes_read g = bs"
proof -
  have n: "unat (of_nat (length bs) :: 64 word) = length bs" using assms(2) by (simp add: unat_less_imp_eq_of_nat)
  have nz: "(of_nat (length bs) :: 64 word) \<noteq> 0" using n assms(1) by (metis length_0_conv unat_0)
  have read: "\<exists>g. ReadFromPipe (Suc (Suc (Suc 0))) 4 (wmic bs) () h = (Val bs, (), h @ g) \<and> bytes_read g = bs" if "bytes_read h = []" for h
    using that n nz assms(1)
    by (simp add: ReadFromPipe_def andthen_def do_call_def bnd_bnd bnd_call_apply bnd_ret wmic_def ret_apply)
  let ?h = "[(CreatePipe, ok_resp\<lparr>outs := [4, 8]\<rparr>), (SetHandleInformation 4, ok_resp), (CreatePipe, ok_resp\<lparr>outs := [4, 8]\<rparr>),
     (SetHandleInformation 8, ok_resp), (CreateProcess cmd_exe GetBiosCommand 8 4, ok_resp\<lparr>outs := [12, 16]\<rparr>),
     (CloseHandle 8, ok_resp), (CloseHandle 4, ok_resp)]"
  obtain g where g: "ReadFromPipe (Suc (Suc (Suc 0))) 4 (wmic bs) () ?h = (Val bs, (), ?h @ g)" "bytes_read g = bs"
    using read[of ?h] by auto
  have w: "wmic bs h CreatePipe = ok_resp\<lparr>outs := [4, 8]\<rparr>" "wmic bs h (SetHandleInformation k) = ok_resp"
    "wmic bs h (CreateProcess p c a b) = ok_resp\<lparr>outs := [12, 16]\<rparr>" "wmic bs h (CloseHandle k) = ok_resp" for h k p c a b
    by (simp_all add: wmic_def)
  have ne: "GetBiosCommand \<noteq> []" by (simp add: GetBiosCommand_def)
  have three: "(3 :: nat) = Suc (Suc (Suc 0))" by simp
  show ?thesis unfolding three exec_main_def using g assms(3) ne
    by (simp add: Exec_def bnd_def call_def ret_def andthen_def do_call_def with_ptr_def finally_do_def whenM_def CreateChildProcess_def
      pair_of_def w)
qed

lemma chars_of_map: "chars_of (map of_char s) = s"
proof -
  have "unat (of_char c :: BYTE) = of_char c" for c
  proof -
    have "unat (of_nat (of_char c) :: BYTE) = of_char c" by (rule unat_less_imp_eq_of_nat) simp
    then show ?thesis by (simp only: of_nat_of_char)
  qed
  then show ?thesis by (induction s) (simp_all add: chars_of_def)
qed

theorem serial_is_reported_witness:
  "outcome_of (exec_main 3 (wmic (map of_char (wmic_output ''ABC-1'' ''  ''))) () []) = Val ''ABC-1''"
proof -
  let ?bs = "map of_char (wmic_output ''ABC-1'' ''  '') :: BYTE list"
  have p: "plain_serial ''ABC-1''" by (simp add: plain_serial_def is_space_def)
  have c: "chars_of ?bs = wmic_output ''ABC-1'' ''  ''" by (rule chars_of_map)
  have len: "?bs \<noteq> []" "length ?bs < 2 ^ 32" by (simp_all add: wmic_output_def)
  have "Parse (chars_of ?bs) = Some ''ABC-1''" using Trim_id[OF p] unfolding c by (subst Parse_token) simp_all
  then obtain g where g: "exec_main 3 (wmic ?bs) () [] = (Val ''ABC-1'', (), [] @ g)" "bytes_read g = ?bs"
    using wmic_runs[OF len] by blast
  have "chars_of (bytes_read g) = wmic_output ''ABC-1'' ''  ''" using g(2) c by simp
  from serial_is_reported[OF g(1) this p] g(1) show ?thesis by simp
qed

end
