(* ===== verification/Junie.thy ===== *)
theory Junie
  imports Win32_Prelude "HOL-Library.Multiset"
begin

unbundle bit_operations_syntax

text \<open>
  WinsockCoroutineJunie/main.cpp: an echo server and its client in one thread, as coroutines that the
  event loop of \<open>main\<close> resumes.  A coroutine frame is the place at which it is suspended; the frames that
  exist are a map from frame numbers, and a suspended coroutine is resumed through the address of the
  awaitable it waits on.  The constant texts the program prints are left out; the echo it prints is a call.
\<close>

section \<open>System calls and state\<close>

text \<open>The awaitables of the program, by the names of the local variables that hold them.\<close>

datatype operation = AcceptOp | HandlerRecvOp | HandlerSendOp | ConnectOp | ClientSendOp | ClientRecvOp

type_synonym awaitable = "nat \<times> operation"

datatype jcall =
    WSAStartup
  | WSACleanup
  | CreateIoCompletionPort HANDLE HANDLE
  | GetQueuedCompletionStatus
  | CloseHandle HANDLE
  | GetLastError
  | WSAGetLastError
  | socket
  | closesocket HANDLE
  | bind_socket HANDLE
  | listen_socket HANDLE
  | WSAIoctl HANDLE operation
  | AcceptEx HANDLE HANDLE awaitable
  | ConnectEx HANDLE awaitable
  | setsockopt HANDLE "HANDLE option"
  | WSARecv HANDLE DWORD awaitable
  | WSASend HANDLE "BYTE list" awaitable
  | sleep_for nat
  | print_echo "BYTE list"

text \<open>A suspended coroutine: the \<open>co_await\<close> it is at, and the sockets among its local variables.\<close>

datatype frame =
    Accepting HANDLE HANDLE
  | Receiving HANDLE
  | Sending HANDLE
  | Connecting HANDLE
  | ClientSending HANDLE
  | ClientReceiving HANDLE

fun awaits :: "frame \<Rightarrow> operation" where
  "awaits (Accepting l a) = AcceptOp"
| "awaits (Receiving s) = HandlerRecvOp"
| "awaits (Sending s) = HandlerSendOp"
| "awaits (Connecting s) = ConnectOp"
| "awaits (ClientSending s) = ClientSendOp"
| "awaits (ClientReceiving s) = ClientRecvOp"

text \<open>
  The globals, the frames that exist, the number of the next one, and the operations that were started
  and whose completion packet has not been taken from the port.
\<close>

record junie =
  g_iocp :: HANDLE
  lpfnAcceptEx :: HANDLE
  lpfnConnectEx :: HANDLE
  g_stop :: bool
  frames :: "nat \<Rightarrow> frame option"
  next_frame :: nat
  in_flight :: "awaitable multiset"

definition junie_init :: junie where
  "junie_init = \<lparr>g_iocp = InvalidHandleValue, lpfnAcceptEx = 0, lpfnConnectEx = 0, g_stop = False,
     frames = (\<lambda>_. None), next_frame = 0, in_flight = {#}\<rparr>"

text \<open>No exception is thrown: every failure is a result the code looks at, or does not.\<close>

type_synonym 'a jio = "(junie, jcall, unit, 'a) io"

abbreviation (input) SocketError :: DWORD where "SocketError \<equiv> 0xFFFFFFFF"
abbreviation (input) IoPending :: DWORD where "IoPending \<equiv> 997"
abbreviation (input) WaitTimeout :: DWORD where "WaitTimeout \<equiv> 258"
abbreviation (input) BufferSize :: DWORD where "BufferSize \<equiv> 1024"

section \<open>Coroutines\<close>

definition new_frame :: "nat jio" where
  "new_frame = bnd (gets next_frame) (\<lambda>i. andthen (modify (\<lambda>s. s\<lparr>next_frame := Suc i\<rparr>)) (ret i))"

definition suspend :: "nat \<Rightarrow> frame \<Rightarrow> unit jio" where
  "suspend i f = modify (\<lambda>s. s\<lparr>frames := (frames s)(i := Some f)\<rparr>)"

text \<open>The end of a coroutine: \<open>final_suspend\<close> is \<open>suspend_never\<close>, so the frame is destroyed.\<close>

definition finish :: "nat \<Rightarrow> unit jio" where
  "finish i = modify (\<lambda>s. s\<lparr>frames := (frames s)(i := None)\<rparr>)"

text \<open>
  An overlapped call: it is in flight when it succeeds and when it fails with \<open>WSA_IO_PENDING\<close>; the result
  says whether it is.
\<close>

definition launch :: "awaitable \<Rightarrow> unit jio" where
  "launch a = modify (\<lambda>s. s\<lparr>in_flight := add_mset a (in_flight s)\<rparr>)"

definition start_op :: "jcall \<Rightarrow> (resp \<Rightarrow> bool) \<Rightarrow> awaitable \<Rightarrow> bool jio" where
  "start_op c failed a = bnd (call c) (\<lambda>r.
     if failed r then bnd (call WSAGetLastError) (\<lambda>e.
       if status_of e \<noteq> IoPending then ret False else andthen (launch a) (ret True))
     else andthen (launch a) (ret True))"

definition is_false :: "resp \<Rightarrow> bool" where
  "is_false r \<longleftrightarrow> status_of r = 0"

definition is_socket_error :: "resp \<Rightarrow> bool" where
  "is_socket_error r \<longleftrightarrow> status_of r = SocketError"

definition RegisterSocket :: "HANDLE \<Rightarrow> unit jio" where
  "RegisterSocket s = bnd (gets g_iocp) (\<lambda>p. bnd (call (CreateIoCompletionPort s p)) (\<lambda>r.
     whenM (rv r = 0) (do_call GetLastError)))"

text \<open>\<open>IoResult\<close>, and the content of the buffer of a receive behind it.\<close>

record io_result =
  transferred :: DWORD
  result_error :: DWORD
  content :: "BYTE list"

section \<open>The server\<close>

definition handler_end :: "nat \<Rightarrow> HANDLE \<Rightarrow> unit jio" where
  "handler_end i s = andthen (do_call (closesocket s)) (finish i)"

definition handler_receive :: "nat \<Rightarrow> HANDLE \<Rightarrow> unit jio" where
  "handler_receive i s = bnd (start_op (WSARecv s BufferSize (i, HandlerRecvOp)) is_socket_error (i, HandlerRecvOp))
     (\<lambda>ok. if ok then suspend i (Receiving s) else handler_end i s)"

definition HandleClient :: "HANDLE \<Rightarrow> unit jio" where
  "HandleClient s = bnd new_frame (\<lambda>i. handler_receive i s)"

definition handler_send :: "nat \<Rightarrow> HANDLE \<Rightarrow> io_result \<Rightarrow> unit jio" where
  "handler_send i s c =
     (if transferred c = 0 \<or> result_error c \<noteq> 0 then handler_end i s
      else if BufferSize < transferred c then fault
      else bnd (start_op (WSASend s (take (unat (transferred c)) (content c)) (i, HandlerSendOp))
                  is_socket_error (i, HandlerSendOp))
        (\<lambda>ok. if ok then suspend i (Sending s) else handler_end i s))"

definition accept_loop :: "nat \<Rightarrow> HANDLE \<Rightarrow> unit jio" where
  "accept_loop i l = bnd (gets g_stop) (\<lambda>stop.
     if stop then andthen (do_call (closesocket l)) (finish i) else
     bnd (call socket) (\<lambda>a. andthen (RegisterSocket (rv a)) (bnd (gets lpfnAcceptEx) (\<lambda>f.
       if f = 0 then fault else
       bnd (start_op (AcceptEx l (rv a) (i, AcceptOp)) is_false (i, AcceptOp)) (\<lambda>ok.
         if ok then suspend i (Accepting l (rv a))
         else andthen (do_call WSAGetLastError) (andthen (do_call (closesocket (rv a)))
                (andthen (do_call (closesocket l)) (finish i))))))))"

definition accepted :: "nat \<Rightarrow> HANDLE \<Rightarrow> HANDLE \<Rightarrow> unit jio" where
  "accepted i l a = bnd (gets g_stop) (\<lambda>stop.
     if stop then andthen (do_call (closesocket a)) (andthen (do_call (closesocket l)) (finish i))
     else andthen (do_call (setsockopt a (Some l))) (andthen (HandleClient a) (accept_loop i l)))"

definition server_body :: "nat \<Rightarrow> unit jio" where
  "server_body i = bnd (call socket) (\<lambda>l.
     if rv l = InvalidHandleValue then andthen (do_call WSAGetLastError) (finish i) else
     andthen (RegisterSocket (rv l))
       (bnd (call (bind_socket (rv l))) (\<lambda>b.
          if is_socket_error b then andthen (do_call WSAGetLastError) (finish i) else
        bnd (call (listen_socket (rv l))) (\<lambda>k.
          if is_socket_error k then andthen (do_call WSAGetLastError) (finish i) else
        accept_loop i (rv l)))))"

definition Server_Run :: "unit jio" where
  "Server_Run = bnd new_frame server_body"

section \<open>The client\<close>

definition client_end :: "nat \<Rightarrow> HANDLE \<Rightarrow> unit jio" where
  "client_end i s = andthen (do_call (closesocket s)) (finish i)"

definition client_body :: "nat \<Rightarrow> unit jio" where
  "client_body i = andthen (do_call (sleep_for 1)) (bnd (call socket) (\<lambda>s.
     if rv s = InvalidHandleValue then andthen (do_call WSAGetLastError) (finish i) else
     andthen (RegisterSocket (rv s)) (andthen (do_call (bind_socket (rv s))) (bnd (gets lpfnConnectEx) (\<lambda>f.
       if f = 0 then fault else
       bnd (start_op (ConnectEx (rv s) (i, ConnectOp)) is_false (i, ConnectOp)) (\<lambda>ok.
         if ok then suspend i (Connecting (rv s))
         else andthen (do_call WSAGetLastError) (client_end i (rv s))))))))"

definition Client_Run :: "unit jio" where
  "Client_Run = bnd new_frame client_body"

definition client_message :: "BYTE list" where
  "client_message = map of_char ''Hello from C++23 Coroutine Client!''"

definition connected :: "nat \<Rightarrow> HANDLE \<Rightarrow> io_result \<Rightarrow> unit jio" where
  "connected i s c =
     (if result_error c \<noteq> 0 then client_end i s
      else andthen (do_call (setsockopt s None))
        (bnd (start_op (WSASend s client_message (i, ClientSendOp)) is_socket_error (i, ClientSendOp)) (\<lambda>ok.
           if ok then suspend i (ClientSending s) else client_end i s)))"

definition client_receive :: "nat \<Rightarrow> HANDLE \<Rightarrow> unit jio" where
  "client_receive i s = bnd (start_op (WSARecv s BufferSize (i, ClientRecvOp)) is_socket_error (i, ClientRecvOp))
     (\<lambda>ok. if ok then suspend i (ClientReceiving s) else client_end i s)"

definition client_received :: "nat \<Rightarrow> HANDLE \<Rightarrow> io_result \<Rightarrow> unit jio" where
  "client_received i s c =
     (if result_error c = 0 \<and> BufferSize < transferred c then fault else
      andthen (whenM (result_error c = 0) (do_call (print_echo (take (unat (transferred c)) (content c)))))
        (andthen (do_call (closesocket s)) (andthen (do_call (sleep_for 1))
           (andthen (modify (\<lambda>s. s\<lparr>g_stop := True\<rparr>)) (finish i)))))"

section \<open>The event loop and the program\<close>

text \<open>\<open>handle.resume()\<close>: each coroutine goes on after the \<open>co_await\<close> it is suspended at.\<close>

fun continue :: "nat \<Rightarrow> frame \<Rightarrow> io_result \<Rightarrow> unit jio" where
  "continue i (Accepting l a) c = accepted i l a"
| "continue i (Receiving s) c = handler_send i s c"
| "continue i (Sending s) c = handler_receive i s"
| "continue i (Connecting s) c = connected i s c"
| "continue i (ClientSending s) c = client_receive i s"
| "continue i (ClientReceiving s) c = client_received i s c"

text \<open>
  The pointer of a packet is used as the awaitable at that address.  Its frame must exist, and the
  coroutine must be suspended at that very awaitable: any other pointer is a dangling one.
\<close>

definition resume :: "awaitable \<Rightarrow> io_result \<Rightarrow> unit jio" where
  "resume a c = andthen (modify (\<lambda>s. s\<lparr>in_flight := in_flight s - {#a#}\<rparr>)) (bnd (gets frames) (\<lambda>fs.
     case fs (fst a) of None \<Rightarrow> fault
     | Some f \<Rightarrow> if awaits f \<noteq> snd a then fault else continue (fst a) f c))"

definition overlapped_of :: "resp \<Rightarrow> HANDLE" where
  "overlapped_of r = (case outs r of [] \<Rightarrow> 0 | p # _ \<Rightarrow> p)"

text \<open>The body of the loop; \<open>at\<close> is what is stored at an address, which is the compiler's choice.\<close>

definition loop_body :: "(HANDLE \<Rightarrow> awaitable) \<Rightarrow> unit jio" where
  "loop_body at = bnd (call GetQueuedCompletionStatus) (\<lambda>r.
     if rv r \<noteq> 0 then
       whenM (overlapped_of r \<noteq> 0) (resume (at (overlapped_of r))
         \<lparr>transferred = ucast (out r), result_error = 0, content = buf r\<rparr>)
     else bnd (call GetLastError) (\<lambda>e.
       if status_of e = WaitTimeout then ret () else
       whenM (overlapped_of r \<noteq> 0) (resume (at (overlapped_of r))
         \<lparr>transferred = ucast (out r), result_error = status_of e, content = buf r\<rparr>)))"

text \<open>\<open>main\<close> up to the loop: the exit code of an early return, or none.\<close>

definition junie_start :: "int option jio" where
  "junie_start = bnd (call WSAStartup) (\<lambda>w. if status_of w \<noteq> 0 then ret (Some 1) else
     bnd (call (CreateIoCompletionPort InvalidHandleValue 0)) (\<lambda>p.
     andthen (modify (\<lambda>s. s\<lparr>g_iocp := rv p\<rparr>))
     (if rv p = 0 then andthen (do_call GetLastError) (ret (Some 1)) else
      bnd (call socket) (\<lambda>d.
      bnd (call (WSAIoctl (rv d) AcceptOp)) (\<lambda>f. andthen (modify (\<lambda>s. s\<lparr>lpfnAcceptEx := out f\<rparr>))
     (bnd (call (WSAIoctl (rv d) ConnectOp)) (\<lambda>g. andthen (modify (\<lambda>s. s\<lparr>lpfnConnectEx := out g\<rparr>))
     (andthen (do_call (closesocket (rv d)))
       (if out f = 0 \<or> out g = 0 then ret (Some 1)
        else andthen Server_Run (andthen Client_Run (ret None)))))))))))"

definition junie_end :: "int jio" where
  "junie_end = bnd (gets g_iocp) (\<lambda>p. andthen (do_call (CloseHandle p)) (andthen (do_call WSACleanup) (ret 0)))"

text \<open>
  One turn of the loop.  What is known of the port: a packet is that of an operation in flight, and no
  receive overruns its buffer.
\<close>

definition packet_ok :: "(HANDLE \<Rightarrow> awaitable) \<Rightarrow> jcall os \<Rightarrow> junie \<Rightarrow> jcall history \<Rightarrow> bool" where
  "packet_ok at os s h \<longleftrightarrow> (let r = os h GetQueuedCompletionStatus in overlapped_of r \<noteq> 0 \<longrightarrow>
     at (overlapped_of r) \<in># in_flight s \<and> ucast (out r) \<le> BufferSize)"

inductive turn :: "jcall os \<Rightarrow> junie \<times> jcall history \<Rightarrow> junie \<times> jcall history \<Rightarrow> bool" for os where
  turn: "\<not> g_stop s \<Longrightarrow> packet_ok at os s h \<Longrightarrow> loop_body at os s h = (Val (), s', h') \<Longrightarrow> turn os (s, h) (s', h')"

inductive_cases turnE: "turn os (s, h) (s', h')"

text \<open>The states at the head of the loop, from the entry on.\<close>

inductive at_head :: "jcall os \<Rightarrow> junie \<Rightarrow> jcall history \<Rightarrow> bool" for os where
  enter: "junie_start os junie_init [] = (Val None, s, h) \<Longrightarrow> at_head os s h"
| again: "at_head os s h \<Longrightarrow> turn os (s, h) (s', h') \<Longrightarrow> at_head os s' h'"

section \<open>Total correctness\<close>

definition total :: "(junie \<Rightarrow> bool) \<Rightarrow> 'a jio \<Rightarrow> ('a \<Rightarrow> junie \<Rightarrow> bool) \<Rightarrow> bool" where
  "total P m Q \<longleftrightarrow> (\<forall>os s h. P s \<longrightarrow> (\<exists>a s' h'. m os s h = (Val a, s', h') \<and> Q a s'))"

named_theorems total_intro \<open>rules for total correctness\<close>

lemma totalD: "total P m Q \<Longrightarrow> P s \<Longrightarrow> \<exists>a s' h'. m os s h = (Val a, s', h') \<and> Q a s'"
  by (simp add: total_def)

lemma total_unit: "total P m Q \<Longrightarrow> P s \<Longrightarrow> \<exists>s' h'. m os s h = (Val (), s', h') \<and> Q () s'"
  using totalD[of P m Q s os h] by auto

lemma total_call_then [total_intro]: "(\<And>r. total P (f r) Q) \<Longrightarrow> total P (bnd (call c) f) Q"
  by (simp add: total_def io_simps)

lemma total_do_then [total_intro]: "total P k Q \<Longrightarrow> total P (andthen (do_call c) k) Q"
  by (simp add: total_def io_simps)

lemma total_when_then [total_intro]: "total P k Q \<Longrightarrow> total P (andthen (whenM b (do_call c)) k) Q"
  by (simp add: total_def io_simps)

lemma total_gets_then [total_intro]: "(\<And>a. total (\<lambda>s. P s \<and> f s = a) (k a) Q) \<Longrightarrow> total P (bnd (gets f) k) Q"
  by (simp add: total_def io_simps)

lemma total_if [total_intro]: "(b \<Longrightarrow> total P m Q) \<Longrightarrow> (\<not> b \<Longrightarrow> total P m' Q) \<Longrightarrow> total P (if b then m else m') Q"
  by simp

lemma total_bnd: "total P m R \<Longrightarrow> (\<And>a. total (R a) (f a) Q) \<Longrightarrow> total P (bnd m f) Q"
  unfolding total_def by (metis bnd_Val)

lemma total_andthen: "total P m (\<lambda>_. R) \<Longrightarrow> total R k Q \<Longrightarrow> total P (andthen m k) Q"
  unfolding andthen_def by (rule total_bnd)

lemma total_pre: "total P m Q \<Longrightarrow> (\<And>s. P' s \<Longrightarrow> P s) \<Longrightarrow> total P' m Q"
  by (simp add: total_def)

lemma total_register_then [total_intro]: "total P k Q \<Longrightarrow> total P (andthen (RegisterSocket s) k) Q"
  by (simp add: total_def RegisterSocket_def io_simps)

lemma total_fault [total_intro]: "(\<And>s. \<not> P s) \<Longrightarrow> total P fault Q"
  by (simp add: total_def)

lemma total_start [total_intro]:
  assumes "total (\<lambda>s. \<exists>s1. P s1 \<and> s = s1\<lparr>in_flight := add_mset a (in_flight s1)\<rparr>) k1 Q" "total P k2 Q"
  shows "total P (bnd (start_op c failed a) (\<lambda>ok. if ok then k1 else k2)) Q"
  using assms unfolding total_def start_op_def by (fastforce simp: io_simps launch_def)

section \<open>Typing of the suspended coroutines\<close>

fun of_client :: "operation \<Rightarrow> bool" where
  "of_client ConnectOp = True"
| "of_client ClientSendOp = True"
| "of_client ClientRecvOp = True"
| "of_client _ = False"

fun awaiting :: "frame option \<Rightarrow> operation \<Rightarrow> nat" where
  "awaiting None opn = 0"
| "awaiting (Some f) opn = of_bool (awaits f = opn)"

text \<open>
  At the head of the loop the operations in flight are those the coroutines are suspended at, each once; a
  frame is one that was made, and the client's is the second.
\<close>

definition typed_frames :: "(nat \<Rightarrow> frame option) \<Rightarrow> junie \<Rightarrow> bool" where
  "typed_frames fs s \<longleftrightarrow> (\<forall>i opn. count (in_flight s) (i, opn) = awaiting (fs i) opn) \<and>
     (\<forall>i f. fs i = Some f \<longrightarrow> of_client (awaits f) = (i = 1) \<and> (awaits f = AcceptOp \<longleftrightarrow> i = 0)) \<and>
     (\<forall>i \<ge> next_frame s. frames s i = None) \<and> lpfnAcceptEx s \<noteq> 0 \<and> lpfnConnectEx s \<noteq> 0"

definition well_typed :: "junie \<Rightarrow> bool" where
  "well_typed s \<longleftrightarrow> typed_frames (frames s) s \<and> 2 \<le> next_frame s"

text \<open>What the coroutine \<open>i\<close> may change: its own frame, new frames, and \<open>g_stop\<close> if it is the client.\<close>

definition preserves :: "nat \<Rightarrow> junie \<Rightarrow> junie \<Rightarrow> bool" where
  "preserves i s0 s \<longleftrightarrow> next_frame s0 \<le> next_frame s \<and> (\<forall>j < next_frame s0. j \<noteq> i \<longrightarrow> frames s j = frames s0 j) \<and>
     (i \<noteq> 1 \<longrightarrow> g_stop s = g_stop s0)"

text \<open>
  \<open>busy R i s0 s\<close>: the coroutine \<open>i\<close> is running, called from those in \<open>R\<close>, and it was resumed in \<open>s0\<close>;
  \<open>settled R i s0 s\<close>: it is suspended or has ended.
\<close>

definition busy :: "nat set \<Rightarrow> nat \<Rightarrow> junie \<Rightarrow> junie \<Rightarrow> bool" where
  "busy R i s0 s \<longleftrightarrow> typed_frames (\<lambda>k. if k = i \<or> k \<in> R then None else frames s k) s \<and> i < next_frame s \<and> i \<notin> R \<and>
     preserves i s0 s"

definition settled :: "nat set \<Rightarrow> nat \<Rightarrow> junie \<Rightarrow> junie \<Rightarrow> bool" where
  "settled R i s0 s \<longleftrightarrow> typed_frames (\<lambda>k. if k \<in> R then None else frames s k) s \<and> preserves i s0 s"

lemmas typing_defs = busy_def settled_def typed_frames_def preserves_def

lemma busy_pointers: "busy R i s0 s \<Longrightarrow> lpfnAcceptEx s \<noteq> 0 \<and> lpfnConnectEx s \<noteq> 0"
  by (simp add: typing_defs)

lemma total_finish [total_intro]:
  assumes "\<And>s. P s \<Longrightarrow> busy R i s0 s"
  shows "total P (finish i) (\<lambda>_. settled R i s0)"
proof -
  have "settled R i s0 (s\<lparr>frames := (frames s)(i := None)\<rparr>)" if "P s" for s
    using assms[OF that] by (auto simp: typing_defs)
  then show ?thesis by (simp add: total_def finish_def io_simps)
qed

lemma total_suspend [total_intro]:
  assumes "\<And>s. P s \<Longrightarrow> busy R i s0 s" "of_client (awaits f) = (i = 1)" "awaits f = AcceptOp \<longleftrightarrow> i = 0" "opn = awaits f"
  shows "total (\<lambda>s. \<exists>s1. P s1 \<and> s = s1\<lparr>in_flight := add_mset (i, opn) (in_flight s1)\<rparr>) (suspend i f)
    (\<lambda>_. settled R i s0)"
proof -
  have "settled R i s0 (s\<lparr>in_flight := add_mset (i, opn) (in_flight s), frames := (frames s)(i := Some f)\<rparr>)" if "P s" for s
    using assms(1)[OF that] assms(2-4) by (auto simp: typing_defs)
  then show ?thesis by (auto simp: total_def suspend_def io_simps)
qed

lemma total_handler_end [total_intro]: "(\<And>s. P s \<Longrightarrow> busy R i s0 s) \<Longrightarrow> total P (handler_end i x) (\<lambda>_. settled R i s0)"
  unfolding handler_end_def by (intro total_intro)

lemma total_client_end [total_intro]: "(\<And>s. P s \<Longrightarrow> busy R i s0 s) \<Longrightarrow> total P (client_end i x) (\<lambda>_. settled R i s0)"
  unfolding client_end_def by (intro total_intro)

lemma total_handler_receive [total_intro]:
  "(\<And>s. P s \<Longrightarrow> busy R i s0 s) \<Longrightarrow> 2 \<le> i \<Longrightarrow> total P (handler_receive i x) (\<lambda>_. settled R i s0)"
  unfolding handler_receive_def by (intro total_intro) simp_all

lemma total_handler_send [total_intro]:
  "(\<And>s. P s \<Longrightarrow> busy R i s0 s) \<Longrightarrow> 2 \<le> i \<Longrightarrow> transferred c \<le> BufferSize \<Longrightarrow>
   total P (handler_send i x c) (\<lambda>_. settled R i s0)"
  unfolding handler_send_def by (intro total_intro) simp_all

lemma HandleClient_total:
  assumes "\<And>s. P s \<Longrightarrow> busy {} i s0 s" "2 \<le> next_frame s0"
  shows "total P (HandleClient x) (\<lambda>_. busy {} i s0)"
proof -
  have "\<exists>s' h'. HandleClient x os s h = (Val (), s', h') \<and> busy {} i s0 s'" if s: "P s" for os s h
  proof -
    obtain j t where j: "j = next_frame s" and t: "t = s\<lparr>next_frame := Suc j\<rparr>" by blast
    have b: "busy {} i s0 s" using assms(1) s .
    then have b': "busy {i} j t t" and j2: "2 \<le> j" using assms(2) by (auto simp: typing_defs j t)
    have "total (\<lambda>s. s = t) (handler_receive j x) (\<lambda>_. settled {i} j t)"
      using b' j2 by (intro total_intro) simp_all
    from total_unit[OF this refl]
    obtain s' h' where r: "handler_receive j x os t h = (Val (), s', h')" and st: "settled {i} j t s'" by blast
    have "preserves i s0 s" "i < next_frame s" using b by (simp_all add: busy_def)
    moreover have "preserves j t s'" using st by (simp add: settled_def)
    ultimately have "preserves i s0 s'" "i < next_frame s'"
      using assms(2) j2 by (auto simp: preserves_def j t)
    then have "busy {} i s0 s'" using st by (simp add: busy_def settled_def)
    then show ?thesis using r by (simp add: HandleClient_def new_frame_def io_simps j t)
  qed
  then show ?thesis by (simp add: total_def)
qed

lemma total_HandleClient [total_intro]:
  "total (busy {} i s0) k Q \<Longrightarrow> (\<And>s. P s \<Longrightarrow> busy {} i s0 s) \<Longrightarrow> 2 \<le> next_frame s0 \<Longrightarrow>
   total P (andthen (HandleClient x) k) Q"
  by (rule total_andthen[OF HandleClient_total])

lemma total_accept_loop [total_intro]:
  "(\<And>s. P s \<Longrightarrow> busy R 0 s0 s) \<Longrightarrow> total P (accept_loop 0 l) (\<lambda>_. settled R 0 s0)"
  unfolding accept_loop_def by (intro total_intro) (auto dest: busy_pointers)

lemma total_accepted [total_intro]:
  "(\<And>s. P s \<Longrightarrow> busy {} 0 s0 s) \<Longrightarrow> 2 \<le> next_frame s0 \<Longrightarrow> total P (accepted 0 l a) (\<lambda>_. settled {} 0 s0)"
  unfolding accepted_def by (intro total_intro) auto

lemma total_connected [total_intro]:
  "(\<And>s. P s \<Longrightarrow> busy R 1 s0 s) \<Longrightarrow> total P (connected 1 x c) (\<lambda>_. settled R 1 s0)"
  unfolding connected_def by (intro total_intro) simp_all

lemma total_client_receive [total_intro]:
  "(\<And>s. P s \<Longrightarrow> busy R 1 s0 s) \<Longrightarrow> total P (client_receive 1 x) (\<lambda>_. settled R 1 s0)"
  unfolding client_receive_def by (intro total_intro) simp_all

lemma total_stop [total_intro]:
  assumes "total (busy R 1 s0) k Q" "\<And>s. P s \<Longrightarrow> busy R 1 s0 s"
  shows "total P (andthen (modify (\<lambda>s. s\<lparr>g_stop := True\<rparr>)) k) Q"
proof -
  have "busy R 1 s0 (s\<lparr>g_stop := True\<rparr>)" if "P s" for s
    using assms(2)[OF that] by (simp add: typing_defs cong: if_cong split del: if_split)
  then show ?thesis using assms(1) by (simp add: total_def io_simps)
qed

lemma total_client_received [total_intro]:
  "(\<And>s. P s \<Longrightarrow> busy R 1 s0 s) \<Longrightarrow> transferred c \<le> BufferSize \<Longrightarrow>
   total P (client_received 1 x c) (\<lambda>_. settled R 1 s0)"
  unfolding client_received_def by (intro total_intro) auto

text \<open>A coroutine that is resumed at the operation it waits for goes on to its next suspension or its end.\<close>

lemma total_continue:
  assumes "busy {} i s0 s0" "2 \<le> next_frame s0" "frames s0 i = Some f"
    "of_client (awaits f) = (i = 1)" "awaits f = AcceptOp \<longleftrightarrow> i = 0" "transferred c \<le> BufferSize"
  shows "total (\<lambda>s. s = s0) (continue i f c) (\<lambda>_. settled {} i s0)"
proof -
  have P: "s = s0 \<Longrightarrow> busy {} i s0 s" for s using assms(1) by simp
  show ?thesis
  proof (cases f)
    case (Accepting l a)
    then show ?thesis using P assms by (auto intro!: total_accepted)
  next
    case (Receiving x)
    then show ?thesis using P assms by (auto intro!: total_handler_send)
  next
    case (Sending x)
    then show ?thesis using P assms by (auto intro!: total_handler_receive)
  next
    case (Connecting x)
    then show ?thesis using P assms by (auto intro!: total_connected[unfolded One_nat_def])
  next
    case (ClientSending x)
    then show ?thesis using P assms by (auto intro!: total_client_receive[unfolded One_nat_def])
  next
    case (ClientReceiving x)
    then show ?thesis using P assms by (auto intro!: total_client_received[unfolded One_nat_def])
  qed
qed

text \<open>The packet of an operation in flight.\<close>

lemma resume_total:
  assumes "well_typed s" "a \<in># in_flight s" "transferred c \<le> BufferSize"
  shows "\<exists>s' h'. resume a c os s h = (Val (), s', h') \<and> settled {} (fst a) (s\<lparr>in_flight := in_flight s - {#a#}\<rparr>) s'"
proof -
  obtain i opn where a: "a = (i, opn)" by (cases a)
  let ?s = "s\<lparr>in_flight := in_flight s - {#a#}\<rparr>"
  have "0 < awaiting (frames s i) opn"
    using assms(1,2) by (metis a count_greater_zero_iff well_typed_def typed_frames_def)
  then obtain f where f: "frames s i = Some f" "awaits f = opn" by (cases "frames s i") (auto split: if_splits)
  have b: "busy {} i ?s ?s" "of_client (awaits f) = (i = 1)" "awaits f = AcceptOp \<longleftrightarrow> i = 0" "2 \<le> next_frame ?s"
    using assms(1) f by (auto simp: typing_defs well_typed_def a not_le[symmetric])
  from total_unit[OF total_continue[OF b(1) b(4) _ b(2,3) assms(3)] refl, of os h]
  show ?thesis using f by (simp add: resume_def io_simps a)
qed

lemma settled_well_typed: "settled {} i s0 s \<Longrightarrow> 2 \<le> next_frame s0 \<Longrightarrow> well_typed s"
  by (simp add: settled_def well_typed_def preserves_def)

text \<open>One turn either changes nothing or is one resumption.\<close>

lemma loop_body_cases:
  assumes "well_typed s" "packet_ok at os s h"
  obtains h' where "loop_body at os s h = (Val (), s, h')"
  | a c s' h' h1 where "loop_body at os s h = (Val (), s', h')" "a \<in># in_flight s" "resume a c os s h1 = (Val (), s', h')"
      "settled {} (fst a) (s\<lparr>in_flight := in_flight s - {#a#}\<rparr>) s'"
proof -
  let ?r = "os h GetQueuedCompletionStatus"
  let ?h = "h @ [(GetQueuedCompletionStatus, ?r)]"
  let ?e = "status_of (os ?h GetLastError)"
  obtain h1 e where h1: "h1 = (if rv ?r \<noteq> 0 then ?h else ?h @ [(GetLastError, os ?h GetLastError)])"
    and e: "e = (if rv ?r \<noteq> 0 then 0 else ?e)" by blast
  show ?thesis
  proof (cases "overlapped_of ?r = 0 \<or> rv ?r = 0 \<and> ?e = WaitTimeout")
    case True
    then have "loop_body at os s h = (Val (), s, h1)" by (auto simp: loop_body_def io_simps h1)
    then show ?thesis by (rule that(1))
  next
    case False
    let ?a = "at (overlapped_of ?r)" and ?c = "\<lparr>transferred = ucast (out ?r), result_error = e, content = buf ?r\<rparr>"
    have a: "?a \<in># in_flight s" "transferred ?c \<le> BufferSize" using assms(2) False by (auto simp: packet_ok_def Let_def)
    have "loop_body at os s h = resume ?a ?c os s h1" using False by (auto simp: loop_body_def io_simps h1 e)
    then show ?thesis using resume_total[OF assms(1) a, of os h1] a(1) that(2) by metis
  qed
qed

section \<open>The start of the coroutines\<close>

text \<open>A computation that leaves a field as it is.\<close>

definition keeps :: "(junie \<Rightarrow> 'b) \<Rightarrow> 'a jio \<Rightarrow> bool" where
  "keeps f m \<longleftrightarrow> (\<forall>os s h. f (state_of (m os s h)) = f s)"

named_theorems keeps_intro \<open>rules for fields that are kept\<close>

lemma keeps_silent [keeps_intro]: "silent m \<Longrightarrow> keeps f m"
  by (simp add: keeps_def silent_def)

lemma keeps_modify [keeps_intro]: "(\<And>s. f (g s) = f s) \<Longrightarrow> keeps f (modify g)"
  by (simp add: keeps_def io_simps)

lemma keeps_bnd [keeps_intro]:
  assumes m: "keeps f m" and k: "\<And>a. keeps f (k a)"
  shows "keeps f (bnd m k)"
  unfolding keeps_def
proof (intro allI)
  fix os s h
  obtain oc s1 h1 where r: "m os s h = (oc, s1, h1)" by (cases "m os s h")
  then have "f s1 = f s" using m unfolding keeps_def by (metis projections(2))
  then show "f (state_of (bnd m k os s h)) = f s"
    using k by (cases oc) (simp_all add: bnd_def r keeps_def)
qed

lemma keeps_andthen [keeps_intro]: "keeps f m \<Longrightarrow> keeps f k \<Longrightarrow> keeps f (andthen m k)"
  unfolding andthen_def by (rule keeps_bnd)

lemma keeps_if [keeps_intro]: "keeps f m \<Longrightarrow> keeps f m' \<Longrightarrow> keeps f (if b then m else m')"
  by simp

lemma RegisterSocket_silent: "silent (RegisterSocket s)"
  unfolding RegisterSocket_def by (intro silent_intro)

lemma start_op_keeps_next [keeps_intro]: "keeps next_frame (start_op c failed a)"
  unfolding start_op_def launch_def by (intro keeps_intro silent_intro) simp_all

lemma finish_keeps_next [keeps_intro]: "keeps next_frame (finish i)" "keeps next_frame (suspend i f)"
  unfolding finish_def suspend_def by (intro keeps_intro; simp)+

lemma accept_loop_keeps_next: "keeps next_frame (accept_loop i l)"
  unfolding accept_loop_def by (intro keeps_intro silent_simps RegisterSocket_silent)

lemma server_body_total: "(\<And>s. P s \<Longrightarrow> busy {} 0 s0 s) \<Longrightarrow> total P (server_body 0) (\<lambda>_. settled {} 0 s0)"
  unfolding server_body_def by (intro total_intro)

lemma client_body_total: "(\<And>s. P s \<Longrightarrow> busy {} 1 s0 s) \<Longrightarrow> total P (client_body 1) (\<lambda>_. settled {} 1 s0)"
  unfolding client_body_def by (intro total_intro) (auto dest: busy_pointers)

lemma server_body_keeps_next: "keeps next_frame (server_body i)"
  unfolding server_body_def by (intro keeps_intro silent_simps RegisterSocket_silent accept_loop_keeps_next)

lemma Server_Run_apply: "Server_Run os s h = server_body (next_frame s) os (s\<lparr>next_frame := Suc (next_frame s)\<rparr>) h"
  by (simp add: Server_Run_def new_frame_def bnd_gets_apply bnd_bnd andthen_def bnd_modify_apply bnd_ret)

lemma Client_Run_apply: "Client_Run os s h = client_body (next_frame s) os (s\<lparr>next_frame := Suc (next_frame s)\<rparr>) h"
  by (simp add: Client_Run_def new_frame_def bnd_gets_apply bnd_bnd andthen_def bnd_modify_apply bnd_ret)

lemma fresh_busy:
  "typed_frames (frames s) s \<Longrightarrow> s' = s\<lparr>next_frame := Suc (next_frame s)\<rparr> \<Longrightarrow> i = next_frame s \<Longrightarrow> busy {} i s' s'"
  by (auto simp: typing_defs)

lemma coroutines_started:
  assumes s: "next_frame s = 0" "typed_frames (frames s) s"
  shows "\<exists>s' h'. andthen Server_Run (andthen Client_Run (ret None)) os s h = (Val None, s', h') \<and> well_typed s'"
proof -
  let ?s = "s\<lparr>next_frame := Suc 0\<rparr>"
  have b: "busy {} 0 ?s ?s" by (rule fresh_busy[OF s(2)]) (simp_all add: s)
  obtain s1 h1 where r1: "server_body 0 os ?s h = (Val (), s1, h1)" and st: "settled {} 0 ?s s1"
    using total_unit[OF server_body_total[of "\<lambda>x. x = ?s" ?s] refl, of os h] b by auto
  have n: "next_frame s1 = 1"
    using server_body_keeps_next[of 0] r1 by (auto simp: keeps_def) (metis One_nat_def junie.select_convs(6) junie.surjective junie.update_convs(6) projections(2))
  let ?t = "s1\<lparr>next_frame := Suc (Suc 0)\<rparr>"
  have b: "busy {} 1 ?t ?t" by (rule fresh_busy[of s1]) (use st n in \<open>simp_all add: settled_def\<close>)
  obtain s2 h2 where r2: "client_body 1 os ?t h1 = (Val (), s2, h2)" and st2: "settled {} 1 ?t s2"
    using total_unit[OF client_body_total[of "\<lambda>x. x = ?t" ?t] refl, of os h1] b by auto
  have "well_typed s2" by (rule settled_well_typed[OF st2]) simp
  moreover have "Server_Run os s h = (Val (), s1, h1)" using r1 by (simp add: Server_Run_apply s)
  moreover have "Client_Run os s1 h1 = (Val (), s2, h2)" using r2 n by (simp add: Client_Run_apply)
  ultimately show ?thesis by (simp add: andthen_def bnd_def ret_def)
qed

lemma typed_start: "f \<noteq> 0 \<Longrightarrow> g \<noteq> 0 \<Longrightarrow>
  typed_frames (\<lambda>_. None) \<lparr>g_iocp = p, lpfnAcceptEx = f, lpfnConnectEx = g, g_stop = b, frames = (\<lambda>_. None), next_frame = n, in_flight = {#}\<rparr>"
  by (simp add: typed_frames_def)

text \<open>The start returns, with an exit code or at the head of the loop with well-typed coroutines.\<close>

lemma junie_start_cases:
  obtains s h where "junie_start os junie_init [] = (Val (Some 1), s, h)"
  | s h where "junie_start os junie_init [] = (Val None, s, h)" "well_typed s"
proof -
  define h1 where "h1 = [(WSAStartup, os [] WSAStartup)]"
  define p where "p = os h1 (CreateIoCompletionPort InvalidHandleValue 0)"
  define h2 where "h2 = h1 @ [(CreateIoCompletionPort InvalidHandleValue 0, p)]"
  define d where "d = os h2 socket"
  define h3 where "h3 = h2 @ [(socket, d)]"
  define f where "f = os h3 (WSAIoctl (rv d) AcceptOp)"
  define h4 where "h4 = h3 @ [(WSAIoctl (rv d) AcceptOp, f)]"
  define g where "g = os h4 (WSAIoctl (rv d) ConnectOp)"
  define h5 where "h5 = h4 @ [(WSAIoctl (rv d) ConnectOp, g)]"
  define h6 where "h6 = h5 @ [(closesocket (rv d), os h5 (closesocket (rv d)))]"
  note folds = h1_def[symmetric] p_def[symmetric] h2_def[symmetric] d_def[symmetric] h3_def[symmetric]
    f_def[symmetric] h4_def[symmetric] g_def[symmetric] h5_def[symmetric] h6_def[symmetric]
  show ?thesis
  proof (cases "status_of (os [] WSAStartup) \<noteq> 0 \<or> rv p = 0 \<or> out f = 0 \<or> out g = 0")
    case True
    then have "\<exists>s h. junie_start os junie_init [] = (Val (Some 1), s, h)"
      by (auto simp: junie_start_def io_simps folds)
    then show ?thesis using that(1) by blast
  next
    case False
    let ?s = "\<lparr>g_iocp = rv p, lpfnAcceptEx = out f, lpfnConnectEx = out g, g_stop = False,
      frames = (\<lambda>_. None), next_frame = 0, in_flight = {#}\<rparr>"
    have "junie_start os junie_init [] = andthen Server_Run (andthen Client_Run (ret None)) os ?s h6"
      using False
      by (simp add: junie_start_def andthen_def do_call_def bnd_bnd bnd_call_apply bnd_modify_apply bnd_ret if_apply
          folds junie_init_def cong: if_cong)
    then show ?thesis using coroutines_started[of ?s os h6] typed_start False that(2) by auto
  qed
qed

section \<open>Properties of the program\<close>

lemma turn_cases:
  assumes "turn os (s, h) (s', h')" "well_typed s"
  obtains "s' = s" "\<not> g_stop s"
  | a c h1 where "\<not> g_stop s" "a \<in># in_flight s" "resume a c os s h1 = (Val (), s', h')"
      "settled {} (fst a) (s\<lparr>in_flight := in_flight s - {#a#}\<rparr>) s'"
proof -
  obtain at where at: "\<not> g_stop s" "packet_ok at os s h" "loop_body at os s h = (Val (), s', h')" using assms(1) by (rule turnE)
  show ?thesis
    by (rule loop_body_cases[OF assms(2) at(2)]) (use at that in auto)
qed

lemma turn_well_typed:
  assumes "turn os (s, h) (s', h')" "well_typed s"
  shows "well_typed s'"
  using assms by (rule turn_cases) (use assms(2) settled_well_typed in \<open>auto simp: well_typed_def\<close>)

lemma at_head_well_typed: "at_head os s h \<Longrightarrow> well_typed s"
proof (induction rule: at_head.induct)
  case (enter s h)
  then show ?case by (auto intro: junie_start_cases[of os])
next
  case (again s h s' h')
  show ?case by (rule turn_well_typed[OF again.hyps(2) again.IH])
qed

lemma well_typed_in_flight:
  "well_typed s \<Longrightarrow> a \<in># in_flight s \<longleftrightarrow> (\<exists>f. frames s (fst a) = Some f \<and> awaits f = snd a)"
  by (cases a; cases "frames s (fst a)")
    (auto simp: well_typed_def typed_frames_def simp flip: count_greater_zero_iff split: if_splits)

text \<open>C32: At the head of the loop the operations in flight are exactly those the suspended coroutines wait
  for, each once; so whatever packet comes, the pointer in it is that of a live coroutine at this very
  \<open>co_await\<close>, the turn ends without undefined behaviour, and the same holds after it.\<close>
theorem resumed_where_suspended:
  assumes "at_head os s h"
  shows "(\<forall>a. a \<in># in_flight s \<longleftrightarrow> (\<exists>f. frames s (fst a) = Some f \<and> awaits f = snd a)) \<and>
    (\<forall>a. count (in_flight s) a \<le> 1) \<and>
    (\<not> g_stop s \<and> packet_ok at os s h \<longrightarrow> (\<exists>s' h'. loop_body at os s h = (Val (), s', h') \<and> at_head os s' h'))"
proof (intro conjI allI impI)
  have wt: "well_typed s" using assms by (rule at_head_well_typed)
  show "a \<in># in_flight s \<longleftrightarrow> (\<exists>f. frames s (fst a) = Some f \<and> awaits f = snd a)" for a
    using wt by (rule well_typed_in_flight)
  show "count (in_flight s) a \<le> 1" for a
    using wt by (cases a; cases "frames s (fst a)") (auto simp: well_typed_def typed_frames_def)
  assume "\<not> g_stop s \<and> packet_ok at os s h"
  then show "\<exists>s' h'. loop_body at os s h = (Val (), s', h') \<and> at_head os s' h'"
    using loop_body_cases[OF wt, of at os h] turn.turn[of s at os h] again[OF assms] by metis
qed

text \<open>C33: Only the client stops the loop: once its coroutine has ended without having done so, because a
  call failed, the event loop never ends, whatever the system answers.\<close>
theorem failed_client_never_stops:
  assumes "at_head os s h" "frames s 1 = None" "\<not> g_stop s" "(turn os)\<^sup>*\<^sup>* (s, h) (s', h')"
  shows "\<not> g_stop s' \<and> frames s' 1 = None"
proof -
  have "at_head os (fst x) (snd x) \<and> \<not> g_stop (fst x) \<and> frames (fst x) 1 = None" if "(turn os)\<^sup>*\<^sup>* (s, h) x" for x
    using that
  proof (induction rule: rtranclp_induct)
    case base
    then show ?case using assms by simp
  next
    case (step x y)
    obtain s1 h1 s2 h2 where x: "x = (s1, h1)" and y: "y = (s2, h2)" by (cases x; cases y)
    have wt: "well_typed s1" using step.IH at_head_well_typed by (auto simp: x)
    have "\<not> g_stop s2 \<and> frames s2 1 = None"
      using step.hyps(2)[unfolded x y] wt
    proof (rule turn_cases)
      fix a c h0
      assume a: "a \<in># in_flight s1" and st: "settled {} (fst a) (s1\<lparr>in_flight := in_flight s1 - {#a#}\<rparr>) s2"
      have "fst a \<noteq> 1" using a well_typed_in_flight[OF wt] step.IH by (auto simp: x)
      then show ?thesis using st wt step.IH by (auto simp: settled_def preserves_def well_typed_def x)
    qed (use step.IH in \<open>auto simp: x\<close>)
    then show ?case using step.IH step.hyps(2) at_head.again by (auto simp: x y)
  qed
  from this[OF assms(4)] show ?thesis by simp
qed

text \<open>What \<open>AcceptEx\<close> answers when it never fails.\<close>

definition accept_works :: "jcall os \<Rightarrow> bool" where
  "accept_works os \<longleftrightarrow> (\<forall>h l a w. let r = os h (AcceptEx l a w) in
     \<not> is_false r \<or> status_of (os (h @ [(AcceptEx l a w, r)]) WSAGetLastError) = IoPending)"

lemma accept_started:
  assumes "accept_works os"
  shows "\<exists>h'. start_op (AcceptEx l a w) is_false w os s h = (Val True, s\<lparr>in_flight := add_mset w (in_flight s)\<rparr>, h')"
proof -
  let ?r = "os h (AcceptEx l a w)"
  have "\<not> is_false ?r \<or> status_of (os (h @ [(AcceptEx l a w, ?r)]) WSAGetLastError) = IoPending"
    using assms unfolding accept_works_def Let_def by blast
  then show ?thesis by (auto simp: start_op_def launch_def io_simps)
qed

lemma RegisterSocket_runs: "\<exists>h'. RegisterSocket x os s h = (Val (), s, h')"
  by (simp add: RegisterSocket_def io_simps)

lemma accept_loop_accepts:
  assumes "accept_works os" "\<not> g_stop s" "lpfnAcceptEx s \<noteq> 0" "accept_loop i l os s h = (Val (), s', h')"
  shows "\<exists>a. frames s' i = Some (Accepting l a)"
proof -
  let ?a = "rv (os h socket)"
  obtain h1 where h1: "RegisterSocket ?a os s (h @ [(socket, os h socket)]) = (Val (), s, h1)"
    using RegisterSocket_runs by blast
  obtain h2 where "start_op (AcceptEx l ?a (i, AcceptOp)) is_false (i, AcceptOp) os s h1 =
      (Val True, s\<lparr>in_flight := add_mset (i, AcceptOp) (in_flight s)\<rparr>, h2)"
    using accept_started[OF assms(1)] by blast
  then show ?thesis
    using assms(2-4) h1
    by (auto simp: accept_loop_def andthen_def bnd_gets_apply bnd_call_apply bnd_Val suspend_def modify_apply)
qed

lemma accepted_accepts:
  assumes "accept_works os" "\<not> g_stop s" "busy {} 0 s s" "2 \<le> next_frame s" "accepted 0 l a os s h = (Val (), s', h')"
  shows "\<exists>a'. frames s' 0 = Some (Accepting l a')"
proof -
  let ?h = "h @ [(setsockopt a (Some l), os h (setsockopt a (Some l)))]"
  obtain s1 h1 where r: "HandleClient a os s ?h = (Val (), s1, h1)" and b: "busy {} 0 s s1"
    using total_unit[OF HandleClient_total[of "\<lambda>x. x = s" 0 s a] refl, of os ?h] assms(3,4) by auto
  have "accepted 0 l a os s h = accept_loop 0 l os s1 h1"
    using assms(2) r by (simp add: accepted_def andthen_def do_call_def bnd_gets_apply bnd_bnd bnd_call_apply bnd_ret bnd_Val)
  moreover have "\<not> g_stop s1" "lpfnAcceptEx s1 \<noteq> 0" using b assms(2) by (simp_all add: typing_defs)
  ultimately show ?thesis using accept_loop_accepts[OF assms(1), of s1 0 l h1 s' h'] assms(5) by metis
qed

lemma turn_keeps_accepting:
  assumes "accept_works os" "well_typed s" "turn os (s, h) (s', h')" "frames s 0 = Some (Accepting l a)"
  shows "\<exists>a'. frames s' 0 = Some (Accepting l a')"
  using assms(3,2)
proof (rule turn_cases)
  fix w c h1
  let ?s = "s\<lparr>in_flight := in_flight s - {#w#}\<rparr>"
  assume w: "\<not> g_stop s" "w \<in># in_flight s" and r: "resume w c os s h1 = (Val (), s', h')" and st: "settled {} (fst w) ?s s'"
  show ?thesis
  proof (cases "fst w = 0")
    case True
    then have w0: "w = (0, AcceptOp)" using well_typed_in_flight[OF assms(2)] w assms(4) by (cases w) auto
    have "busy {} 0 ?s ?s" using assms(2,4) w0 by (auto simp: typing_defs well_typed_def)
    moreover have "accepted 0 l a os ?s h1 = (Val (), s', h')"
      using r assms(4) by (simp add: resume_def io_simps w0)
    ultimately show ?thesis using accepted_accepts[OF assms(1), of ?s l a h1 s' h'] w assms(2) by (simp add: well_typed_def)
  next
    case False
    then have "frames s' 0 = frames s 0" using st assms(2) by (auto simp: settled_def preserves_def well_typed_def)
    then show ?thesis using assms(4) by simp
  qed
qed (use assms(4) in simp)

text \<open>Unless \<open>AcceptEx\<close> fails, the server's coroutine never ends: also when the loop and the program are
  left it is still suspended in its accept, with the listening socket open; the two branches of
  \<open>Server::Run\<close> that look at \<open>g_stop\<close> to close it are never taken.\<close>
theorem server_never_closes:
  assumes "at_head os s h" "accept_works os" "frames s 0 = Some (Accepting l a)" "(turn os)\<^sup>*\<^sup>* (s, h) (s', h')"
  shows "\<exists>a' h''. frames s' 0 = Some (Accepting l a') \<and> junie_end os s' h' = (Val 0, s', h'')"
proof -
  have "at_head os (fst x) (snd x) \<and> (\<exists>a'. frames (fst x) 0 = Some (Accepting l a'))" if "(turn os)\<^sup>*\<^sup>* (s, h) x" for x
    using that
  proof (induction rule: rtranclp_induct)
    case base
    then show ?case using assms by simp
  next
    case (step x y)
    obtain s1 h1 s2 h2 where x: "x = (s1, h1)" and y: "y = (s2, h2)" by (cases x; cases y)
    show ?case
      using step turn_keeps_accepting[OF assms(2) at_head_well_typed] at_head.again[of os s1 h1 s2 h2] by (auto simp: x y)
  qed
  from this[OF assms(4)] show ?thesis by (auto simp: junie_end_def io_simps)
qed

section \<open>Witnesses\<close>

text \<open>Two systems: one where every call works and the connection is made, and one that refuses to connect.\<close>

fun jr :: "64 word \<Rightarrow> 64 word \<Rightarrow> 64 word list \<Rightarrow> resp" where
  "jr a b c = \<lparr>rv = a, out = b, buf = [], outs = c, rows = []\<rparr>"

fun answer :: "64 word \<Rightarrow> jcall \<Rightarrow> resp" where
  "answer k (CreateIoCompletionPort s p) = jr 7 0 []"
| "answer k GetQueuedCompletionStatus = jr 1 0 [1]"
| "answer k socket = jr 5 0 []"
| "answer k (WSAIoctl s f) = jr 0 9 []"
| "answer k (AcceptEx l a w) = jr 1 0 []"
| "answer k (ConnectEx s w) = jr k 0 []"
| "answer k _ = jr 0 0 []"

definition junie_os :: "64 word \<Rightarrow> jcall os" where
  "junie_os k h c = answer k c"

definition started_state :: "frame option \<Rightarrow> awaitable multiset \<Rightarrow> junie" where
  "started_state f w = \<lparr>g_iocp = 7, lpfnAcceptEx = 9, lpfnConnectEx = 9, g_stop = False,
     frames = (\<lambda>_. None)(0 := Some (Accepting 5 5), 1 := f), next_frame = 2, in_flight = w\<rparr>"

lemmas junie_eval = junie_start_def Server_Run_def Client_Run_def server_body_def client_body_def new_frame_def
  accept_loop_def start_op_def launch_def suspend_def finish_def client_end_def RegisterSocket_def is_false_def
  is_socket_error_def status_of_def junie_os_def junie_init_def InvalidHandleValue_def started_state_def
  bnd_def call_def ret_def gets_def modify_def andthen_def do_call_def whenM_def

lemma junie_start_works:
  "\<exists>h. junie_start (junie_os 1) junie_init [] =
     (Val None, started_state (Some (Connecting 5)) {#(1, ConnectOp), (0, AcceptOp)#}, h)"
  by (simp add: junie_eval fun_upd_twist)

lemma junie_start_refused:
  "\<exists>h. junie_start (junie_os 0) junie_init [] = (Val None, started_state None {#(0, AcceptOp)#}, h)"
  by (simp add: junie_eval fun_upd_twist)

lemma resumed_where_suspended_witness:
  "\<exists>s h s' h'. at_head (junie_os 1) s h \<and> in_flight s = {#(1, ConnectOp), (0, AcceptOp)#} \<and>
     loop_body (\<lambda>_. (1, ConnectOp)) (junie_os 1) s h = (Val (), s', h') \<and> at_head (junie_os 1) s' h'"
proof -
  let ?s = "started_state (Some (Connecting 5)) {#(1, ConnectOp), (0, AcceptOp)#}"
  obtain h where h: "junie_start (junie_os 1) junie_init [] = (Val None, ?s, h)" using junie_start_works by blast
  have ah: "at_head (junie_os 1) ?s h" by (rule enter[OF h])
  have "\<not> g_stop ?s \<and> packet_ok (\<lambda>_. (1, ConnectOp)) (junie_os 1) ?s h"
    by (simp add: packet_ok_def overlapped_of_def junie_os_def started_state_def)
  then obtain s' h' where "loop_body (\<lambda>_. (1, ConnectOp)) (junie_os 1) ?s h = (Val (), s', h')" "at_head (junie_os 1) s' h'"
    using resumed_where_suspended[OF ah] by blast
  moreover have "in_flight ?s = {#(1, ConnectOp), (0, AcceptOp)#}" by (simp add: started_state_def)
  ultimately show ?thesis using ah by blast
qed

lemma failed_client_never_stops_witness:
  "\<exists>s h. at_head (junie_os 0) s h \<and> \<not> (\<exists>s' h'. (turn (junie_os 0))\<^sup>*\<^sup>* (s, h) (s', h') \<and> g_stop s')"
proof -
  let ?s = "started_state None {#(0, AcceptOp)#}"
  obtain h where h: "junie_start (junie_os 0) junie_init [] = (Val None, ?s, h)" using junie_start_refused by blast
  have ah: "at_head (junie_os 0) ?s h" by (rule enter[OF h])
  then show ?thesis using failed_client_never_stops[OF ah] by (auto simp: started_state_def)
qed

lemma server_never_closes_witness:
  "\<exists>s h. at_head (junie_os 1) s h \<and> \<not> (\<exists>s' h'. (turn (junie_os 1))\<^sup>*\<^sup>* (s, h) (s', h') \<and> frames s' 0 = None)"
proof -
  let ?s = "started_state (Some (Connecting 5)) {#(1, ConnectOp), (0, AcceptOp)#}"
  obtain h where h: "junie_start (junie_os 1) junie_init [] = (Val None, ?s, h)" using junie_start_works by blast
  have ah: "at_head (junie_os 1) ?s h" by (rule enter[OF h])
  have "accept_works (junie_os 1)" by (simp add: accept_works_def junie_os_def is_false_def status_of_def)
  then have "\<not> (\<exists>s' h'. (turn (junie_os 1))\<^sup>*\<^sup>* (?s, h) (s', h') \<and> frames s' 0 = None)"
    using server_never_closes[OF ah, of 5 5] by (fastforce simp: started_state_def)
  then show ?thesis using ah by blast
qed

end
