(* ===== verification/Security.thy ===== *)
theory Security
  imports Effects
begin

unbundle bit_operations_syntax

text \<open>
  The programs about tokens, privileges and owners: TakingOwnership/main.cpp, SetPrivilege/main.cpp,
  FindingOwner/main.cpp and Server/Server.cpp.  Functions with a \<open>goto\<close> to their clean-up are written with the
  clean-up as the continuation of each of these jumps.  The messages that are printed are left out, but for
  the names of the groups and privileges.
\<close>

section \<open>System calls\<close>

text \<open>The well-known SIDs of the programs, by their sub-authorities, and the privileges by their names.\<close>

datatype well_known = Everyone | Administrators

datatype privilege = TakeOwnershipPrivilege | SystemTimePrivilege

datatype seccall =
    GetLastError
  | LookupPrivilegeValue privilege
  | AdjustTokenPrivileges HANDLE "64 word" bool
  | OpenProcessToken DWORD
  | DuplicateTokenEx HANDLE
  | ConvertStringSidToSid string
  | GetLengthSid HANDLE
  | SetTokenIntegrityLevel HANDLE HANDLE DWORD
  | CreateRestrictedToken HANDLE HANDLE
  | GetTokenInformation HANDLE HANDLE DWORD
  | AllocateAndInitializeSid well_known
  | EqualSid HANDLE HANDLE
  | FreeSid HANDLE
  | SetEntriesInAcl HANDLE HANDLE
  | SetDacl wstring HANDLE
  | SetOwner wstring HANDLE
  | LocalFree HANDLE
  | GlobalAlloc "64 word"
  | GlobalFree HANDLE
  | operator_new DWORD
  | CloseHandle HANDLE
  | CreateFile
  | GetSecurityInfo HANDLE
  | LookupAccountSid HANDLE HANDLE DWORD HANDLE DWORD
  | LookupPrivilegeName "64 word" DWORD
  | CreateProcessAsUser HANDLE
  | CreateProcessWithLogonW
  | LogonUser
  | print_names wstring wstring

datatype secerr = RuntimeError | BadAlloc

text \<open>The programs keep no globals.\<close>

type_synonym 'a secio = "(unit, seccall, secerr, 'a) io"

abbreviation (input) ErrorAccessDenied :: DWORD where "ErrorAccessDenied \<equiv> 5"
abbreviation (input) ErrorInsufficientBuffer :: DWORD where "ErrorInsufficientBuffer \<equiv> 122"
abbreviation (input) ErrorNotAllAssigned :: DWORD where "ErrorNotAllAssigned \<equiv> 1300"
abbreviation (input) ErrorNoneMapped :: DWORD where "ErrorNoneMapped \<equiv> 1332"

text \<open>A \<open>BOOL\<close> answer, and the first of its further results.\<close>

definition succeeds :: "resp \<Rightarrow> bool" where
  "succeeds r \<longleftrightarrow> status_of r \<noteq> 0"

definition second_out :: "resp \<Rightarrow> 64 word" where
  "second_out r = (case outs r of [] \<Rightarrow> 0 | p # _ \<Rightarrow> p)"

definition free_unless_null :: "(HANDLE \<Rightarrow> seccall) \<Rightarrow> HANDLE \<Rightarrow> unit secio" where
  "free_unless_null c x = whenM (x \<noteq> 0) (do_call (c x))"

section \<open>Privileges and ownership\<close>

definition SetPrivilege :: "HANDLE \<Rightarrow> privilege \<Rightarrow> bool \<Rightarrow> bool secio" where
  "SetPrivilege hToken p enable = bnd (call (LookupPrivilegeValue p)) (\<lambda>l.
     if \<not> succeeds l then andthen (do_call GetLastError) (ret False) else
     bnd (call (AdjustTokenPrivileges hToken (out l) enable)) (\<lambda>a.
     if \<not> succeeds a then andthen (do_call GetLastError) (ret False) else
     bnd (call GetLastError) (\<lambda>e. ret (status_of e \<noteq> ErrorNotAllAssigned))))"

definition ownership_cleanup :: "HANDLE \<Rightarrow> HANDLE \<Rightarrow> HANDLE \<Rightarrow> HANDLE \<Rightarrow> bool \<Rightarrow> bool secio" where
  "ownership_cleanup pSIDAdmin pSIDEveryone pACL hToken bRetval =
     andthen (free_unless_null FreeSid pSIDAdmin)
    (andthen (free_unless_null FreeSid pSIDEveryone)
    (andthen (free_unless_null LocalFree pACL)
    (andthen (free_unless_null CloseHandle hToken) (ret bRetval))))"

text \<open>The second attempt, with the token of the process: own the file, then set its list again.\<close>

definition own_and_retry :: "wstring \<Rightarrow> HANDLE \<Rightarrow> HANDLE \<Rightarrow> HANDLE \<Rightarrow> bool secio" where
  "own_and_retry lpszOwnFile hToken pSIDAdmin pACL =
     bnd (SetPrivilege hToken TakeOwnershipPrivilege True) (\<lambda>ok. if \<not> ok then ret False else
     bnd (call (SetOwner lpszOwnFile pSIDAdmin)) (\<lambda>w. if status_of w \<noteq> 0 then ret False else
     bnd (SetPrivilege hToken TakeOwnershipPrivilege False) (\<lambda>ok. if \<not> ok then ret False else
     bnd (call (SetDacl lpszOwnFile pACL)) (\<lambda>d. ret (status_of d = 0)))))"

definition TakeOwnership :: "wstring \<Rightarrow> bool secio" where
  "TakeOwnership lpszOwnFile = bnd (call (AllocateAndInitializeSid Everyone)) (\<lambda>e.
     if \<not> succeeds e then andthen (do_call GetLastError) (ownership_cleanup 0 0 0 0 False) else
     bnd (call (AllocateAndInitializeSid Administrators)) (\<lambda>a.
     if \<not> succeeds a then andthen (do_call GetLastError) (ownership_cleanup 0 (out e) 0 0 False) else
     bnd (call (SetEntriesInAcl (out e) (out a))) (\<lambda>l.
     if status_of l \<noteq> 0 then ownership_cleanup (out a) (out e) 0 0 False else
     bnd (call (SetDacl lpszOwnFile (out l))) (\<lambda>d.
     if status_of d = 0 then ownership_cleanup (out a) (out e) (out l) 0 True else
     if status_of d \<noteq> ErrorAccessDenied then ownership_cleanup (out a) (out e) (out l) 0 False else
     bnd (call (OpenProcessToken 0x20)) (\<lambda>t.
     if \<not> succeeds t then andthen (do_call GetLastError) (ownership_cleanup (out a) (out e) (out l) 0 False) else
     bnd (own_and_retry lpszOwnFile (out t) (out a) (out l))
       (\<lambda>bRetval. ownership_cleanup (out a) (out e) (out l) (out t) bRetval))))))"

text \<open>SetPrivilege/main.cpp: its \<open>SetPrivilege\<close> is the one above.\<close>

definition GetProcessToken :: "HANDLE secio" where
  "GetProcessToken = bnd (call (OpenProcessToken 0xF01FF)) (\<lambda>t.
     if \<not> succeeds t then andthen (do_call GetLastError) (throw RuntimeError) else ret (out t))"

definition set_privilege_main :: "int secio" where
  "set_privilege_main = try_catch
     (bnd GetProcessToken (\<lambda>t. bnd (SetPrivilege t SystemTimePrivilege False) (\<lambda>_. ret 0)))
     (\<lambda>_. ret 1)"

section \<open>The owner of a file\<close>

text \<open>
  FindingOwner/main.cpp.  The name is the first buffer an answer to \<open>LookupAccountSid\<close> writes, the domain
  the second; a buffer that is written beyond its end is a fault.
\<close>

definition written :: "resp \<Rightarrow> nat \<Rightarrow> wstring" where
  "written r i = (if i < length (rows r) then wide_of (rows r ! i) else [])"

definition find_owner_main :: "int secio" where
  "find_owner_main = bnd (call CreateFile) (\<lambda>f.
     if rv f = InvalidHandleValue then andthen (do_call GetLastError) (ret (- 1)) else
     bnd (call (GetSecurityInfo (rv f))) (\<lambda>s.
     if status_of s \<noteq> 0 then andthen (do_call GetLastError) (ret (- 1)) else
     bnd (call (LookupAccountSid (out s) 0 1 0 1)) (\<lambda>n.
     let dwAcctName = ucast (out n) :: DWORD; dwDomainName = ucast (second_out n) :: DWORD in
     bnd (call (GlobalAlloc (ucast dwAcctName * 2))) (\<lambda>a.
     if rv a = 0 then andthen (do_call GetLastError) (ret (- 1)) else
     bnd (call (GlobalAlloc (ucast dwDomainName * 2))) (\<lambda>d.
     if rv d = 0 then andthen (do_call GetLastError) (ret (- 1)) else
     bnd (call (LookupAccountSid (out s) (rv a) dwAcctName (rv d) dwDomainName)) (\<lambda>m.
     if \<not> succeeds m then andthen (do_call GetLastError) (ret (- 1)) else
     if unat dwAcctName < length (written m 0) \<or> unat dwDomainName < length (written m 1) \<or> 0 \<notin> set (written m 0) then fault else
     andthen (do_call (print_names [] (cstr (written m 0)))) (ret 0)))))))"

section \<open>Restricted processes\<close>

text \<open>Server/Server.cpp.  A process handle is the scalar of the answer, the thread handle its first further result.\<close>

definition low_cleanup :: "HANDLE \<Rightarrow> HANDLE \<Rightarrow> HANDLE \<Rightarrow> HANDLE \<Rightarrow> HANDLE \<Rightarrow> bool \<Rightarrow> bool secio" where
  "low_cleanup hProcess hThread pIntegritySid hNewToken hToken fRet =
     andthen (free_unless_null CloseHandle hProcess)
    (andthen (free_unless_null CloseHandle hThread)
    (andthen (do_call (LocalFree pIntegritySid))
    (andthen (free_unless_null CloseHandle hNewToken)
    (andthen (free_unless_null CloseHandle hToken) (ret fRet)))))"

definition CreateLowProcess :: "bool secio" where
  "CreateLowProcess = bnd (call (OpenProcessToken 0x8B)) (\<lambda>t. if \<not> succeeds t then low_cleanup 0 0 0 0 0 False else
     bnd (call (DuplicateTokenEx (out t))) (\<lambda>n. if \<not> succeeds n then low_cleanup 0 0 0 0 (out t) False else
     bnd (call (ConvertStringSidToSid ''S-1-16-4096'')) (\<lambda>i.
       if \<not> succeeds i then low_cleanup 0 0 0 (out n) (out t) False else
     bnd (call (GetLengthSid (out i))) (\<lambda>g.
     bnd (call (SetTokenIntegrityLevel (out n) (out i) (16 + status_of g))) (\<lambda>v.
       if \<not> succeeds v then low_cleanup 0 0 (out i) (out n) (out t) False else
     bnd (call (CreateProcessAsUser (out n))) (\<lambda>p.
       if \<not> succeeds p then low_cleanup 0 0 (out i) (out n) (out t) False
       else low_cleanup (out p) (second_out p) (out i) (out n) (out t) True))))))"

text \<open>
  A wide string of \<open>n\<close> characters into whose buffer the system writes \<open>cs\<close> and a terminator: the place after
  the last character may be overwritten by a terminator, nothing beyond it.  \<open>shrink_to_fit\<close> keeps its length.
\<close>

definition into_wstring :: "nat \<Rightarrow> wstring \<Rightarrow> wstring option" where
  "into_wstring n cs = (if n < length cs then None else Some (overwrite 0 cs (replicate n 0)))"

text \<open>The groups of a token are pairs of a SID and its attributes.\<close>

fun groups_of :: "64 word list \<Rightarrow> (HANDLE \<times> DWORD) list" where
  "groups_of (s # a # xs) = (s, ucast a) # groups_of xs"
| "groups_of _ = []"

fun search_groups :: "HANDLE \<Rightarrow> (HANDLE \<times> DWORD) list \<Rightarrow> unit secio" where
  "search_groups pSID [] = ret ()"
| "search_groups pSID ((s, a) # gs) = bnd (call (EqualSid pSID s)) (\<lambda>q.
     if \<not> succeeds q then search_groups pSID gs else
     bnd (call (LookupAccountSid s 1 256 1 256)) (\<lambda>n.
     case (into_wstring 250 (cstr (written n 0)), into_wstring 250 (cstr (written n 1))) of
       (Some nm, Some dm) \<Rightarrow> andthen (do_call (print_names dm nm)) (search_groups pSID gs)
     | _ \<Rightarrow> fault))"

definition SearchTokenGroupsForSID :: "HANDLE \<Rightarrow> bool secio" where
  "SearchTokenGroupsForSID hToken = bnd (call (GetTokenInformation hToken 0 0)) (\<lambda>r.
     bnd (if \<not> succeeds r then bnd (call GetLastError) (\<lambda>e. ret (status_of e \<noteq> ErrorInsufficientBuffer)) else ret False) (\<lambda>bad.
     if bad then ret False else
     bnd (call (GlobalAlloc (out r))) (\<lambda>p.
     bnd (call (GetTokenInformation hToken (rv p) (ucast (out r)))) (\<lambda>g.
     if \<not> succeeds g then andthen (do_call GetLastError) (ret False) else
     bnd (call (AllocateAndInitializeSid Administrators)) (\<lambda>s.
     if \<not> succeeds s then andthen (do_call GetLastError) (ret False) else
     if rv p = 0 then fault else
     andthen (search_groups (out s) (groups_of (outs g)))
       (andthen (free_unless_null FreeSid (out s)) (andthen (free_unless_null GlobalFree (rv p)) (ret True))))))))"

fun print_privileges :: "64 word list \<Rightarrow> unit secio" where
  "print_privileges [] = ret ()"
| "print_privileges (l # ls) = bnd (call (LookupPrivilegeName l 200)) (\<lambda>n.
     if \<not> succeeds n then print_privileges ls else
     case into_wstring 200 (cstr (written n 0)) of None \<Rightarrow> fault
     | Some nm \<Rightarrow> andthen (do_call (print_names [] nm)) (print_privileges ls))"

text \<open>
  The length is the first further result, absent when the call has not written it; what the second call did
  not write is indeterminate, and the buffer is never deleted.
\<close>

definition EnumerateTokenPrivileges :: "HANDLE \<Rightarrow> unit secio" where
  "EnumerateTokenPrivileges hToken = bnd (call (GetTokenInformation hToken 0 0)) (\<lambda>r.
     case outs r of [] \<Rightarrow> fault | n # _ \<Rightarrow>
     bnd (call (operator_new (ucast n))) (\<lambda>p. if rv p = 0 then throw BadAlloc else
     bnd (call (GetTokenInformation hToken (rv p) (ucast n))) (\<lambda>g.
     if \<not> succeeds g then fault else print_privileges (outs g))))"

definition LaunchRestrictedProcess :: "unit secio" where
  "LaunchRestrictedProcess = bnd (call (OpenProcessToken 0xB)) (\<lambda>t. if \<not> succeeds t then throw RuntimeError else
     bnd (call (AllocateAndInitializeSid Administrators)) (\<lambda>s. if \<not> succeeds s then throw RuntimeError else
     bnd (call (CreateRestrictedToken (out t) (out s))) (\<lambda>k. if \<not> succeeds k then throw RuntimeError else
     andthen (EnumerateTokenPrivileges (out k))
    (andthen (free_unless_null FreeSid (out s))
    (bnd (SearchTokenGroupsForSID (out k)) (\<lambda>_.
     bnd (call CreateProcessWithLogonW) (\<lambda>_.
     andthen (do_call GetLastError)
    (bnd (call (CreateProcessAsUser (out k))) (\<lambda>p.
     andthen (whenM (succeeds p) (andthen (do_call (CloseHandle (out p))) (do_call (CloseHandle (second_out p)))))
    (andthen (do_call (CloseHandle (out k))) (do_call (CloseHandle (out t)))))))))))))"

text \<open>An exception that leaves \<open>main\<close> ends the process.\<close>

definition server_main :: "int secio" where
  "server_main = try_catch (andthen LaunchRestrictedProcess (ret 0)) (\<lambda>_. halt 3)"

definition Logon :: "unit secio" where
  "Logon = bnd (call LogonUser) (\<lambda>l. if succeeds l then do_call (CloseHandle (out l)) else do_call GetLastError)"

definition Logon2 :: "unit secio" where
  "Logon2 = bnd (call CreateProcessWithLogonW) (\<lambda>p.
     if succeeds p then andthen (do_call (CloseHandle (out p))) (do_call (CloseHandle (second_out p)))
     else do_call GetLastError)"

text \<open>
  Client/Client.cpp, which the server's processes run: it has the same enumeration, looks at the privileges of its own
  token, and tries to write a file.  It looks at no answer but the last.
\<close>

definition client_EnumerateTokenPrivileges :: "HANDLE \<Rightarrow> unit secio" where
  "client_EnumerateTokenPrivileges = EnumerateTokenPrivileges"

definition client_wmain :: "int secio" where
  "client_wmain = try_catch (bnd (call (OpenProcessToken 0xB)) (\<lambda>t.
     andthen (client_EnumerateTokenPrivileges (if succeeds t then out t else 0))
    (bnd (call CreateFile) (\<lambda>f. andthen (whenM (rv f = InvalidHandleValue) (do_call GetLastError)) (ret 0))))) (\<lambda>_. halt 3)"

text \<open>Never called.\<close>

definition RemoveSid :: "unit secio" where
  "RemoveSid = do_call (AllocateAndInitializeSid Administrators)"

section \<open>Resources\<close>

datatype resource = SidMemory HANDLE | LocalMemory HANDLE | GlobalMemory HANDLE | NewMemory HANDLE | OpenHandle HANDLE

definition nonnull :: "(HANDLE \<Rightarrow> resource) \<Rightarrow> bool \<Rightarrow> HANDLE \<Rightarrow> resource multiset" where
  "nonnull f b x = (if b \<and> x \<noteq> 0 then {#f x#} else {#})"

fun sec_hands_out :: "seccall \<Rightarrow> resp \<Rightarrow> resource multiset" where
  "sec_hands_out (AllocateAndInitializeSid w) r = nonnull SidMemory (succeeds r) (out r)"
| "sec_hands_out (SetEntriesInAcl e a) r = nonnull LocalMemory (status_of r = 0) (out r)"
| "sec_hands_out (ConvertStringSidToSid s) r = nonnull LocalMemory (succeeds r) (out r)"
| "sec_hands_out (GetSecurityInfo f) r = nonnull LocalMemory (status_of r = 0) (second_out r)"
| "sec_hands_out (GlobalAlloc n) r = nonnull GlobalMemory True (rv r)"
| "sec_hands_out (operator_new n) r = nonnull NewMemory True (rv r)"
| "sec_hands_out (OpenProcessToken a) r = nonnull OpenHandle (succeeds r) (out r)"
| "sec_hands_out (DuplicateTokenEx k) r = nonnull OpenHandle (succeeds r) (out r)"
| "sec_hands_out (CreateRestrictedToken k s) r = nonnull OpenHandle (succeeds r) (out r)"
| "sec_hands_out LogonUser r = nonnull OpenHandle (succeeds r) (out r)"
| "sec_hands_out CreateFile r = nonnull OpenHandle (rv r \<noteq> InvalidHandleValue) (rv r)"
| "sec_hands_out (CreateProcessAsUser k) r =
     nonnull OpenHandle (succeeds r) (out r) + nonnull OpenHandle (succeeds r) (second_out r)"
| "sec_hands_out CreateProcessWithLogonW r =
     nonnull OpenHandle (succeeds r) (out r) + nonnull OpenHandle (succeeds r) (second_out r)"
| "sec_hands_out _ r = {#}"

fun sec_gives_back :: "seccall \<Rightarrow> resource option" where
  "sec_gives_back (FreeSid x) = Some (SidMemory x)"
| "sec_gives_back (LocalFree x) = (if x = 0 then None else Some (LocalMemory x))"
| "sec_gives_back (GlobalFree x) = Some (GlobalMemory x)"
| "sec_gives_back (CloseHandle x) = (if x = 0 then None else Some (OpenHandle x))"
| "sec_gives_back _ = None"

interpretation sec: handles_api sec_hands_out sec_gives_back
proof unfold_locales
  fix c r x assume "sec_gives_back c = Some x"
  then show "sec_hands_out c r = {#}" by (cases c) (auto split: if_splits)
qed

section \<open>Privileges and ownership: properties\<close>

text \<open>The adjustments of a privilege that were made, and the answers to the calls on the file.\<close>

fun adjusted :: "seccall history \<Rightarrow> bool list" where
  "adjusted [] = []"
| "adjusted ((AdjustTokenPrivileges t l b, r) # h) = (if succeeds r then b # adjusted h else adjusted h)"
| "adjusted (_ # h) = adjusted h"

fun dacl_results :: "seccall history \<Rightarrow> DWORD list" where
  "dacl_results [] = []"
| "dacl_results ((SetDacl f a, r) # h) = status_of r # dacl_results h"
| "dacl_results (_ # h) = dacl_results h"

fun owner_results :: "seccall history \<Rightarrow> DWORD list" where
  "owner_results [] = []"
| "owner_results ((SetOwner f a, r) # h) = status_of r # owner_results h"
| "owner_results (_ # h) = owner_results h"

lemma results_append [simp]:
  "adjusted (g @ h) = adjusted g @ adjusted h"
  "dacl_results (g @ h) = dacl_results g @ dacl_results h"
  "owner_results (g @ h) = owner_results g @ owner_results h"
  by (induction g rule: adjusted.induct; simp; fail)
     (induction g rule: dacl_results.induct; simp; fail | induction g rule: owner_results.induct; simp)+

definition quiet :: "seccall history \<Rightarrow> bool" where
  "quiet g \<longleftrightarrow> sec.balanced g \<and> dacl_results g = [] \<and> owner_results g = []"

definition privilege_post :: "bool \<Rightarrow> bool \<Rightarrow> seccall history \<Rightarrow> bool" where
  "privilege_post b ok g \<longleftrightarrow> quiet g \<and> adjusted g \<in> {[], [b]} \<and> (ok \<longrightarrow> adjusted g = [b])"

lemma SetPrivilege_appends: "appends (SetPrivilege t p b) (\<lambda>oc g. \<exists>ok. oc = Val ok \<and> privilege_post b ok g)"
  unfolding SetPrivilege_def by (intro appends_intro) (auto simp: sec.balanced_other quiet_def privilege_post_def)

text \<open>What an attempt may have done: own the file and set its list only with the privilege taken and given up.\<close>

definition owned_and_set :: "seccall history \<Rightarrow> bool" where
  "owned_and_set g \<longleftrightarrow> adjusted g = [True, False] \<and> owner_results g = [0] \<and> dacl_results g = [0]"

definition owner_refused :: "seccall history \<Rightarrow> bool" where
  "owner_refused g \<longleftrightarrow> (\<exists>w \<in> set (owner_results g). w \<noteq> 0)"

definition attempt_post :: "bool \<Rightarrow> seccall history \<Rightarrow> bool" where
  "attempt_post b g \<longleftrightarrow> sec.balanced g \<and> (b \<longrightarrow> owned_and_set g) \<and> (owner_refused g \<longrightarrow> \<not> b \<and> adjusted g = [True])"

lemmas attempt_defs = attempt_post_def owned_and_set_def owner_refused_def privilege_post_def quiet_def

lemma own_and_retry_appends: "appends (own_and_retry f t a l) (\<lambda>oc g. \<exists>b. oc = Val b \<and> attempt_post b g)"
  unfolding own_and_retry_def
proof (rule appends_bnd_Val[where R = "privilege_post True"], rule SetPrivilege_appends, rule appends_if)
  fix ok g
  assume g: "privilege_post True ok g" and "\<not> \<not> ok"
  show "appends (bnd (call (SetOwner f a)) (\<lambda>w. if status_of w \<noteq> 0 then ret False else
      bnd (SetPrivilege t TakeOwnershipPrivilege False) (\<lambda>ok. if \<not> ok then ret False else
      bnd (call (SetDacl f l)) (\<lambda>d. ret (status_of d = 0))))) (\<lambda>oc g'. \<exists>b. oc = Val b \<and> attempt_post b (g @ g'))"
    apply (rule appends_intro)+
    subgoal using g \<open>\<not> \<not> ok\<close> by (auto simp: attempt_defs sec.balanced_both sec.balanced_other)
    apply (rule appends_bnd_Val[where R = "privilege_post False"], rule SetPrivilege_appends)
    apply (rule appends_intro)+
     subgoal using g \<open>\<not> \<not> ok\<close> by (auto simp: attempt_defs sec.balanced_both sec.balanced_other)
    apply (rule appends_intro)+
    subgoal using g \<open>\<not> \<not> ok\<close> by (auto simp: attempt_defs sec.balanced_both sec.balanced_other)
    done
qed (intro appends_intro, auto simp: attempt_defs)

text \<open>The clean-up gives back what the four locals hold.\<close>

definition locals :: "HANDLE \<Rightarrow> HANDLE \<Rightarrow> HANDLE \<Rightarrow> HANDLE \<Rightarrow> resource multiset" where
  "locals a e l t = nonnull SidMemory True a + nonnull SidMemory True e + nonnull LocalMemory True l + nonnull OpenHandle True t"

definition cleanup_post :: "resource multiset \<Rightarrow> seccall history \<Rightarrow> bool" where
  "cleanup_post M g \<longleftrightarrow> (\<forall>L. sec.held (L + M) g = Some L) \<and> adjusted g = [] \<and> owner_results g = [] \<and> dacl_results g = []"

lemma ownership_cleanup_appends:
  "appends (ownership_cleanup a e l t b) (\<lambda>oc g. \<exists>b'. oc = Val b' \<and> b' = b \<and> cleanup_post (locals a e l t) g)"
  unfolding ownership_cleanup_def free_unless_null_def
  by (intro appends_intro) (simp_all add: cleanup_post_def locals_def nonnull_def)

text \<open>What \<open>TakeOwnership\<close> does, by its result.\<close>

definition ownership_post :: "bool \<Rightarrow> seccall history \<Rightarrow> bool" where
  "ownership_post b g \<longleftrightarrow> sec.balanced g \<and>
     (b \<longrightarrow> dacl_results g = [0] \<and> owner_results g = [] \<and> adjusted g = [] \<or>
        dacl_results g = [ErrorAccessDenied, 0] \<and> owner_results g = [0] \<and> adjusted g = [True, False]) \<and>
     (owner_refused g \<longrightarrow> \<not> b \<and> adjusted g = [True])"

lemma cleanup_held: "cleanup_post M g \<Longrightarrow> N = L + M \<Longrightarrow> sec.held N g = Some L"
  by (simp add: cleanup_post_def)

lemma nonnull_simps [simp]: "nonnull f False x = {#}" "nonnull f b 0 = {#}"
  by (simp_all add: nonnull_def)

lemma cleanup_results: "cleanup_post M g \<Longrightarrow> adjusted g = [] \<and> owner_results g = [] \<and> dacl_results g = []"
  by (simp add: cleanup_post_def)

lemma cleanup_ends:
  "(\<And>g. cleanup_post (locals a e l t) g \<Longrightarrow> Q b g) \<Longrightarrow> appends (ownership_cleanup a e l t b) (\<lambda>oc g. \<exists>b. oc = Val b \<and> Q b g)"
  by (rule appends_mono[OF ownership_cleanup_appends]) auto

text \<open>The end of \<open>TakeOwnership\<close> after the calls \<open>k\<close>, of which those to the file are given by their results.\<close>

lemma ownership_ends:
  assumes "cleanup_post M g" "adjusted k = []" "owner_results k = []" "b \<Longrightarrow> dacl_results k = [0]"
    and "\<And>L. sec.held L k = Some (L + M)"
  shows "ownership_post b (k @ g)"
  using assms cleanup_results[OF assms(1)]
  by (auto simp: ownership_post_def owner_refused_def sec.balanced_def sec.held_append cleanup_post_def)

lemma ownership_retried:
  assumes "cleanup_post M g'" "attempt_post b g" "adjusted k = []" "owner_results k = []" "dacl_results k = [ErrorAccessDenied]"
    and "\<And>L. sec.held L k = Some (L + M)"
  shows "ownership_post b (k @ g @ g')"
  using assms cleanup_results[OF assms(1)]
  by (auto simp: ownership_post_def attempt_post_def owned_and_set_def owner_refused_def sec.balanced_def sec.held_append cleanup_post_def)

lemma TakeOwnership_appends: "appends (TakeOwnership f) (\<lambda>oc g. \<exists>b. oc = Val b \<and> ownership_post b g)"
  unfolding TakeOwnership_def
proof (intro appends_intro cleanup_ends, goal_cases)
  case (1 e c g)
  then show ?case using ownership_ends[OF 1(2), of "[(AllocateAndInitializeSid Everyone, e), (GetLastError, c)]" False]
    by (simp add: locals_def)
next
  case (2 e a c g)
  then show ?case
    using ownership_ends[OF 2(3), of "[(AllocateAndInitializeSid Everyone, e), (AllocateAndInitializeSid Administrators, a),
      (GetLastError, c)]" False] by (simp add: locals_def)
next
  case (3 e a l g)
  then show ?case
    using ownership_ends[OF 3(4), of "[(AllocateAndInitializeSid Everyone, e), (AllocateAndInitializeSid Administrators, a),
      (SetEntriesInAcl (out e) (out a), l)]" False] by (simp add: locals_def)
next
  case (4 e a l d g)
  then show ?case
    using ownership_ends[OF 4(5), of "[(AllocateAndInitializeSid Everyone, e), (AllocateAndInitializeSid Administrators, a),
      (SetEntriesInAcl (out e) (out a), l), (SetDacl f (out l), d)]" True] by (simp add: locals_def)
next
  case (5 e a l d g)
  then show ?case
    using ownership_ends[OF 5(6), of "[(AllocateAndInitializeSid Everyone, e), (AllocateAndInitializeSid Administrators, a),
      (SetEntriesInAcl (out e) (out a), l), (SetDacl f (out l), d)]" False] by (simp add: locals_def)
next
  case (6 e a l d t c g)
  then show ?case
    using ownership_ends[OF 6(7), of "[(AllocateAndInitializeSid Everyone, e), (AllocateAndInitializeSid Administrators, a),
      (SetEntriesInAcl (out e) (out a), l), (SetDacl f (out l), d), (OpenProcessToken 32, t), (GetLastError, c)]" False]
    by (simp add: locals_def)
next
  case (7 e a l d t)
  let ?k = "[(AllocateAndInitializeSid Everyone, e), (AllocateAndInitializeSid Administrators, a),
    (SetEntriesInAcl (out e) (out a), l), (SetDacl f (out l), d), (OpenProcessToken 32, t)]"
  have k: "ownership_post b (?k @ g @ g')"
    if "attempt_post b g" "cleanup_post (locals (out a) (out e) (out l) (out t)) g'" for b g g'
    by (rule ownership_retried[OF that(2,1)]) (use 7 in \<open>simp_all add: locals_def ac_simps\<close>)
  show ?case
    by (rule appends_bnd_Val[where R = attempt_post], rule own_and_retry_appends, rule cleanup_ends) (use k in simp)
qed


section \<open>Restricted processes: properties\<close>

text \<open>A process is only started with a token whose integrity level was lowered before.\<close>

fun lowered_first :: "HANDLE set \<Rightarrow> seccall history \<Rightarrow> bool" where
  "lowered_first T [] = True"
| "lowered_first T ((CreateProcessAsUser k, r) # h) = (k \<in> T \<and> lowered_first T h)"
| "lowered_first T ((SetTokenIntegrityLevel k i n, r) # h) = lowered_first (if succeeds r then insert k T else T) h"
| "lowered_first T (_ # h) = lowered_first T h"

definition low_locals :: "HANDLE \<Rightarrow> HANDLE \<Rightarrow> HANDLE \<Rightarrow> HANDLE \<Rightarrow> HANDLE \<Rightarrow> resource multiset" where
  "low_locals p u i n t = nonnull OpenHandle True t + nonnull OpenHandle True n + nonnull LocalMemory True i +
     (nonnull OpenHandle True p + nonnull OpenHandle True u)"

definition low_cleanup_post :: "resource multiset \<Rightarrow> seccall history \<Rightarrow> bool" where
  "low_cleanup_post M g \<longleftrightarrow> (\<forall>T. lowered_first T g) \<and> (\<forall>L. sec.held (L + M) g = Some L)"

lemma low_cleanup_appends:
  "appends (low_cleanup p u i n t b) (\<lambda>oc g. \<exists>b'. oc = Val b' \<and> b' = b \<and> low_cleanup_post (low_locals p u i n t) g)"
  unfolding low_cleanup_def free_unless_null_def
  by (intro appends_intro) (simp_all add: nonnull_def low_cleanup_post_def low_locals_def)

lemma low_cleanup_ends:
  "(\<And>g. low_cleanup_post (low_locals p u i n t) g \<Longrightarrow> Q b g) \<Longrightarrow>
   appends (low_cleanup p u i n t b) (\<lambda>oc g. \<exists>b. oc = Val b \<and> Q b g)"
  by (rule appends_mono[OF low_cleanup_appends]) auto

lemma low_held: "low_cleanup_post M g \<Longrightarrow> N = L + M \<Longrightarrow> sec.held N g = Some L"
  by (simp add: low_cleanup_post_def)

lemma low_lowered: "low_cleanup_post M g \<Longrightarrow> lowered_first T g"
  by (simp add: low_cleanup_post_def)

text \<open>
  C35: \<open>CreateLowProcess\<close> starts a process only with a token whose integrity level it has lowered, and on every
  path, whichever call fails, it gives back each handle and each block of memory once and nothing else; the
  same holds of \<open>TakeOwnership\<close>.
\<close>
theorem low_process_released:
  "(\<exists>b g. CreateLowProcess os s h = (Val b, s, h @ g) \<and> lowered_first {} g \<and> (\<forall>L. sec.held L g = Some L)) \<and>
   (\<exists>b g. TakeOwnership f os s h = (Val b, s, h @ g) \<and> (\<forall>L. sec.held L g = Some L))"
proof -
  have "appends CreateLowProcess (\<lambda>oc g. \<exists>b. oc = Val b \<and> (lowered_first {} g \<and> sec.balanced g))"
    unfolding CreateLowProcess_def sec.balanced_def
    by (intro appends_intro low_cleanup_ends; auto dest: low_lowered intro!: low_held simp: low_locals_def)
  from appendsD[OF this, of os s h] appendsD[OF TakeOwnership_appends, of f os s h] show ?thesis
    by (auto simp: ownership_post_def sec.balanced_def)
qed

text \<open>The search for a group: what it found is printed with a name and a domain of 250 characters each.\<close>

fun printed_lengths :: "seccall history \<Rightarrow> (nat \<times> nat) list" where
  "printed_lengths [] = []"
| "printed_lengths ((print_names d n, r) # h) = (length d, length n) # printed_lengths h"
| "printed_lengths (_ # h) = printed_lengths h"

lemma length_into_wstring: "into_wstring n cs = Some s \<Longrightarrow> length s = n"
  by (auto simp: into_wstring_def overwrite_def split: if_splits)

lemma search_groups_appends:
  "appends (search_groups p gs) (\<lambda>oc g. (oc = Fault \<or> oc = Val ()) \<and> sec.balanced g \<and> set (printed_lengths g) \<subseteq> {(250, 250)})"
proof (induction gs)
  case Nil
  then show ?case by (auto intro!: appends_intro)
next
  case (Cons x gs)
  obtain s a where x: "x = (s, a)" by (cases x)
  show ?case
    unfolding x search_groups.simps prod.case
    by (intro appends_intro; (rule appends_mono[OF Cons.IH])?) (auto simp: sec.balanced_other dest: length_into_wstring)
qed

text \<open>What a computation keeps: \<open>M\<close> beside what was held.\<close>

definition acquires :: "seccall history \<Rightarrow> resource multiset \<Rightarrow> bool" where
  "acquires g M \<longleftrightarrow> (\<forall>L. sec.held L g = Some (L + M))"

lemma balanced_acquires: "sec.balanced g \<Longrightarrow> \<exists>M. acquires g M"
  by (auto simp: acquires_def sec.balanced_def intro: exI[of _ "{#}"])

lemma acquires_none_back: "list_all (\<lambda>x. sec_gives_back (fst x) = None) g \<Longrightarrow> \<exists>M. acquires g M"
proof (induction g)
  case Nil
  then show ?case by (simp add: acquires_def)
next
  case (Cons x g)
  then obtain M where M: "acquires g M" by auto
  have "acquires (x # g) (sec_hands_out (fst x) (snd x) + M)"
    using Cons.prems M by (cases x) (auto simp: acquires_def ac_simps)
  then show ?case by blast
qed

definition search_post :: "(secerr, bool) outcome \<Rightarrow> seccall history \<Rightarrow> bool" where
  "search_post oc g \<longleftrightarrow> oc = Fault \<or> (\<exists>b. oc = Val b \<and> (\<exists>M. acquires g M) \<and> (b \<longrightarrow> sec.balanced g))"

lemma search_post_simps:
  "search_post Fault g" "list_all (\<lambda>x. sec_gives_back (fst x) = None) g \<Longrightarrow> search_post (Val False) g"
  "sec.balanced g \<Longrightarrow> search_post (Val True) g"
  by (auto simp: search_post_def acquires_none_back balanced_acquires)

lemma search_groups_then:
  assumes "\<And>g. sec.balanced g \<Longrightarrow> appends k (\<lambda>oc g'. Q oc (g @ g'))" "\<And>g. Q Fault g"
  shows "appends (andthen (search_groups p gs) k) Q"
  by (rule appends_andthen[OF search_groups_appends]) (use assms in auto)

lemma Search_appends: "appends (SearchTokenGroupsForSID k) search_post"
  unfolding SearchTokenGroupsForSID_def bnd_if bnd_bnd bnd_ret free_unless_null_def
  by (intro appends_intro search_groups_then)
    (simp_all add: search_post_simps sec.balanced_def sec.held_append nonnull_def)

lemma print_privileges_appends:
  "appends (print_privileges ls) (\<lambda>oc g. (oc = Fault \<or> oc = Val ()) \<and> sec.balanced g)"
proof (induction ls)
  case Nil
  then show ?case by (auto intro!: appends_intro)
next
  case (Cons l ls)
  show ?case
    unfolding print_privileges.simps
    by (intro appends_intro; (rule appends_mono[OF Cons.IH])?) (auto simp: sec.balanced_other)
qed

definition enumerate_post :: "(secerr, unit) outcome \<Rightarrow> seccall history \<Rightarrow> bool" where
  "enumerate_post oc g \<longleftrightarrow> oc = Fault \<or> oc = Exn BadAlloc \<or> (oc = Val () \<and> (\<exists>p. acquires g {#NewMemory p#}))"

lemma Enumerate_appends: "appends (EnumerateTokenPrivileges k) enumerate_post"
  unfolding EnumerateTokenPrivileges_def
  by (intro appends_intro; (rule appends_mono[OF print_privileges_appends])?)
    (auto simp: enumerate_post_def acquires_def sec.balanced_def nonnull_def)

text \<open>
  What \<open>LaunchRestrictedProcess\<close> keeps when it returns: the buffer of the privileges, and the handles of the
  process that was started with the log-on, if it was.
\<close>

definition launch_post :: "(secerr, unit) outcome \<Rightarrow> seccall history \<Rightarrow> bool" where
  "launch_post oc g \<longleftrightarrow> (oc = Val () \<longrightarrow> (\<exists>p r M. (CreateProcessWithLogonW, r) \<in> set g \<and>
     acquires g (add_mset (NewMemory p) (M + sec_hands_out CreateProcessWithLogonW r))))"

definition launched :: "HANDLE \<Rightarrow> HANDLE \<Rightarrow> (secerr, unit) outcome \<Rightarrow> seccall history \<Rightarrow> bool" where
  "launched t k oc g \<longleftrightarrow> (oc = Val () \<longrightarrow> (\<exists>M r. (CreateProcessWithLogonW, r) \<in> set g \<and>
     (\<forall>L. sec.held (L + nonnull OpenHandle True t + nonnull OpenHandle True k) g =
        Some (L + M + sec_hands_out CreateProcessWithLogonW r))))"

lemma launchedI:
  assumes "search_post (Val b) g"
  shows "launched t k (Val ()) (g @ (CreateProcessWithLogonW, r1) # (GetLastError, r2) # (CreateProcessAsUser k, r3) #
      (if succeeds r3 then [(CloseHandle (out r3), r4), (CloseHandle (second_out r3), r5)] else []) @
      [(CloseHandle k, r6), (CloseHandle t, r7)])"
proof -
  obtain M where "acquires g M" using assms by (auto simp: search_post_def)
  then show ?thesis
    by (auto simp: launched_def acquires_def sec.held_append nonnull_def ac_simps intro!: exI[of _ M] exI[of _ r1])
qed

lemma launch_rest:
  "appends (bnd (SearchTokenGroupsForSID k) (\<lambda>_. bnd (call CreateProcessWithLogonW) (\<lambda>_. andthen (do_call GetLastError)
    (bnd (call (CreateProcessAsUser k)) (\<lambda>p.
     andthen (whenM (succeeds p) (andthen (do_call (CloseHandle (out p))) (do_call (CloseHandle (second_out p)))))
    (andthen (do_call (CloseHandle k)) (do_call (CloseHandle t)))))))) (launched t k)"
proof (rule appends_bnd[OF Search_appends], intro appends_intro, goal_cases)
  case (1 b g r1 r2 r3 r4 r5 r6 r7)
  then show ?case using launchedI[OF 1(1), of t k r1 r2 r3 r4 r5 r6 r7] by simp
next
  case (2 b g r1 r2 r3 r6 r7)
  then show ?case using launchedI[OF 2(1), of t k r1 r2 r3 r6 r6 r6 r7] by simp
qed (simp_all add: launched_def)

lemma Launch_appends: "appends LaunchRestrictedProcess launch_post"
proof -
  have kept: "launch_post oc ((OpenProcessToken 11, r) # (AllocateAndInitializeSid Administrators, s) #
      (CreateRestrictedToken (out r) (out s), k) # g @ (if out s = 0 then [] else [(FreeSid (out s), f)]) @ g')"
    if ok: "succeeds r" "succeeds s" "succeeds k" and en: "enumerate_post (Val ()) g" and la: "launched (out r) (out k) oc g'"
    for oc r s k g f g'
    unfolding launch_post_def
  proof
    assume "oc = Val ()"
    then obtain M w where w: "(CreateProcessWithLogonW, w) \<in> set g'"
      and M: "sec.held (L + nonnull OpenHandle True (out r) + nonnull OpenHandle True (out k)) g' =
        Some (L + M + sec_hands_out CreateProcessWithLogonW w)" for L
      using la by (auto simp: launched_def)
    obtain p where p: "acquires g {#NewMemory p#}" using en by (auto simp: enumerate_post_def)
    let ?h = "(OpenProcessToken 11, r) # (AllocateAndInitializeSid Administrators, s) #
      (CreateRestrictedToken (out r) (out s), k) # g @ (if out s = 0 then [] else [(FreeSid (out s), f)]) @ g'"
    have "sec.held L ?h = sec.held (add_mset (NewMemory p) L + nonnull OpenHandle True (out r) + nonnull OpenHandle True (out k)) g'" for L
      using ok p by (simp add: acquires_def sec.held_append nonnull_def ac_simps)
    then have "acquires ?h (add_mset (NewMemory p) (M + sec_hands_out CreateProcessWithLogonW w))"
      unfolding acquires_def M by (simp add: ac_simps)
    then show "\<exists>p r M. (CreateProcessWithLogonW, r) \<in> set ?h \<and>
        acquires ?h (add_mset (NewMemory p) (M + sec_hands_out CreateProcessWithLogonW r))"
      using w by (intro exI conjI) auto
  qed
  show ?thesis
    unfolding LaunchRestrictedProcess_def free_unless_null_def
  proof (intro appends_intro, goal_cases)
    case (4 r s k)
    show ?case
    proof (rule appends_andthen[OF Enumerate_appends], intro appends_intro, goal_cases)
      case (1 g f)
      show ?case by (rule appends_mono[OF launch_rest]) (use 1 4 kept[of r s k g _ _ f] in simp)
    next
      case (2 g)
      show ?case by (rule appends_mono[OF launch_rest]) (use 2 4 kept[of r s k g] in simp)
    qed (simp_all add: launch_post_def)
  qed (simp_all add: launch_post_def)
qed

lemma launch_leaks:
  "\<exists>oc s' g. LaunchRestrictedProcess os s h = (oc, s', h @ g) \<and> (oc = Val () \<longrightarrow> (\<exists>p r M. (CreateProcessWithLogonW, r) \<in> set g \<and>
     (\<forall>L. sec.held L g = Some (L + add_mset (NewMemory p) (M + sec_hands_out CreateProcessWithLogonW r)))))"
  using appendsD[OF Launch_appends, of os s h] by (simp add: launch_post_def acquires_def)

text \<open>
  The buffers of the search have 250 characters, but the length that is passed is 256: a name between these
  lengths, which the call accepts, overruns the buffer.
\<close>

lemma long_group_name_overflows:
  assumes "succeeds (os h (EqualSid p s))" "250 < length (cstr (written (os (h @ [(EqualSid p s, os h (EqualSid p s))])
    (LookupAccountSid s 1 256 1 256)) 0))"
  shows "outcome_of (search_groups p ((s, a) # gs) os x h) = Fault"
  using assms by (simp add: bnd_call_apply if_apply into_wstring_def fault_apply)





text \<open>The client leaves the buffer, the token and the file to the end of its process.\<close>

definition client_post :: "(secerr, int) outcome \<Rightarrow> seccall history \<Rightarrow> bool" where
  "client_post oc g \<longleftrightarrow> oc = Fault \<or> oc = Exn BadAlloc \<or> (oc = Val 0 \<and> (\<exists>p (f :: resp). acquires g
     ({#NewMemory p#} + nonnull OpenHandle (rv f \<noteq> InvalidHandleValue) (rv f))))"

lemma client_rest_appends:
  "appends (andthen (client_EnumerateTokenPrivileges k)
    (bnd (call CreateFile) (\<lambda>f. andthen (whenM (rv f = InvalidHandleValue) (do_call GetLastError)) (ret 0)))) (client_post)"
  unfolding client_EnumerateTokenPrivileges_def
proof (rule appends_andthen[OF Enumerate_appends], goal_cases)
  case (1 g)
  then obtain p where p: "acquires g {#NewMemory p#}" by (auto simp: enumerate_post_def)
  have "client_post (Val 0) (g @ (CreateFile, f) # h)" if h: "h = [] \<or> (\<exists>e. h = [(GetLastError, e)])" for f h
    using h p by (auto simp: client_post_def acquires_def sec.held_append intro!: exI[of _ p] exI[of _ f])
  then show ?case by (intro appends_intro) auto
qed (auto simp: client_post_def enumerate_post_def)

lemma client_keeps:
  "appends client_wmain (\<lambda>oc g. oc = Fault \<or> oc = Halted 3 \<or> (oc = Val 0 \<and> (\<exists>(t :: resp) p (f :: resp). acquires g
     (nonnull OpenHandle (succeeds t) (out t) + {#NewMemory p#} + nonnull OpenHandle (rv f \<noteq> InvalidHandleValue) (rv f)))))"
  unfolding client_wmain_def
proof (rule appends_try_catch[where R = "\<lambda>oc g. \<exists>t g'. g = (OpenProcessToken 0xB, t) # g' \<and> client_post oc g'"], goal_cases)
  case 1
  show ?case by (rule appends_bnd_call, rule appends_mono[OF client_rest_appends]) auto
next
  case (3 a g)
  then obtain t g' p and f :: resp where g: "g = (OpenProcessToken 0xB, t) # g'" "a = 0"
    "acquires g' ({#NewMemory p#} + nonnull OpenHandle (rv f \<noteq> InvalidHandleValue) (rv f))" by (auto simp: client_post_def)
  then have "acquires g (nonnull OpenHandle (succeeds t) (out t) + {#NewMemory p#} + nonnull OpenHandle (rv f \<noteq> InvalidHandleValue) (rv f))"
    by (simp add: acquires_def ac_simps)
  then show ?case using g(2) by blast
qed (auto simp: client_post_def intro: appends_halt)

end
