(* ===== verification/Fuel.thy ===== *)
theory Fuel
  imports Win32_Prelude
begin

text \<open>
  Loops that may go on for ever have a bound on their rounds, and \<open>Running\<close> is the outcome when it is used
  up.  Outcomes are ordered with \<open>Running\<close> below all others; \<open>below m m'\<close> says that \<open>m'\<close> does what \<open>m\<close> does
  whenever \<open>m\<close> ends.  All ways of composing computations are monotone, so a program that ends under one
  bound does the same, to the last call, under every larger one: \<open>bound_free\<close>.
\<close>

instantiation outcome :: (type, type) order_bot
begin

definition bot_outcome :: "('a, 'b) outcome" where
  "bot_outcome = Running"

definition less_eq_outcome :: "('a, 'b) outcome \<Rightarrow> ('a, 'b) outcome \<Rightarrow> bool" where
  "less_eq_outcome x y \<longleftrightarrow> x = Running \<or> x = y"

definition less_outcome :: "('a, 'b) outcome \<Rightarrow> ('a, 'b) outcome \<Rightarrow> bool" where
  "less_outcome x y \<longleftrightarrow> x = Running \<and> y \<noteq> Running"

instance
  by standard (auto simp: bot_outcome_def less_eq_outcome_def less_outcome_def)

end

definition below :: "('s, 'c, 'e, 'a) io \<Rightarrow> ('s, 'c, 'e, 'a) io \<Rightarrow> bool" where
  "below m m' \<longleftrightarrow> (\<forall>os s h. outcome_of (m os s h) = Running \<or> m os s h = m' os s h)"

definition bound_free :: "(nat \<Rightarrow> ('s, 'c, 'e, 'a) io) \<Rightarrow> bool" where
  "bound_free F \<longleftrightarrow> (\<forall>n n'. n \<le> n' \<longrightarrow> below (F n) (F n'))"

named_theorems below_intro \<open>monotonicity of the composition of computations\<close>

lemma belowD: "below m m' \<Longrightarrow> m os s h = (oc, s', h') \<Longrightarrow> oc \<noteq> Running \<Longrightarrow> m' os s h = (oc, s', h')"
  unfolding below_def by (metis projections(1))

lemma below_outcome: "below m m' \<Longrightarrow> outcome_of (m os s h) \<le> outcome_of (m' os s h)"
  unfolding below_def less_eq_outcome_def by metis

lemma bound_free_mono: "bound_free F \<Longrightarrow> mono (\<lambda>n. outcome_of (F n os s h))"
  by (rule monoI) (simp add: bound_free_def below_outcome)

lemma bound_freeD: "bound_free F \<Longrightarrow> n \<le> n' \<Longrightarrow> outcome_of (F n os s h) \<noteq> Running \<Longrightarrow> F n' os s h = F n os s h"
  unfolding bound_free_def below_def by metis

lemma below_refl [simp, below_intro]: "below m m"
  by (simp add: below_def)

lemma below_trans: "below m m' \<Longrightarrow> below m' m'' \<Longrightarrow> below m m''"
  unfolding below_def by metis

lemma below_running [simp, below_intro]: "below running m"
  by (simp add: below_def running_def)

text \<open>One more round at a time is enough.\<close>

lemma bound_freeI:
  assumes "\<And>n. below (F n) (F (Suc n))"
  shows "bound_free F"
proof -
  have "below (F n) (F (n + k))" for n k
    by (induction k) (auto intro: below_trans[OF _ assms])
  then show ?thesis unfolding bound_free_def by (metis le_Suc_ex)
qed

lemma below_bnd [below_intro]:
  assumes m: "below m m'" and f: "\<And>a. below (f a) (f' a)"
  shows "below (bnd m f) (bnd m' f')"
  unfolding below_def
proof (intro allI)
  fix os s h
  obtain oc s1 h1 where r: "m os s h = (oc, s1, h1)" by (cases "m os s h")
  show "outcome_of (bnd m f os s h) = Running \<or> bnd m f os s h = bnd m' f' os s h"
  proof (cases "oc = Running")
    case True
    then show ?thesis using r by (simp add: bnd_def)
  next
    case False
    then have "m' os s h = (oc, s1, h1)" using belowD[OF m r] by simp
    then show ?thesis using r f by (cases oc) (auto simp: bnd_def below_def)
  qed
qed

lemma below_andthen [below_intro]: "below m m' \<Longrightarrow> below k k' \<Longrightarrow> below (andthen m k) (andthen m' k')"
  unfolding andthen_def by (rule below_bnd)

lemma below_if [below_intro]: "(b \<Longrightarrow> below m m') \<Longrightarrow> (\<not> b \<Longrightarrow> below k k') \<Longrightarrow> below (if b then m else k) (if b then m' else k')"
  by simp

lemma below_whenM [below_intro]: "(b \<Longrightarrow> below m m') \<Longrightarrow> below (whenM b m) (whenM b m')"
  by (simp add: whenM_def)

lemma below_option [below_intro]:
  "(x = None \<Longrightarrow> below m m') \<Longrightarrow> (\<And>a. x = Some a \<Longrightarrow> below (f a) (f' a)) \<Longrightarrow>
   below (case x of None \<Rightarrow> m | Some a \<Rightarrow> f a) (case x of None \<Rightarrow> m' | Some a \<Rightarrow> f' a)"
  by (cases x) simp_all

lemma below_prod [below_intro]:
  "(\<And>a b. p = (a, b) \<Longrightarrow> below (f a b) (f' a b)) \<Longrightarrow> below (case p of (a, b) \<Rightarrow> f a b) (case p of (a, b) \<Rightarrow> f' a b)"
  by (cases p) simp

lemma below_list [below_intro]:
  "(xs = [] \<Longrightarrow> below m m') \<Longrightarrow> (\<And>y ys. xs = y # ys \<Longrightarrow> below (f y ys) (f' y ys)) \<Longrightarrow>
   below (case xs of [] \<Rightarrow> m | y # ys \<Rightarrow> f y ys) (case xs of [] \<Rightarrow> m' | y # ys \<Rightarrow> f' y ys)"
  by (cases xs) simp_all

lemma below_Let [below_intro]: "(\<And>a. a = x \<Longrightarrow> below (f a) (f' a)) \<Longrightarrow> below (Let x f) (Let x f')"
  by simp

lemma below_try_catch [below_intro]:
  assumes m: "below m m'" and k: "\<And>e. below (k e) (k' e)"
  shows "below (try_catch m k) (try_catch m' k')"
  unfolding below_def
proof (intro allI)
  fix os s h
  obtain oc s1 h1 where r: "m os s h = (oc, s1, h1)" by (cases "m os s h")
  show "outcome_of (try_catch m k os s h) = Running \<or> try_catch m k os s h = try_catch m' k' os s h"
  proof (cases "oc = Running")
    case True
    then show ?thesis using r by (simp add: try_catch_def)
  next
    case False
    then have "m' os s h = (oc, s1, h1)" using belowD[OF m r] by simp
    then show ?thesis using r k by (cases oc) (auto simp: try_catch_def below_def)
  qed
qed

lemma below_finally [below_intro]:
  assumes m: "below m m'" and k: "below k k'"
  shows "below (finally_do m k) (finally_do m' k')"
  unfolding below_def
proof (intro allI)
  fix os s h
  obtain oc s1 h1 where r: "m os s h = (oc, s1, h1)" by (cases "m os s h")
  show "outcome_of (finally_do m k os s h) = Running \<or> finally_do m k os s h = finally_do m' k' os s h"
  proof (cases "oc = Running")
    case True
    then show ?thesis using r by (simp add: finally_do_def)
  next
    case False
    then have m': "m' os s h = (oc, s1, h1)" using belowD[OF m r] by simp
    obtain oc2 s2 h2 where r2: "k os s1 h1 = (oc2, s2, h2)" by (cases "k os s1 h1")
    show ?thesis
    proof (cases "oc2 = Running")
      case True
      then show ?thesis using r r2 m' by (cases oc) (simp_all add: finally_do_def)
    next
      case False
      then have "k' os s1 h1 = (oc2, s2, h2)" using belowD[OF k r2] by simp
      then show ?thesis using r r2 m' by (cases oc) (simp_all add: finally_do_def)
    qed
  qed
qed

text \<open>Induction over two bounds at once, for the loops.\<close>

lemma le_pair_induct [consumes 1, case_names zero suc]:
  assumes "n \<le> k" "\<And>k. P 0 k" "\<And>n m. n \<le> m \<Longrightarrow> P n m \<Longrightarrow> P (Suc n) (Suc m)"
  shows "P n k"
  using assms(1)
proof (induction n arbitrary: k)
  case 0
  then show ?case using assms(2) by simp
next
  case (Suc n)
  then obtain m where "k = Suc m" "n \<le> m" by (cases k) auto
  then show ?case using Suc.IH assms(3) by simp
qed

lemma bound_free_of: "(\<And>n m. n \<le> m \<Longrightarrow> below (F n) (F m)) \<Longrightarrow> bound_free F"
  by (simp add: bound_free_def)

end
