(* ===== verification/Redirect.thy ===== *)
theory Redirect
  imports Win32_Prelude "HOL-Library.Sublist"
begin

text \<open>
  Parent/Parent.cpp and Child/Child.cpp: a parent that writes a file to the standard input of its child and
  afterwards prints what the child writes to its standard output, and the child that copies the one to the
  other.  Both are step relations over their program counters and the two pipes, which have a capacity; the
  steps of the two processes interleave.  The bytes the child copies and those of its texts are told apart.
\<close>

section \<open>The two processes\<close>

abbreviation (input) BUFSIZE :: nat where "BUFSIZE \<equiv> 4096"

datatype item = Copied BYTE | Message BYTE

text \<open>
  The parent: before its \<open>ReadFile\<close> of the file, in a \<open>WriteFile\<close> with the bytes it still has to write, before the
  end of \<open>WriteToPipe\<close>, in the loop of \<open>ReadFromPipe\<close>, at its end.  The child: in its writes, before its
  \<open>ReadFile\<close>, at its end.
\<close>

datatype parent = PRead | PWrite "BYTE list" | PClose | PDrain | PDone

datatype child = CWrite "item list" | CRead | CDone

record world =
  file_left :: "BYTE list"
  stdin_pipe :: "BYTE list"
  stdin_open :: bool
  stdout_pipe :: "item list"
  shown :: "item list"
  at_parent :: parent
  at_child :: child
  failed :: bool

text \<open>
  The capacities, and the two texts of the child as the bytes its stream makes of them, which are written
  when they are output: a stream that keeps the first text for a while only moves it.
\<close>

record setting =
  in_capacity :: nat
  out_capacity :: nat
  banner :: "BYTE list"
  hello :: "BYTE list"

definition start_world :: "setting \<Rightarrow> BYTE list \<Rightarrow> world" where
  "start_world c f = \<lparr>file_left = f, stdin_pipe = [], stdin_open = True, stdout_pipe = [], shown = [],
     at_parent = PRead, at_child = CWrite (map Message (banner c)), failed = False\<rparr>"

text \<open>
  A read gives at least one byte and at most the buffer; a write of a pipe fills it as far as there is room and
  goes on when there is more.  The parent's own output takes what it is given.
\<close>

inductive parent_step :: "setting \<Rightarrow> world \<Rightarrow> world \<Rightarrow> bool" for c where
  p_read: "at_parent w = PRead \<Longrightarrow> 0 < n \<Longrightarrow> n \<le> BUFSIZE \<Longrightarrow> n \<le> length (file_left w) \<Longrightarrow>
    parent_step c w (w\<lparr>file_left := drop n (file_left w), at_parent := PWrite (take n (file_left w))\<rparr>)"
| p_eof: "at_parent w = PRead \<Longrightarrow> file_left w = [] \<Longrightarrow> parent_step c w (w\<lparr>at_parent := PClose\<rparr>)"
| p_write: "at_parent w = PWrite bs \<Longrightarrow> at_child w \<noteq> CDone \<Longrightarrow> 0 < k \<Longrightarrow> k \<le> length bs \<Longrightarrow>
    length (stdin_pipe w) + k \<le> in_capacity c \<Longrightarrow>
    parent_step c w (w\<lparr>stdin_pipe := stdin_pipe w @ take k bs, at_parent := PWrite (drop k bs)\<rparr>)"
| p_written: "at_parent w = PWrite [] \<Longrightarrow> parent_step c w (w\<lparr>at_parent := PRead\<rparr>)"
| p_close: "at_parent w = PClose \<Longrightarrow> parent_step c w (w\<lparr>stdin_open := False, at_parent := PDrain\<rparr>)"
| p_drain: "at_parent w = PDrain \<Longrightarrow> 0 < k \<Longrightarrow> k \<le> BUFSIZE \<Longrightarrow> k \<le> length (stdout_pipe w) \<Longrightarrow>
    parent_step c w (w\<lparr>stdout_pipe := drop k (stdout_pipe w), shown := shown w @ take k (stdout_pipe w)\<rparr>)"
| p_drained: "at_parent w = PDrain \<Longrightarrow> stdout_pipe w = [] \<Longrightarrow> at_child w = CDone \<Longrightarrow>
    parent_step c w (w\<lparr>at_parent := PDone\<rparr>)"

inductive child_step :: "setting \<Rightarrow> world \<Rightarrow> world \<Rightarrow> bool" for c where
  c_write: "at_child w = CWrite xs \<Longrightarrow> 0 < k \<Longrightarrow> k \<le> length xs \<Longrightarrow> length (stdout_pipe w) + k \<le> out_capacity c \<Longrightarrow>
    child_step c w (w\<lparr>stdout_pipe := stdout_pipe w @ take k xs, at_child := CWrite (drop k xs)\<rparr>)"
| c_written: "at_child w = CWrite [] \<Longrightarrow> child_step c w (w\<lparr>at_child := CRead\<rparr>)"
| c_read: "at_child w = CRead \<Longrightarrow> 0 < n \<Longrightarrow> n \<le> BUFSIZE \<Longrightarrow> n \<le> length (stdin_pipe w) \<Longrightarrow>
    child_step c w (w\<lparr>stdin_pipe := drop n (stdin_pipe w),
      at_child := CWrite (map Copied (take n (stdin_pipe w)) @ map Message (hello c))\<rparr>)"
| c_eof: "at_child w = CRead \<Longrightarrow> stdin_pipe w = [] \<Longrightarrow> \<not> stdin_open w \<Longrightarrow> child_step c w (w\<lparr>at_child := CDone\<rparr>)"

text \<open>
  The failures: a read or write that fails ends its loop, a write to a child that has ended fails, and a handle
  that cannot be closed ends the parent.
\<close>

inductive failure_step :: "world \<Rightarrow> world \<Rightarrow> bool" where
  f_read: "at_parent w = PRead \<or> (\<exists>bs. at_parent w = PWrite bs) \<Longrightarrow> failure_step w (w\<lparr>at_parent := PClose, failed := True\<rparr>)"
| f_close: "at_parent w = PClose \<or> at_parent w = PDrain \<Longrightarrow> failure_step w (w\<lparr>stdin_open := False, at_parent := PDone, failed := True\<rparr>)"
| f_child: "at_child w \<noteq> CDone \<Longrightarrow> failure_step w (w\<lparr>at_child := CDone, failed := True\<rparr>)"

definition step :: "setting \<Rightarrow> world \<Rightarrow> world \<Rightarrow> bool" where
  "step c w w' \<longleftrightarrow> parent_step c w w' \<or> child_step c w w'"

definition stuck :: "setting \<Rightarrow> world \<Rightarrow> bool" where
  "stuck c w \<longleftrightarrow> \<not> (\<exists>w'. step c w w')"

inductive_cases parent_stepE: "parent_step c w w'"
inductive_cases child_stepE: "child_step c w w'"
inductive_cases failure_stepE: "failure_step w w'"

lemma step_cases [consumes 1, case_names parent child]:
  "step c w w' \<Longrightarrow> (parent_step c w w' \<Longrightarrow> P) \<Longrightarrow> (child_step c w w' \<Longrightarrow> P) \<Longrightarrow> P"
  by (auto simp: step_def)

section \<open>What is copied\<close>

fun copied :: "item list \<Rightarrow> BYTE list" where
  "copied [] = []"
| "copied (Copied b # xs) = b # copied xs"
| "copied (Message b # xs) = copied xs"

lemma copied_append [simp]: "copied (xs @ ys) = copied xs @ copied ys"
  by (induction xs rule: copied.induct) simp_all

lemma copied_map [simp]: "copied (map Copied bs) = bs" "copied (map Message bs) = []"
  by (induction bs) simp_all

lemma take_drop_rest [simp]: "take k xs @ drop k xs @ ys = xs @ ys"
  by (metis append.assoc append_take_drop_id)

lemma copied_take_drop [simp]:
  "copied (take k xs) @ copied (drop k xs) = copied xs" "copied (take k xs) @ copied (drop k xs) @ ys = copied xs @ ys"
  by (metis append.assoc copied_append append_take_drop_id)+

fun in_parent :: "parent \<Rightarrow> BYTE list" where
  "in_parent (PWrite bs) = bs"
| "in_parent _ = []"

fun in_child :: "child \<Rightarrow> item list" where
  "in_child (CWrite xs) = xs"
| "in_child _ = []"

text \<open>The way of the bytes, from the screen back to the file.\<close>

definition way :: "world \<Rightarrow> BYTE list" where
  "way w = copied (shown w) @ copied (stdout_pipe w) @ copied (in_child (at_child w)) @ stdin_pipe w @
     in_parent (at_parent w) @ file_left w"

definition world_inv :: "BYTE list \<Rightarrow> world \<Rightarrow> bool" where
  "world_inv f w \<longleftrightarrow> way w = f \<and> (stdin_open w \<longleftrightarrow> (at_parent w \<noteq> PDrain \<and> at_parent w \<noteq> PDone)) \<and>
     (at_parent w \<in> {PClose, PDrain, PDone} \<longrightarrow> file_left w = []) \<and>
     (at_child w = CDone \<longrightarrow> stdin_pipe w = [] \<and> \<not> stdin_open w) \<and>
     (at_parent w = PDone \<longrightarrow> stdout_pipe w = [] \<and> at_child w = CDone)"

lemma start_inv: "world_inv f (start_world c f)"
  by (simp add: world_inv_def start_world_def way_def)

lemma parent_way: "parent_step c w w' \<Longrightarrow> way w' = way w"
  by (erule parent_stepE) (simp_all add: way_def)

lemma child_way: "child_step c w w' \<Longrightarrow> way w' = way w"
  by (erule child_stepE) (simp_all add: way_def)

lemma step_inv:
  assumes "step c w w'" "world_inv f w"
  shows "world_inv f w'"
  using assms(1)
proof (cases rule: step_cases)
  case parent
  from parent_way[OF parent] show ?thesis
    unfolding world_inv_def using assms(2) parent
    by (elim parent_stepE) (simp_all add: world_inv_def, auto)
next
  case child
  from child_way[OF child] show ?thesis
    unfolding world_inv_def using assms(2) child
    by (elim child_stepE) (simp_all add: world_inv_def, auto)
qed

lemma run_inv: "(step c)\<^sup>*\<^sup>* (start_world c f) w \<Longrightarrow> world_inv f w"
  by (induction rule: rtranclp_induct) (auto intro: start_inv step_inv)

text \<open>With failures, what is on its way is cut off behind some byte.\<close>

definition still_coming :: "world \<Rightarrow> BYTE list" where
  "still_coming w = (if at_child w = CDone then [] else copied (in_child (at_child w)) @ stdin_pipe w @
     (case at_parent w of PRead \<Rightarrow> file_left w | PWrite bs \<Rightarrow> bs @ file_left w | _ \<Rightarrow> []))"

definition goes_through :: "world \<Rightarrow> BYTE list" where
  "goes_through w = copied (shown w) @ copied (stdout_pipe w) @ still_coming w"

lemma step_goes_through:
  assumes "step c w w' \<or> failure_step w w'"
  shows "prefix (goes_through w') (goes_through w)"
  using assms[unfolded step_def]
  by (elim disjE parent_stepE child_stepE failure_stepE)
    (auto simp: goes_through_def still_coming_def prefix_def split: parent.splits)

section \<open>Every run ends\<close>

fun parent_rank :: "parent \<Rightarrow> nat" where
  "parent_rank (PWrite bs) = 5"
| "parent_rank PRead = 4"
| "parent_rank PClose = 3"
| "parent_rank PDrain = 2"
| "parent_rank PDone = 0"

fun child_rank :: "child \<Rightarrow> nat" where
  "child_rank (CWrite xs) = 3"
| "child_rank CRead = 2"
| "child_rank CDone = 0"

definition potential :: "setting \<Rightarrow> world \<Rightarrow> nat" where
  "potential c w = (2 * length (hello c) + 7) * length (file_left w) + (2 * length (hello c) + 5) * length (in_parent (at_parent w)) +
     (2 * length (hello c) + 4) * length (stdin_pipe w) + 2 * length (in_child (at_child w)) + length (stdout_pipe w) +
     parent_rank (at_parent w) + child_rank (at_child w)"

lemma mult_length_drop: "n \<le> length xs \<Longrightarrow> K * length xs = K * length (drop n xs) + K * (n :: nat)"
  by (simp flip: add_mult_distrib2)

lemma step_potential:
  assumes "step c w w'"
  shows "potential c w' < potential c w"
  using assms
proof (cases rule: step_cases)
  case parent
  then show ?thesis
  proof (cases rule: parent_step.cases)
    case (p_read n)
    have "0 < n" by fact
    then show ?thesis using p_read mult_length_drop[of n "file_left w" "2 * length (hello c) + 7"]
      by (simp add: potential_def algebra_simps)
  next
    case (p_write bs k)
    then show ?thesis using p_write mult_length_drop[of k bs "2 * length (hello c) + 5"]
      by (simp add: potential_def algebra_simps)
  qed (simp_all add: potential_def)
next
  case child
  then show ?thesis
  proof (cases rule: child_step.cases)
    case (c_read n)
    define K where "K = 2 * length (hello c) + 4"
    have "length (hello c) \<le> length (hello c) * n" using c_read by simp
    then have "2 * length (hello c) + 4 * n \<le> K * n" by (simp add: K_def algebra_simps)
    moreover have "K * length (stdin_pipe w) = K * length (drop n (stdin_pipe w)) + K * n"
      using c_read by (intro mult_length_drop)
    ultimately show ?thesis using c_read by (simp add: potential_def flip: K_def)
  qed (auto simp: potential_def)
qed

lemma run_length: "(step c ^^ n) w w' \<Longrightarrow> n + potential c w' \<le> potential c w"
proof (induction n arbitrary: w')
  case (Suc n)
  then obtain v where "(step c ^^ n) w v" "step c v w'" by auto
  then show ?case using Suc.IH[of v] step_potential[of c v w'] by simp
qed simp

lemma reaches_stuck: "\<exists>w'. (step c)\<^sup>*\<^sup>* w w' \<and> stuck c w'"
proof (induction "potential c w" arbitrary: w rule: less_induct)
  case less
  show ?case
  proof (cases "stuck c w")
    case False
    then obtain v where v: "step c w v" by (auto simp: stuck_def)
    then obtain w' where "(step c)\<^sup>*\<^sup>* v w'" "stuck c w'" using less step_potential by blast
    then show ?thesis using v by (meson converse_rtranclp_into_rtranclp)
  qed auto
qed

section \<open>When the processes wait for each other\<close>

text \<open>The parent waits for room in the one pipe, the child for room in the other.\<close>

definition blocked :: "setting \<Rightarrow> world \<Rightarrow> bool" where
  "blocked c w \<longleftrightarrow> in_parent (at_parent w) \<noteq> [] \<and> in_capacity c \<le> length (stdin_pipe w) \<and>
     in_child (at_child w) \<noteq> [] \<and> out_capacity c \<le> length (stdout_pipe w)"

lemma child_moves:
  assumes "world_inv f w" "0 < out_capacity c" "stuck c w" "stdin_pipe w \<noteq> [] \<or> \<not> stdin_open w"
  shows "at_child w = CDone \<or> in_child (at_child w) \<noteq> [] \<and> out_capacity c \<le> length (stdout_pipe w)"
proof (rule ccontr)
  assume n: "\<not> ?thesis"
  then consider xs where "at_child w = CWrite xs" "xs \<noteq> []" "length (stdout_pipe w) < out_capacity c"
    | "at_child w = CWrite []" | "at_child w = CRead" "stdin_pipe w \<noteq> []" | "at_child w = CRead" "stdin_pipe w = []"
    by (cases "at_child w") (fastforce simp: not_le)+
  then have "\<exists>w'. child_step c w w'"
  proof cases
    case 1
    then show ?thesis using c_write[of w xs 1 c] by (cases xs) auto
  next
    case 3
    then show ?thesis using c_read[of w 1 c] by (cases "stdin_pipe w") auto
  qed (use assms(4) c_written c_eof in blast)+
  then show False using assms(3) by (auto simp: stuck_def step_def)
qed

lemma stuck_cases:
  assumes "world_inv f w" "0 < in_capacity c" "0 < out_capacity c" "stuck c w"
  shows "at_parent w = PDone \<or> blocked c w"
proof (cases "at_parent w")
  case PRead
  then have "\<exists>w'. parent_step c w w'" using p_eof[of w c] p_read[of w 1 c] by (cases "file_left w") auto
  then show ?thesis using assms(4) by (auto simp: stuck_def step_def)
next
  case (PWrite bs)
  have nd: "at_child w \<noteq> CDone" using assms(1) PWrite by (auto simp: world_inv_def)
  show ?thesis
  proof (cases "bs \<noteq> [] \<and> in_capacity c \<le> length (stdin_pipe w)")
    case True
    then have "stdin_pipe w \<noteq> []" using assms(2) by auto
    then show ?thesis using child_moves[OF assms(1,3,4)] nd True PWrite by (simp add: blocked_def)
  next
    case False
    then have "\<exists>w'. parent_step c w w'" using p_written[of w c] p_write[of w bs 1 c] nd PWrite by (cases bs) auto
    then show ?thesis using assms(4) by (auto simp: stuck_def step_def)
  qed
next
  case PClose
  then show ?thesis using assms(4) p_close[of w c] by (auto simp: stuck_def step_def)
next
  case PDrain
  then have out: "stdout_pipe w = []" using assms(4) p_drain[of w 1 c] by (cases "stdout_pipe w") (auto simp: stuck_def step_def)
  have "\<not> stdin_open w" using assms(1) PDrain by (simp add: world_inv_def)
  then have "at_child w = CDone" using child_moves[OF assms(1,3,4)] out assms(3) by auto
  then show ?thesis using assms(4) p_drained[OF PDrain out, of c] by (auto simp: stuck_def step_def)
qed simp

text \<open>
  Before the parent closes the pipe nothing leaves the other; so all the child has read is in that pipe or in the
  chunk it is writing.
\<close>

definition writing_inv :: "setting \<Rightarrow> world \<Rightarrow> bool" where
  "writing_inv c w \<longleftrightarrow> at_parent w \<notin> {PClose, PDrain, PDone} \<and> shown w = [] \<and>
     length (stdin_pipe w) \<le> in_capacity c \<and> length (stdout_pipe w) \<le> out_capacity c \<and>
     length (copied (in_child (at_child w))) \<le> BUFSIZE"

lemma length_copied: "length (copied xs) \<le> length xs"
  by (induction xs rule: copied.induct) auto

lemma length_copied_drop: "length (copied (drop k xs)) \<le> length (copied xs)"
  using copied_take_drop(1)[of k xs] by (metis length_append le_add2)

lemma writing_step:
  assumes "step c w w'" "world_inv f w" "in_capacity c + out_capacity c + BUFSIZE < length f" "writing_inv c w"
  shows "writing_inv c w'"
  using assms(1)
proof (cases rule: step_cases)
  case parent
  then show ?thesis
  proof (cases rule: parent_step.cases)
    case p_eof
    have "length f = length (copied (stdout_pipe w)) + length (copied (in_child (at_child w))) + length (stdin_pipe w)"
      using assms(2,4) p_eof by (auto simp: world_inv_def writing_inv_def way_def)
    then show ?thesis using assms(3,4) length_copied[of "stdout_pipe w"] by (simp add: writing_inv_def)
  qed (use assms(4) in \<open>simp_all add: writing_inv_def\<close>)
next
  case child
  then show ?thesis
  proof (cases rule: child_step.cases)
    case (c_write xs k)
    then show ?thesis using assms(4) length_copied_drop[of k xs] by (simp add: writing_inv_def)
  qed (use assms(4) in \<open>auto simp: writing_inv_def\<close>)
qed

lemma run_writing:
  assumes "(step c)\<^sup>*\<^sup>* (start_world c f) w" "in_capacity c + out_capacity c + BUFSIZE < length f"
  shows "writing_inv c w"
  using assms(1)
proof (induction rule: rtranclp_induct)
  case base
  then show ?case by (simp add: writing_inv_def start_world_def)
next
  case (step y z)
  then show ?case using writing_step run_inv assms(2) by blast
qed

text \<open>All the child writes: its first text, and for what it has read at most one further text for each byte.\<close>

definition written_inv :: "setting \<Rightarrow> world \<Rightarrow> bool" where
  "written_inv c w \<longleftrightarrow> (let xs = shown w @ stdout_pipe w @ in_child (at_child w) in
     length xs \<le> length (banner c) + (1 + length (hello c)) * length (copied xs))"

lemma written_step:
  assumes "step c w w'" "written_inv c w"
  shows "written_inv c w'"
  using assms(1)
proof (cases rule: step_cases)
  case parent
  then show ?thesis using assms(2) by (cases rule: parent_step.cases) (simp_all add: written_inv_def Let_def)
next
  case child
  then show ?thesis
  proof (cases rule: child_step.cases)
    case (c_write xs k)
    then show ?thesis using assms(2) by (simp add: written_inv_def Let_def)
  next
    case (c_read n)
    obtain m where "n = Suc m" using c_read by (cases n) auto
    then show ?thesis using assms(2) c_read by (simp add: written_inv_def Let_def algebra_simps)
  qed (use assms(2) in \<open>simp_all add: written_inv_def Let_def\<close>)
qed

lemma run_written: "(step c)\<^sup>*\<^sup>* (start_world c f) w \<Longrightarrow> written_inv c w"
proof (induction rule: rtranclp_induct)
  case base
  then show ?case by (simp add: written_inv_def start_world_def)
qed (rule written_step)

lemma small_not_blocked:
  assumes "world_inv f w" "written_inv c w" "length (banner c) + (1 + length (hello c)) * length f \<le> out_capacity c"
  shows "\<not> blocked c w"
proof
  assume b: "blocked c w"
  let ?xs = "shown w @ stdout_pipe w @ in_child (at_child w)"
  have "length (copied ?xs) \<le> length f" using assms(1) by (auto simp: world_inv_def way_def)
  then have "(1 + length (hello c)) * length (copied ?xs) \<le> (1 + length (hello c)) * length f" by (rule mult_le_mono2)
  then have "length ?xs \<le> out_capacity c" using assms(2,3) unfolding written_inv_def Let_def by linarith
  moreover have "out_capacity c < length ?xs" using b by (cases "in_child (at_child w)") (auto simp: blocked_def)
  ultimately show False by simp
qed

section \<open>Properties\<close>

text \<open>
  C37: Whatever fails, the copied bytes that the parent shows are a beginning of the file, in order; when nothing
  fails and the parent ends, they are the file.
\<close>
theorem shown_is_prefix:
  "((\<lambda>w w'. step c w w' \<or> failure_step w w')\<^sup>*\<^sup>* (start_world c f) w \<longrightarrow> prefix (copied (shown w)) f) \<and>
   ((step c)\<^sup>*\<^sup>* (start_world c f) w \<and> at_parent w = PDone \<longrightarrow> copied (shown w) = f)"
proof (intro conjI impI)
  assume "(\<lambda>w w'. step c w w' \<or> failure_step w w')\<^sup>*\<^sup>* (start_world c f) w"
  then have "prefix (goes_through w) f"
  proof (induction rule: rtranclp_induct)
    case base
    then show ?case by (simp add: goes_through_def still_coming_def start_world_def)
  next
    case (step y z)
    then show ?case using step_goes_through prefix_order.trans by blast
  qed
  then show "prefix (copied (shown w)) f" by (auto simp: goes_through_def prefix_def)
next
  assume "(step c)\<^sup>*\<^sup>* (start_world c f) w \<and> at_parent w = PDone"
  then show "copied (shown w) = f" using run_inv[of c f w] by (auto simp: world_inv_def way_def)
qed

text \<open>
  C36: Parent and child stop in the end, but for a file that is longer than the two pipes and a chunk in the
  child's hand they never finish: from every state they can reach they get to one in which each waits for the
  other.
\<close>
theorem long_file_deadlocks:
  assumes "0 < in_capacity c" "0 < out_capacity c" "in_capacity c + out_capacity c + BUFSIZE < length f"
    and "(step c)\<^sup>*\<^sup>* (start_world c f) w"
  shows "at_parent w \<noteq> PDone \<and> (\<exists>w'. (step c)\<^sup>*\<^sup>* w w' \<and> stuck c w' \<and> blocked c w')"
proof -
  obtain w' where w': "(step c)\<^sup>*\<^sup>* w w'" "stuck c w'" using reaches_stuck by blast
  then have run: "(step c)\<^sup>*\<^sup>* (start_world c f) w'" using assms(4) by simp
  have "blocked c w'"
    using stuck_cases[OF run_inv[OF run] assms(1,2) w'(2)] run_writing[OF run assms(3)] by (simp add: writing_inv_def)
  then show ?thesis using w' run_writing[OF assms(4,3)] by (auto simp: writing_inv_def)
qed

text \<open>
  C38: When the pipe for the output has room for all the child may write, every run ends, after a number of steps
  that is bounded by the start, and it ends with the whole file shown.
\<close>
theorem short_file_is_shown:
  assumes "0 < in_capacity c" "0 < out_capacity c"
    and "length (banner c) + (1 + length (hello c)) * length f \<le> out_capacity c"
    and "(step c ^^ n) (start_world c f) w"
  shows "n \<le> potential c (start_world c f) \<and>
    (stuck c w \<longrightarrow> at_parent w = PDone \<and> at_child w = CDone \<and> copied (shown w) = f)"
proof -
  have run: "(step c)\<^sup>*\<^sup>* (start_world c f) w" using assms(4) by (rule relpowp_imp_rtranclp)
  have inv: "world_inv f w" by (rule run_inv[OF run])
  have "stuck c w \<longrightarrow> at_parent w = PDone"
    using stuck_cases[OF inv assms(1,2)] small_not_blocked[OF inv run_written[OF run] assms(3)] by blast
  then show ?thesis using run_length[OF assms(4)] inv by (auto simp: world_inv_def way_def)
qed

section \<open>Witnesses\<close>

definition small_pipes :: setting where
  "small_pipes = \<lparr>in_capacity = 1, out_capacity = 20, banner = [1, 2], hello = [3]\<rparr>"

lemma small_run: "\<exists>w. (step small_pipes)\<^sup>*\<^sup>* (start_world small_pipes [7, 8]) w \<and> stuck small_pipes w"
  by (rule reaches_stuck)

lemma shown_is_prefix_witness:
  "\<exists>w. (step small_pipes)\<^sup>*\<^sup>* (start_world small_pipes [7, 8]) w \<and> copied (shown w) = [7, 8]"
proof -
  obtain w where w: "(step small_pipes)\<^sup>*\<^sup>* (start_world small_pipes [7, 8]) w" "stuck small_pipes w"
    using small_run by blast
  have "at_parent w = PDone"
    using stuck_cases[OF run_inv[OF w(1)] _ _ w(2)] small_not_blocked[OF run_inv[OF w(1)] run_written[OF w(1)]]
    by (simp add: small_pipes_def)
  then show ?thesis using w(1) shown_is_prefix[of small_pipes "[7, 8]" w] by blast
qed

lemma long_file_deadlocks_witness:
  "\<exists>w. (step small_pipes)\<^sup>*\<^sup>* (start_world small_pipes (replicate 5000 0)) w \<and> stuck small_pipes w \<and> blocked small_pipes w"
  using long_file_deadlocks[of small_pipes "replicate 5000 0" "start_world small_pipes (replicate 5000 0)"]
  by (simp add: small_pipes_def)

lemma short_file_is_shown_witness:
  "\<exists>w n. (step small_pipes ^^ n) (start_world small_pipes [7, 8]) w \<and> at_parent w = PDone \<and> at_child w = CDone \<and>
     copied (shown w) = [7, 8]"
proof -
  obtain w n where w: "(step small_pipes ^^ n) (start_world small_pipes [7, 8]) w" "stuck small_pipes w"
    using small_run by (metis rtranclp_imp_relpowp)
  then show ?thesis using short_file_is_shown[OF _ _ _ w(1)] by (auto simp: small_pipes_def)
qed

end
