(* ===== verification/ParentRun.thy ===== *)
theory ParentRun
  imports Effects Fuel Redirect
begin

text \<open>
  The functions of Parent/Parent.cpp as computations: the pipes it makes, the child it starts with their ends,
  and its two copying loops.  \<open>Redirect\<close> has the interleaving of these loops with the child.
\<close>

datatype parentcall =
    GetLastError
  | FormatMessageW DWORD
  | LocalFree HANDLE
  | MessageBox
  | CreatePipe
  | SetHandleInformation HANDLE
  | CreateProcess wstring wstring HANDLE HANDLE
  | CloseHandle HANDLE
  | CreateFileA string
  | GetStdHandle
  | ReadFile HANDLE nat
  | WriteFile HANDLE "BYTE list"

type_synonym 'a prio = "(unit, parentcall, unit, 'a) io"

text \<open>The texts of the message box are left out.\<close>

definition ErrorExit :: "'a prio" where
  "ErrorExit = bnd (call GetLastError) (\<lambda>e. bnd (call (FormatMessageW (status_of e))) (\<lambda>m.
     andthen (whenM (status_of m \<noteq> 0) (do_call (LocalFree (out m))))
     (andthen (do_call MessageBox) (halt 1))))"

definition two_handles :: "resp \<Rightarrow> HANDLE \<times> HANDLE" where
  "two_handles r = (case outs r of [a, b] \<Rightarrow> (a, b) | _ \<Rightarrow> (0, 0))"

definition CreateChildProcess :: "wstring \<Rightarrow> wstring \<Rightarrow> HANDLE \<Rightarrow> HANDLE \<Rightarrow> unit prio" where
  "CreateChildProcess path cmdline out_wr in_rd = bnd (call (CreateProcess path cmdline out_wr in_rd)) (\<lambda>p.
     andthen (whenM (rv p = 0) ErrorExit)
    (andthen (do_call (CloseHandle (fst (two_handles p))))
    (andthen (do_call (CloseHandle (snd (two_handles p))))
    (andthen (do_call (CloseHandle out_wr)) (do_call (CloseHandle in_rd))))))"

text \<open>The loops: the bytes of a \<open>ReadFile\<close> are the first \<open>out\<close> of the buffer.\<close>

definition chunk_of :: "resp \<Rightarrow> BYTE list" where
  "chunk_of r = take (unat (out r)) (buf r)"

fun copy_loop :: "nat \<Rightarrow> HANDLE \<Rightarrow> HANDLE \<Rightarrow> unit prio" where
  "copy_loop 0 src dst = running"
| "copy_loop (Suc fuel) src dst = bnd (call (ReadFile src BUFSIZE)) (\<lambda>r.
     if rv r = 0 \<or> out r = 0 then ret () else
     bnd (call (WriteFile dst (chunk_of r))) (\<lambda>w. if rv w = 0 then ret () else copy_loop fuel src dst))"

definition WriteToPipe :: "nat \<Rightarrow> HANDLE \<Rightarrow> HANDLE \<Rightarrow> unit prio" where
  "WriteToPipe fuel hInputFile in_wr = andthen (copy_loop fuel hInputFile in_wr)
     (bnd (call (CloseHandle in_wr)) (\<lambda>c. whenM (rv c = 0) ErrorExit))"

definition ReadFromPipe :: "nat \<Rightarrow> HANDLE \<Rightarrow> unit prio" where
  "ReadFromPipe fuel out_rd = bnd (call GetStdHandle) (\<lambda>h. copy_loop fuel out_rd (rv h))"

definition make_pipes :: "(HANDLE \<times> HANDLE \<times> HANDLE \<times> HANDLE) prio" where
  "make_pipes = bnd (call CreatePipe) (\<lambda>po.
     andthen (whenM (rv po = 0) ErrorExit)
    (bnd (call (SetHandleInformation (fst (two_handles po)))) (\<lambda>so.
     andthen (whenM (rv so = 0) ErrorExit)
    (bnd (call CreatePipe) (\<lambda>pin.
     andthen (whenM (rv pin = 0) ErrorExit)
    (bnd (call (SetHandleInformation (snd (two_handles pin)))) (\<lambda>si.
     andthen (whenM (rv si = 0) ErrorExit)
       (ret (fst (two_handles po), snd (two_handles po), fst (two_handles pin), snd (two_handles pin))))))))))"

definition Run :: "nat \<Rightarrow> string list \<Rightarrow> unit prio" where
  "Run fuel argv = andthen (whenM (length argv = 1) ErrorExit)
     (bnd make_pipes (\<lambda>(out_rd, out_wr, in_rd, in_wr).
      andthen (CreateChildProcess [] (wstr ''child'') out_wr in_rd)
      (if length argv < 2 then fault else
       bnd (call (CreateFileA (argv ! 1))) (\<lambda>f.
       andthen (whenM (rv f = InvalidHandleValue) ErrorExit)
      (andthen (WriteToPipe fuel (rv f) in_wr) (ReadFromPipe fuel out_rd))))))"

definition parent_main :: "nat \<Rightarrow> string list \<Rightarrow> int prio" where
  "parent_main fuel argv = andthen (Run fuel argv) (ret 0)"

section \<open>What the loops copy\<close>

text \<open>The bytes read from a handle, and those given to the writes of another, of which the last may have failed.\<close>

fun bytes_read :: "HANDLE \<Rightarrow> parentcall history \<Rightarrow> BYTE list" where
  "bytes_read x [] = []"
| "bytes_read x ((ReadFile y n, r) # h) = (if y = x \<and> rv r \<noteq> 0 then chunk_of r @ bytes_read x h else bytes_read x h)"
| "bytes_read x (_ # h) = bytes_read x h"

fun bytes_given :: "HANDLE \<Rightarrow> parentcall history \<Rightarrow> BYTE list" where
  "bytes_given x [] = []"
| "bytes_given x ((WriteFile y bs, r) # h) = (if y = x then bs @ bytes_given x h else bytes_given x h)"
| "bytes_given x (_ # h) = bytes_given x h"

lemma bytes_append [simp]:
  "bytes_read x (g @ h) = bytes_read x g @ bytes_read x h"
  "bytes_given x (g @ h) = bytes_given x g @ bytes_given x h"
  by (induction x g rule: bytes_read.induct; simp)
     (induction x g rule: bytes_given.induct; simp)

lemma copy_loop_appends:
  "appends (copy_loop fuel src dst) (\<lambda>oc g. (oc = Val () \<or> oc = Running) \<and> bytes_given dst g = bytes_read src g \<and>
     list_all (\<lambda>x. \<forall>y. fst x \<noteq> CloseHandle y) g)"
proof (induction fuel)
  case 0
  then show ?case by (auto intro!: appends_intro)
next
  case (Suc fuel)
  show ?case
    unfolding copy_loop.simps
    by (intro appends_intro; (rule appends_mono[OF Suc.IH])?) (auto simp: chunk_of_def)
qed

text \<open>Where nothing is read, written or closed.\<close>

definition no_io :: "parentcall history \<Rightarrow> bool" where
  "no_io g \<longleftrightarrow> (\<forall>x. bytes_read x g = [] \<and> bytes_given x g = [])"

lemma no_io_Nil [simp]: "no_io []"
  by (simp add: no_io_def)

lemma ErrorExit_appends: "appends ErrorExit (\<lambda>oc g. oc = Halted 1)"
  unfolding ErrorExit_def by (intro appends_intro) simp_all

lemma checked_then:
  assumes "\<not> b \<Longrightarrow> appends k Q" "\<And>g. Q (Halted 1) g"
  shows "appends (andthen (whenM b ErrorExit) k) Q"
proof (cases b)
  case True
  then show ?thesis using appends_andthen[OF ErrorExit_appends, where Q = Q and k = k] assms(2) by (simp add: whenM_def)
qed (use assms(1) in \<open>simp add: whenM_def andthen_def bnd_ret\<close>)

lemma checked_last: "Q (Val ()) [] \<Longrightarrow> (\<And>g. Q (Halted 1) g) \<Longrightarrow> appends (whenM b ErrorExit) Q"
  by (cases b) (auto simp: whenM_def intro!: appends_ret appends_mono[OF ErrorExit_appends])

text \<open>The two pipes, and the parent's ends of them, which the child is not to inherit.\<close>

definition two_pipes :: "resp \<Rightarrow> resp \<Rightarrow> parentcall history \<Rightarrow> bool" where
  "two_pipes po pin g \<longleftrightarrow> (\<exists>so si. g = [(CreatePipe, po), (SetHandleInformation (fst (two_handles po)), so),
     (CreatePipe, pin), (SetHandleInformation (snd (two_handles pin)), si)] \<and> rv so \<noteq> 0 \<and> rv si \<noteq> 0)"

lemma make_pipes_appends: "appends make_pipes (\<lambda>oc g. oc = Halted 1 \<or> (\<exists>po pin. two_pipes po pin g \<and>
    oc = Val (fst (two_handles po), snd (two_handles po), fst (two_handles pin), snd (two_handles pin))))"
  unfolding make_pipes_def by (intro appends_bnd_call checked_then appends_ret) (auto simp: two_pipes_def)

lemma CreateChildProcess_appends:
  "appends (CreateChildProcess p c ow ir) (\<lambda>oc g. oc = Halted 1 \<or> (oc = Val () \<and> no_io g \<and> {CloseHandle ow, CloseHandle ir} \<subseteq> set (calls g)))"
  unfolding CreateChildProcess_def
  by (intro appends_bnd_call checked_then appends_andthen_call appends_do_call) (auto simp: no_io_def)

lemma WriteToPipe_appends:
  "appends (WriteToPipe fuel f iw) (\<lambda>oc g. oc = Halted 1 \<or> oc = Running \<or>
     (oc = Val () \<and> bytes_given iw g = bytes_read f g \<and> CloseHandle iw \<in> set (calls g)))"
  unfolding WriteToPipe_def
  by (rule appends_andthen[OF copy_loop_appends]) (auto intro!: appends_bnd_call checked_last)

text \<open>
  What the parent has done when it is through: it has given to the pipe all it has read of the file, closed its
  copies of the child's ends and its end of that pipe, without which the child's output would not end, and only
  then read that output, all of which it has given to its own output.
\<close>

definition ran :: "parentcall history \<Rightarrow> bool" where
  "ran h \<longleftrightarrow> (\<exists>po pin g g1 x f g2 std g3. h = g @ g1 @ (CreateFileA x, f) # g2 @ g3 \<and> two_pipes po pin g \<and>
     no_io g1 \<and> {CloseHandle (snd (two_handles po)), CloseHandle (fst (two_handles pin))} \<subseteq> set (calls g1) \<and>
     bytes_given (snd (two_handles pin)) g2 = bytes_read (rv f) g2 \<and> CloseHandle (snd (two_handles pin)) \<in> set (calls g2) \<and>
     bytes_given std g3 = bytes_read (fst (two_handles po)) g3 \<and> list_all (\<lambda>x. \<forall>y. fst x \<noteq> CloseHandle y) g3)"

lemma ReadFromPipe_appends:
  "appends (ReadFromPipe fuel ord) (\<lambda>oc g. oc = Running \<or> (oc = Val () \<and> (\<exists>std. bytes_given std g = bytes_read ord g) \<and>
     list_all (\<lambda>x. \<forall>y. fst x \<noteq> CloseHandle y) g))"
  unfolding ReadFromPipe_def by (intro appends_bnd_call appends_mono[OF copy_loop_appends]) auto

lemma calls_mem: "(c, b) \<in> set g \<Longrightarrow> c \<in> set (calls g)"
  by force

lemma ranI:
  assumes "two_pipes po pin g" "no_io g1"
    "{CloseHandle (snd (two_handles po)), CloseHandle (fst (two_handles pin))} \<subseteq> set (calls g1)"
    and "bytes_given (snd (two_handles pin)) g2 = bytes_read (rv f) g2" "(CloseHandle (snd (two_handles pin)), b) \<in> set g2"
    "bytes_given std g3 = bytes_read (fst (two_handles po)) g3" "list_all (\<lambda>x. \<forall>y. fst x \<noteq> CloseHandle y) g3"
  shows "ran (g @ g1 @ (CreateFileA x, f) # g2 @ g3)"
  unfolding ran_def using assms by (metis calls_mem)

lemma after_pipes_appends:
  assumes "two_pipes po pin g" "length argv \<noteq> 1"
  shows "appends (andthen (CreateChildProcess [] (wstr ''child'') (snd (two_handles po)) (fst (two_handles pin)))
    (if length argv < 2 then fault else bnd (call (CreateFileA (argv ! 1))) (\<lambda>f.
      andthen (whenM (rv f = InvalidHandleValue) ErrorExit)
     (andthen (WriteToPipe fuel (rv f) (snd (two_handles pin))) (ReadFromPipe fuel (fst (two_handles po)))))))
    (\<lambda>oc h. oc = Halted 1 \<or> oc = Running \<or> (oc = Fault \<and> argv = []) \<or> (oc = Val () \<and> ran (g @ h)))"
proof (rule appends_andthen[OF CreateChildProcess_appends], goal_cases)
  case (1 g1)
  then have g1: "no_io g1" "{CloseHandle (snd (two_handles po)), CloseHandle (fst (two_handles pin))} \<subseteq> set (calls g1)" by auto
  show ?case
    by (intro appends_if appends_bnd_call checked_then appends_fault appends_andthen[OF WriteToPipe_appends]
        appends_mono[OF ReadFromPipe_appends]) (use assms(2) in \<open>auto simp: less_2_cases_iff intro: ranI[OF assms(1) g1]\<close>)
qed auto

lemma Run_appends: "appends (Run fuel argv) (\<lambda>oc g. oc = Halted 1 \<or> oc = Running \<or> (oc = Fault \<and> argv = []) \<or> (oc = Val () \<and> ran g))"
  unfolding Run_def
  by (intro checked_then appends_bnd[OF make_pipes_appends]; (elim disjE exE conjE)?; simp split del: if_split del: One_nat_def)
    (use after_pipes_appends in \<open>simp add: split_beta del: One_nat_def split del: if_split\<close>)

text \<open>A loop that has used up its bound has read something in each round; and the bound is no part of what it does.\<close>

fun chunks_read :: "parentcall history \<Rightarrow> nat" where
  "chunks_read [] = 0"
| "chunks_read ((ReadFile y n, r) # h) = (if rv r \<noteq> 0 \<and> out r \<noteq> 0 then Suc (chunks_read h) else chunks_read h)"
| "chunks_read (_ # h) = chunks_read h"

lemma copy_loop_running: "appends (copy_loop fuel src dst) (\<lambda>oc g. oc = Running \<longrightarrow> chunks_read g = fuel)"
proof (induction fuel)
  case 0
  then show ?case by (auto intro!: appends_intro)
next
  case (Suc fuel)
  show ?case
    unfolding copy_loop.simps
    by (intro appends_intro; (rule appends_mono[OF Suc.IH])?) auto
qed

lemma copy_loop_below: "n \<le> k \<Longrightarrow> below (copy_loop n src dst) (copy_loop k src dst)"
proof (induction n k rule: le_pair_induct)
  case (suc n m)
  show ?case unfolding copy_loop.simps by (intro below_intro suc.IH)
qed simp

lemma parent_main_below: "n \<le> k \<Longrightarrow> below (parent_main n argv) (parent_main k argv)"
  unfolding parent_main_def Run_def WriteToPipe_def ReadFromPipe_def by (intro below_intro copy_loop_below)

section \<open>The parent\<close>

text \<open>
  The parent ends with 0 only when \<open>ran\<close> holds of its calls: it has made the pipes and kept their outer ends from the
  child, closed its copies of the child's ends, given the child the file and closed that pipe before the first read
  of the child's output.  Otherwise it has ended with 1, or had no argument 1 to look at, or its loops have not ended.
\<close>
lemma parent_ran:
  "appends (parent_main fuel argv) (\<lambda>oc g. oc = Halted 1 \<or> oc = Running \<or> (oc = Fault \<and> argv = []) \<or> (oc = Val 0 \<and> ran g))"
  unfolding parent_main_def
  by (rule appends_andthen[OF Run_appends], rule appends_ret) auto

end
