(* ===== verification/OverlappedIo.thy ===== *)
theory OverlappedIo
  imports Effects Fuel
begin

text \<open>
  NonBlockingSockets/main.cpp and NonBlockingSocketsSend/main.cpp: a client that receives with overlapped calls
  until its peer closes the connection, with objects that own its resources, and a server in C that sends
  ten blocks to its one client and gives its resources back by hand.
\<close>

section \<open>System calls\<close>

text \<open>The answer to \<open>getaddrinfo\<close> gives the list and, as \<open>outs\<close>, its entries.\<close>

datatype ovcall =
    WSAStartup
  | WSACleanup
  | WSAGetLastError
  | getaddrinfo string
  | freeaddrinfo HANDLE
  | socket_for HANDLE
  | connect_to HANDLE HANDLE
  | bind_to HANDLE HANDLE
  | listen_on HANDLE
  | accept_on HANDLE
  | shutdown_socket HANDLE
  | closesocket HANDLE
  | WSACreateEvent
  | WSACloseEvent HANDLE
  | WSAResetEvent HANDLE
  | WSARecv HANDLE HANDLE nat
  | WSASend HANDLE HANDLE nat
  | WSAWaitForMultipleEvents HANDLE
  | WSAGetOverlappedResult HANDLE HANDLE

datatype overr = WinSockError DWORD | RuntimeError

type_synonym 'a ovio = "(unit, ovcall, overr, 'a) io"

abbreviation (input) INVALID_SOCKET :: HANDLE where "INVALID_SOCKET \<equiv> InvalidHandleValue"
abbreviation (input) WSAECONNREFUSED :: DWORD where "WSAECONNREFUSED \<equiv> 10061"
abbreviation (input) WSA_IO_PENDING :: DWORD where "WSA_IO_PENDING \<equiv> 997"
abbreviation (input) WSA_WAIT_FAILED :: DWORD where "WSA_WAIT_FAILED \<equiv> 0xFFFFFFFF"
abbreviation (input) SOCKET_ERROR :: int where "SOCKET_ERROR \<equiv> - 1"

definition last_wsa_error :: "'a ovio" where
  "last_wsa_error = bnd (call WSAGetLastError) (\<lambda>e. throw (WinSockError (status_of e)))"

section \<open>The client\<close>

definition Socket_Close :: "HANDLE \<Rightarrow> unit ovio" where
  "Socket_Close handle = whenM (handle \<noteq> INVALID_SOCKET)
     (andthen (do_call (shutdown_socket handle)) (do_call (closesocket handle)))"

definition WsaContext :: "'a ovio \<Rightarrow> 'a ovio" where
  "WsaContext m = bnd (call WSAStartup) (\<lambda>r. if int_of r \<noteq> 0 then throw (WinSockError (status_of r)) else
     finally_do m (do_call WSACleanup))"

definition Overlapped :: "(HANDLE \<Rightarrow> 'a ovio) \<Rightarrow> 'a ovio" where
  "Overlapped m = bnd (call WSACreateEvent) (\<lambda>e. if rv e = 0 then throw RuntimeError else
     finally_do (m (rv e)) (do_call (WSACloseEvent (rv e))))"

text \<open>The first address that can be connected to, unless one fails otherwise than by a refusal.\<close>

fun connect_first :: "HANDLE list \<Rightarrow> HANDLE ovio" where
  "connect_first [] = throw RuntimeError"
| "connect_first (p # ps) = bnd (call (socket_for p)) (\<lambda>s. if rv s = INVALID_SOCKET then last_wsa_error else
     bnd (call (connect_to (rv s) p)) (\<lambda>c. if int_of c = 0 then ret (rv s) else
     bnd (call WSAGetLastError) (\<lambda>e. andthen (Socket_Close (rv s))
       (if status_of e \<noteq> WSAECONNREFUSED then throw (WinSockError (status_of e)) else connect_first ps))))"

fun receive_loop :: "nat \<Rightarrow> HANDLE \<Rightarrow> HANDLE \<Rightarrow> unit ovio" where
  "receive_loop 0 s ev = running"
| "receive_loop (Suc fuel) s ev = bnd (call (WSARecv s ev 4096)) (\<lambda>r.
     andthen (whenM (int_of r = SOCKET_ERROR) (bnd (call WSAGetLastError) (\<lambda>e.
       whenM (status_of e \<noteq> WSA_IO_PENDING) (throw (WinSockError (status_of e))))))
    (bnd (call (WSAWaitForMultipleEvents ev)) (\<lambda>w. if status_of w = WSA_WAIT_FAILED then last_wsa_error else
     bnd (call (WSAGetOverlappedResult s ev)) (\<lambda>o'. if status_of o' = 0 then last_wsa_error else
     andthen (do_call (WSAResetEvent ev))
       (if (ucast (out o') :: DWORD) = 0 then ret () else receive_loop fuel s ev)))))"

definition receiver_main :: "nat \<Rightarrow> string list \<Rightarrow> int ovio" where
  "receiver_main fuel argv = try_catch (if length argv \<noteq> 2 then ret 1 else WsaContext
     (bnd (call (getaddrinfo (argv ! 1))) (\<lambda>r. if int_of r \<noteq> 0 then throw (WinSockError (status_of r)) else
      bnd (finally_do (connect_first (outs r)) (whenM (out r \<noteq> 0) (do_call (freeaddrinfo (out r))))) (\<lambda>s.
      finally_do (Overlapped (\<lambda>ev. andthen (receive_loop fuel s ev) (ret 0))) (Socket_Close s)))))
     (\<lambda>_. ret 1)"

section \<open>The server\<close>

text \<open>The rounds of its loop that are left; a failure ends the loop.\<close>

fun send_loop :: "nat \<Rightarrow> HANDLE \<Rightarrow> HANDLE \<Rightarrow> unit ovio" where
  "send_loop 0 s ev = ret ()"
| "send_loop (Suc n) s ev = bnd (call (WSASend s ev 4096)) (\<lambda>r.
     bnd (if int_of r = SOCKET_ERROR then bnd (call WSAGetLastError) (\<lambda>e. ret (status_of e \<noteq> WSA_IO_PENDING)) else ret False)
    (\<lambda>failed. if failed then ret () else
     bnd (call (WSAWaitForMultipleEvents ev)) (\<lambda>w. if status_of w = WSA_WAIT_FAILED then do_call WSAGetLastError else
     bnd (call (WSAGetOverlappedResult s ev)) (\<lambda>o'. if status_of o' = 0 then do_call WSAGetLastError else
     andthen (do_call (WSAResetEvent ev)) (send_loop n s ev)))))"

definition sender_main :: "int ovio" where
  "sender_main = bnd (call WSAStartup) (\<lambda>st. if int_of st \<noteq> 0 then ret 1 else
     bnd (call (getaddrinfo [])) (\<lambda>r. if int_of r \<noteq> 0 then ret 1 else
     case outs r of [] \<Rightarrow> fault | a # _ \<Rightarrow>
     bnd (call (socket_for a)) (\<lambda>l. if rv l = INVALID_SOCKET
       then andthen (do_call WSAGetLastError) (andthen (do_call (freeaddrinfo (out r))) (ret 1)) else
     bnd (call (bind_to (rv l) a)) (\<lambda>b. if int_of b = SOCKET_ERROR
       then andthen (do_call WSAGetLastError) (andthen (do_call (freeaddrinfo (out r))) (andthen (do_call (closesocket (rv l))) (ret 1))) else
     bnd (call (listen_on (rv l))) (\<lambda>li. if int_of li = SOCKET_ERROR
       then andthen (do_call WSAGetLastError) (andthen (do_call (freeaddrinfo (out r))) (andthen (do_call (closesocket (rv l))) (ret 1))) else
     bnd (call (accept_on (rv l))) (\<lambda>s. if rv s = INVALID_SOCKET
       then andthen (do_call WSAGetLastError) (andthen (do_call (freeaddrinfo (out r))) (andthen (do_call (closesocket (rv l))) (ret 1))) else
     bnd (call WSACreateEvent) (\<lambda>ev. if rv ev = 0
       then andthen (do_call WSAGetLastError) (andthen (do_call (freeaddrinfo (out r)))
         (andthen (do_call (closesocket (rv l))) (andthen (do_call (closesocket (rv s))) (ret 1)))) else
     andthen (send_loop 10 (rv s) (rv ev))
    (andthen (do_call (WSACloseEvent (rv ev)))
    (andthen (do_call (closesocket (rv s)))
    (andthen (do_call (closesocket (rv l)))
    (andthen (do_call (freeaddrinfo (out r)))
    (andthen (do_call WSACleanup) (ret 0)))))))))))))"

section \<open>Resources\<close>

datatype ovresource = Wsa | Addresses HANDLE | SocketHandle HANDLE | EventHandle HANDLE

fun ov_opens :: "ovcall \<Rightarrow> resp \<Rightarrow> ovresource option" where
  "ov_opens WSAStartup r = (if int_of r = 0 then Some Wsa else None)"
| "ov_opens (getaddrinfo a) r = (if int_of r = 0 \<and> out r \<noteq> 0 then Some (Addresses (out r)) else None)"
| "ov_opens (socket_for a) r = (if rv r = INVALID_SOCKET then None else Some (SocketHandle (rv r)))"
| "ov_opens (accept_on a) r = (if rv r = INVALID_SOCKET then None else Some (SocketHandle (rv r)))"
| "ov_opens WSACreateEvent r = (if rv r = 0 then None else Some (EventHandle (rv r)))"
| "ov_opens _ r = None"

fun ov_closes :: "ovcall \<Rightarrow> ovresource option" where
  "ov_closes WSACleanup = Some Wsa"
| "ov_closes (freeaddrinfo x) = (if x = 0 then None else Some (Addresses x))"
| "ov_closes (closesocket x) = Some (SocketHandle x)"
| "ov_closes (WSACloseEvent x) = Some (EventHandle x)"
| "ov_closes _ = None"

interpretation ov: handle_api ov_opens ov_closes
proof unfold_locales
  fix c r x assume "ov_closes c = Some x"
  then show "ov_opens c r = None" by (cases c) (auto split: if_splits)
qed

abbreviation ov_neutral :: "'a ovio \<Rightarrow> bool" where
  "ov_neutral \<equiv> ov.neutral"

lemma ov_neutral_calls [neutral_intro]:
  "ov_neutral (call WSAGetLastError)" "ov_neutral (call (connect_to x y))" "ov_neutral (call (shutdown_socket x))"
  "ov_neutral (call (WSAResetEvent x))" "ov_neutral (call (WSARecv x y n))" "ov_neutral (call (WSASend x y n))"
  "ov_neutral (call (WSAWaitForMultipleEvents x))" "ov_neutral (call (WSAGetOverlappedResult x y))"
  by (rule ov.neutral_call; simp)+

lemma ov_neutral_last [neutral_intro]: "ov_neutral (last_wsa_error :: 'a ovio)"
  unfolding last_wsa_error_def by (intro neutral_intro)

lemma ov_neutral_receive [neutral_intro]: "ov_neutral (receive_loop fuel s ev)"
  by (induction fuel s ev rule: receive_loop.induct) (auto intro!: neutral_intro)

definition socket_held :: "HANDLE \<Rightarrow> ovresource multiset" where
  "socket_held s = (if s = INVALID_SOCKET then {#} else {#SocketHandle s#})"

lemma owns_last: "ov.owns {#} last_wsa_error Q {#}"
  unfolding last_wsa_error_def by (rule ov.owns_bnd[OF ov.owns_call_other ov.owns_throw]) simp_all

lemma owns_Socket_Close: "ov.owns (socket_held s) (Socket_Close s) (\<lambda>_. {#}) {#}"
proof (cases "s = INVALID_SOCKET")
  case False
  have "ov.owns {#SocketHandle s#} (andthen (do_call (shutdown_socket s)) (do_call (closesocket s)) :: unit ovio) (\<lambda>_. {#}) {#}"
    unfolding andthen_def
    by (rule ov.owns_bnd[OF ov.neutral_owns ov.owns_do_close]) (auto intro!: neutral_intro no_throw_intro)
  then show ?thesis using False by (simp add: Socket_Close_def whenM_def socket_held_def)
qed (simp add: Socket_Close_def whenM_def socket_held_def ov.owns_ret[of "\<lambda>_. {#}", simplified])

lemma owns_connect_first: "ov.owns {#} (connect_first ps) socket_held {#}"
proof (induction ps)
  case Nil
  then show ?case by (simp add: ov.owns_throw)
next
  case (Cons p ps)
  have closed: "ov.owns (socket_held s) (andthen (Socket_Close s) (if b then throw e else connect_first ps)) socket_held {#}" for s b e
    unfolding andthen_def by (intro ov.owns_bnd[OF owns_Socket_Close] ov.owns_if ov.owns_throw Cons.IH)
  have rest: "ov.owns (socket_held s) (bnd (call (connect_to s p)) (\<lambda>c. if int_of c = 0 then ret s else
      bnd (call WSAGetLastError) (\<lambda>e. andthen (Socket_Close s)
       (if status_of e \<noteq> WSAECONNREFUSED then throw (WinSockError (status_of e)) else connect_first ps)))) socket_held {#}" for s
    by (intro ov.owns_bnd[OF ov.owns_call_other] ov.owns_if closed) (simp_all add: ov.owns_ret)
  show ?case
    unfolding connect_first.simps
  proof (rule ov.owns_bnd[OF ov.owns_call_open], simp)
    fix r
    have "(case ov_opens (socket_for p) r of None \<Rightarrow> {#} | Some x \<Rightarrow> {#x#}) = socket_held (rv r)" by (simp add: socket_held_def)
    moreover have "socket_held INVALID_SOCKET = {#}" by (simp add: socket_held_def)
    ultimately show "ov.owns (case ov_opens (socket_for p) r of None \<Rightarrow> {#} | Some x \<Rightarrow> {#x#})
      (if rv r = INVALID_SOCKET then last_wsa_error else bnd (call (connect_to (rv r) p)) (\<lambda>c. if int_of c = 0 then ret (rv r) else
      bnd (call WSAGetLastError) (\<lambda>e. andthen (Socket_Close (rv r))
       (if status_of e \<noteq> WSAECONNREFUSED then throw (WinSockError (status_of e)) else connect_first ps)))) socket_held {#}"
      using owns_last[of socket_held] rest[of "rv r"] by simp
  qed
qed

lemma ov_neutral_Overlapped: "(\<And>ev. ov_neutral (m ev)) \<Longrightarrow> ov_neutral (Overlapped m)"
  unfolding Overlapped_def
  by (rule ov.neutral_unique_if[where bad = "\<lambda>e. rv e = 0"]) (auto intro!: neutral_intro ov.owns_do_close)

lemma ov_neutral_Wsa: "ov_neutral m \<Longrightarrow> ov_neutral (WsaContext m)"
  unfolding WsaContext_def
  by (rule ov.neutral_unique_if[where bad = "\<lambda>e. int_of e \<noteq> 0"]) (auto intro!: neutral_intro ov.owns_do_close)

definition session :: "nat \<Rightarrow> resp \<Rightarrow> int ovio" where
  "session fuel r = bnd (finally_do (connect_first (outs r)) (whenM (out r \<noteq> 0) (do_call (freeaddrinfo (out r))))) (\<lambda>s.
      finally_do (Overlapped (\<lambda>ev. andthen (receive_loop fuel s ev) (ret 0))) (Socket_Close s))"

lemma owns_with_socket: "ov_neutral m \<Longrightarrow> ov.owns (socket_held s) (finally_do m (Socket_Close s)) (\<lambda>_. {#}) {#}"
  by (rule ov.owns_finally[where R = "socket_held s", OF _ owns_Socket_Close])
    (use ov.owns_frame[of "{#}" m "\<lambda>_. {#}" "{#}" "socket_held s"] in \<open>simp add: ov.neutral_def\<close>)

lemma owns_session:
  assumes "int_of r = 0"
  shows "ov.owns (case ov_opens (getaddrinfo a) r of None \<Rightarrow> {#} | Some x \<Rightarrow> {#x#}) (session fuel r) (\<lambda>_. {#}) {#}"
proof -
  let ?F = "case ov_opens (getaddrinfo a) r of None \<Rightarrow> {#} | Some x \<Rightarrow> {#x#}"
  have k: "ov.owns ?F (whenM (out r \<noteq> 0) (do_call (freeaddrinfo (out r))) :: unit ovio) (\<lambda>_. {#}) {#}"
    by (rule ov.owns_deleter[where hh = "Addresses (out r)"]) (use assms in simp_all)
  show ?thesis
    unfolding session_def
    by (rule ov.owns_bnd[OF ov.owns_finally[OF _ k] owns_with_socket])
      (use ov.owns_frame[OF owns_connect_first, of ?F] in
        \<open>auto simp: ac_simps intro!: ov_neutral_Overlapped neutral_intro\<close>)
qed

lemma neutral_receiver: "ov_neutral (receiver_main fuel argv)"
proof -
  have "ov_neutral (bnd (call (getaddrinfo a)) (\<lambda>r. if int_of r \<noteq> 0 then throw (WinSockError (status_of r)) else session fuel r))" for a
    unfolding ov.neutral_def
    by (rule ov.owns_bnd[OF ov.owns_call_open]) (use owns_session[of _ a] in \<open>auto simp: ov.owns_throw\<close>)
  then show ?thesis
    unfolding receiver_main_def session_def
    by (intro ov.neutral_try_catch ov.neutral_if ov.neutral_ret ov_neutral_Wsa)
qed

section \<open>What the client receives\<close>

text \<open>The lengths of the receives that were completed.\<close>

fun received :: "ovcall history \<Rightarrow> nat list" where
  "received [] = []"
| "received ((WSAGetOverlappedResult s ev, r) # h) =
     (if status_of r = 0 then received h else unat (ucast (out r) :: DWORD) # received h)"
| "received (_ # h) = received h"

lemma completed_append [simp]: "received (g @ h) = received g @ received h"
  by (induction g rule: received.induct) simp_all

definition receive_post :: "nat \<Rightarrow> (overr, unit) outcome \<Rightarrow> ovcall history \<Rightarrow> bool" where
  "receive_post n oc g \<longleftrightarrow> (case oc of Val u \<Rightarrow> \<exists>ns. received g = ns @ [0] \<and> 0 \<notin> set ns \<and> length ns < n
     | Running \<Rightarrow> length (received g) = n \<and> 0 \<notin> set (received g) | Exn e \<Rightarrow> 0 \<notin> set (received g) | _ \<Rightarrow> False)"

lemma receive_loop_appends: "appends (receive_loop fuel s ev) (receive_post fuel)"
proof (induction fuel)
  case 0
  show ?case by (auto intro!: appends_intro simp: receive_post_def)
next
  case (Suc fuel)
  show ?case
    unfolding receive_loop.simps last_wsa_error_def
  proof (rule appends_bnd_call, rule appends_andthen[where R = "\<lambda>oc g. received g = [] \<and> (oc = Val () \<or> (\<exists>e. oc = Exn e))"], goal_cases)
    case (1 r)
    then show ?case by (intro appends_intro) auto
  next
    case (2 r g)
    show ?case
      by (intro appends_intro; (rule appends_mono[OF Suc.IH])?)
        (use 2 in \<open>auto simp: receive_post_def unat_eq_0 split: outcome.splits intro: exI[of _ "_ # _"]\<close>)
  qed (auto simp: receive_post_def)
qed

section \<open>What the server leaves\<close>

lemma send_loop_appends:
  "appends (send_loop n s ev) (\<lambda>oc g. oc = Val () \<and> ov.several.balanced g \<and> length (received g) \<le> n)"
proof (induction n)
  case 0
  show ?case by (auto intro!: appends_intro)
next
  case (Suc n)
  have pending: "appends (if b then bnd (call WSAGetLastError) (\<lambda>e. ret (status_of e \<noteq> WSA_IO_PENDING)) else ret False)
    (\<lambda>oc g. (\<exists>a. oc = Val a) \<and> ov.several.balanced g \<and> received g = [])" for b
    by (intro appends_intro) (auto simp: ov.several.balanced_other)
  show ?case
    unfolding send_loop.simps
  proof (rule appends_bnd_call, rule appends_bnd[OF pending], goal_cases)
    case (1 r failed g)
    show ?case
      by (intro appends_intro; (rule appends_mono[OF Suc.IH])?)
        (use 1 in \<open>auto simp: ov.several.balanced_other ov.several.balanced_both\<close>)
  qed auto
qed

text \<open>
  When the server returns 0 it has given everything back; when it returns 1 the library stays started, unless it
  could not be.
\<close>

definition sender_post :: "(overr, int) outcome \<Rightarrow> ovcall history \<Rightarrow> bool" where
  "sender_post oc g \<longleftrightarrow> oc = Fault \<or> (oc = Val 0 \<and> ov.several.balanced g) \<or>
     (oc = Val 1 \<and> (\<exists>st g'. g = (WSAStartup, st) # g' \<and>
       (\<forall>L. ov.several.held L g = Some (L + (if int_of st = 0 then {#Wsa#} else {#})))))"

lemma sending_ends:
  assumes "int_of st = 0" "int_of r = 0" "rv l \<noteq> INVALID_SOCKET" "rv s \<noteq> INVALID_SOCKET" "rv ev \<noteq> 0"
    and "ov.several.balanced g"
  shows "ov.several.balanced ((WSAStartup, st) # (getaddrinfo [], r) # (socket_for a, l) # (bind_to (rv l) a, b) #
    (listen_on (rv l), li) # (accept_on (rv l), s) # (WSACreateEvent, ev) # g @ [(WSACloseEvent (rv ev), c1), (closesocket (rv s), c2),
    (closesocket (rv l), c3), (freeaddrinfo (out r), c4), (WSACleanup, c5)])"
  using assms by (simp add: ov.several.balanced_def ov.several.held_append)

lemma sender_main_appends: "appends sender_main sender_post"
  unfolding sender_main_def
  by (intro appends_intro appends_andthen[OF send_loop_appends]; (elim conjE)?)
    (auto simp: sender_post_def sending_ends ov.several.held.simps)

text \<open>However the client ends, by itself or by an error, its objects have given everything back.\<close>

lemma receiver_released:
  assumes "receiver_main fuel argv os s [] = (Val n, s', h)"
  shows "ov.live h = Some {#}"
  using ov.neutral_post[OF neutral_receiver assms] by simp

text \<open>The bound on the receives is no part of what the client does.\<close>

lemma receive_loop_below: "n \<le> k \<Longrightarrow> below (receive_loop n s ev) (receive_loop k s ev)"
proof (induction n k rule: le_pair_induct)
  case (suc n m)
  show ?case unfolding receive_loop.simps by (intro below_intro suc.IH)
qed simp

lemma receiver_main_below: "n \<le> k \<Longrightarrow> below (receiver_main n argv) (receiver_main k argv)"
  unfolding receiver_main_def WsaContext_def Overlapped_def by (intro below_intro receive_loop_below)

end
