(* ===== verification/ComClients.thy ===== *)
theory ComClients
  imports Effects Fuel
begin

text \<open>
  Four clients of COM interfaces that count their references by hand: TimeTriggerExample registers a task with
  the task scheduler, DisplayingTaskNamesAndStatesExample and TaskSchedulerDisplayTaskNames list its tasks, and
  WMI lists what a query gives.  What is printed is left out.
\<close>

section \<open>Calls of interfaces\<close>

text \<open>Methods that hand out nothing, and those that hand out an interface, with the arguments that matter.\<close>

datatype com_method =
    Connect | DeleteTask | put_Author | put_LogonType | put_StartWhenAvailable | put_WaitTimeout
  | put_Id | put_EndBoundary | put_StartBoundary | put_Path "16 word list"
  | get_Count | get_State | get_StartWhenAvailable | get_Type | get_DaysInterval | SetProxyBlanket

datatype com_getter =
    GetFolder | NewTask | get_RegistrationInfo | get_Principal | get_Settings | get_IdleSettings | get_Triggers
  | CreateTrigger | get_Actions | CreateAction | QueryInterface | RegisterTaskDefinition HANDLE
  | GetTasks | get_Item nat | get_Definition | ConnectServer | ExecQuery

datatype comcall =
    CoInitializeEx
  | CoInitializeSecurity
  | CoUninitialize
  | CoCreateInstance
  | Method com_method HANDLE
  | Obtain com_getter HANDLE
  | Release HANDLE
  | wdupenv
  | free HANDLE
  | get_Name HANDLE
  | SysFreeString HANDLE
  | Next HANDLE
  | Get_Name_property HANDLE
  | VariantClear HANDLE

type_synonym 'a cio = "(unit, comcall, unit, 'a) io"

text \<open>A call through a null pointer faults; the variable of an interface that was not handed out stays null.\<close>

definition through :: "HANDLE \<Rightarrow> comcall \<Rightarrow> resp cio" where
  "through p c = (if p = 0 then fault else call c)"

definition release :: "HANDLE \<Rightarrow> unit cio" where
  "release p = (if p = 0 then fault else do_call (Release p))"

definition failed :: "resp \<Rightarrow> bool" where
  "failed r = FAILED (status_of r)"

definition given :: "resp \<Rightarrow> HANDLE" where
  "given r = (if failed r then 0 else out r)"

text \<open>The return after a failure: the interfaces that are still held, the library, and 1.\<close>

fun give_up :: "HANDLE list \<Rightarrow> int cio" where
  "give_up [] = andthen (do_call CoUninitialize) (ret 1)"
| "give_up (p # ps) = andthen (release p) (give_up ps)"

section \<open>TimeTriggerExample\<close>

text \<open>A call whose failure ends the program, also when an interface is released before the failure is looked at.\<close>

definition required :: "HANDLE list \<Rightarrow> comcall \<Rightarrow> HANDLE \<Rightarrow> (HANDLE \<Rightarrow> int cio) \<Rightarrow> int cio" where
  "required held c p k = bnd (through p c) (\<lambda>r. if failed r then give_up held else k (given r))"

definition required_last :: "HANDLE list \<Rightarrow> comcall \<Rightarrow> HANDLE \<Rightarrow> (HANDLE \<Rightarrow> int cio) \<Rightarrow> int cio" where
  "required_last held c p k = bnd (through p c) (\<lambda>r. andthen (release p) (if failed r then give_up held else k (given r)))"

definition register_task :: "HANDLE \<Rightarrow> HANDLE \<Rightarrow> int cio" where
  "register_task root task =
     required [root, task] (Obtain (RegisterTaskDefinition task) root) root (\<lambda>registered.
       andthen (release root) (andthen (release task) (andthen (release registered)
         (andthen (do_call CoUninitialize) (ret 0)))))"

definition add_action :: "wstring \<Rightarrow> HANDLE \<Rightarrow> HANDLE \<Rightarrow> int cio" where
  "add_action path root task =
     required [root, task] (Obtain get_Actions task) task (\<lambda>actions.
     required_last [root, task] (Obtain CreateAction actions) actions (\<lambda>action.
     required_last [root, task] (Obtain QueryInterface action) action (\<lambda>exec.
     required_last [root, task] (Method (put_Path path) exec) exec (\<lambda>_. register_task root task))))"

definition add_trigger :: "wstring \<Rightarrow> HANDLE \<Rightarrow> HANDLE \<Rightarrow> int cio" where
  "add_trigger path root task =
     required [root, task] (Obtain get_Triggers task) task (\<lambda>triggers.
     required_last [root, task] (Obtain CreateTrigger triggers) triggers (\<lambda>trigger.
     required_last [root, task] (Obtain QueryInterface trigger) trigger (\<lambda>time.
     bnd (through time (Method put_Id time)) (\<lambda>_.
     bnd (through time (Method put_EndBoundary time)) (\<lambda>_.
     required_last [root, task] (Method put_StartBoundary time) time (\<lambda>_. add_action path root task))))))"

definition describe_task :: "wstring \<Rightarrow> HANDLE \<Rightarrow> HANDLE \<Rightarrow> int cio" where
  "describe_task path root task =
     required [root, task] (Obtain get_RegistrationInfo task) task (\<lambda>info.
     required_last [root, task] (Method put_Author info) info (\<lambda>_.
     required [root, task] (Obtain get_Principal task) task (\<lambda>principal.
     required_last [root, task] (Method put_LogonType principal) principal (\<lambda>_.
     required [root, task] (Obtain get_Settings task) task (\<lambda>settings.
     required [root, task] (Method put_StartWhenAvailable settings) settings (\<lambda>_.
     required_last [root, task] (Obtain get_IdleSettings settings) settings (\<lambda>idle.
     required_last [root, task] (Method put_WaitTimeout idle) idle (\<lambda>_. add_trigger path root task))))))))"

definition notepad_path :: wstring where
  "notepad_path = wstr (CHR 0x5C # ''SYSTEM32'' @ CHR 0x5C # ''NOTEPAD.EXE'')"

definition env_missing :: "resp \<Rightarrow> bool" where
  "env_missing r \<longleftrightarrow> status_of r \<noteq> 0 \<or> out r = 0"

definition time_trigger_main :: "int cio" where
  "time_trigger_main = bnd (call CoInitializeEx) (\<lambda>i. if failed i then ret 1 else
     bnd (call CoInitializeSecurity) (\<lambda>s. if failed s then give_up [] else
     bnd (call wdupenv) (\<lambda>e. if env_missing e then ret (- 1) else
     andthen (do_call (free (out e)))
    (bnd (call CoCreateInstance) (\<lambda>c. if failed c then give_up [] else
     required [given c] (Method Connect (given c)) (given c) (\<lambda>_.
     required [given c] (Obtain GetFolder (given c)) (given c) (\<lambda>root.
     bnd (through root (Method DeleteTask root)) (\<lambda>_.
     required_last [root] (Obtain NewTask (given c)) (given c) (\<lambda>task.
       describe_task (cstr (wide_of (buf e)) @ notepad_path) root task)))))))))"

section \<open>The lists of tasks\<close>

text \<open>The common beginning: the tasks of the root folder and their number.\<close>

definition with_tasks :: "(HANDLE \<Rightarrow> nat \<Rightarrow> unit cio) \<Rightarrow> int cio" where
  "with_tasks show = bnd (call CoInitializeEx) (\<lambda>i. if failed i then ret 1 else
     bnd (call CoInitializeSecurity) (\<lambda>s. if failed s then give_up [] else
     bnd (call CoCreateInstance) (\<lambda>c. if failed c then give_up [] else
     required [given c] (Method Connect (given c)) (given c) (\<lambda>_.
     required_last [] (Obtain GetFolder (given c)) (given c) (\<lambda>root.
     required_last [] (Obtain GetTasks root) root (\<lambda>tasks.
     bnd (through tasks (Method get_Count tasks)) (\<lambda>n. if (ucast (given n) :: LONG) = 0 then give_up [tasks] else
     andthen (show tasks (nat (sint (ucast (given n) :: LONG))))
    (andthen (release tasks) (andthen (do_call CoUninitialize) (ret 0))))))))))"

definition show_name :: "HANDLE \<Rightarrow> unit cio" where
  "show_name task = bnd (through task (get_Name task)) (\<lambda>m.
     andthen (whenM (\<not> failed m) (andthen (do_call (SysFreeString (out m)))
       (bnd (through task (Method get_State task)) (\<lambda>_. ret ())))) (release task))"

text \<open>The items that are left, and the number of those shown.\<close>

fun show_names :: "HANDLE \<Rightarrow> nat \<Rightarrow> nat \<Rightarrow> unit cio" where
  "show_names tasks i 0 = ret ()"
| "show_names tasks i (Suc n) = bnd (through tasks (Obtain (get_Item (i + 1)) tasks)) (\<lambda>r.
     andthen (whenM (\<not> failed r) (show_name (given r))) (show_names tasks (i + 1) n))"

definition display_names_main :: "int cio" where
  "display_names_main = with_tasks (\<lambda>tasks. show_names tasks 0)"

text \<open>A \<open>ComPtr\<close> that a call fills, and its scope.\<close>

definition with_ptr :: "HANDLE \<Rightarrow> comcall \<Rightarrow> (HANDLE \<Rightarrow> unit cio) \<Rightarrow> unit cio" where
  "with_ptr p c m = bnd (through p c) (\<lambda>r. finally_do (m (given r)) (whenM (given r \<noteq> 0) (do_call (Release (given r)))))"

abbreviation (input) TASK_TRIGGER_DAILY :: DWORD where "TASK_TRIGGER_DAILY \<equiv> 2"

fun show_triggers :: "HANDLE \<Rightarrow> nat \<Rightarrow> nat \<Rightarrow> unit cio" where
  "show_triggers triggers i 0 = ret ()"
| "show_triggers triggers i (Suc n) = andthen (with_ptr triggers (Obtain (get_Item i) triggers) (\<lambda>trigger.
     bnd (through trigger (Method get_Type trigger)) (\<lambda>t. if failed t then fault else
       whenM ((ucast (out t) :: DWORD) = TASK_TRIGGER_DAILY) (bnd (through trigger (Method get_DaysInterval trigger)) (\<lambda>_. ret ())))))
     (show_triggers triggers (i + 1) n)"

definition show_settings :: "HANDLE \<Rightarrow> unit cio \<Rightarrow> unit cio" where
  "show_settings task m = with_ptr task (Obtain get_Definition task) (\<lambda>definition.
     with_ptr definition (Obtain get_Settings definition) (\<lambda>settings.
     bnd (through settings (Method get_StartWhenAvailable settings)) (\<lambda>s. if failed s then fault else
     with_ptr definition (Obtain get_Triggers definition) (\<lambda>triggers.
     bnd (through triggers (Method get_Count triggers)) (\<lambda>n.
     andthen (show_triggers triggers 1 (nat (sint (ucast (given n) :: LONG)))) m)))))"

fun show_states :: "HANDLE \<Rightarrow> nat \<Rightarrow> nat \<Rightarrow> unit cio" where
  "show_states tasks i 0 = ret ()"
| "show_states tasks i (Suc n) = bnd (through tasks (Obtain (get_Item (i + 1)) tasks)) (\<lambda>r.
     andthen (show_settings (given r) (whenM (\<not> failed r) (show_name (given r)))) (show_states tasks (i + 1) n))"

definition display_states_main :: "int cio" where
  "display_states_main = with_tasks (\<lambda>tasks. show_states tasks 0)"

section \<open>WMI\<close>

definition returned :: "resp \<Rightarrow> 64 word" where
  "returned r = (case outs r of [] \<Rightarrow> 0 | n # _ \<Rightarrow> n)"

text \<open>A property that is not there leaves a string that cannot be printed.\<close>

fun show_objects :: "nat \<Rightarrow> HANDLE \<Rightarrow> unit cio" where
  "show_objects 0 e = running"
| "show_objects (Suc fuel) e = bnd (call (Next e)) (\<lambda>n. if returned n = 0 then ret () else
     bnd (through (out n) (Get_Name_property (out n))) (\<lambda>v. if given v = 0 then fault else
     andthen (do_call (VariantClear (given v))) (andthen (release (out n)) (show_objects fuel e))))"

definition wmi_Run :: "nat \<Rightarrow> int cio" where
  "wmi_Run fuel = bnd (call CoInitializeEx) (\<lambda>i. if failed i then ret 1 else
     bnd (call CoInitializeSecurity) (\<lambda>s. if failed s then give_up [] else
     bnd (call CoCreateInstance) (\<lambda>c. if failed c then give_up [] else
     required [given c] (Obtain ConnectServer (given c)) (given c) (\<lambda>svc.
     bnd (call (Method SetProxyBlanket svc)) (\<lambda>b. if failed b then give_up [svc, given c] else
     required [svc, given c] (Obtain ExecQuery svc) svc (\<lambda>e.
     andthen (whenM (e \<noteq> 0) (show_objects fuel e))
    (andthen (release svc) (andthen (release (given c)) (andthen (release e)
    (andthen (do_call CoUninitialize) (ret 0)))))))))))"

section \<open>What the programs give back\<close>

datatype com_resource = Library | Interface HANDLE | Text HANDLE

definition interfaces :: "HANDLE multiset \<Rightarrow> com_resource multiset" where
  "interfaces A = image_mset Interface (filter_mset (\<lambda>x. x \<noteq> 0) A)"

lemma interfaces_simps [simp]:
  "interfaces {#} = {#}" "interfaces (A + B) = interfaces A + interfaces B"
  "interfaces (add_mset x A) = (if x = 0 then interfaces A else add_mset (Interface x) (interfaces A))"
  by (simp_all add: interfaces_def)

fun com_hands_out :: "comcall \<Rightarrow> resp \<Rightarrow> com_resource multiset" where
  "com_hands_out CoInitializeEx r = (if failed r then {#} else {#Library#})"
| "com_hands_out CoCreateInstance r = interfaces {#given r#}"
| "com_hands_out (Obtain g p) r = interfaces {#given r#}"
| "com_hands_out (Next p) r = (if returned r = 0 then {#} else interfaces {#out r#})"
| "com_hands_out wdupenv r = (if env_missing r then {#} else {#Text (out r)#})"
| "com_hands_out (get_Name p) r = (if failed r then {#} else {#Text (out r)#})"
| "com_hands_out (Get_Name_property p) r = (if given r = 0 then {#} else {#Text (given r)#})"
| "com_hands_out _ r = {#}"

fun com_gives_back :: "comcall \<Rightarrow> com_resource option" where
  "com_gives_back CoUninitialize = Some Library"
| "com_gives_back (Release p) = Some (Interface p)"
| "com_gives_back (free x) = Some (Text x)"
| "com_gives_back (SysFreeString x) = Some (Text x)"
| "com_gives_back (VariantClear x) = Some (Text x)"
| "com_gives_back _ = None"

interpretation com: handles_api com_hands_out com_gives_back
proof unfold_locales
  fix c r x assume "com_gives_back c = Some x"
  then show "com_hands_out c r = {#}" by (cases c) auto
qed

text \<open>What is left by two calls: the settings when they refuse a value, and the library when the variable is missing.\<close>

fun left_by :: "comcall \<Rightarrow> resp \<Rightarrow> com_resource multiset" where
  "left_by (Method put_StartWhenAvailable p) r = (if failed r then {#Interface p#} else {#})"
| "left_by wdupenv r = (if env_missing r then {#Library#} else {#})"
| "left_by _ r = {#}"

fun left :: "comcall history \<Rightarrow> com_resource multiset" where
  "left [] = {#}"
| "left ((c, r) # h) = left_by c r + left h"

lemma left_by_method [simp]: "m \<noteq> put_StartWhenAvailable \<Longrightarrow> left_by (Method m p) r = {#}"
  by (cases m) simp_all

lemma left_append [simp]: "left (g @ h) = left g + left h"
  by (induction g rule: left.induct) (simp_all add: ac_simps)

text \<open>\<open>ends A m\<close>: with the library and the interfaces \<open>A\<close> in hand, \<open>m\<close> leaves what \<open>left\<close> says, if it ends.\<close>

definition stops :: "(unit, 'a) outcome \<Rightarrow> bool" where
  "stops oc \<longleftrightarrow> oc = Fault \<or> oc = Running"

definition ends :: "HANDLE multiset \<Rightarrow> int cio \<Rightarrow> bool" where
  "ends A m \<longleftrightarrow> appends m (\<lambda>oc g. stops oc \<or> (\<exists>n. oc = Val n) \<and>
     (\<forall>L. com.held (L + add_mset Library (interfaces A)) g = Some (L + left g)))"

named_theorems ends_intro \<open>rules for programs that hold interfaces\<close>

lemma stops_simps [simp]: "stops Fault" "stops Running" "\<not> stops (Val a)" "\<not> stops (Exn e)" "\<not> stops (Halted n)"
  by (simp_all add: stops_def)

lemma appends_through: "(p = 0 \<Longrightarrow> Q Fault []) \<Longrightarrow> (\<And>r. p \<noteq> 0 \<Longrightarrow> appends (f r) (\<lambda>oc g. Q oc ((c, r) # g))) \<Longrightarrow> appends (bnd (through p c) f) Q"
  by (cases "p = 0") (simp_all add: through_def bnd_fault appends_fault appends_bnd_call)

lemma appends_release: "(p = 0 \<Longrightarrow> Q Fault []) \<Longrightarrow> (\<And>r. p \<noteq> 0 \<Longrightarrow> appends k (\<lambda>oc g. Q oc ((Release p, r) # g))) \<Longrightarrow> appends (andthen (release p) k) Q"
  by (cases "p = 0") (simp_all add: release_def andthen_def bnd_fault appends_fault appends_andthen_call[unfolded andthen_def])

lemma given_failed: "failed r \<Longrightarrow> given r = 0"
  by (simp add: given_def)

text \<open>After a call that gives nothing back.\<close>

lemma held_after:
  assumes "ends A m" "com_gives_back c = None"
    and "add_mset Library (interfaces B) + com_hands_out c r = add_mset Library (interfaces A) + left_by c r"
  shows "appends m (\<lambda>oc g. stops oc \<or> (\<exists>n. oc = Val n) \<and>
     (\<forall>L. com.held (L + add_mset Library (interfaces B)) ((c, r) # g) = Some (L + left ((c, r) # g))))"
proof (rule appends_mono[OF assms(1)[unfolded ends_def]], elim disjE conjE exE; simp add: assms(2))
  fix g assume h: "\<forall>L. com.held (add_mset Library (L + interfaces A)) g = Some (L + left g)"
  have e: "interfaces B + com_hands_out c r = interfaces A + left_by c r" using assms(3) by simp
  show "\<forall>L. com.held (add_mset Library (L + interfaces B + com_hands_out c r)) g = Some (L + (left_by c r + left g))"
  proof
    fix L
    have "L + interfaces B + com_hands_out c r = (L + left_by c r) + interfaces A" by (simp add: add.assoc e ac_simps)
    then show "com.held (add_mset Library (L + interfaces B + com_hands_out c r)) g = Some (L + (left_by c r + left g))"
      using spec[OF h, of "L + left_by c r"] by (simp add: ac_simps)
  qed
qed

lemma ends_null [simp]: "ends (add_mset 0 A) m = ends A m"
  by (simp add: ends_def)

lemma ends_give_up: "A = mset ps \<Longrightarrow> ends A (give_up ps)"
proof (induction ps arbitrary: A)
  case Nil
  then show ?case unfolding ends_def give_up.simps by (intro appends_intro) simp
next
  case (Cons p ps)
  show ?case
    unfolding ends_def give_up.simps
    by (rule appends_release) (use Cons.IH[OF refl] Cons.prems in \<open>auto simp: ends_def elim!: appends_mono\<close>)
qed

lemma ends_required:
  assumes "com_gives_back c = None" "\<And>r. ends (if failed r then mset held else B r) (if failed r then give_up held else k (given r))"
    and "\<And>r. p \<noteq> 0 \<Longrightarrow> interfaces A + com_hands_out c r = interfaces (if failed r then mset held else B r) + left_by c r"
  shows "ends A (required held c p k)"
  unfolding required_def ends_def
  by (rule appends_through, simp, rule held_after[OF assms(2,1)]) (use assms(3) in simp)

lemma ends_required_obtain [ends_intro]:
  assumes "A = mset held" "\<And>x. ends (add_mset x A) (k x)"
  shows "ends A (required held (Obtain g p) p k)"
  by (rule ends_required[where B = "\<lambda>r. add_mset (given r) A"])
    (use assms ends_give_up[of A held] in \<open>simp_all add: given_failed\<close>)

lemma ends_required_method [ends_intro]:
  assumes "A = mset held" "m \<noteq> put_StartWhenAvailable" "\<And>x. ends A (k x)"
  shows "ends A (required held (Method m p) p k)"
  by (rule ends_required[where B = "\<lambda>r. A"])
    (use assms ends_give_up[of A held] in simp_all)

lemma ends_required_put [ends_intro]:
  assumes "A = add_mset p (mset held)" "\<And>x. ends A (k x)"
  shows "ends A (required held (Method put_StartWhenAvailable p) p k)"
  by (rule ends_required[where B = "\<lambda>r. A"])
    (use assms ends_give_up[of "mset held" held] in simp_all)

text \<open>A release, and a call followed by one.\<close>

lemma ends_release: "ends B m \<Longrightarrow> ends (add_mset p B) (andthen (release p) m)"
  unfolding ends_def by (rule appends_release) (auto elim!: appends_mono)

lemma ends_close: "A = mset ps \<Longrightarrow> ends A (foldr (\<lambda>p. andthen (release p)) ps (andthen (do_call CoUninitialize) (ret n)))"
proof (induction ps arbitrary: A)
  case Nil
  then show ?case unfolding ends_def by (simp, intro appends_intro) simp
next
  case (Cons p ps)
  then show ?case by (simp add: ends_release)
qed

lemma ends_required_last:
  assumes "com_gives_back c = None" "\<And>r. left_by c r = {#}" "\<And>r. com_hands_out c r = interfaces {#x r#}"
    and "A = add_mset p (mset held)" "\<And>r. failed r \<Longrightarrow> x r = 0" "\<And>r. ends (add_mset (x r) (mset held)) (k (given r))"
  shows "ends A (required_last held c p k)"
proof -
  have h: "ends (add_mset (x r) A) (andthen (release p) (if failed r then give_up held else k (given r)))" for r
    using ends_release[of "add_mset (x r) (mset held)" "if failed r then give_up held else k (given r)" p] assms(4-6)
      ends_give_up[of "mset held" held] by (simp add: add_mset_commute)
  show ?thesis
    unfolding required_last_def ends_def[of A]
    by (rule appends_through, simp, rule held_after[OF h assms(1)]) (simp add: assms(2,3) ac_simps)
qed

lemma ends_required_last_obtain [ends_intro]:
  assumes "A = add_mset p (mset held)" "\<And>x. ends (add_mset x (mset held)) (k x)"
  shows "ends A (required_last held (Obtain g p) p k)"
  by (rule ends_required_last[where x = given]) (use assms in \<open>simp_all add: given_failed\<close>)

lemma ends_required_last_method [ends_intro]:
  assumes "A = add_mset p (mset held)" "m \<noteq> put_StartWhenAvailable" "\<And>x. ends (mset held) (k x)"
  shows "ends A (required_last held (Method m p) p k)"
  by (rule ends_required_last[where x = "\<lambda>_. 0"]) (use assms in simp_all)

lemma ends_register: "ends {#root, task#} (register_task root task)"
  unfolding register_task_def
proof (rule ends_required_obtain)
  fix x
  show "ends (add_mset x {#root, task#}) (andthen (release root) (andthen (release task) (andthen (release x)
      (andthen (do_call CoUninitialize) (ret 0)))))"
    using ends_close[of "add_mset x {#root, task#}" "[root, task, x]" 0] by (simp add: add_mset_commute)
qed simp

lemma ends_method: "m \<noteq> put_StartWhenAvailable \<Longrightarrow> (\<And>r. ends A (f r)) \<Longrightarrow> ends A (bnd (through p (Method m p)) f)"
  unfolding ends_def[of A "bnd _ _"] by (rule appends_through, simp, rule held_after) simp_all

lemma ends_add_action: "ends {#root, task#} (add_action path root task)"
  unfolding add_action_def by (intro ends_intro) (simp_all add: ends_register)

lemma ends_add_trigger: "ends {#root, task#} (add_trigger path root task)"
  unfolding add_trigger_def by (intro ends_intro ends_method) (simp_all add: ends_add_action)

lemma ends_describe: "ends {#root, task#} (describe_task path root task)"
  unfolding describe_task_def by (intro ends_intro) (simp_all add: ends_add_trigger)

lemma ends_describe_swapped: "ends {#task, root#} (describe_task path root task)"
  by (metis ends_describe add_mset_commute)

text \<open>The beginning, which all four programs have.\<close>

lemma ends_initialized:
  assumes "\<And>r. \<not> failed r \<Longrightarrow> ends {#} (m r)"
  shows "appends (bnd (call CoInitializeEx) (\<lambda>i. if failed i then ret 1 else m i))
    (\<lambda>oc g. stops oc \<or> (\<exists>n. oc = Val n) \<and> (\<forall>L. com.held L g = Some (L + left g)))"
proof (rule appends_bnd_call, rule appends_if, goal_cases)
  case (2 r)
  then show ?case using assms[of r] by (auto simp: ends_def elim!: appends_mono)
qed (auto intro!: appends_ret)

lemma ends_call:
  assumes "\<And>r. ends (B r) (f r)" "com_gives_back c = None" "\<And>r. interfaces A + com_hands_out c r = interfaces (B r) + left_by c r"
  shows "ends A (bnd (call c) f)"
  unfolding ends_def[of A] by (rule appends_bnd_call, rule held_after[OF assms(1,2)]) (use assms(3) in simp)

lemma ends_secured [ends_intro]:
  assumes "\<And>r. ends {#} (m r)"
  shows "ends {#} (bnd (call CoInitializeSecurity) (\<lambda>s. if failed s then give_up [] else m s))"
  by (rule ends_call[where B = "\<lambda>_. {#}"]) (use assms ends_give_up[of "{#}" "[]"] in simp_all)

lemma ends_created [ends_intro]:
  assumes "\<And>r. ends {#given r#} (m r)"
  shows "ends {#} (bnd (call CoCreateInstance) (\<lambda>c. if failed c then give_up [] else m c))"
  by (rule ends_call[where B = "\<lambda>r. {#given r#}"]) (use assms ends_give_up[of "{#}" "[]"] in \<open>simp_all add: given_failed\<close>)

lemma ends_environment:
  assumes "\<And>r. ends {#} (m r)"
  shows "ends {#} (bnd (call wdupenv) (\<lambda>e. if env_missing e then ret (- 1) else andthen (do_call (free (out e))) (m e)))"
  unfolding ends_def
proof (intro appends_bnd_call appends_if appends_andthen_call, goal_cases)
  case (2 r f)
  from assms[of r] show ?case unfolding ends_def by (rule appends_mono) (use 2 in auto)
qed (auto intro!: appends_ret)

lemma ends_time_trigger:
  "appends time_trigger_main (\<lambda>oc g. stops oc \<or> (\<exists>n. oc = Val n) \<and> (\<forall>L. com.held L g = Some (L + left g)))"
  unfolding time_trigger_main_def
  by (rule ends_initialized, intro ends_intro ends_environment ends_method)
    (simp_all add: ends_describe_swapped)

section \<open>What the lists give back\<close>

definition takes :: "HANDLE multiset \<Rightarrow> unit cio \<Rightarrow> bool" where
  "takes A m \<longleftrightarrow> appends m (\<lambda>oc g. stops oc \<or> oc = Val () \<and> left g = {#} \<and> (\<forall>L. com.held (L + interfaces A) g = Some L))"

lemma takes_andthen: "takes A m \<Longrightarrow> takes {#} k \<Longrightarrow> takes A (andthen m k)"
  unfolding takes_def
  by (erule appends_andthen; simp?; rule appends_mono; auto simp: com.held_append)

lemma ends_andthen:
  assumes "takes {#} m" "ends A k"
  shows "ends A (andthen m k)"
  unfolding ends_def
  by (rule appends_andthen[OF assms(1)[unfolded takes_def]]; simp?; rule appends_mono[OF assms(2)[unfolded ends_def]];
      auto simp: com.held_append)

lemma appends_andthen_bnd: "appends (bnd m (\<lambda>a. andthen (f a) k)) Q \<Longrightarrow> appends (andthen (bnd m f) k) Q"
  by (simp add: andthen_def bnd_bnd)

lemma appends_andthen_ret: "appends k Q \<Longrightarrow> appends (andthen (ret a) k) Q"
  by (simp add: andthen_def bnd_ret)

lemma appends_release_last: "(p = 0 \<Longrightarrow> Q Fault []) \<Longrightarrow> (\<And>r. p \<noteq> 0 \<Longrightarrow> Q (Val ()) [(Release p, r)]) \<Longrightarrow> appends (release p) Q"
  by (cases "p = 0") (simp_all add: release_def appends_fault appends_do_call)

lemmas appends_through_intro = appends_intro appends_through appends_release appends_release_last appends_andthen_bnd appends_andthen_ret

lemma takes_show_name: "takes {#p#} (show_name p)"
  unfolding takes_def show_name_def by (intro appends_through_intro) auto

lemma takes_ret: "takes {#} (ret ())"
  by (auto simp: takes_def intro!: appends_ret)

text \<open>A call whose result is used by the rest.\<close>

lemma takes_through:
  assumes "\<And>r. takes (B r) (f r)" "com_gives_back c = None" "\<And>r. left_by c r = {#}" "\<And>r. interfaces A + com_hands_out c r = interfaces (B r)"
  shows "takes A (bnd (through p c) f)"
  unfolding takes_def
  by (rule appends_through, simp, rule appends_mono[OF assms(1)[unfolded takes_def]])
    (use assms(2,3) assms(4)[symmetric] in \<open>auto simp: ac_simps\<close>)

lemma takes_obtain:
  assumes "\<And>r. takes {#given r#} (f r)"
  shows "takes {#} (bnd (through p (Obtain g p)) f)"
  by (rule takes_through[where B = "\<lambda>r. {#given r#}"]) (use assms in simp_all)

lemma takes_null [simp]: "takes (add_mset 0 A) m = takes A m"
  by (simp add: takes_def)

lemma takes_show_names: "takes {#} (show_names tasks i n)"
proof (induction n arbitrary: i)
  case 0
  then show ?case by (simp add: takes_ret)
next
  case (Suc n)
  show ?case
    unfolding show_names.simps
    by (rule takes_obtain, rule takes_andthen[OF _ Suc.IH])
      (simp add: whenM_def takes_show_name takes_ret given_failed)
qed

lemma ends_close_one: "ends {#p#} (andthen (release p) (andthen (do_call CoUninitialize) (ret n)))"
  using ends_close[of "{#p#}" "[p]" n] by simp

lemma ends_with_tasks:
  assumes "\<And>tasks n. takes {#} (show tasks n)"
  shows "appends (with_tasks show) (\<lambda>oc g. stops oc \<or> (\<exists>n. oc = Val n) \<and> (\<forall>L. com.held L g = Some (L + left g)))"
  unfolding with_tasks_def
  by (rule ends_initialized, intro ends_intro ends_method)
    (simp_all add: assms ends_andthen ends_close_one)

text \<open>The scope of a \<open>ComPtr\<close>.\<close>

lemma takes_with_ptr:
  assumes "\<And>x. takes A (m x)"
  shows "takes A (with_ptr p (Obtain g p) m)"
  unfolding with_ptr_def
proof (rule takes_through[where B = "\<lambda>r. add_mset (given r) A"])
  fix r
  have k: "appends (whenM (given r \<noteq> 0) (do_call (Release (given r))) :: unit cio)
    (\<lambda>oc g. oc = Val () \<and> left g = {#} \<and> (\<forall>L. com.held (L + interfaces {#given r#}) g = Some L))"
    by (intro appends_intro) auto
  have "com.held (L + interfaces (add_mset (given r) A)) g = Some (L + interfaces {#given r#})"
    if "\<And>L. com.held (L + interfaces A) g = Some L" for L g
    using that[of "L + interfaces {#given r#}"] by (cases "given r = 0") (simp_all add: ac_simps)
  then show "takes (add_mset (given r) A) (finally_do (m (given r)) (whenM (given r \<noteq> 0) (do_call (Release (given r)))))"
    unfolding takes_def
    by (rule_tac appends_finally[OF assms[unfolded takes_def] k]) (auto simp: com.held_append)
qed simp_all

lemma takes_if_fault: "takes A m \<Longrightarrow> takes A (if b then fault else m)"
  by (auto simp: takes_def intro: appends_fault)

lemma takes_method: "m \<noteq> put_StartWhenAvailable \<Longrightarrow> (\<And>r. takes A (f r)) \<Longrightarrow> takes A (bnd (through p (Method m p)) f)"
  by (rule takes_through[where B = "\<lambda>_. A"]) simp_all

lemma takes_whenM: "(b \<Longrightarrow> takes {#} m) \<Longrightarrow> takes {#} (whenM b m)"
  by (simp add: whenM_def takes_ret)

lemma takes_show_triggers: "takes {#} (show_triggers triggers i n)"
proof (induction n arbitrary: i)
  case 0
  then show ?case by (simp add: takes_ret)
next
  case (Suc n)
  show ?case
    unfolding show_triggers.simps
    by (rule takes_andthen[OF _ Suc.IH], intro takes_with_ptr takes_method takes_if_fault takes_whenM takes_ret) simp_all
qed

lemma takes_then: "takes {#} m \<Longrightarrow> takes A k \<Longrightarrow> takes A (andthen m k)"
  unfolding takes_def
  by (erule appends_andthen; simp?; rule appends_mono; auto simp: com.held_append)

lemma takes_show_settings: "takes A m \<Longrightarrow> takes A (show_settings task m)"
  unfolding show_settings_def
  by (intro takes_with_ptr takes_method takes_if_fault takes_then takes_show_triggers) simp_all

lemma takes_show_states: "takes {#} (show_states tasks i n)"
proof (induction n arbitrary: i)
  case 0
  then show ?case by (simp add: takes_ret)
next
  case (Suc n)
  show ?case
    unfolding show_states.simps
    by (rule takes_obtain, rule takes_andthen[OF takes_show_settings Suc.IH])
      (simp add: whenM_def takes_show_name takes_ret given_failed)
qed

lemma takes_show_objects: "takes {#} (show_objects fuel e)"
proof (induction fuel)
  case 0
  then show ?case by (auto simp: takes_def intro!: appends_running)
next
  case (Suc fuel)
  show ?case
    unfolding takes_def show_objects.simps
  proof (intro appends_bnd_call appends_if appends_ret appends_through appends_andthen_call appends_release appends_fault, goal_cases)
    case (5 n v c d)
    from Suc show ?case unfolding takes_def by (rule appends_mono) (use 5 in auto)
  qed auto
qed

lemma ends_wmi:
  "appends (wmi_Run fuel) (\<lambda>oc g. stops oc \<or> (\<exists>n. oc = Val n) \<and> (\<forall>L. com.held L g = Some (L + left g)))"
  unfolding wmi_Run_def
proof (rule ends_initialized, intro ends_intro, goal_cases)
  case (2 i s c svc)
  have close: "ends {#svc, given c#} (if failed b then give_up [svc, given c] else k)" if "ends {#svc, given c#} k" for b k
    using that ends_give_up[of "{#svc, given c#}" "[svc, given c]"] by simp
  have last: "ends (add_mset e {#svc, given c#}) (andthen (whenM (e \<noteq> 0) (show_objects fuel e))
    (andthen (release svc) (andthen (release (given c)) (andthen (release e) (andthen (do_call CoUninitialize) (ret 0))))))" for e
    using ends_close[of "add_mset e {#svc, given c#}" "[svc, given c, e]" 0]
    by (rule_tac ends_andthen, intro takes_whenM takes_show_objects) (simp add: add_mset_commute)
  show ?case
    by (rule ends_call[where B = "\<lambda>_. {#svc, given c#}"], rule close, rule ends_required_obtain[OF _ last])
      (simp_all add: add_mset_commute)
qed simp_all

section \<open>What is registered\<close>

definition good :: "comcall history \<Rightarrow> com_method set" where
  "good g = {m. \<exists>p r. (Method m p, r) \<in> set g \<and> \<not> failed r}"

definition registered :: "comcall history \<Rightarrow> bool" where
  "registered g \<longleftrightarrow> (\<exists>t p r. (Obtain (RegisterTaskDefinition t) p, r) \<in> set g \<and> \<not> failed r)"

text \<open>A return of 0 comes after the task was registered, and after the methods of \<open>S\<close>; any other return comes without.\<close>

definition registers :: "com_method set \<Rightarrow> int cio \<Rightarrow> bool" where
  "registers S m \<longleftrightarrow> appends m (\<lambda>oc g. stops oc \<or> (\<exists>n. oc = Val n \<and> (if n = 0 then registered g \<and> S \<subseteq> good g else \<not> registered g)))"

lemma good_Cons: "good ((c, r) # g) = (case c of Method m p \<Rightarrow> if failed r then good g else insert m (good g) | _ \<Rightarrow> good g)"
  by (auto simp: good_def split: comcall.split)

lemma registered_Cons: "registered ((c, r) # g) = (registered g \<or> (\<exists>t p. c = Obtain (RegisterTaskDefinition t) p \<and> \<not> failed r))"
  by (auto simp: registered_def)

lemma good_registered_Nil [simp]: "good [] = {}" "\<not> registered []"
  by (simp_all add: good_def registered_def)

named_theorems registers_intro \<open>rules for programs that register a task\<close>

lemma registers_release:
  assumes "registers S m"
  shows "registers S (andthen (release p) m)"
  unfolding registers_def
  by (rule appends_release, simp, rule appends_mono[OF assms[unfolded registers_def]])
    (auto simp: good_Cons registered_Cons split: if_splits)

lemma registers_give_up: "registers S (give_up ps)"
proof (induction ps)
  case Nil
  show ?case unfolding registers_def give_up.simps by (intro appends_intro) (simp add: registered_Cons)
qed (simp add: registers_release)

lemma registers_call:
  assumes "\<And>r. registers (S' r) (f r)" "\<And>t p. c \<noteq> Obtain (RegisterTaskDefinition t) p"
    "\<And>r. S \<subseteq> S' r \<union> (case c of Method m p \<Rightarrow> if failed r then {} else {m} | _ \<Rightarrow> {})"
  shows "registers S (bnd (call c) f)"
  unfolding registers_def
proof (rule appends_bnd_call)
  fix r
  show "appends (f r) (\<lambda>oc g. stops oc \<or> (\<exists>n. oc = Val n \<and>
      (if n = 0 then registered ((c, r) # g) \<and> S \<subseteq> good ((c, r) # g) else \<not> registered ((c, r) # g))))"
    by (rule appends_mono[OF assms(1)[of r, unfolded registers_def]])
      (use assms(2) assms(3)[of r] in \<open>auto simp: good_Cons registered_Cons split: comcall.splits if_splits\<close>)
qed

lemma registers_through:
  assumes "\<And>r. registers (S' r) (f r)" "\<And>t p. c \<noteq> Obtain (RegisterTaskDefinition t) p"
    "\<And>r. S \<subseteq> S' r \<union> (case c of Method m p \<Rightarrow> if failed r then {} else {m} | _ \<Rightarrow> {})"
  shows "registers S (bnd (through p c) f)"
  using registers_call[OF assms] by (cases "p = 0") (auto simp: through_def bnd_fault registers_def appends_fault)

lemma registers_required_method [registers_intro]:
  assumes "\<And>x. registers (S - {m}) (k x)"
  shows "registers S (required held (Method m p) p k)"
  unfolding required_def
  by (rule registers_through[where S' = "\<lambda>r. if failed r then S else S - {m}"]) (use assms registers_give_up in auto)

lemma registers_last_method [registers_intro]:
  assumes "\<And>x. registers (S - {m}) (k x)"
  shows "registers S (required_last held (Method m p) p k)"
  unfolding required_last_def
  by (rule registers_through[where S' = "\<lambda>r. if failed r then S else S - {m}"])
    (use assms registers_give_up in \<open>auto intro!: registers_release\<close>)

lemma registers_required_obtain [registers_intro]:
  assumes "\<And>t. g \<noteq> RegisterTaskDefinition t" "\<And>x. registers S (k x)"
  shows "registers S (required held (Obtain g p) p k)"
  unfolding required_def
  by (rule registers_through[where S' = "\<lambda>r. S"]) (use assms registers_give_up in auto)

lemma registers_last_obtain [registers_intro]:
  assumes "\<And>t. g \<noteq> RegisterTaskDefinition t" "\<And>x. registers S (k x)"
  shows "registers S (required_last held (Obtain g p) p k)"
  unfolding required_last_def
  by (rule registers_through[where S' = "\<lambda>r. S"]) (use assms registers_give_up in \<open>auto intro!: registers_release\<close>)

lemma registers_method: "(\<And>r. registers S (f r)) \<Longrightarrow> registers S (bnd (through p (Method m p)) f)"
  by (rule registers_through[where S' = "\<lambda>_. S"]) auto

lemma registers_register_task: "registers {} (register_task root task)"
  unfolding register_task_def required_def registers_def
proof (intro appends_through appends_if appends_release appends_intro, goal_cases)
  case (2 r)
  then show ?case by (intro appends_mono[OF registers_give_up[of "{}", unfolded registers_def]]) (auto simp: registered_Cons split: if_splits)
qed (auto simp: registered_Cons)

abbreviation (input) settings_of_task :: "wstring \<Rightarrow> com_method set" where
  "settings_of_task path \<equiv> {put_Author, put_LogonType, put_StartWhenAvailable, put_WaitTimeout, put_StartBoundary, put_Path path}"

lemma registers_describe: "registers (settings_of_task path) (describe_task path root task)"
  unfolding describe_task_def add_trigger_def add_action_def
  by (intro registers_intro registers_method) (auto simp: registers_register_task insert_Diff_if)

lemma registers_mono: "registers S m \<Longrightarrow> T \<subseteq> S \<Longrightarrow> registers T m"
  unfolding registers_def by (erule appends_mono) (auto split: if_splits)

text \<open>The bound of the query's loop is no part of what the program does.\<close>

lemma show_objects_below: "n \<le> k \<Longrightarrow> below (show_objects n e) (show_objects k e)"
proof (induction n k rule: le_pair_induct)
  case (suc n m)
  show ?case unfolding show_objects.simps by (intro below_intro suc.IH)
qed simp

lemma wmi_Run_below: "n \<le> k \<Longrightarrow> below (wmi_Run n) (wmi_Run k)"
  unfolding wmi_Run_def required_def by (intro below_intro show_objects_below)

section \<open>Properties\<close>

text \<open>The calls of all programs but the first leave nothing.\<close>

definition leaves_none :: "comcall \<Rightarrow> bool" where
  "leaves_none c \<longleftrightarrow> (\<forall>r. left_by c r = {#})"

lemma left_none: "list_all (\<lambda>x. leaves_none (fst x)) g \<Longrightarrow> left g = {#}"
  by (induction g rule: left.induct) (simp_all add: leaves_none_def)

lemma none_calls [simp]:
  "leaves_none CoInitializeEx" "leaves_none CoInitializeSecurity" "leaves_none CoUninitialize" "leaves_none CoCreateInstance"
  "leaves_none (Obtain g p)" "leaves_none (Release p)" "leaves_none (get_Name p)" "leaves_none (SysFreeString x)"
  "leaves_none (Next p)" "leaves_none (Get_Name_property p)" "leaves_none (VariantClear x)"
  "m \<noteq> put_StartWhenAvailable \<Longrightarrow> leaves_none (Method m p)"
  by (simp_all add: leaves_none_def)

lemma none_parts [emits_intro]:
  "leaves_none c \<Longrightarrow> emits leaves_none (through p c)" "emits leaves_none (release p)" "emits leaves_none (give_up ps)"
  "leaves_none c \<Longrightarrow> (\<And>x. emits leaves_none (k x)) \<Longrightarrow> emits leaves_none (required xs c p k)"
  "leaves_none c \<Longrightarrow> (\<And>x. emits leaves_none (k x)) \<Longrightarrow> emits leaves_none (required_last xs c p k)"
proof -
  show t: "leaves_none c \<Longrightarrow> emits leaves_none (through p c)" for c p
    unfolding through_def by (intro emits_intro)
  show r: "emits leaves_none (release p)" for p
    unfolding release_def by (intro emits_intro) simp
  show g: "emits leaves_none (give_up ps)" for ps
    by (induction ps) (auto intro!: emits_intro r)
  show "leaves_none c \<Longrightarrow> (\<And>x. emits leaves_none (k x)) \<Longrightarrow> emits leaves_none (required xs c p k)"
    unfolding required_def by (intro emits_intro t g)
  show "leaves_none c \<Longrightarrow> (\<And>x. emits leaves_none (k x)) \<Longrightarrow> emits leaves_none (required_last xs c p k)"
    unfolding required_last_def by (intro emits_intro t g r)
qed

lemma none_show_name [emits_intro]: "emits leaves_none (show_name p)"
  unfolding show_name_def by (intro emits_intro) simp_all

lemma none_with_ptr [emits_intro]: "(\<And>x. emits leaves_none (m x)) \<Longrightarrow> emits leaves_none (with_ptr p (Obtain g p) m)"
  unfolding with_ptr_def by (intro emits_intro) simp_all

lemma none_show_triggers [emits_intro]: "emits leaves_none (show_triggers t i n)"
  by (induction t i n rule: show_triggers.induct) (auto intro!: emits_intro)

lemma none_show_settings [emits_intro]: "emits leaves_none m \<Longrightarrow> emits leaves_none (show_settings t m)"
  unfolding show_settings_def by (intro emits_intro) simp_all

lemma none_lists [emits_intro]: "emits leaves_none (show_names t i n)" "emits leaves_none (show_states t i n)"
  by (induction t i n rule: show_names.induct; auto intro!: emits_intro)
    (induction t i n rule: show_states.induct; auto intro!: emits_intro)

lemma none_objects [emits_intro]: "emits leaves_none (show_objects n e)"
  by (induction n e rule: show_objects.induct) (auto intro!: emits_intro)

lemma none_with_tasks: "(\<And>t n. emits leaves_none (m t n)) \<Longrightarrow> emits leaves_none (with_tasks m)"
  unfolding with_tasks_def by (intro emits_intro) simp_all

lemma none_wmi: "emits leaves_none (wmi_Run n)"
  unfolding wmi_Run_def by (intro emits_intro) simp_all

text \<open>\<open>leaves m l\<close>: when \<open>m\<close> returns, it has given back all but \<open>l\<close>, and nothing twice.\<close>

definition leaves :: "int cio \<Rightarrow> (comcall history \<Rightarrow> com_resource multiset) \<Rightarrow> bool" where
  "leaves m l \<longleftrightarrow> (\<forall>os h. \<exists>oc g. m os () h = (oc, (), h @ g) \<and> (oc = Fault \<or> oc = Running \<or>
     (\<exists>n. oc = Val n) \<and> (\<forall>L. com.held L g = Some (L + l g))))"

lemma leaves_left:
  assumes "appends m (\<lambda>oc g. stops oc \<or> (\<exists>n. oc = Val n) \<and> (\<forall>L. com.held L g = Some (L + left g)))"
  shows "leaves m left"
  unfolding leaves_def using appendsD[OF assms] by (fastforce simp: stops_def)

lemma leaves_nothing:
  assumes "leaves m left" "emits leaves_none m"
  shows "leaves m (\<lambda>_. {#})"
  unfolding leaves_def
proof (intro allI)
  fix os h
  obtain oc g where r: "m os () h = (oc, (), h @ g)" "oc = Fault \<or> oc = Running \<or> (\<exists>n. oc = Val n) \<and> (\<forall>L. com.held L g = Some (L + left g))"
    using assms(1) unfolding leaves_def by blast
  obtain g' where "h @ g = h @ g'" "list_all (\<lambda>x. leaves_none (fst x)) g'" by (rule emitsD[OF assms(2) r(1)])
  then have "left g = {#}" using left_none by simp
  then show "\<exists>oc g. m os () h = (oc, (), h @ g) \<and> (oc = Fault \<or> oc = Running \<or>
     (\<exists>n. oc = Val n) \<and> (\<forall>L. com.held L g = Some (L + {#})))" using r by auto
qed

text \<open>
  C40: Whatever is answered, each of the four programs has released every interface once when it returns, has
  freed every text and has closed the library, but for two paths of TimeTriggerExample: the settings stay when they
  refuse a value, and the library when the variable is missing.
\<close>
theorem com_clients_release:
  "leaves time_trigger_main left \<and> leaves display_states_main (\<lambda>_. {#}) \<and> leaves display_names_main (\<lambda>_. {#}) \<and>
   leaves (wmi_Run fuel) (\<lambda>_. {#})"
  unfolding display_states_main_def display_names_main_def
  by (intro conjI leaves_nothing leaves_left ends_time_trigger ends_with_tasks takes_show_states takes_show_names
      none_with_tasks none_lists none_wmi ends_wmi)

lemma registers_main:
  "appends time_trigger_main (\<lambda>oc g. stops oc \<or> (\<exists>n. oc = Val n \<and>
     (if n = 0 then registered g \<and> (\<exists>path. settings_of_task path \<subseteq> good g) else \<not> registered g)))"
proof -
  let ?path = "\<lambda>e. cstr (wide_of (buf e)) @ notepad_path"
  have created: "registers S (bnd (call CoCreateInstance) (\<lambda>c. if failed c then give_up [] else m c))" if "\<And>c. registers S (m c)" for S m
    by (rule registers_call[where S' = "\<lambda>_. S"]) (auto simp: that registers_give_up simp del: give_up.simps)
  have freed: "registers S (andthen (do_call (free x)) m)" if "registers S m" for S m x
    unfolding andthen_def do_call_def bnd_bnd bnd_ret by (rule registers_call[where S' = "\<lambda>_. S"]) (use that in auto)
  have rest: "registers (settings_of_task (?path e)) (andthen (do_call (free (out e)))
    (bnd (call CoCreateInstance) (\<lambda>c. if failed c then give_up [] else
     required [given c] (Method Connect (given c)) (given c) (\<lambda>_.
     required [given c] (Obtain GetFolder (given c)) (given c) (\<lambda>root.
     bnd (through root (Method DeleteTask root)) (\<lambda>_.
     required_last [root] (Obtain NewTask (given c)) (given c) (\<lambda>task. describe_task (?path e) root task)))))))" for e
    by (intro freed created registers_intro registers_method) (simp_all add: registers_describe)
  show ?thesis
    unfolding time_trigger_main_def
  proof (intro appends_bnd_call appends_if appends_ret, goal_cases)
    case (2 i s)
    show ?case by (rule appends_mono[OF registers_give_up[of "settings_of_task []", unfolded registers_def]])
      (auto simp: registered_Cons good_Cons split: if_splits)
  next
    case (4 i s e)
    show ?case by (rule appends_mono[OF rest[of e, unfolded registers_def]])
      (auto simp: registered_Cons good_Cons split: if_splits)
  qed (auto simp: registered_Cons)
qed

text \<open>
  C0: TimeTriggerExample returns 0 only when the task was registered after all that it was to be given was
  accepted, and it registers no task when it returns another number.
\<close>
theorem registered_when_zero:
  "\<exists>oc g. time_trigger_main os s h = (oc, s, h @ g) \<and> (oc = Fault \<or> oc = Running \<or> (\<exists>n. oc = Val n \<and>
     (if n = 0 then registered g \<and> (\<exists>path. settings_of_task path \<subseteq> good g) else \<not> registered g)))"
  using appendsD[OF registers_main, of os s h] by (auto simp: stops_def)

section \<open>An item that cannot be had\<close>

definition item_fails :: "comcall os" where
  "item_fails h c = (case c of Obtain (get_Item i) p \<Rightarrow> fail_resp\<lparr>rv := 0x80004005\<rparr> | Method get_Count p \<Rightarrow> fail_resp\<lparr>out := 1\<rparr>
     | _ \<Rightarrow> fail_resp\<lparr>out := 8\<rparr>)"

text \<open>One of the lists goes on, the other looks at the item before it looks at the answer.\<close>

lemmas com_eval = bnd_def call_def ret_def andthen_def do_call_def whenM_def through_def release_def failed_def given_def
  status_of_def SUCCEEDED_def fault_def finally_do_def

lemma failed_item_faults:
  "outcome_of (display_states_main item_fails () []) = Fault" "outcome_of (display_names_main item_fails () []) = Val 0"
  unfolding display_states_main_def display_names_main_def with_tasks_def required_def required_last_def
  by (simp_all add: com_eval item_fails_def show_settings_def with_ptr_def)

end
