(* ===== verification/WebSocketClient.thy ===== *)
theory WebSocketClient
  imports Effects Fuel
begin

text \<open>
  WebSocket/main.cpp: a WinHTTP client that upgrades a request to a web socket, sends a greeting and shows the
  answer.  The text that is shown is a call here.
\<close>

section \<open>System calls\<close>

datatype wscall =
    WinHttpOpen
  | WinHttpConnect HANDLE
  | WinHttpOpenRequest HANDLE
  | WinHttpSetOption HANDLE DWORD
  | WinHttpSendRequest HANDLE
  | WinHttpReceiveResponse HANDLE
  | WinHttpWebSocketCompleteUpgrade HANDLE
  | WinHttpWebSocketSend HANDLE "BYTE list"
  | WinHttpWebSocketReceive HANDLE nat
  | WinHttpWebSocketClose HANDLE
  | WinHttpWebSocketQueryCloseStatus HANDLE
  | WinHttpCloseHandle HANDLE
  | GetLastError
  | GetModuleHandleEx
  | FormatMessageA bool HANDLE DWORD
  | LocalFree HANDLE
  | println_text "BYTE list"

datatype wserr = RuntimeError "BYTE list"

type_synonym 'a wsio = "(unit, wscall, wserr, 'a) io"

abbreviation (input) WINHTTP_ERROR_BASE :: DWORD where "WINHTTP_ERROR_BASE \<equiv> 12000"
abbreviation (input) UTF8_MESSAGE :: "64 word" where "UTF8_MESSAGE \<equiv> 2"
abbreviation (input) UTF8_FRAGMENT :: "64 word" where "UTF8_FRAGMENT \<equiv> 3"

text \<open>The characters of a C++ literal.\<close>

definition text_bytes :: "string \<Rightarrow> BYTE list" where
  "text_bytes = map (\<lambda>c. of_nat (of_char c))"

section \<open>The last error as a text\<close>

text \<open>
  The text without the zeros and line ends at its end.  \<open>errors_last\<close> is the \<open>WINHTTP_ERROR_LAST\<close> of the headers; the
  message is the text an answer to \<open>FormatMessageA\<close> writes, of the length it returns.
\<close>

definition trim_end :: "BYTE list \<Rightarrow> BYTE list" where
  "trim_end bs = rev (dropWhile (\<lambda>b. b = 0 \<or> b = 13 \<or> b = 10) (rev bs))"

definition GetLastErrorAsString :: "DWORD \<Rightarrow> BYTE list wsio" where
  "GetLastErrorAsString errors_last = bnd (call GetLastError) (\<lambda>e. if status_of e = 0 then ret [] else
     bnd (if WINHTTP_ERROR_BASE \<le> status_of e \<and> status_of e \<le> errors_last
       then bnd (call GetModuleHandleEx) (\<lambda>m. ret (True, out m)) else ret (False, 0)) (\<lambda>(from_module, module).
     bnd (call (FormatMessageA from_module module (status_of e))) (\<lambda>f.
     andthen (do_call (LocalFree (out f))) (ret (trim_end (take (unat (status_of f)) (buf f)))))))"

definition fail_last :: "DWORD \<Rightarrow> 'a wsio" where
  "fail_last errors_last = bnd (GetLastErrorAsString errors_last) (\<lambda>m. throw (RuntimeError m))"

section \<open>The program\<close>

text \<open>A handle that is checked, and then owned by a \<open>unique_ptr\<close> for the rest of the scope.\<close>

definition with_handle :: "DWORD \<Rightarrow> wscall \<Rightarrow> (HANDLE \<Rightarrow> 'a wsio) \<Rightarrow> 'a wsio" where
  "with_handle l c m = bnd (call c) (\<lambda>r. if rv r = 0 then fail_last l else
     finally_do (m (rv r)) (do_call (WinHttpCloseHandle (rv r))))"

definition checked :: "DWORD \<Rightarrow> wscall \<Rightarrow> unit wsio" where
  "checked l c = bnd (call c) (\<lambda>r. if status_of r = 0 then fail_last l else ret ())"

text \<open>Every receive writes to the beginning of the buffer; \<open>left\<close> is \<open>dwBufferLength\<close>.\<close>

definition chunk_received :: "resp \<Rightarrow> BYTE list" where
  "chunk_received r = take (min 1024 (unat (ucast (out r) :: DWORD))) (buf r)"

definition buffer_type :: "resp \<Rightarrow> 64 word" where
  "buffer_type r = (case outs r of [] \<Rightarrow> 0 | t # _ \<Rightarrow> t)"

fun receive_loop :: "nat \<Rightarrow> DWORD \<Rightarrow> HANDLE \<Rightarrow> DWORD \<Rightarrow> BYTE list \<Rightarrow> (BYTE list \<times> 64 word) wsio" where
  "receive_loop 0 l ws left charBuffer = running"
| "receive_loop (Suc fuel) l ws left charBuffer = (if left = 0 then fail_last l else
     bnd (call (WinHttpWebSocketReceive ws 1024)) (\<lambda>r. if status_of r \<noteq> 0 then fail_last l else
     let charBuffer = overwrite 0 (chunk_received r) charBuffer in
     if buffer_type r = UTF8_FRAGMENT then receive_loop fuel l ws (left - ucast (out r)) charBuffer
     else ret (charBuffer, buffer_type r)))"

definition converse :: "nat \<Rightarrow> DWORD \<Rightarrow> HANDLE \<Rightarrow> int wsio" where
  "converse fuel l ws = bnd (call (WinHttpWebSocketSend ws (text_bytes ''Hello world''))) (\<lambda>s.
     if status_of s \<noteq> 0 then fail_last l else
     bnd (receive_loop fuel l ws 1024 (replicate 1024 0)) (\<lambda>(charBuffer, eBufferType).
     if eBufferType \<noteq> UTF8_MESSAGE then fail_last l else
     andthen (do_call (println_text charBuffer))
    (andthen (do_call (WinHttpWebSocketClose ws))
    (andthen (do_call (WinHttpWebSocketQueryCloseStatus ws)) (ret 0)))))"

definition websocket_main :: "nat \<Rightarrow> DWORD \<Rightarrow> int wsio" where
  "websocket_main fuel l = try_catch
     (bnd (call WinHttpOpen) (\<lambda>s. finally_do
       (with_handle l (WinHttpConnect (rv s)) (\<lambda>connection.
        with_handle l (WinHttpOpenRequest connection) (\<lambda>request.
        andthen (checked l (WinHttpSetOption request 31))
       (andthen (checked l (WinHttpSetOption request 114))
       (andthen (checked l (WinHttpSendRequest request))
       (andthen (checked l (WinHttpReceiveResponse request))
       (bnd (call (WinHttpWebSocketCompleteUpgrade request)) (\<lambda>w. if rv w = 0 then fail_last l else converse fuel l (rv w)))))))))
       (whenM (rv s \<noteq> 0) (do_call (WinHttpCloseHandle (rv s))))))
     (\<lambda>e. case e of RuntimeError m \<Rightarrow> andthen (do_call (println_text m)) (ret 1))"

section \<open>What is shown\<close>

fun chunks :: "wscall history \<Rightarrow> BYTE list list" where
  "chunks [] = []"
| "chunks ((WinHttpWebSocketReceive ws n, r) # h) = (if status_of r = 0 then chunk_received r # chunks h else chunks h)"
| "chunks (_ # h) = chunks h"

fun texts :: "wscall history \<Rightarrow> BYTE list list" where
  "texts [] = []"
| "texts ((println_text t, r) # h) = t # texts h"
| "texts (_ # h) = texts h"

lemma chunks_texts_append [simp]: "chunks (g @ h) = chunks g @ chunks h" "texts (g @ h) = texts g @ texts h"
  by (induction g rule: chunks.induct; simp) (induction g rule: texts.induct; simp)

definition quiet_failure :: "(wserr, 'a) outcome \<Rightarrow> wscall history \<Rightarrow> bool" where
  "quiet_failure oc g \<longleftrightarrow> (\<exists>e. oc = Exn e) \<and> chunks g = [] \<and> texts g = []"

lemma fail_last_appends: "appends (fail_last l) quiet_failure"
proof -
  have "appends (GetLastErrorAsString l) (\<lambda>oc g. (\<exists>m. oc = Val m) \<and> chunks g = [] \<and> texts g = [])"
    unfolding GetLastErrorAsString_def
  proof (intro appends_bnd_call appends_if appends_ret, simp, rule appends_bnd)
    fix b
    show "appends (if b then bnd (call GetModuleHandleEx) (\<lambda>m. ret (True, out m)) else ret (False, 0))
      (\<lambda>oc g. (\<exists>m. oc = Val m) \<and> chunks g = [] \<and> texts g = [])" by (intro appends_intro) auto
  qed (auto intro!: appends_intro)
  from appends_bnd[OF this] show ?thesis unfolding fail_last_def quiet_failure_def
    by (rule_tac appends_bnd[OF \<open>appends (GetLastErrorAsString l) _\<close>]) (auto intro!: appends_intro)
qed

lemma fails_with: "(\<And>oc g. quiet_failure oc g \<Longrightarrow> Q oc g) \<Longrightarrow> appends (fail_last l) Q"
  using appends_mono[OF fail_last_appends] by blast

text \<open>After a receive or a text, no error is looked at: the failures of the loop.\<close>

lemma ws_receive_appends:
  "appends (receive_loop fuel l ws left b) (\<lambda>oc g. texts g = [] \<and> (case oc of
      Val (b', t) \<Rightarrow> chunks g \<noteq> [] \<and> b' = fold (overwrite 0) (chunks g) b | Exn e \<Rightarrow> True
    | Running \<Rightarrow> length (chunks g) = fuel | _ \<Rightarrow> False))"
proof (induction fuel arbitrary: left b)
  case 0
  show ?case by (auto intro!: appends_intro)
next
  case (Suc fuel)
  show ?case
    unfolding receive_loop.simps Let_def
  proof (intro appends_if fails_with appends_bnd_call appends_ret, goal_cases)
    case (3 r)
    show ?case by (rule appends_mono[OF Suc.IH]) (use 3 in \<open>auto split: outcome.splits\<close>)
  qed (auto simp: quiet_failure_def)
qed

definition shows_all :: "(wserr, int) outcome \<Rightarrow> wscall history \<Rightarrow> bool" where
  "shows_all oc g \<longleftrightarrow> (oc = Val 0 \<longrightarrow> chunks g \<noteq> [] \<and> texts g = [fold (overwrite 0) (chunks g) (replicate 1024 0)])"

lemma shows_all_simps [simp]: "n \<noteq> 0 \<Longrightarrow> shows_all (Val n) g" "shows_all (Exn e) g" "shows_all Fault g" "shows_all Running g" "shows_all (Halted k) g"
  by (simp_all add: shows_all_def)

lemma shows_fail: "appends (fail_last l) (\<lambda>oc g. shows_all oc (f g))"
  by (rule fails_with) (auto simp: quiet_failure_def)

lemma converse_appends: "appends (converse fuel l ws) shows_all"
  unfolding converse_def
proof (intro appends_bnd_call appends_if shows_fail appends_bnd[OF ws_receive_appends], goal_cases)
  case (1 s x g)
  obtain b t where x: "x = (b, t)" by (cases x)
  show ?case unfolding x prod.case
    by (intro appends_if shows_fail appends_andthen_call appends_ret) (use 1 x in \<open>auto simp: shows_all_def\<close>)
qed auto

definition plain :: "wscall \<Rightarrow> bool" where
  "plain c \<longleftrightarrow> (\<forall>r g. chunks ((c, r) # g) = chunks g \<and> texts ((c, r) # g) = texts g)"

lemma shows_after_plain: "plain c \<Longrightarrow> appends m shows_all \<Longrightarrow> appends m (\<lambda>oc g. shows_all oc ((c, r) # g))"
  by (erule appends_mono) (simp add: shows_all_def plain_def)

lemma shows_finally:
  fixes m :: "int wsio"
  assumes "appends m shows_all" "plain c"
  shows "appends (finally_do m (whenM b (do_call c))) shows_all"
proof (rule appends_finally[OF assms(1), where D = "\<lambda>g. chunks g = [] \<and> texts g = []"])
  show "appends (whenM b (do_call c) :: (unit, wscall, wserr, unit) io) (\<lambda>oc g. oc = Val () \<and> chunks g = [] \<and> texts g = [])"
    using assms(2) by (intro appends_intro) (auto simp: plain_def)
qed (auto simp: shows_all_def)

lemma shows_with_handle:
  assumes "\<And>x. appends (m x) shows_all" "plain c"
  shows "appends (with_handle l c m) shows_all"
  unfolding with_handle_def
proof (intro appends_bnd_call appends_if shows_fail)
  fix r :: resp
  have "appends (finally_do (m (rv r)) (whenM True (do_call (WinHttpCloseHandle (rv r))))) shows_all"
    by (rule shows_finally[OF assms(1)]) (simp add: plain_def)
  then show "appends (finally_do (m (rv r)) (do_call (WinHttpCloseHandle (rv r)))) (\<lambda>oc g. shows_all oc ((c, r) # g))"
    by (intro shows_after_plain[OF assms(2)]) (simp add: whenM_def)
qed

lemma shows_checked: "plain c \<Longrightarrow> appends m shows_all \<Longrightarrow> appends (andthen (checked l c) m) shows_all"
proof (rule appends_andthen[where R = "\<lambda>oc g. quiet_failure oc g \<or> oc = Val () \<and> chunks g = [] \<and> texts g = []"], goal_cases)
  case 1
  then show ?case unfolding checked_def
    by (intro appends_bnd_call appends_if appends_ret fails_with) (auto simp: plain_def quiet_failure_def)
next
  case (2 g)
  then show ?case by (elim appends_mono) (auto simp: shows_all_def quiet_failure_def)
qed (auto simp: quiet_failure_def)

lemma websocket_main_appends: "appends (websocket_main fuel l) shows_all"
  unfolding websocket_main_def
proof (rule appends_try_catch)
  show "appends (bnd (call WinHttpOpen) (\<lambda>s. finally_do
       (with_handle l (WinHttpConnect (rv s)) (\<lambda>connection.
        with_handle l (WinHttpOpenRequest connection) (\<lambda>request.
        andthen (checked l (WinHttpSetOption request 31))
       (andthen (checked l (WinHttpSetOption request 114))
       (andthen (checked l (WinHttpSendRequest request))
       (andthen (checked l (WinHttpReceiveResponse request))
       (bnd (call (WinHttpWebSocketCompleteUpgrade request)) (\<lambda>w. if rv w = 0 then fail_last l else converse fuel l (rv w)))))))))
       (whenM (rv s \<noteq> 0) (do_call (WinHttpCloseHandle (rv s)))))) shows_all"
    by (rule appends_bnd_call, rule shows_after_plain, simp add: plain_def, rule shows_finally,
        intro shows_with_handle shows_checked appends_bnd_call appends_if shows_fail shows_after_plain converse_appends)
      (simp_all add: plain_def)
next
  fix e g
  show "appends (case e of RuntimeError m \<Rightarrow> andthen (do_call (println_text m)) (ret 1)) (\<lambda>oc g'. shows_all oc (g @ g'))"
    by (cases e) (auto intro!: appends_intro)
qed auto

text \<open>
  A return of 0 comes with one text: the buffer with the last fragment over the earlier ones, of which nothing is
  left when none is longer.
\<close>

lemma drop_overwritten: "length x \<le> n \<Longrightarrow> drop n (overwrite 0 x b) = drop n b"
  by (simp add: overwrite_def)

lemma drop_fold_overwritten: "(\<And>x. x \<in> set cs \<Longrightarrow> length x \<le> n) \<Longrightarrow> drop n (fold (overwrite 0) cs b) = drop n b"
  by (induction cs arbitrary: b) (simp_all add: drop_overwritten)

lemma last_fragment_shown:
  assumes "websocket_main fuel l os s [] = (Val 0, s', h)"
  shows "\<exists>cs c. chunks h = cs @ [c] \<and> texts h = [c @ drop (length c) (fold (overwrite 0) cs (replicate 1024 0))] \<and>
    (list_all (\<lambda>x. length x \<le> length c) cs \<longrightarrow> texts h = [c @ replicate (1024 - length c) 0])"
proof -
  have g: "chunks h \<noteq> []" "texts h = [fold (overwrite 0) (chunks h) (replicate 1024 0)]"
    using appendsD[OF websocket_main_appends, of fuel l os s "[]"] assms by (auto simp: shows_all_def)
  then obtain cs c where c: "chunks h = cs @ [c]" by (metis rev_exhaust)
  have "texts h = [c @ drop (length c) (fold (overwrite 0) cs (replicate 1024 0))]" using g(2) c by (simp add: overwrite_def)
  then show ?thesis using c drop_fold_overwritten[of cs "length c" "replicate 1024 0"] by (auto simp: list_all_iff)
qed

text \<open>An answer in the two fragments 1, 2 and 3, 4.\<close>

definition two_fragments :: "wscall os" where
  "two_fragments h c = (case c of
     WinHttpWebSocketReceive ws n \<Rightarrow> if chunks h = [] then fail_resp\<lparr>out := 2, buf := [1, 2], outs := [3]\<rparr>
       else fail_resp\<lparr>out := 2, buf := [3, 4], outs := [2]\<rparr>
   | WinHttpWebSocketSend ws bs \<Rightarrow> fail_resp | _ \<Rightarrow> ok_resp)"

lemmas ws_eval = bnd_def call_def ret_def andthen_def do_call_def whenM_def finally_do_def try_catch_def with_handle_def
  checked_def converse_def two_fragments_def status_of_def chunk_received_def buffer_type_def

lemma first_fragment_lost:
  "\<exists>h. websocket_main (Suc (Suc 0)) 0 two_fragments () [] = (Val 0, (), h) \<and> chunks h = [[1, 2], [3, 4]] \<and>
     texts h = [[3, 4] @ replicate 1022 0]"
proof -
  obtain h where h: "websocket_main (Suc (Suc 0)) 0 two_fragments () [] = (Val 0, (), h)" "chunks h = [[1, 2], [3, 4]]"
    by (simp add: websocket_main_def ws_eval)
  then show ?thesis using last_fragment_shown[OF h(1)] by auto
qed

lemma ws_receive_below: "n \<le> k \<Longrightarrow> below (receive_loop n l ws x b) (receive_loop k l ws x b)"
proof (induction n k arbitrary: x b rule: le_pair_induct)
  case (suc n m)
  show ?case unfolding receive_loop.simps by (intro below_intro suc.IH)
qed simp

lemma websocket_main_below: "n \<le> k \<Longrightarrow> below (websocket_main n l) (websocket_main k l)"
  unfolding websocket_main_def with_handle_def converse_def
  by (intro below_intro ws_receive_below; (rule below_refl)?)

end
