(* ===== verification/FuelBounds.thy ===== *)
theory FuelBounds
  imports Fuel ParentRun OverlappedIo ComClients WebSocketClient XSocketMain Pipes Pages EchoCoroutine Layout Sspi TlsStream FileLock ExecCmd
begin

text \<open>
  The bounds on the loops of the programs are not part of their behaviour: each loop, and so each program
  with loops that may go on for ever, is monotone in its bound.
\<close>

section \<open>The loops\<close>

lemma ReadFromPipe_loop_below: "n \<le> k \<Longrightarrow> below (ReadFromPipe_loop n rd res) (ReadFromPipe_loop k rd res)"
proof (induction n k arbitrary: res rule: le_pair_induct)
  case (suc n m)
  show ?case unfolding ReadFromPipe_loop.simps by (intro below_intro suc.IH)
qed simp

lemma GetCurrentExecutablePath_below: "n \<le> k \<Longrightarrow> below (GetCurrentExecutablePath n sz) (GetCurrentExecutablePath k sz)"
proof (induction n k arbitrary: sz rule: le_pair_induct)
  case (suc n m)
  show ?case unfolding GetCurrentExecutablePath.simps by (intro below_intro suc.IH)
qed simp

lemma message_loop_below: "n \<le> k \<Longrightarrow> below (message_loop n a b) (message_loop k a b)"
proof (induction n k rule: le_pair_induct)
  case (suc n m)
  show ?case unfolding message_loop.simps by (intro below_intro suc.IH)
qed simp

lemma below_disposition [below_intro]:
  "below m m' \<Longrightarrow> below k k' \<Longrightarrow>
   below (case d of ContinueExecution \<Rightarrow> m | ExecuteHandler \<Rightarrow> k) (case d of ContinueExecution \<Rightarrow> m' | ExecuteHandler \<Rightarrow> k')"
  by (cases d) simp_all

lemma write_char_below: "n \<le> k \<Longrightarrow> below (write_char n p i) (write_char k p i)"
proof (induction n k rule: le_pair_induct)
  case (suc n m)
  show ?case unfolding write_char.simps by (intro below_intro suc.IH)
qed simp

lemma write_all_below: "n \<le> k \<Longrightarrow> below (write_all n p i l) (write_all k p i l)"
  by (induction l arbitrary: i) (simp_all add: below_andthen write_char_below)

lemma Wait_msg_below: "n \<le> k \<Longrightarrow> below (Wait_msg n e) (Wait_msg k e)"
proof (induction n k rule: le_pair_induct)
  case (suc n m)
  show ?case unfolding Wait_msg.simps by (intro below_intro suc.IH)
qed simp

lemma Blocking_loop_below: "n \<le> k \<Longrightarrow> below (Blocking_loop n p c bs t) (Blocking_loop k p c bs t)"
proof (induction n k arbitrary: bs t rule: le_pair_induct)
  case (suc n m)
  show ?case unfolding Blocking_loop.simps by (intro below_intro suc.IH)
qed simp

lemma Nonblocking_loop_below:
  "n \<le> k \<Longrightarrow> w \<le> v \<Longrightarrow> below (Nonblocking_loop n w p c bs t) (Nonblocking_loop k v p c bs t)"
proof (induction n k arbitrary: bs t rule: le_pair_induct)
  case (suc n m)
  show ?case unfolding Nonblocking_loop.simps Nonblocking_once_def
    by (intro below_intro suc.IH suc.prems Wait_msg_below)
qed simp

lemma Msg_loop_below: "n \<le> k \<Longrightarrow> below (Msg_loop n p bs t) (Msg_loop k p bs t)"
proof (induction n k arbitrary: bs t rule: le_pair_induct)
  case (suc n m)
  show ?case unfolding Msg_loop.simps by (intro below_intro suc.IH)
qed simp

lemma ReadData_loop_below: "n \<le> k \<Longrightarrow> below (ReadData_loop n l i d) (ReadData_loop k l i d)"
proof (induction n k arbitrary: i d rule: le_pair_induct)
  case (suc n m)
  show ?case unfolding ReadData_loop.simps by (intro below_intro suc.IH)
qed simp

lemma IoEventLoop_below: "n \<le> k \<Longrightarrow> below (IoEventLoop_Run resume n t) (IoEventLoop_Run resume k t)"
proof (induction n k arbitrary: t rule: le_pair_induct)
  case (suc n m)
  show ?case unfolding IoEventLoop_Run.simps by (intro below_intro suc.IH)
qed simp

lemma Overlapped_below: "n \<le> k \<Longrightarrow> below (Overlapped_move n) (Overlapped_move k) \<and> below (Overlapped_swap n) (Overlapped_swap k)"
proof (induction n k rule: le_pair_induct)
  case (suc n m)
  then show ?case unfolding Overlapped_move.simps Overlapped_swap.simps by (intro conjI below_intro) auto
qed simp

lemma FinishReading_loop_below: "n \<le> k \<Longrightarrow> below (FinishReading_loop n a t) (FinishReading_loop k a t)"
proof (induction n k arbitrary: a t rule: le_pair_induct)
  case (suc n m)
  show ?case unfolding FinishReading_loop.simps by (intro below_intro suc.IH suc.hyps Overlapped_below[THEN conjunct1] Wait_msg_below)
qed simp

lemma SendBytes_below: "n \<le> k \<Longrightarrow> below (SendBytes n s bs) (SendBytes k s bs)"
proof (induction n k arbitrary: bs rule: le_pair_induct)
  case (suc n m)
  show ?case unfolding SendBytes.simps by (intro below_intro suc.IH suc.hyps)
qed simp

lemma ReceiveBytes_loop_below: "n \<le> k \<Longrightarrow> below (ReceiveBytes_loop n s d off c) (ReceiveBytes_loop k s d off c)"
proof (induction n k arbitrary: d off c rule: le_pair_induct)
  case (suc n m)
  show ?case unfolding ReceiveBytes_loop.simps by (intro below_intro suc.IH suc.hyps)
qed simp

lemma ReceiveBytes_below: "n \<le> k \<Longrightarrow> below (ReceiveBytes n s d c) (ReceiveBytes k s d c)"
  unfolding ReceiveBytes_def by (intro below_intro ReceiveBytes_loop_below)

lemma SendMsg_below: "n \<le> k \<Longrightarrow> below (SendMsg n s bs) (SendMsg k s bs)"
  unfolding SendMsg_def by (intro below_intro SendBytes_below)

lemma ReceiveMsg_below: "n \<le> k \<Longrightarrow> below (ReceiveMsg n s d) (ReceiveMsg k s d)"
  unfolding ReceiveMsg_def by (intro below_intro ReceiveBytes_below)

lemma client_handshake_below: "n \<le> k \<Longrightarrow> below (client_handshake n s d) (client_handshake k s d)"
proof (induction n k arbitrary: d rule: le_pair_induct)
  case (suc n m)
  show ?case unfolding client_handshake.simps by (intro below_intro suc.IH suc.hyps ReceiveMsg_below SendMsg_below)
qed simp

lemma server_handshake_below: "n \<le> k \<Longrightarrow> below (server_handshake n s d) (server_handshake k s d)"
proof (induction n k arbitrary: d rule: le_pair_induct)
  case (suc n m)
  show ?case unfolding server_handshake.simps by (intro below_intro suc.IH suc.hyps ReceiveMsg_below SendMsg_below)
qed simp

lemma send_all_below: "n \<le> k \<Longrightarrow> below (send_all n bs) (send_all k bs)"
proof (induction n k arbitrary: bs rule: le_pair_induct)
  case (suc n m)
  show ?case unfolding send_all.simps by (intro below_intro suc.IH suc.hyps)
qed simp

lemma handshake_below: "n \<le> k \<Longrightarrow> below (handshake n c) (handshake k c)"
proof (induction n k arbitrary: c rule: le_pair_induct)
  case (suc n m)
  show ?case unfolding handshake.simps Let_def by (intro below_intro suc.IH suc.hyps send_all_below)
qed simp

lemma send_record_below: "n \<le> k \<Longrightarrow> below (send_record n bs) (send_record k bs)"
  unfolding send_record_def by (intro below_intro send_all_below)

lemma tls_write_below: "n \<le> k \<Longrightarrow> below (tls_write n bs) (tls_write k bs)"
proof (induction n k arbitrary: bs rule: le_pair_induct)
  case (suc n m)
  show ?case unfolding tls_write.simps by (intro below_intro suc.IH suc.hyps send_record_below)
qed simp

lemma below_step [below_intro]:
  "below m1 m1' \<Longrightarrow> (\<And>i. below (f i) (f' i)) \<Longrightarrow> below m2 m2' \<Longrightarrow>
   below (case a of Again \<Rightarrow> m1 | Return i \<Rightarrow> f i | Need \<Rightarrow> m2) (case a of Again \<Rightarrow> m1' | Return i \<Rightarrow> f' i | Need \<Rightarrow> m2')"
  by (cases a) simp_all

lemma tls_read_loop_below: "n \<le> k \<Longrightarrow> below (tls_read_loop n sz acc) (tls_read_loop k sz acc)"
proof (induction n k arbitrary: sz acc rule: le_pair_induct)
  case (suc n m)
  show ?case unfolding tls_read_loop.simps by (intro below_intro suc.IH suc.hyps)
qed simp

section \<open>The programs\<close>

lemma ReadData_below: "n \<le> k \<Longrightarrow> below (ReadData n l d) (ReadData k l d)"
  unfolding ReadData_def by (intro below_intro ReadData_loop_below)

lemma receive_buffers_below: "n \<le> k \<Longrightarrow> below (receive_buffers n bs hr t) (receive_buffers k bs hr t)"
  by (induction bs arbitrary: hr t) (auto simp: Let_def intro!: below_intro ReadData_below)

lemma process_action_below: "n \<le> k \<Longrightarrow> below (process_action n a bs hr) (process_action k a bs hr)"
  by (cases a) (simp_all add: process_action_def below_andthen receive_buffers_below)

lemma RunLoop_rounds_below: "n \<le> k \<Longrightarrow> below (RunLoop_rounds n x v b) (RunLoop_rounds k x v b)"
proof (induction n k arbitrary: v b rule: le_pair_induct)
  case (suc n m)
  show ?case unfolding RunLoop_rounds.simps by (intro below_intro suc.IH suc.hyps process_action_below)
qed simp

lemma RunLoop_below: "n \<le> k \<Longrightarrow> below (RunLoop n x) (RunLoop k x)"
  unfolding RunLoop_def by (rule RunLoop_rounds_below)

lemma PerformDataExchange_below: "n \<le> k \<Longrightarrow> below (PerformDataExchange n c s) (PerformDataExchange k c s)"
  unfolding PerformDataExchange_def by (intro below_intro RunLoop_below)

lemma wmain_below: "n \<le> k \<Longrightarrow> below (wmain n) (wmain k)"
  unfolding wmain_def by (intro below_intro PerformDataExchange_below)

lemma FinishReading_below: "n \<le> k \<Longrightarrow> below (FinishReading n a) (FinishReading k a)"
  unfolding FinishReading_def by (intro below_intro FinishReading_loop_below)

lemma ServerProc_below: "n \<le> k \<Longrightarrow> below (ServerProc n p) (ServerProc k p)"
  unfolding ServerProc_def Nonblocking_WritePipe_def by (intro below_intro Wait_msg_below)

lemma ClientProc_below: "n \<le> k \<Longrightarrow> below (ClientProc n p) (ClientProc k p)"
  unfolding ClientProc_def Nonblocking_ReadPipe_def by (intro below_intro Nonblocking_loop_below)

lemma Msg_main_below: "n \<le> k \<Longrightarrow> below (Msg_main n) (Msg_main k)"
  unfolding Msg_main_def ReadWithHeader_def Msg_ReadPipe_def by (intro below_intro Msg_loop_below)

lemma reserve_main_below: "n \<le> k \<Longrightarrow> below (reserve_main n) (reserve_main k)"
  unfolding reserve_main_def by (intro below_intro write_all_below)

lemma coroutine_main_below: "n \<le> k \<Longrightarrow> below (coroutine_main n argv) (coroutine_main k argv)"
  unfolding coroutine_main_def EchoCoroutine.Client_Run_def Server_Run_def with_loop_def EchoCoroutine.client_body_def serve_def by (intro below_intro IoEventLoop_below)

lemma wWinMain_below: "n \<le> k \<Longrightarrow> below (wWinMain n c) (wWinMain k c)"
  unfolding wWinMain_def show_windows_def by (intro below_intro message_loop_below)

lemma sspi_client_main_below: "n \<le> k \<Longrightarrow> below (client_main n) (client_main k)"
  unfolding client_main_def ConnectAuthSocket_def client_DoAuthentication_def by (intro below_intro ReceiveBytes_below client_handshake_below SendMsg_below)

lemma AcceptAuthSocket_below: "n \<le> k \<Longrightarrow> below (AcceptAuthSocket n) (AcceptAuthSocket k)"
  unfolding AcceptAuthSocket_def server_DoAuthentication_def by (intro below_intro server_handshake_below)

lemma serve_client_below: "n \<le> k \<Longrightarrow> below (serve_client n s) (serve_client k s)"
  unfolding serve_client_def by (intro below_intro SendBytes_below)

lemma serve_clients_below: "n \<le> k \<Longrightarrow> w \<le> v \<Longrightarrow> below (serve_clients n w) (serve_clients k v)"
proof (induction n k rule: le_pair_induct)
  case (suc n m)
  show ?case unfolding serve_clients.simps by (intro below_intro suc.IH suc.prems AcceptAuthSocket_below serve_client_below)
qed simp

lemma server_main_below: "n \<le> k \<Longrightarrow> below (server_main n n) (server_main k k)"
  unfolding server_main_def by (intro below_intro serve_clients_below)

lemma tls_connect_below: "n \<le> k \<Longrightarrow> below (tls_connect n) (tls_connect k)"
  unfolding tls_connect_def by (intro below_intro handshake_below)

lemma tls_disconnect_below: "n \<le> k \<Longrightarrow> below (tls_disconnect n) (tls_disconnect k)"
  unfolding tls_disconnect_def by (intro below_intro send_all_below)

lemma read_response_below: "n \<le> k \<Longrightarrow> w \<le> v \<Longrightarrow> below (read_response n w g) (read_response k v g)"
proof (induction n k arbitrary: g rule: le_pair_induct)
  case (suc n m)
  show ?case unfolding read_response.simps tls_read_def by (intro below_intro suc.IH suc.prems tls_read_loop_below)
qed simp

lemma tls_main_below: "n \<le> k \<Longrightarrow> below (tls_main n n) (tls_main k k)"
  unfolding tls_main_def by (intro below_intro tls_connect_below tls_write_below tls_disconnect_below read_response_below)

lemma lock_main_below: "n \<le> k \<Longrightarrow> below (lock_main argc n) (lock_main argc k)"
  unfolding lock_main_def ParentProcessMain_def with_lock_def StartChildProcess_def by (intro below_intro GetCurrentExecutablePath_below)

lemma exec_main_below: "n \<le> k \<Longrightarrow> below (exec_main n) (exec_main k)"
  unfolding exec_main_def Exec_def ReadFromPipe_def with_ptr_def by (intro below_intro ReadFromPipe_loop_below)

text \<open>
  The bounds on the rounds of the loops are no part of what the programs do: a program that ends under one
  bound makes the same calls, with the same outcome and the same globals, under every larger bound.  This holds
  of every program of the development that has a loop with a bound.
\<close>
theorem bounds_are_free:
  "bound_free wmain \<and> bound_free (\<lambda>n. ServerProc n p) \<and> bound_free (\<lambda>n. ClientProc n p) \<and> bound_free Msg_main \<and>
   bound_free reserve_main \<and> bound_free (\<lambda>n. coroutine_main n argv) \<and> bound_free (\<lambda>n. wWinMain n nCmdShow) \<and>
   bound_free (client_main :: nat \<Rightarrow> ('s, int) sspi) \<and> bound_free (\<lambda>n. server_main n n) \<and> bound_free (\<lambda>n. tls_main n n) \<and>
   bound_free (lock_main argc) \<and> bound_free exec_main \<and> bound_free (\<lambda>n. parent_main n args) \<and>
   bound_free (\<lambda>n. receiver_main n args) \<and> bound_free wmi_Run \<and>
   bound_free (\<lambda>n. websocket_main n errors_last)"
  by (intro conjI bound_free_of wmain_below ServerProc_below ClientProc_below Msg_main_below reserve_main_below
      coroutine_main_below wWinMain_below sspi_client_main_below server_main_below tls_main_below lock_main_below
      exec_main_below parent_main_below receiver_main_below wmi_Run_below websocket_main_below)

end
