(* ===== verification/Accounts.thy ===== *)
theory Accounts
  imports Effects
begin

text \<open>
  CreateUserAndGroup (Funcs.cpp, CreateUserAndGroup.cpp): a user and a local group are created, on a domain
  controller or on the machine itself, the user is put into the group, logged on, and both are deleted again.
  What is printed is left out.
\<close>

section \<open>The functions\<close>

text \<open>The first argument is the server: a buffer with its name, or 0 for the machine itself.\<close>

datatype netcall =
    NetGetDCName wstring
  | NetUserAdd HANDLE wstring wstring
  | NetLocalGroupAdd HANDLE wstring wstring
  | NetLocalGroupAddMembers HANDLE wstring wstring
  | NetApiBufferFree HANDLE
  | NetUserDel HANDLE wstring
  | NetLocalGroupDel HANDLE wstring
  | LogonUserW wstring wstring
  | CloseHandle HANDLE

datatype neterr = RuntimeError string

type_synonym 'a netio = "(unit, netcall, neterr, 'a) io"

abbreviation (input) NERR_UserExists :: DWORD where "NERR_UserExists \<equiv> 2224"
abbreviation (input) ERROR_ALIAS_EXISTS :: DWORD where "ERROR_ALIAS_EXISTS \<equiv> 1379"
abbreviation (input) ERROR_MEMBER_IN_ALIAS :: DWORD where "ERROR_MEMBER_IN_ALIAS \<equiv> 1378"

text \<open>The switches after the calls: one answer is as good as success.\<close>

definition tolerate :: "DWORD \<Rightarrow> resp \<Rightarrow> DWORD" where
  "tolerate exists r = (if status_of r = exists then 0 else status_of r)"

abbreviation (input) group_comment :: wstring where
  "group_comment \<equiv> wstr ''Sample local group.''"

definition NetSample :: "wstring \<Rightarrow> wstring \<Rightarrow> wstring \<Rightarrow> wstring \<Rightarrow> DWORD netio" where
  "NetSample lpszDomain lpszUser lpszPassword lpszLocalGroup = bnd (call (NetGetDCName lpszDomain)) (\<lambda>c.
     if status_of c \<noteq> 0 then ret (status_of c) else
     bnd (call (NetUserAdd (out c) lpszUser lpszPassword)) (\<lambda>u. if tolerate NERR_UserExists u \<noteq> 0
       then andthen (do_call (NetApiBufferFree (out c))) (ret (status_of u)) else
     bnd (call (NetLocalGroupAdd (out c) lpszLocalGroup group_comment)) (\<lambda>g. if tolerate ERROR_ALIAS_EXISTS g \<noteq> 0
       then andthen (do_call (NetApiBufferFree (out c))) (ret (status_of g)) else
     bnd (call (NetLocalGroupAddMembers (out c) lpszLocalGroup lpszUser)) (\<lambda>m.
       andthen (do_call (NetApiBufferFree (out c))) (ret (tolerate ERROR_MEMBER_IN_ALIAS m))))))"

definition NetSampleNoDc :: "wstring \<Rightarrow> wstring \<Rightarrow> wstring \<Rightarrow> DWORD netio" where
  "NetSampleNoDc lpszUser lpszPassword lpszLocalGroup =
     bnd (call (NetUserAdd 0 lpszUser lpszPassword)) (\<lambda>u. if tolerate NERR_UserExists u \<noteq> 0 then ret (status_of u) else
     bnd (call (NetLocalGroupAdd 0 lpszLocalGroup group_comment)) (\<lambda>g.
       if tolerate ERROR_ALIAS_EXISTS g \<noteq> 0 then ret (status_of g) else
     bnd (call (NetLocalGroupAddMembers 0 lpszLocalGroup lpszUser)) (\<lambda>m. ret (tolerate ERROR_MEMBER_IN_ALIAS m))))"

text \<open>The comment of the caller is not used.\<close>

definition CreateLocalGroup :: "wstring \<Rightarrow> wstring \<Rightarrow> DWORD netio" where
  "CreateLocalGroup groupName comment =
     bnd (call (NetLocalGroupAdd 0 groupName group_comment)) (\<lambda>g. ret (tolerate ERROR_ALIAS_EXISTS g))"

definition DeleteLocalUserAndGroup :: "wstring \<Rightarrow> wstring \<Rightarrow> unit netio" where
  "DeleteLocalUserAndGroup userName groupName =
     bnd (call (NetUserDel 0 userName)) (\<lambda>u. if status_of u \<noteq> 0 then throw (RuntimeError ''NetUserDel failed'') else
     bnd (call (NetLocalGroupDel 0 groupName)) (\<lambda>g.
       if status_of g \<noteq> 0 then throw (RuntimeError ''NetGroupDel failed'') else ret ()))"

definition LogonLocalUser :: "wstring \<Rightarrow> wstring \<Rightarrow> unit netio" where
  "LogonLocalUser lpszUser lpszPassword =
     bnd (call (LogonUserW lpszUser lpszPassword)) (\<lambda>l. whenM (out l \<noteq> 0) (do_call (CloseHandle (out l))))"

text \<open>An exception that leaves \<open>main\<close> ends the process.\<close>

definition accounts_main :: "int netio" where
  "accounts_main = try_catch
     (bnd (NetSampleNoDc (wstr ''SampleUser'') (wstr ''SamplePswd'') (wstr ''SampleLG'')) (\<lambda>err.
      andthen (LogonLocalUser (wstr ''SampleUser'') (wstr ''SamplePswd''))
     (andthen (DeleteLocalUserAndGroup (wstr ''SampleUser'') (wstr ''SampleLG'')) (ret 0))))
     (\<lambda>_. halt 3)"

section \<open>The accounts of a server\<close>

text \<open>The users and the groups with their members, and what a call that succeeds makes of them.\<close>

record accounts =
  users :: "wstring set"
  groups :: "wstring \<rightharpoonup> wstring set"

fun account_step :: "HANDLE \<Rightarrow> netcall \<Rightarrow> resp \<Rightarrow> accounts \<Rightarrow> accounts" where
  "account_step srv (NetUserAdd s u p) r d = (if s = srv \<and> status_of r = 0 then d\<lparr>users := insert u (users d)\<rparr> else d)"
| "account_step srv (NetLocalGroupAdd s g c) r d = (if s = srv \<and> status_of r = 0 then d\<lparr>groups := (groups d)(g \<mapsto> {})\<rparr> else d)"
| "account_step srv (NetLocalGroupAddMembers s g u) r d = (if s = srv \<and> status_of r = 0
     then d\<lparr>groups := (groups d)(g := map_option (insert u) (groups d g))\<rparr> else d)"
| "account_step srv (NetUserDel s u) r d = (if s = srv \<and> status_of r = 0 then d\<lparr>users := users d - {u}\<rparr> else d)"
| "account_step srv (NetLocalGroupDel s g) r d = (if s = srv \<and> status_of r = 0 then d\<lparr>groups := (groups d)(g := None)\<rparr> else d)"
| "account_step srv _ r d = d"

fun accounts_after :: "HANDLE \<Rightarrow> accounts \<Rightarrow> netcall history \<Rightarrow> accounts" where
  "accounts_after srv d [] = d"
| "accounts_after srv d ((c, r) # h) = accounts_after srv (account_step srv c r d) h"

text \<open>
  What the answers say about the accounts, as the functions are documented: a user or group that is created
  was not there, one that is said to exist was, and so for the members.  A call may always fail otherwise.
\<close>

fun answer_ok :: "HANDLE \<Rightarrow> accounts \<Rightarrow> netcall \<Rightarrow> resp \<Rightarrow> bool" where
  "answer_ok srv d (NetUserAdd s u p) r = (s = srv \<longrightarrow> (status_of r = 0 \<longrightarrow> u \<notin> users d) \<and>
     (status_of r = NERR_UserExists \<longrightarrow> u \<in> users d))"
| "answer_ok srv d (NetLocalGroupAdd s g c) r = (s = srv \<longrightarrow> (status_of r = 0 \<longrightarrow> groups d g = None) \<and>
     (status_of r = ERROR_ALIAS_EXISTS \<longrightarrow> groups d g \<noteq> None))"
| "answer_ok srv d (NetLocalGroupAddMembers s g u) r = (s = srv \<longrightarrow>
     (status_of r = 0 \<longrightarrow> (\<exists>M. groups d g = Some M \<and> u \<notin> M)) \<and>
     (status_of r = ERROR_MEMBER_IN_ALIAS \<longrightarrow> (\<exists>M. groups d g = Some M \<and> u \<in> M)))"
| "answer_ok srv d (NetUserDel s u) r = (s = srv \<and> status_of r = 0 \<longrightarrow> u \<in> users d)"
| "answer_ok srv d (NetLocalGroupDel s g) r = (s = srv \<and> status_of r = 0 \<longrightarrow> groups d g \<noteq> None)"
| "answer_ok srv d _ r = True"

fun consistent :: "HANDLE \<Rightarrow> accounts \<Rightarrow> netcall history \<Rightarrow> bool" where
  "consistent srv d [] = True"
| "consistent srv d ((c, r) # h) = (answer_ok srv d c r \<and> consistent srv (account_step srv c r d) h)"

lemma after_append [simp]: "accounts_after srv d (g @ h) = accounts_after srv (accounts_after srv d g) h"
  by (induction srv d g rule: accounts_after.induct) simp_all

lemma consistent_append [simp]:
  "consistent srv d (g @ h) = (consistent srv d g \<and> consistent srv (accounts_after srv d g) h)"
  by (induction srv d g rule: consistent.induct) simp_all

text \<open>What the functions are to do, and how far they may have come when they fail.\<close>

definition with_user :: "wstring \<Rightarrow> accounts \<Rightarrow> accounts" where
  "with_user u d = d\<lparr>users := insert u (users d)\<rparr>"

definition with_group :: "wstring \<Rightarrow> accounts \<Rightarrow> accounts" where
  "with_group g d = (if groups d g = None then d\<lparr>groups := (groups d)(g \<mapsto> {})\<rparr> else d)"

definition with_member :: "wstring \<Rightarrow> wstring \<Rightarrow> accounts \<Rightarrow> accounts" where
  "with_member u g d = d\<lparr>groups := (groups d)(g := map_option (insert u) (groups d g))\<rparr>"

definition enrolled :: "wstring \<Rightarrow> wstring \<Rightarrow> accounts \<Rightarrow> accounts" where
  "enrolled u g d = with_member u g (with_group g (with_user u d))"

definition cleared :: "wstring \<Rightarrow> wstring \<Rightarrow> accounts \<Rightarrow> accounts" where
  "cleared u g d = d\<lparr>users := users d - {u}, groups := (groups d)(g := None)\<rparr>"

lemmas account_defs = with_user_def with_group_def with_member_def

lemma enrolled_twice: "enrolled u g (enrolled u g d) = enrolled u g d"
  by (cases "groups d g") (simp_all add: enrolled_def account_defs fun_upd_idem_iff)

lemma cleared_enrolled: "cleared u g (enrolled u g d) = cleared u g d"
  by (simp add: cleared_def enrolled_def account_defs)

lemma cleared_id_iff: "cleared u g d = d \<longleftrightarrow> u \<notin> users d \<and> groups d g = None"
  by (cases d) (auto simp: cleared_def fun_upd_idem_iff)

lemma user_exists: "u \<in> users d \<Longrightarrow> with_user u d = d"
  by (simp add: with_user_def insert_absorb)

lemma member_exists: "groups d g = Some M \<Longrightarrow> u \<in> M \<Longrightarrow> with_member u g d = d"
  by (simp add: with_member_def insert_absorb fun_upd_idem)

text \<open>Single calls.\<close>

lemma user_added:
  "answer_ok srv d (NetUserAdd srv u p) r \<Longrightarrow> account_step srv (NetUserAdd srv u p) r d =
     (if tolerate NERR_UserExists r = 0 then with_user u d else d)"
  by (auto simp: tolerate_def with_user_def insert_absorb)

lemma group_added:
  "answer_ok srv d (NetLocalGroupAdd srv g c) r \<Longrightarrow> account_step srv (NetLocalGroupAdd srv g c) r d =
     (if tolerate ERROR_ALIAS_EXISTS r = 0 then with_group g d else d)"
  by (auto simp: tolerate_def with_group_def)

lemma member_added:
  "answer_ok srv d (NetLocalGroupAddMembers srv g u) r \<Longrightarrow> account_step srv (NetLocalGroupAddMembers srv g u) r d =
     (if tolerate ERROR_MEMBER_IN_ALIAS r = 0 then with_member u g d else d)"
  by (auto simp: tolerate_def with_member_def insert_absorb fun_upd_idem)

section \<open>Creation\<close>

definition enrol_post :: "HANDLE \<Rightarrow> wstring \<Rightarrow> wstring \<Rightarrow> DWORD \<Rightarrow> netcall history \<Rightarrow> bool" where
  "enrol_post srv u g err h \<longleftrightarrow> (\<forall>d. consistent srv d h \<longrightarrow>
     (if err = 0 then accounts_after srv d h = enrolled u g d
      else accounts_after srv d h \<in> {d, with_user u d, with_group g (with_user u d)}))"

lemma tolerate_nonzero: "tolerate x r \<noteq> 0 \<Longrightarrow> status_of r \<noteq> 0"
  by (auto simp: tolerate_def split: if_splits)

lemma NetSampleNoDc_appends:
  "appends (NetSampleNoDc u p g) (\<lambda>oc h. \<exists>err. oc = Val err \<and> enrol_post 0 u g err h)"
  unfolding NetSampleNoDc_def enrol_post_def
  by (intro appends_intro)
    (auto simp: user_added group_added member_added enrolled_def tolerate_nonzero
      simp del: answer_ok.simps(1,2,3) account_step.simps(1,2,3))

interpretation net: handles_api
  "\<lambda>c r. case c of NetGetDCName d \<Rightarrow> if status_of r = 0 then {#(True, out r)#} else {#}
     | LogonUserW u p \<Rightarrow> if out r \<noteq> 0 then {#(False, out r)#} else {#} | _ \<Rightarrow> {#}"
  "\<lambda>c. case c of NetApiBufferFree x \<Rightarrow> Some (True, x) | CloseHandle x \<Rightarrow> Some (False, x) | _ \<Rightarrow> None"
  by unfold_locales (auto split: netcall.splits)

lemma NetSample_appends:
  "appends (NetSample dmn u p g) (\<lambda>oc h. \<exists>err. oc = Val err \<and> net.balanced h \<and>
     (\<exists>c h'. h = (NetGetDCName dmn, c) # h' \<and> (if status_of c = 0 then enrol_post (out c) u g err h' else err \<noteq> 0)))"
  unfolding NetSample_def enrol_post_def
  by (intro appends_intro)
    (auto simp: user_added group_added member_added enrolled_def tolerate_nonzero net.balanced_def
      simp del: answer_ok.simps(1,2,3) account_step.simps(1,2,3))

lemma LogonLocalUser_appends:
  "appends (LogonLocalUser u p) (\<lambda>oc h. oc = Val () \<and> net.balanced h \<and>
     (\<forall>srv d. consistent srv d h \<and> accounts_after srv d h = d))"
  unfolding LogonLocalUser_def by (intro appends_intro) (auto simp: net.balanced_def)

lemma Delete_appends:
  "appends (DeleteLocalUserAndGroup u g) (\<lambda>oc h. \<forall>d. consistent 0 d h \<longrightarrow>
     (oc = Val () \<and> accounts_after 0 d h = cleared u g d) \<or> (\<exists>e. oc = Exn e) \<and>
       accounts_after 0 d h \<in> {d, d\<lparr>users := users d - {u}\<rparr>})"
  unfolding DeleteLocalUserAndGroup_def by (intro appends_intro) (auto simp: cleared_def)

lemma NetSampleNoDc_balanced: "appends (NetSampleNoDc u p g) (\<lambda>oc h. net.balanced h)"
  unfolding NetSampleNoDc_def by (intro appends_intro) (auto simp: net.balanced_def)

lemma enrol_post_cleared:
  assumes "enrol_post 0 u g err h" "consistent 0 d h"
  shows "cleared u g (accounts_after 0 d h) = cleared u g d"
  using assms by (cases "err = 0")
    (auto simp: enrol_post_def cleared_enrolled, auto simp: cleared_def account_defs)

definition ends_cleared :: "(neterr, int) outcome \<Rightarrow> netcall history \<Rightarrow> bool" where
  "ends_cleared oc h \<longleftrightarrow> (\<forall>d. consistent 0 d h \<longrightarrow> (\<exists>e. oc = Exn e) \<or>
     oc = Val 0 \<and> accounts_after 0 d h = cleared (wstr ''SampleUser'') (wstr ''SampleLG'') d)"

lemma clearing_appends:
  assumes "enrol_post 0 (wstr ''SampleUser'') (wstr ''SampleLG'') err h"
  shows "appends (andthen (LogonLocalUser (wstr ''SampleUser'') (wstr ''SamplePswd''))
    (andthen (DeleteLocalUserAndGroup (wstr ''SampleUser'') (wstr ''SampleLG'')) (ret 0))) (\<lambda>oc h'. ends_cleared oc (h @ h'))"
  by (rule appends_andthen[OF LogonLocalUser_appends], rule appends_andthen[OF Delete_appends], rule appends_ret)
    (use enrol_post_cleared[OF assms] in \<open>auto simp: ends_cleared_def\<close>)

text \<open>A return of 0 by \<open>main\<close> is that of the deletion, whatever the other calls have answered.\<close>

lemma accounts_main_clears:
  "appends accounts_main (\<lambda>oc h. \<forall>d. consistent 0 d h \<longrightarrow> oc = Halted 3 \<or> oc = Val 0 \<and>
     accounts_after 0 d h = cleared (wstr ''SampleUser'') (wstr ''SampleLG'') d)"
proof -
  have "appends (bnd (NetSampleNoDc (wstr ''SampleUser'') (wstr ''SamplePswd'') (wstr ''SampleLG'')) (\<lambda>err.
      andthen (LogonLocalUser (wstr ''SampleUser'') (wstr ''SamplePswd''))
     (andthen (DeleteLocalUserAndGroup (wstr ''SampleUser'') (wstr ''SampleLG'')) (ret 0)))) ends_cleared"
    by (rule appends_bnd_Val[OF NetSampleNoDc_appends clearing_appends])
  then show ?thesis
    unfolding accounts_main_def by (rule appends_try_catch, intro appends_intro) (auto simp: ends_cleared_def)
qed

section \<open>Properties\<close>

text \<open>
  C39: A return of 0 means that the accounts of the server are those before with the user, the group, which keeps
  its other members, and the user in it, so that a second run changes nothing; any other return means that at
  most the user and the empty group have been added.  This holds with and without a domain controller, whose buffer
  is freed once on every path.
\<close>
theorem sample_enrols:
  "(\<exists>err h'. NetSampleNoDc u p g os s h = (Val err, s, h @ h') \<and> (\<forall>d. consistent 0 d h' \<longrightarrow>
      (if err = 0 then accounts_after 0 d h' = enrolled u g d
       else accounts_after 0 d h' \<in> {d, with_user u d, with_group g (with_user u d)}))) \<and>
   (\<exists>err c h'. NetSample dmn u p g os s h = (Val err, s, h @ (NetGetDCName dmn, c) # h') \<and>
      net.balanced ((NetGetDCName dmn, c) # h') \<and> (status_of c \<noteq> 0 \<longrightarrow> err \<noteq> 0) \<and>
      (\<forall>d. status_of c = 0 \<and> consistent (out c) d h' \<longrightarrow>
      (if err = 0 then accounts_after (out c) d h' = enrolled u g d
       else accounts_after (out c) d h' \<in> {d, with_user u d, with_group g (with_user u d)}))) \<and>
   enrolled u g (enrolled u g d0) = enrolled u g d0"
  using appendsD[OF NetSampleNoDc_appends, of u p g os s h] appendsD[OF NetSample_appends, of dmn u p g os s h] enrolled_twice
  by (auto simp: enrol_post_def split: if_splits)

text \<open>The program leaves the accounts as they were only when neither the user nor the group existed before it.\<close>

lemma main_restores_iff:
  "appends accounts_main (\<lambda>oc h. \<forall>d. consistent 0 d h \<and> oc = Val 0 \<longrightarrow>
     (accounts_after 0 d h = d \<longleftrightarrow> wstr ''SampleUser'' \<notin> users d \<and> groups d (wstr ''SampleLG'') = None))"
  by (rule appends_mono[OF accounts_main_clears]) (auto simp: cleared_id_iff)

section \<open>Witnesses\<close>

definition all_zero :: "netcall os" where
  "all_zero h c = fail_resp"

lemmas net_eval = bnd_def call_def ret_def andthen_def do_call_def tolerate_def all_zero_def status_of_def

lemma sample_enrols_witness:
  "\<exists>h'. NetSampleNoDc [1] [2] [3] all_zero () [] = (Val 0, (), h') \<and>
     accounts_after 0 \<lparr>users = {}, groups = Map.empty\<rparr> h' = \<lparr>users = {[1]}, groups = [[3] \<mapsto> {[1]}]\<rparr>"
proof -
  obtain h' where r: "NetSampleNoDc [1] [2] [3] all_zero () [] = (Val 0, (), h')"
    and c: "consistent 0 \<lparr>users = {}, groups = Map.empty\<rparr> h'"
    by (simp add: NetSampleNoDc_def net_eval)
  have "accounts_after 0 \<lparr>users = {}, groups = Map.empty\<rparr> h' = enrolled [1] [3] \<lparr>users = {}, groups = Map.empty\<rparr>"
    using sample_enrols[of "[1]" "[2]" "[3]" all_zero "()" "[]" "[]"] r c by auto
  then show ?thesis using r by (simp add: enrolled_def account_defs)
qed

end
