(* ===== verification/Certificates.thy ===== *)
theory Certificates
  imports Effects
begin

unbundle bit_operations_syntax

text \<open>
  CertEncodeDecode, SettingAndGettingCertStoreProperties, ExportImportCertificate and CreateDacl: programs about
  certificates and descriptors that end at the first failure.  What is printed is left out, but for the text
  of the encoded name.
\<close>

section \<open>System calls\<close>

datatype crcall =
    GetLastError
  | malloc DWORD
  | free HANDLE
  | CryptEncodeObjectEx HANDLE
  | CryptDecodeObjectEx HANDLE DWORD HANDLE
  | printf_text "BYTE list"
  | CreateEvent
  | WaitForSingleObjectEx HANDLE
  | CertOpenStore
  | CertOpenSystemStore string
  | CertCloseStore HANDLE bool
  | CertSetStoreProperty HANDLE
  | CertGetStoreProperty HANDLE HANDLE
  | CryptFindLocalizedName
  | CertSaveStoreToFile HANDLE
  | CertSaveStoreToMemory HANDLE HANDLE
  | CryptGetMessageSignerCount HANDLE DWORD
  | CryptGetMessageCertificates HANDLE DWORD
  | CryptHashMessage HANDLE DWORD HANDLE
  | CertControlStore HANDLE bool HANDLE
  | CertStrToName
  | CertFindCertificateInStore HANDLE "BYTE list"
  | CertFreeCertificateContext HANDLE
  | CryptUIWizExport HANDLE HANDLE
  | FormatMessage DWORD
  | LocalFree HANDLE
  | ConvertStringSecurityDescriptor
  | CreateDirectory HANDLE

type_synonym 'a crio = "(unit, crcall, unit, 'a) io"

section \<open>CertEncodeDecode\<close>

definition encode_error :: "'a crio" where
  "encode_error = halt 1"

definition hex_char :: "int \<Rightarrow> BYTE" where
  "hex_char b = (if b \<le> 9 then word_of_int (b + 48) else word_of_int ((b - 10) + 65))"

text \<open>The loop: three characters for each byte.\<close>

fun hex_loop :: "BYTE list \<Rightarrow> BYTE list" where
  "hex_loop [] = []"
| "hex_loop (pb # bs) = hex_char (uint (drop_bit 4 (pb AND 0xF0))) # hex_char (uint (pb AND 0x0F)) # 32 # hex_loop bs"

text \<open>
  \<open>sz\<close> are the characters of the buffer, which nobody has written before: without a zero among them \<open>strlen\<close> reads
  on.  A loop that leaves the buffer is a fault.
\<close>

definition ByteToStr :: "DWORD \<Rightarrow> BYTE list \<Rightarrow> BYTE list \<Rightarrow> BYTE list crio" where
  "ByteToStr cb pv sz = (if 0 \<notin> set sz then fault else
     if length (takeWhile (\<lambda>c. c \<noteq> 0) sz) < unat cb then encode_error else
     if length sz < length (hex_loop (take (unat cb) pv)) + 1 then fault
     else ret (overwrite 0 (hex_loop (take (unat cb) pv) @ [0]) sz))"

text \<open>The buffer of 512 characters is what the allocation finds there; the encoding is written with its length.\<close>

definition fresh_text :: "resp \<Rightarrow> BYTE list" where
  "fresh_text r = take 512 (buf r @ replicate 512 0)"

definition encoded :: "resp \<Rightarrow> DWORD \<Rightarrow> BYTE list" where
  "encoded r cb = take (unat cb) (buf r @ replicate (unat cb) 0)"

definition encode_decode_main :: "int crio" where
  "encode_decode_main = bnd (call (malloc 512)) (\<lambda>m. if rv m = 0 then encode_error else
     bnd (call (CryptEncodeObjectEx 0)) (\<lambda>n. if status_of n = 0 then encode_error else
     bnd (call (malloc (ucast (out n)))) (\<lambda>e. if rv e = 0 then encode_error else
     bnd (call (CryptEncodeObjectEx (rv e))) (\<lambda>w. if status_of w = 0 then encode_error else
     bnd (ByteToStr (ucast (out w)) (encoded w (ucast (out w))) (fresh_text m)) (\<lambda>sz.
     andthen (do_call (printf_text (takeWhile (\<lambda>c. c \<noteq> 0) sz)))
    (bnd (call (CryptDecodeObjectEx (rv e) (ucast (out w)) 0)) (\<lambda>s. if status_of s = 0 then encode_error else
     bnd (call (malloc (ucast (out s)))) (\<lambda>d. if rv d = 0 then encode_error else
     bnd (call (CryptDecodeObjectEx (rv e) (ucast (out w)) (rv d))) (\<lambda>v. if status_of v = 0 then encode_error else
     andthen (do_call (free (rv m))) (andthen (do_call (free (rv e))) (andthen (do_call (free (rv d))) (ret 0))))))))))))"

section \<open>SettingAndGettingCertStoreProperties\<close>

definition MyHandleError :: "'a crio" where
  "MyHandleError = bnd (call GetLastError) (\<lambda>_. halt 1)"

text \<open>A call that must return true, and one that must return a pointer or handle.\<close>

definition must :: "crcall \<Rightarrow> (resp \<Rightarrow> 'a crio) \<Rightarrow> 'a crio" where
  "must c k = bnd (call c) (\<lambda>r. if status_of r = 0 then MyHandleError else k r)"

definition must_have :: "crcall \<Rightarrow> (HANDLE \<Rightarrow> 'a crio) \<Rightarrow> 'a crio" where
  "must_have c k = bnd (call c) (\<lambda>r. if rv r = 0 then MyHandleError else k (rv r))"

definition store_name :: "HANDLE \<Rightarrow> (HANDLE \<Rightarrow> 'a crio) \<Rightarrow> 'a crio" where
  "store_name hCertStore k = must (CertSetStoreProperty hCertStore) (\<lambda>_.
     must (CertGetStoreProperty hCertStore 0) (\<lambda>n.
     must_have (malloc (ucast (out n))) (\<lambda>pvData.
     must (CertGetStoreProperty hCertStore pvData) (\<lambda>_.
     andthen (do_call CryptFindLocalizedName) (k pvData)))))"

text \<open>The store as a message: its memory and its length.\<close>

definition save_store :: "HANDLE \<Rightarrow> (HANDLE \<Rightarrow> DWORD \<Rightarrow> 'a crio) \<Rightarrow> 'a crio" where
  "save_store hCertStore k = must (CertSaveStoreToFile hCertStore) (\<lambda>_.
     must (CertSaveStoreToMemory hCertStore 0) (\<lambda>n.
     must_have (malloc (ucast (out n))) (\<lambda>pbData.
     must (CertSaveStoreToMemory hCertStore pbData) (\<lambda>w. k pbData (ucast (out w))))))"

definition hash_message :: "HANDLE \<Rightarrow> DWORD \<Rightarrow> (HANDLE \<Rightarrow> 'a crio) \<Rightarrow> 'a crio" where
  "hash_message pbData cbData k = must (CryptHashMessage pbData cbData 0) (\<lambda>n.
     must_have (malloc (ucast (out n))) (\<lambda>pbHashedBlob.
     must (CryptHashMessage pbData cbData pbHashedBlob) (\<lambda>_. k pbHashedBlob)))"

definition store_main :: "int crio" where
  "store_main = must_have CreateEvent (\<lambda>hEvent.
     must_have CertOpenStore (\<lambda>hCertStore.
     store_name hCertStore (\<lambda>pvData.
     save_store hCertStore (\<lambda>pbData cbData.
     bnd (call (CryptGetMessageSignerCount pbData cbData)) (\<lambda>_.
     must_have (CryptGetMessageCertificates pbData cbData) (\<lambda>hNewStore.
     hash_message pbData cbData (\<lambda>pbHashedBlob.
     must (CertControlStore hCertStore False hEvent) (\<lambda>_.
     bnd (call (WaitForSingleObjectEx hEvent)) (\<lambda>w.
     bnd (if status_of w = 0 then must (CertControlStore hCertStore True hEvent) (\<lambda>_. ret ()) else ret ()) (\<lambda>_.
     andthen (do_call (free pbHashedBlob)) (andthen (whenM (pvData \<noteq> 0) (do_call (free pvData)))
       (must (CertCloseStore hCertStore True) (\<lambda>_. ret 0)))))))))))))"

section \<open>ExportImportCertificate\<close>

definition GetErrorCodeString :: "DWORD \<Rightarrow> unit crio" where
  "GetErrorCodeString errorCode = bnd (call (FormatMessage errorCode)) (\<lambda>m. whenM (out m \<noteq> 0) (do_call (LocalFree (out m))))"

text \<open>The deleter of a \<open>shared_ptr\<close> that was made from a pointer runs for a null pointer as well.\<close>

definition MakeStorePtr :: "HANDLE \<Rightarrow> 'a crio \<Rightarrow> 'a crio" where
  "MakeStorePtr store m = finally_do m (do_call (CertCloseStore store False))"

definition MakeCertPtr :: "HANDLE \<Rightarrow> 'a crio \<Rightarrow> 'a crio" where
  "MakeCertPtr ctx m = finally_do m (do_call (CertFreeCertificateContext ctx))"

definition last_error :: "DWORD crio" where
  "last_error = bnd (call GetLastError) (\<lambda>e. ret (status_of e))"

definition described_error :: "DWORD crio" where
  "described_error = bnd (call GetLastError) (\<lambda>e. andthen (GetErrorCodeString (status_of e)) (ret (status_of e)))"

definition export_main :: "DWORD crio" where
  "export_main = bnd (call (CertOpenSystemStore ''MY'')) (\<lambda>my. MakeStorePtr (rv my) (if rv my = 0 then last_error else
     bnd (call (CertOpenSystemStore ''ROOT'')) (\<lambda>root. MakeStorePtr (rv root) (if rv root = 0 then last_error else
     bnd (call CertStrToName) (\<lambda>n. if status_of n = 0 then described_error else
     if (ucast (out n) :: DWORD) = 0 then fault else
     bnd (call (CertFindCertificateInStore (rv my) (encoded n (ucast (out n))))) (\<lambda>c. MakeCertPtr (rv c)
       (if rv c = 0 then last_error else
        bnd (call (CryptUIWizExport (rv c) (rv root))) (\<lambda>x. if status_of x = 0 then described_error else ret 0))))))))"

section \<open>CreateDacl\<close>

text \<open>The argument is the address of the attributes; the value is the descriptor, when there is one.\<close>

definition CreateMyDACL :: "HANDLE \<Rightarrow> HANDLE option crio" where
  "CreateMyDACL pSA = (if pSA = 0 then ret None else
     bnd (call ConvertStringSecurityDescriptor) (\<lambda>r. ret (if status_of r = 0 then None else Some (out r))))"

definition dacl_main :: "HANDLE \<Rightarrow> int crio" where
  "dacl_main sa = bnd (CreateMyDACL sa) (\<lambda>d. case d of None \<Rightarrow> halt 1 | Some lpSecurityDescriptor \<Rightarrow>
     bnd (call (CreateDirectory lpSecurityDescriptor)) (\<lambda>c. if status_of c = 0 then halt 1 else
     bnd (call (LocalFree lpSecurityDescriptor)) (\<lambda>f. if rv f \<noteq> 0 then halt 1 else ret 0)))"

section \<open>What the text says\<close>

text \<open>Reading the text back.\<close>

definition hex_value :: "BYTE \<Rightarrow> int" where
  "hex_value c = (if uint c \<le> 57 then uint c - 48 else uint c - 55)"

fun hex_read :: "BYTE list \<Rightarrow> BYTE list" where
  "hex_read (a # b # s # cs) = word_of_int (16 * hex_value a + hex_value b) # hex_read cs"
| "hex_read _ = []"

lemma uint_small_byte: "0 \<le> k \<Longrightarrow> k < 256 \<Longrightarrow> uint (word_of_int k :: BYTE) = k"
  by (simp add: uint_word_of_int)

lemma uint_hex_char:
  assumes "0 \<le> n" "n < 16"
  shows "uint (hex_char n) = (if n \<le> 9 then n + 48 else n + 55)"
  using assms uint_small_byte[of "n + 48"] uint_small_byte[of "n - 10 + 65"] by (simp add: hex_char_def)

lemma hex_value_char: "0 \<le> n \<Longrightarrow> n < 16 \<Longrightarrow> hex_value (hex_char n) = n"
  by (simp add: hex_value_def uint_hex_char)

lemma high_nibble: "uint (drop_bit 4 ((b :: BYTE) AND 0xF0)) = uint b div 16"
proof -
  have "drop_bit 4 (b AND 0xF0) = drop_bit 4 b"
  proof (rule bit_word_eqI)
    fix n assume "n < LENGTH(8)"
    then consider "n = 0" | "n = 1" | "n = 2" | "n = 3" | "4 \<le> n" by force
    then show "bit (drop_bit 4 (b AND 0xF0)) n = bit (drop_bit 4 b) n"
      by cases (auto simp: bit_simps numeral_eq_Suc dest: bit_imp_le_length)
  qed
  then show ?thesis by (simp add: drop_bit_eq_div uint_div_distrib)
qed

lemma low_nibble: "uint ((b :: BYTE) AND 0x0F) = uint b mod 16"
proof -
  have "b AND 0x0F = take_bit 4 b" by (simp add: take_bit_eq_mask mask_eq_exp_minus_1)
  then show ?thesis by (simp add: take_bit_eq_mod uint_mod_distrib)
qed

lemma hex_roundtrip: "hex_read (hex_loop bs) = bs"
proof (induction bs)
  case (Cons b bs)
  have "uint b < 256" using uint_lt2p[of b] by simp
  then have "hex_value (hex_char (uint b div 16)) = uint b div 16" "hex_value (hex_char (uint b mod 16)) = uint b mod 16"
    by (auto intro!: hex_value_char simp: div_int_pos_iff)
  moreover have "16 * (uint b div 16) + uint b mod 16 = uint b" by simp
  ultimately show ?case
    using Cons unfolding hex_loop.simps hex_read.simps high_nibble low_nibble by (metis word_of_int_uint)
qed simp

lemma length_hex_loop: "length (hex_loop bs) = 3 * length bs"
  by (induction bs) simp_all

lemma hex_char_nonzero: "0 \<le> n \<Longrightarrow> n < 16 \<Longrightarrow> hex_char n \<noteq> 0"
  using uint_hex_char[of n] by (cases "n \<le> 9") auto

lemma hex_loop_nonzero: "0 \<notin> set (hex_loop bs)"
proof (induction bs)
  case (Cons b bs)
  have "uint b < 256" using uint_lt2p[of b] by simp
  then show ?case using Cons hex_char_nonzero[of "uint b div 16"] hex_char_nonzero[of "uint b mod 16"]
    unfolding hex_loop.simps high_nibble low_nibble by (auto simp: div_int_pos_iff)
qed simp

text \<open>
  The text is the bytes, and reads back as them; the test for room lets bytes pass that do not fit.
\<close>

lemma ByteToStr_cases:
  assumes "length pv = unat cb" "0 \<in> set sz"
  shows "ByteToStr cb pv sz = (if length (takeWhile (\<lambda>c. c \<noteq> 0) sz) < length pv then encode_error
      else if length sz < 3 * length pv + 1 then fault else ret (hex_loop pv @ 0 # drop (3 * length pv + 1) sz))"
    and "hex_read (takeWhile (\<lambda>c. c \<noteq> 0) (hex_loop pv @ 0 # xs)) = pv"
proof -
  show "ByteToStr cb pv sz = (if length (takeWhile (\<lambda>c. c \<noteq> 0) sz) < length pv then encode_error
      else if length sz < 3 * length pv + 1 then fault else ret (hex_loop pv @ 0 # drop (3 * length pv + 1) sz))"
    using assms by (simp add: ByteToStr_def length_hex_loop overwrite_def)
  have "takeWhile (\<lambda>c. c \<noteq> 0) (hex_loop pv @ 0 # xs) = hex_loop pv"
    using hex_loop_nonzero[of pv] by (auto simp: takeWhile_append)
  then show "hex_read (takeWhile (\<lambda>c. c \<noteq> 0) (hex_loop pv @ 0 # xs)) = pv" by (simp add: hex_roundtrip)
qed

lemma guard_is_not_enough: "ByteToStr 171 (replicate 171 0) (replicate 511 1 @ [0]) = fault"
  using ByteToStr_cases(1)[of "replicate 171 0" 171 "replicate 511 1 @ [0]"] by (simp add: takeWhile_append)

lemma fresh_zeros_are_an_error: "0 < unat cb \<Longrightarrow> ByteToStr cb pv (replicate 512 0) = encode_error"
  by (simp add: ByteToStr_def)

section \<open>What is given back\<close>

datatype crresource = Memory HANDLE | Event HANDLE | Store HANDLE | Context HANDLE | LocalMemory HANDLE

definition unless_null :: "(HANDLE \<Rightarrow> crresource) \<Rightarrow> HANDLE \<Rightarrow> crresource option" where
  "unless_null f x = (if x = 0 then None else Some (f x))"

fun cr_opens :: "crcall \<Rightarrow> resp \<Rightarrow> crresource option" where
  "cr_opens (malloc n) r = unless_null Memory (rv r)"
| "cr_opens CreateEvent r = unless_null Event (rv r)"
| "cr_opens CertOpenStore r = unless_null Store (rv r)"
| "cr_opens (CertOpenSystemStore n) r = unless_null Store (rv r)"
| "cr_opens (CryptGetMessageCertificates p n) r = unless_null Store (rv r)"
| "cr_opens (CertFindCertificateInStore x b) r = unless_null Context (rv r)"
| "cr_opens (FormatMessage e) r = unless_null LocalMemory (out r)"
| "cr_opens ConvertStringSecurityDescriptor r = (if status_of r = 0 then None else unless_null LocalMemory (out r))"
| "cr_opens _ r = None"

fun cr_closes :: "crcall \<Rightarrow> crresource option" where
  "cr_closes (free x) = unless_null Memory x"
| "cr_closes (CertCloseStore x b) = unless_null Store x"
| "cr_closes (CertFreeCertificateContext x) = unless_null Context x"
| "cr_closes (LocalFree x) = unless_null LocalMemory x"
| "cr_closes _ = None"

interpretation cr: handle_api cr_opens cr_closes
proof unfold_locales
  fix c r x assume "cr_closes c = Some x"
  then show "cr_opens c r = None" by (cases c) (auto simp: unless_null_def split: if_splits)
qed

text \<open>CertEncodeDecode: a return of 0 comes after the text of the encoding, and with all memory freed.\<close>

fun encoding :: "crcall history \<Rightarrow> BYTE list" where
  "encoding [] = []"
| "encoding ((CryptEncodeObjectEx p, w) # g) = (if p = 0 then encoding g else encoded w (ucast (out w)))"
| "encoding (_ # g) = encoding g"

fun text_printed :: "crcall history \<Rightarrow> BYTE list" where
  "text_printed [] = []"
| "text_printed ((printf_text t, w) # g) = t"
| "text_printed (_ # g) = text_printed g"

lemma ByteToStr_appends:
  assumes "length pv = unat cb"
  shows "appends (ByteToStr cb pv sz) (\<lambda>oc g. g = [] \<and> (oc = Fault \<or> oc = Halted 1 \<or>
    (\<exists>sz'. oc = Val sz' \<and> hex_read (takeWhile (\<lambda>c. c \<noteq> 0) sz') = pv)))"
proof (cases "0 \<in> set sz")
  case True
  then show ?thesis
    unfolding ByteToStr_cases(1)[OF assms True] encode_error_def
    by (intro appends_intro) (simp_all add: ByteToStr_cases(2)[OF assms True])
next
  case False
  then show ?thesis by (simp add: ByteToStr_def appends_fault)
qed

lemma length_encoded [simp]: "length (encoded w cb) = unat cb"
  by (simp add: encoded_def)

lemma encode_decode_main_appends:
  "appends encode_decode_main (\<lambda>oc g. oc = Fault \<or> oc = Halted 1 \<or>
     (oc = Val 0 \<and> hex_read (text_printed g) = encoding g \<and> cr.several.balanced g))"
  unfolding encode_decode_main_def encode_error_def
  by (intro appends_intro appends_bnd[OF ByteToStr_appends[OF length_encoded]]; (elim conjE disjE exE)?; (simp; fail)?)
    (auto intro!: appends_intro simp: cr.several.balanced_def unless_null_def)

lemma appends_bnd_simps:
  "(b \<Longrightarrow> appends (bnd m f) Q) \<Longrightarrow> (\<not> b \<Longrightarrow> appends (bnd m' f) Q) \<Longrightarrow> appends (bnd (if b then m else m') f) Q"
  "appends (bnd n (\<lambda>a. bnd (k a) f)) Q \<Longrightarrow> appends (bnd (bnd n k) f) Q"
  "appends (f a) Q \<Longrightarrow> appends (bnd (ret a) f) Q"
  "Q (Halted x) [] \<Longrightarrow> appends (bnd (halt x) f) Q"
  by (simp_all add: bnd_bnd bnd_ret bnd_halt appends_halt)

lemma three_left: "\<exists>e p n. {#Event a, Memory b, Store c#} = {#Store n, Memory p, Event e#}"
  by (intro exI) (auto simp: add_mset_commute)

lemma store_main_appends:
  "appends store_main (\<lambda>oc g. oc = Halted 1 \<or> (oc = Val 0 \<and> (\<exists>e p n. \<forall>L. cr.several.held L g = Some (L + {#Event e, Memory p, Store n#}))))"
  unfolding store_main_def store_name_def save_store_def hash_message_def must_def must_have_def MyHandleError_def
  by (intro appends_intro appends_bnd_simps) (auto simp: unless_null_def intro!: three_left)

lemma dacl_main_appends:
  "appends (dacl_main sa) (\<lambda>oc g. oc = Halted 1 \<or> (oc = Val 0 \<and> cr.several.balanced g))"
  unfolding dacl_main_def CreateMyDACL_def
  by (cases "sa = 0"; simp add: bnd_bnd bnd_ret) (intro appends_intro; auto simp: cr.several.balanced_def unless_null_def split: if_splits)+

lemma owns_cert_delete:
  assumes "cr_closes c = unless_null f x" "\<And>r. cr_opens c r = None"
  shows "cr.owns (case unless_null f x of None \<Rightarrow> {#} | Some u \<Rightarrow> {#u#}) (do_call c :: unit crio) (\<lambda>_. {#}) {#}"
proof (cases "x = 0")
  case True
  then have "cr.neutral (do_call c :: unit crio)" using assms by (intro cr.neutral_do_call) (simp_all add: unless_null_def)
  then show ?thesis using True by (simp add: unless_null_def cr.neutral_def)
next
  case False
  then show ?thesis using assms cr.owns_do_close[of c "f x"] by (simp add: unless_null_def)
qed

lemma cr_neutral_calls [neutral_intro]:
  "cr.neutral (call GetLastError :: resp crio)" "cr.neutral (call (CryptUIWizExport x y) :: resp crio)" "cr.neutral (call CertStrToName :: resp crio)"
  by (rule cr.neutral_call; simp)+

lemma neutral_described: "cr.neutral described_error" "cr.neutral last_error"
proof -
  have g: "cr.neutral (GetErrorCodeString e)" for e
    unfolding GetErrorCodeString_def cr.neutral_def
    by (rule cr.owns_bnd[OF cr.owns_call_open], simp, rule cr.owns_deleter) (auto simp: unless_null_def)
  show "cr.neutral described_error"
    unfolding described_error_def by (intro neutral_intro g)
  show "cr.neutral last_error"
    unfolding last_error_def by (intro neutral_intro)
qed

lemma export_neutral: "cr.neutral export_main"
  unfolding export_main_def MakeStorePtr_def MakeCertPtr_def
  by (intro cr.neutral_unique cr.neutral_if neutral_described cr.neutral_bnd neutral_intro) (use owns_cert_delete in simp_all)

text \<open>Whatever it returns, the export has closed both stores and freed the certificate and the texts.\<close>

lemma export_released: "export_main os s [] = (Val n, s', h) \<Longrightarrow> cr.live h = Some {#}"
  using cr.neutral_post[OF export_neutral] by fastforce

end
