(* ===== verification/Spec2Isabelle.thy ===== *)
theory Spec2Isabelle
  imports CondVar XSocketMain BasicCom Win32Service Pipes Cabinet Veh Pages Registry SharedArray EchoCoroutine IocpServer Strings Waits Layout Sspi TlsStream FileLock ExecCmd Junie Security FuelBounds Redirect ParentRun Accounts OverlappedIo ComClients WebSocketClient Certificates
begin

text \<open>
  \<^bold>\<open>A verification development of win32-experiments.\<close>

  The repository is a collection of programs for the Windows API.  Each project is a program or a
  library of its own; what they share is the system they call and the wrappers around its handles.
  The development models the projects that have logic of their own, one theory per project or group,
  with names of the source for types, fields and functions.

  \<^bold>\<open>How the code is modelled.\<close>  \<open>Win32_Prelude\<close> has the effect type: a computation takes the
  operating system, the program's globals and the history of the calls made so far, and gives an
  outcome, the globals and the history.  The operating system is not code of the repository and is an
  argument of every definition: it answers a call from the call and the history, so nothing is known of it
  but what a property assumes.  An outcome is a value, a C++ exception in flight, the end of the process,
  undefined behaviour (\<open>Fault\<close>: an access out of bounds, an overflow of a signed integer, a dangling
  pointer), or \<open>Running\<close>, when a loop has used up the bound on its rounds.  Machine integers are words;
  strings of the wide API are lists of 16-bit words.  Texts that are printed are left out unless a
  property is about them.  Concurrent programs are step relations over the program counters of their
  threads, and a property of them holds for every interleaving.

  \<^bold>\<open>The shared theories.\<close>  \<open>Win32_Prelude\<close>: words, bytes, the effect type, and rules that compose (no
  fault, no exception, regular outcome, which calls are emitted, no change of the globals).  \<open>Raii\<close>: the locale
  \<open>handle_api\<close>, which says which answers hand out a handle and which calls give one back; \<open>owns P m Q E\<close>
  says that a computation run with the handles \<open>P\<close> ends with \<open>Q\<close> (or with \<open>E\<close>, on an exception), each
  handle given back once and only while it is held.  Every theory with handles interprets it on its own
  calls.  \<open>Fifo\<close>: the locale \<open>fifo\<close> of queues, interpreted on the ring of \<open>CondVar\<close> and on the pointer list
  of \<open>XList\<close>.

  \<^bold>\<open>The components.\<close>
  \<^item> \<open>CondVar\<close> (ConditionVariables/ConditionVariables.cpp): producer, consumers and main over a ring of
    ten, a lock and two condition variables, as a step function over program counters with spurious wake-ups.
    Invariants of the ring and of mutual exclusion, refinement of an abstract queue, a measure that shows
    that the shut-down ends, and agreement of the totals.
  \<^item> \<open>XList\<close>, \<open>XTransport\<close>, \<open>XSocketMain\<close> (XSocket/List.cpp, Transport.cpp, main.cpp): the intrusive list on an
    explicit heap, the byte stream made of its entries, and the WebSocket client and server on top.
    The list is a queue; reads and writes refine operations on a byte string, but for a read that begins inside
    an entry, which goes out of bounds; the loop completes an action for each call that asks for one, with the variables of the
    call before when that failed, and \<open>wmain\<close> deletes its handles once.
  \<^item> \<open>BasicCom\<close> (basic-com): the COM object, its factory, the entry points and the registration.  Lifetimes under
    the COM rules, with exactly the objects that a failed creation leaves behind, the count that is never initialised, and
    that unregistering undoes registering.
  \<^item> \<open>Win32Service\<close> (Win32Service/main.cpp, common.ixx): handles on every path, the order of the reports,
    the race of the stop control over the single accesses of both threads to the status, and that impersonation is reverted.
  \<^item> \<open>Pipes\<close> (SmallPipes/main.cpp, PipeMessages/main.cpp): messages larger than the buffer, headers.
  \<^item> \<open>Cabinet\<close> (CabinetExtract/main.cpp, CabinetCreate/main.cpp): order of commands and the context's life.
  \<^item> \<open>Veh\<close> (VectoredExceptionHandler/main.cpp): decoding of C++ exceptions from the compiler's tables in
    memory, and the lock of the symbol library, which the handler calls without it.
  \<^item> \<open>Pages\<close> (VirtualAllocReserving, GuardPages): pages committed from an exception filter, with the
    memory that is written.
  \<^item> \<open>Registry\<close> (RegEditor): both registry interfaces; what is written is read back.
  \<^item> \<open>SharedArray\<close> (ClientServerLib): arrays in a mapped view, sequentially and for many processes.
  \<^item> \<open>EchoCoroutine\<close> (WinsockCoroutine/main.cpp): coroutines as the places at which they are suspended, the
    locale \<open>resumable\<close> interpreted on server and client, and the event loop that counts operations.
  \<^item> \<open>IocpServer\<close> (WinSockIOCP/main.cpp): the accept loop and the workers over a heap of connections, with
    the writes of the system to a buffer that is gone and the stale key of a failed wait as undefined behaviour.
  \<^item> \<open>Strings\<close> (HardDriveInfo/Util.cpp, StringCasing/main.cpp): splitting against a reference definition.
  \<^item> \<open>Waits\<close> (WaitableTimers/main.cpp, WaitOnObjects/main.cpp): timers, queued functions with every call that
    may fail, waits on many handles.
  \<^item> \<open>Layout\<close> (layout-demo/main.cpp): both layouts; every placement of a run, and the rectangle that is
    read uninitialised when the first \<open>GetClientRect\<close> fails.
  \<^item> \<open>Sspi\<close> (OldSspiSample/main.cpp, OldSspiSampleServer/main.cpp): messages over a stream, the token exchange
    as rounds over the calls and their answers, and the encrypted greeting, from the server's memory to the client's.
  \<^item> \<open>Tls\<close>, \<open>TlsStream\<close> (SecureSocket/main.cpp): a TLS client with its in-place buffer; \<open>tls_read\<close> refines a read of
    the stream of plaintexts, what is written is read into a file in text mode, and two faults of the handshake.
  \<^item> \<open>FileLock\<close> (FileLockMutex): a lock file between processes, as a refinement of a mutex with an owner; what the
    file system does with the arguments of \<open>CreateFileW\<close> is a hypothesis, and other programs may use the file too.
  \<^item> \<open>ExecCmd\<close> (ExecuteCmd/main.cpp): splitting and trimming, and the output of a child from the pipe to the result.
  \<^item> \<open>Junie\<close> (WinsockCoroutineJunie/main.cpp): coroutines over one completion port in one thread; a packet always
    finds the coroutine suspended at its operation, only the client ends the loop, and the server never closes.
  \<^item> \<open>Effects\<close>: rules that run a straight-line program into the calls of each of its paths, and the locale
    \<open>handles_api\<close> for calls that hand out several resources; \<open>handle_api\<close> is a case of it.
  \<^item> \<open>Security\<close> (TakingOwnership, SetPrivilege, FindingOwner, Server, Client): when a privilege is taken and given up, which
    token starts a process, and what is given back or leaked on each path.
  \<^item> \<open>Fuel\<close>, \<open>FuelBounds\<close>: outcomes are ordered with \<open>Running\<close> at the bottom (an instance of \<open>order_bot\<close>), composition
    is monotone, and so the bounds of the loops are no part of what the programs do.
  \<^item> \<open>Redirect\<close>, \<open>ParentRun\<close> (Parent, Child): the file that the parent gives its child and the output it reads back.
    \<open>ParentRun\<close> has the parent's functions as computations: which ends of the pipes it keeps, closes and copies, in
    which order.  \<open>Redirect\<close> has the loops of both processes as interleaved steps over two pipes of any capacity: what
    is shown is a beginning of the file whatever fails, runs end, and a file longer than the pipes blocks both.
  \<^item> \<open>Accounts\<close> (CreateUserAndGroup): what creation and deletion make of the users and groups of a server, under the
    documented meaning of the answers; creation is idempotent, and the program restores the accounts only when it made them.
  \<^item> \<open>OverlappedIo\<close> (NonBlockingSockets, NonBlockingSocketsSend): a receiver whose objects give back its resources on every
    path, up to the first empty receive, and a sender that does so only when it returns 0.
  \<^item> \<open>ComClients\<close> (TimeTriggerExample, DisplayingTaskNamesAndStatesExample, TaskSchedulerDisplayTaskNames, WMI): clients of
    COM interfaces; the rules \<open>ends\<close> and \<open>takes\<close> follow the references they hold, call by call, and \<open>left\<close> names what stays.
  \<^item> \<open>WebSocketClient\<close> (WebSocket): a WinHTTP client; what it shows of an answer in fragments is the last over the
    others.
  \<^item> \<open>Certificates\<close> (CertEncodeDecode, SettingAndGettingCertStoreProperties, ExportImportCertificate, CreateDacl): the
    text of an encoded name reads back as its bytes, though its buffer may be too short; what is given back at the end.

  \<^bold>\<open>Bounds.\<close>  Loops of the source that need not end take a bound on their rounds and give \<open>Running\<close> when it
  is used up; \<open>partial_function\<close> is used where not ending is itself the property.  A property that a loop
  returns states a bound that is enough: one more than the bytes to be transferred in \<open>Sspi\<close>, the pages of
  the block in \<open>Pages\<close>, the work measure in \<open>CondVar\<close> and \<open>Waits\<close>.

  \<^bold>\<open>Not modelled.\<close>  Programs that only print what calls of the system return, the other straight-line
  uses of the certificate and scheduling functions, windows and dialogs, modules that re-export names,
  and generated or vendored code (the proxy of basic-com, protocol buffers, Detours).  The manifest lists every
  project with its reason.
\<close>

end
